(* ===== verification/TB_Prelude.thy ===== *)
theory TB_Prelude
  imports Main "HOL-Library.AList" "HOL-Library.Multiset" "HOL-Library.Word"
begin

text \<open>
  Shared notions of the development.

  \<^item> Time is an \<open>int\<close> count of nanoseconds since the Unix epoch, as Go's
    \<open>time.Time\<close> reads on \<open>UnixNano\<close>; a duration is a number of nanoseconds.
  \<^item> A Go call that returns \<open>(a, error)\<close> is a value of the sum type:
    \<open>Inl\<close> the error, \<open>Inr\<close> the value.
  \<^item> \<open>for_each\<close> is a Go \<open>for ... range\<close> loop whose body may return an error early.
  \<^item> \<open>update_where\<close> is an SQL \<open>UPDATE ... WHERE\<close>: the new table and the number of
    rows affected. \<open>sum_where\<close> is \<open>SELECT SUM(f) ... WHERE\<close>.
  \<^item> A Go map that the code ranges over is an association list.
\<close>

section \<open>Names of types\<close>

type_synonym time = int
type_synonym duration = int

definition second :: duration where "second = 1000000000"
definition minute :: duration where "minute = 60 * second"
definition hour :: duration where "hour = 60 * minute"

text \<open>Go's \<open>t.Unix()\<close> and \<open>t.UnixMilli()\<close> round towards minus infinity.\<close>

definition unix :: "time \<Rightarrow> int" where "unix t = t div second"
definition unix_milli :: "time \<Rightarrow> int" where "unix_milli t = t div 1000000"

lemma second_pos [simp]: "0 < second" by (simp add: second_def)

named_theorems row_simps \<open>reading one row of a table after an update\<close>
named_theorems keeps \<open>an operation keeps an invariant\<close>

lemma length_filter_split:
  "length (filter p xs) = length (filter (\<lambda>x. p x \<and> q x) xs) + length (filter (\<lambda>x. p x \<and> \<not> q x) xs)"
  by (induction xs) auto

section \<open>Loops with an early return\<close>

fun for_each :: "('k \<Rightarrow> 's \<Rightarrow> 'e + 's) \<Rightarrow> 'k list \<Rightarrow> 's \<Rightarrow> 'e + 's" where
  "for_each f [] s = Inr s"
| "for_each f (x # xs) s = (case f x s of Inl e \<Rightarrow> Inl e | Inr t \<Rightarrow> for_each f xs t)"

lemma for_each_append:
  "for_each f (xs @ ys) s =
     (case for_each f xs s of Inl e \<Rightarrow> Inl e | Inr t \<Rightarrow> for_each f ys t)"
  by (induction xs arbitrary: s) (auto split: sum.splits)

lemma for_each_keeps:
  assumes "for_each f xs s = Inr t" and "I s"
    and "\<And>x u v. x \<in> set xs \<Longrightarrow> I u \<Longrightarrow> f x u = Inr v \<Longrightarrow> I v"
  shows "I t"
  using assms
proof (induction xs arbitrary: s)
  case Nil
  then show ?case by simp
next
  case (Cons x xs)
  from Cons.prems(1) obtain u where u: "f x s = Inr u" "for_each f xs u = Inr t"
    by (auto split: sum.splits)
  have "I u" using Cons.prems(3) [of x s u] Cons.prems(2) u(1) by simp
  with u(2) show ?case by (rule Cons.IH) (use Cons.prems(3) in auto)
qed

lemma for_each_error:
  assumes "for_each f xs s = Inl e" and "I s"
    and "\<And>x u v. x \<in> set xs \<Longrightarrow> I u \<Longrightarrow> f x u = Inr v \<Longrightarrow> I v"
  shows "\<exists>x u. x \<in> set xs \<and> I u \<and> f x u = Inl e"
  using assms
proof (induction xs arbitrary: s)
  case Nil
  then show ?case by simp
next
  case (Cons x xs)
  show ?case
  proof (cases "f x s")
    case (Inl d)
    with Cons.prems show ?thesis by auto
  next
    case (Inr t)
    have "I t" using Cons.prems(3) [of x s t] Cons.prems(2) Inr by simp
    moreover have "for_each f xs t = Inl e" using Cons.prems(1) Inr by simp
    ultimately have "\<exists>y u. y \<in> set xs \<and> I u \<and> f y u = Inl e"
      using Cons.prems(3) by (intro Cons.IH) auto
    then show ?thesis by auto
  qed
qed

section \<open>Tables\<close>

definition update_where :: "('r \<Rightarrow> bool) \<Rightarrow> ('r \<Rightarrow> 'r) \<Rightarrow> 'r list \<Rightarrow> 'r list \<times> nat" where
  "update_where p f t = (map (\<lambda>r. if p r then f r else r) t, length (filter p t))"

definition sum_where :: "('r \<Rightarrow> bool) \<Rightarrow> ('r \<Rightarrow> int) \<Rightarrow> 'r list \<Rightarrow> int" where
  "sum_where p f t = sum_list (map f (filter p t))"

lemma sum_where_Nil [simp]: "sum_where p f [] = 0"
  by (simp add: sum_where_def)

lemma sum_where_Cons [simp]:
  "sum_where p f (r # t) = (if p r then f r else 0) + sum_where p f t"
  by (simp add: sum_where_def)

lemma sum_where_append [simp]: "sum_where p f (t @ u) = sum_where p f t + sum_where p f u"
  by (simp add: sum_where_def)

lemma sum_where_cong:
  assumes "\<And>r. r \<in> set t \<Longrightarrow> p r = q r" and "\<And>r. r \<in> set t \<Longrightarrow> q r \<Longrightarrow> f r = g r"
  shows "sum_where p f t = sum_where q g t"
  using assms by (induction t) auto

lemma sum_where_split:
  "sum_where p f t = sum_where (\<lambda>r. q r \<and> p r) f t + sum_where (\<lambda>r. \<not> q r \<and> p r) f t"
  by (induction t) auto

lemma sum_where_none: "(\<And>r. r \<in> set t \<Longrightarrow> \<not> p r) \<Longrightarrow> sum_where p f t = 0"
  by (induction t) auto

lemma sum_where_nonneg: "(\<And>r. r \<in> set t \<Longrightarrow> p r \<Longrightarrow> 0 \<le> f r) \<Longrightarrow> 0 \<le> sum_where p f t"
  by (induction t) auto

lemma sum_where_mono:
  assumes "\<And>r. r \<in> set t \<Longrightarrow> p r \<Longrightarrow> q r" and "\<And>r. r \<in> set t \<Longrightarrow> q r \<Longrightarrow> 0 \<le> f r"
  shows "sum_where p f t \<le> sum_where q f t"
  using assms by (induction t) (auto intro: add_increasing)

lemma sum_where_le:
  "(\<And>r. r \<in> set t \<Longrightarrow> p r \<Longrightarrow> f r \<le> g r) \<Longrightarrow> sum_where p f t \<le> sum_where p g t"
  by (induction t) (auto intro: add_mono)

lemma sum_where_diff: "sum_where p (\<lambda>r. f r - g r) t = sum_where p f t - sum_where p g t"
  by (induction t) auto

lemma sum_where_pos:
  assumes "\<And>r. r \<in> set t \<Longrightarrow> p r \<Longrightarrow> 0 \<le> f r"
  shows "0 < sum_where p f t \<longleftrightarrow> (\<exists>r \<in> set t. p r \<and> 0 < f r)"
  using assms
proof (induction t)
  case (Cons r t)
  have "0 \<le> sum_where p f t" by (rule sum_where_nonneg) (use Cons.prems in auto)
  moreover have "0 < sum_where p f t \<longleftrightarrow> (\<exists>r \<in> set t. p r \<and> 0 < f r)" using Cons by auto
  moreover have "p r \<Longrightarrow> 0 \<le> f r" using Cons.prems by simp
  ultimately show ?case by (cases "p r \<and> 0 < f r") (auto simp: add_pos_nonneg)
qed simp

lemma sum_where_filter: "sum_where p f (filter q t) = sum_where (\<lambda>r. q r \<and> p r) f t"
  by (induction t) auto

lemma sum_where_update_where:
  "sum_where q f (fst (update_where p g t)) =
     sum_where (\<lambda>r. \<not> p r \<and> q r) f t + sum_where (\<lambda>r. p r \<and> q (g r)) (f \<circ> g) t"
  by (induction t) (auto simp: update_where_def)

lemma map_update_where [simp]:
  "(\<And>r. k (g r) = k r) \<Longrightarrow> map k (fst (update_where p g t)) = map k t"
  by (auto simp: update_where_def)

lemma length_update_where [simp]: "length (fst (update_where p g t)) = length t"
  by (simp add: update_where_def)

lemma rows_affected_0: "snd (update_where p g t) = 0 \<longleftrightarrow> (\<forall>r \<in> set t. \<not> p r)"
  by (simp add: update_where_def filter_empty_conv)

text \<open>Reading the row with a given key.\<close>

definition row :: "('r \<Rightarrow> 'k) \<Rightarrow> 'k \<Rightarrow> 'r list \<Rightarrow> 'r option" where
  "row key k t = find (\<lambda>r. key r = k) t"

lemma row_Nil [simp]: "row key k [] = None" by (simp add: row_def)

lemma row_Cons [simp]: "row key k (r # t) = (if key r = k then Some r else row key k t)"
  by (simp add: row_def)

lemma row_append:
  "row key k (t @ u) = (case row key k t of None \<Rightarrow> row key k u | Some r \<Rightarrow> Some r)"
  by (induction t) auto

lemma row_None: "row key k t = None \<longleftrightarrow> k \<notin> key ` set t"
  by (induction t) auto

lemma row_SomeD: "row key k t = Some r \<Longrightarrow> r \<in> set t \<and> key r = k"
  by (induction t) (auto split: if_splits)

lemma row_Some_iff:
  "distinct (map key t) \<Longrightarrow> row key k t = Some r \<longleftrightarrow> r \<in> set t \<and> key r = k"
  by (induction t) (auto simp: image_iff)

lemma row_update [row_simps]:
  assumes "\<And>r. key (g r) = key r"
  shows "row key k (fst (update_where p g t)) =
     map_option (\<lambda>r. if p r then g r else r) (row key k t)"
  using assms by (induction t) (auto simp: update_where_def)

lemma row_affected:
  assumes "distinct (map key t)" and "\<And>r. p r \<Longrightarrow> key r = k"
  shows "snd (update_where p g t) \<noteq> 0 \<longleftrightarrow> (\<exists>r. row key k t = Some r \<and> p r)"
  using assms unfolding rows_affected_0 row_Some_iff [OF assms(1)] by auto

section \<open>Loops over the rows of a table\<close>

text \<open>
  The interface of a loop body that works on one row, found by its key: where the row
  passes the body's test it is rewritten and no other row changes, elsewhere the body
  fails (\<open>key\<close> restricts that to the keys the loop ranges over). Over distinct keys such a loop succeeds exactly when every row passes its test
  in the state before the loop, and its errors come from the first key that fails.
\<close>

locale keyed_loop =
  fixes view :: "'s \<Rightarrow> 'k \<Rightarrow> 'row option"
    and body :: "'k \<Rightarrow> 's \<Rightarrow> 'e + 's"
    and ok :: "'k \<Rightarrow> 'row \<Rightarrow> bool"
    and upd :: "'k \<Rightarrow> 'row \<Rightarrow> 'row"
    and inv :: "'s \<Rightarrow> bool"
    and key :: "'k \<Rightarrow> bool"
  assumes body_ok: "\<lbrakk>inv s; view s k = Some r; ok k r\<rbrakk> \<Longrightarrow>
      \<exists>t. body k s = Inr t \<and> inv t \<and> view t = (view s)(k := Some (upd k r))"
    and body_miss: "\<lbrakk>inv s; key k; \<And>r. view s k = Some r \<Longrightarrow> \<not> ok k r\<rbrakk> \<Longrightarrow> \<exists>e. body k s = Inl e"
begin

definition passes :: "'s \<Rightarrow> 'k \<Rightarrow> bool" where
  "passes s k \<longleftrightarrow> (\<exists>r. view s k = Some r \<and> ok k r)"

lemma loop_ok:
  assumes "distinct ks" and "inv s" and "\<And>k. k \<in> set ks \<Longrightarrow> passes s k"
  shows "\<exists>t. for_each body ks s = Inr t \<and> inv t \<and>
           view t = (\<lambda>j. if j \<in> set ks then map_option (upd j) (view s j) else view s j)"
  using assms
proof (induction ks arbitrary: s)
  case Nil
  then show ?case by simp
next
  case (Cons k ks)
  from Cons.prems(3) [of k] obtain r where r: "view s k = Some r" "ok k r"
    by (auto simp: passes_def)
  from body_ok [OF Cons.prems(2) r] obtain u
    where u: "body k s = Inr u" "inv u" "view u = (view s)(k := Some (upd k r))" by blast
  have "passes u j" if "j \<in> set ks" for j
    using Cons.prems(1) Cons.prems(3) [of j] that u(3) by (auto simp: passes_def)
  with Cons.IH [of u] Cons.prems(1) u(2) obtain t
    where t: "for_each body ks u = Inr t" "inv t"
      "view t = (\<lambda>j. if j \<in> set ks then map_option (upd j) (view u j) else view u j)" by auto
  have "view t = (\<lambda>j. if j \<in> set (k # ks) then map_option (upd j) (view s j) else view s j)"
    using Cons.prems(1) r u(3) t(3) by auto
  with t u show ?case by auto
qed

lemma loop_miss:
  assumes "distinct (xs @ k # ys)" and "inv s" and "key k"
    and "\<And>j. j \<in> set xs \<Longrightarrow> passes s j" and "\<not> passes s k"
  shows "\<exists>t e. for_each body (xs @ k # ys) s = Inl e \<and> body k t = Inl e \<and> inv t \<and> view t k = view s k"
proof -
  from loop_ok [of xs s] assms obtain t
    where t: "for_each body xs s = Inr t" "inv t"
      "view t = (\<lambda>j. if j \<in> set xs then map_option (upd j) (view s j) else view s j)" by auto
  have k: "view t k = view s k" using t(3) assms(1) by auto
  with assms(5) obtain e where e: "body k t = Inl e"
    using body_miss [OF t(2) assms(3)] by (auto simp: passes_def)
  with t(1) have "for_each body (xs @ k # ys) s = Inl e" by (simp add: for_each_append)
  with e t(2) k show ?thesis by blast
qed

lemma loop_iff:
  assumes "distinct ks" and "inv s" and "\<And>k. k \<in> set ks \<Longrightarrow> key k"
  shows "(\<exists>t. for_each body ks s = Inr t) \<longleftrightarrow> (\<forall>k \<in> set ks. passes s k)"
proof
  assume "\<exists>t. for_each body ks s = Inr t"
  then obtain t where t: "for_each body ks s = Inr t" ..
  show "\<forall>k \<in> set ks. passes s k"
  proof (rule ccontr)
    assume "\<not> (\<forall>k \<in> set ks. passes s k)"
    then have "\<exists>k \<in> set ks. \<not> passes s k" by auto
    from split_list_first_prop [OF this] obtain xs k ys
      where "ks = xs @ k # ys" "\<not> passes s k" "\<forall>j \<in> set xs. \<not> \<not> passes s j" by blast
    with loop_miss [of xs k ys s] assms t show False by auto
  qed
next
  assume "\<forall>k \<in> set ks. passes s k"
  with loop_ok [OF assms(1,2)] show "\<exists>t. for_each body ks s = Inr t" by auto
qed

lemma loop_view:
  assumes "distinct ks" and "inv s" and "\<And>k. k \<in> set ks \<Longrightarrow> key k"
    and "for_each body ks s = Inr t"
  shows "inv t" and "\<And>k. k \<in> set ks \<Longrightarrow> passes s k"
    and "view t = (\<lambda>j. if j \<in> set ks then map_option (upd j) (view s j) else view s j)"
proof -
  from loop_iff [OF assms(1,2,3)] assms(4) have all: "\<forall>k \<in> set ks. passes s k" by blast
  then show "\<And>k. k \<in> set ks \<Longrightarrow> passes s k" by blast
  from loop_ok [OF assms(1,2)] all assms(4)
  show "inv t" and "view t = (\<lambda>j. if j \<in> set ks then map_option (upd j) (view s j) else view s j)"
    by auto
qed

end

section \<open>Go maps that the code ranges over\<close>

text \<open>\<open>m[k] += n\<close> on a map of counters, with Go's zero for a missing key.\<close>

definition lookup0 :: "('k \<times> int) list \<Rightarrow> 'k \<Rightarrow> int" where
  "lookup0 m k = (case map_of m k of None \<Rightarrow> 0 | Some n \<Rightarrow> n)"

definition add_to :: "'k \<Rightarrow> int \<Rightarrow> ('k \<times> int) list \<Rightarrow> ('k \<times> int) list" where
  "add_to k n m = AList.update k (lookup0 m k + n) m"

definition sorted_keys :: "('k::linorder \<times> 'v) list \<Rightarrow> 'k list" where
  "sorted_keys m = sort (map fst m)"

lemma lookup0_Nil [simp]: "lookup0 [] k = 0" by (simp add: lookup0_def)

lemma lookup0_add_to [simp]: "lookup0 (add_to k n m) j = (if j = k then lookup0 m k + n else lookup0 m j)"
  by (simp add: add_to_def lookup0_def update_conv)

lemma fst_set_update: "fst ` set (AList.update k v m) = insert k (fst ` set m)"
  using dom_update [of k v m] by simp

lemma fst_set_add_to [simp]: "fst ` set (add_to k n m) = insert k (fst ` set m)"
  by (simp add: add_to_def fst_set_update)

lemma distinct_add_to: "distinct (map fst m) \<Longrightarrow> distinct (map fst (add_to k n m))"
  by (simp add: add_to_def distinct_update)

lemma distinct_sorted_keys: "distinct (map fst m) \<Longrightarrow> distinct (sorted_keys m)"
  by (simp add: sorted_keys_def)

lemma set_sorted_keys [simp]: "set (sorted_keys m) = fst ` set m"
  by (simp add: sorted_keys_def)

text \<open>A loop that adds up a quantity per key.\<close>

fun tally :: "('r \<Rightarrow> 'k) \<Rightarrow> ('r \<Rightarrow> int) \<Rightarrow> 'r list \<Rightarrow> ('k \<times> int) list \<Rightarrow> ('k \<times> int) list" where
  "tally key f [] m = m"
| "tally key f (r # rs) m = tally key f rs (add_to (key r) (f r) m)"

lemma lookup0_tally: "lookup0 (tally key f rs m) k = lookup0 m k + sum_where (\<lambda>r. key r = k) f rs"
  by (induction rs arbitrary: m) auto

lemma keys_tally: "fst ` set (tally key f rs m) = fst ` set m \<union> key ` set rs"
  by (induction rs arbitrary: m) auto

lemma distinct_tally: "distinct (map fst m) \<Longrightarrow> distinct (map fst (tally key f rs m))"
  by (induction rs arbitrary: m) (auto simp: distinct_add_to)

end
