(* ===== verification/Inventory_Store.thy ===== *)
theory Inventory_Store
  imports TB_Prelude
begin

text \<open>
  The inventory service's data (\<open>inventory-svc/internal/models\<close>): ticket classes,
  reservations, the constraints \<open>PostMigrateStatements\<close> puts on them, and the SQL
  statements the services run. A table is the list of its rows, the database two tables
  and their id sequences. GORM's bookkeeping columns \<open>created_at\<close> and \<open>updated_at\<close>
  are left out: no statement of the services reads them. Counters are \<open>int\<close>: they are
  Postgres \<open>bigint\<close>s bounded by \<open>total\<close>, which the CHECK constraints keep.

  The abstract view is \<open>look\<close> (a class row by id) with the sums \<open>held\<close> and
  \<open>paid\<close> over the reservations of a class; \<open>consistent\<close> says that the counters of
  every class are exactly those sums and never pass the capacity.
\<close>

section \<open>Data\<close>

datatype ticket_class_status =
  TicketClassStatusActive | TicketClassStatusInactive | TicketClassStatusOther string

datatype reservation_status =
  ReservationStatusActive | ReservationStatusConfirmed
  | ReservationStatusExpired | ReservationStatusCancelled

record ticket_class =
  tcID :: int
  tcEventID :: string
  tcName :: string
  tcPriceCents :: int
  tcCurrency :: string
  tcTotal :: int
  tcReserved :: int
  tcSold :: int
  tcSaleStartAt :: "time option"
  tcSaleEndAt :: "time option"
  tcStatus :: ticket_class_status

record reservation =
  rID :: int
  rOrderCode :: string
  rTicketClassID :: int
  rQty :: int
  rExpiresAt :: time
  rStatus :: reservation_status

record invdb =
  ticket_class_table :: "ticket_class list"
  reservation_table :: "reservation list"
  tc_seq :: int
  r_seq :: int

datatype inv_error =
  ErrStateConflict | ErrInsufficientStock | ErrNotFound | ErrInventoryDrift | ErrSaleClosed
  | ErrConstraint string  \<comment> \<open>the database refused the write\<close>
  | ErrEmptySlice         \<comment> \<open>GORM refuses to insert no rows\<close>

section \<open>Constraints of the schema\<close>

definition chk_ticket_class_capacity :: "ticket_class \<Rightarrow> bool" where
  "chk_ticket_class_capacity tc \<longleftrightarrow>
     tcReserved tc \<ge> 0 \<and> tcSold tc \<ge> 0 \<and> tcReserved tc + tcSold tc \<le> tcTotal tc"

definition chk_ticket_class_total_nonneg :: "ticket_class \<Rightarrow> bool" where
  "chk_ticket_class_total_nonneg tc \<longleftrightarrow> tcTotal tc \<ge> 0"

definition chk_reservation_qty_positive :: "reservation \<Rightarrow> bool" where
  "chk_reservation_qty_positive r \<longleftrightarrow> rQty r > 0"

definition tc_check :: "ticket_class \<Rightarrow> bool" where
  "tc_check tc \<longleftrightarrow> chk_ticket_class_capacity tc \<and> chk_ticket_class_total_nonneg tc"

definition idx_order_ticket :: "reservation \<Rightarrow> string \<times> int" where
  "idx_order_ticket r = (rOrderCode r, rTicketClassID r)"

definition idx_event_name :: "ticket_class \<Rightarrow> string \<times> string" where
  "idx_event_name tc = (tcEventID tc, tcName tc)"

lemmas tc_check_defs = tc_check_def chk_ticket_class_capacity_def chk_ticket_class_total_nonneg_def

section \<open>Statements\<close>

text \<open>
  \<open>UPDATE ticket_class ... WHERE\<close>: Postgres checks the constraints on each row written
  and refuses the statement when one fails.
\<close>

definition update_tc ::
  "(ticket_class \<Rightarrow> bool) \<Rightarrow> (ticket_class \<Rightarrow> ticket_class) \<Rightarrow> invdb \<Rightarrow> inv_error + invdb \<times> nat" where
  "update_tc p f db =
     (if list_ex (\<lambda>tc. p tc \<and> \<not> tc_check (f tc)) (ticket_class_table db)
      then Inl (ErrConstraint ''ticket_class'')
      else let (t, n) = update_where p f (ticket_class_table db)
           in Inr (db\<lparr>ticket_class_table := t\<rparr>, n))"

text \<open>
  The guarded update: one statement whose \<open>WHERE\<close> names the class and the guard; no row
  affected is the error \<open>miss\<close>.
\<close>

definition guarded ::
  "inv_error \<Rightarrow> int \<Rightarrow> (ticket_class \<Rightarrow> bool) \<Rightarrow> (ticket_class \<Rightarrow> ticket_class) \<Rightarrow> invdb \<Rightarrow> inv_error + invdb"
where
  "guarded miss k g f db =
     (case update_tc (\<lambda>tc. tcID tc = k \<and> g tc) f db of
        Inl e \<Rightarrow> Inl e
      | Inr (db', n) \<Rightarrow> if n = 0 then Inl miss else Inr db')"

definition update_reservations ::
  "(reservation \<Rightarrow> bool) \<Rightarrow> reservation_status \<Rightarrow> invdb \<Rightarrow> invdb" where
  "update_reservations p st db =
     db\<lparr>reservation_table := fst (update_where p (\<lambda>r. r\<lparr>rStatus := st\<rparr>) (reservation_table db))\<rparr>"

fun number_rows :: "int \<Rightarrow> reservation list \<Rightarrow> reservation list" where
  "number_rows n [] = []"
| "number_rows n (r # rs) = r\<lparr>rID := n\<rparr> # number_rows (n + 1) rs"

definition insert_reservations :: "reservation list \<Rightarrow> invdb \<Rightarrow> inv_error + invdb" where
  "insert_reservations rs db =
     (if rs = [] then Inl ErrEmptySlice
      else if list_ex (\<lambda>r. \<not> chk_reservation_qty_positive r) rs
        then Inl (ErrConstraint ''chk_reservation_qty_positive'')
      else if \<not> distinct (map idx_order_ticket rs)
           \<or> list_ex (\<lambda>r. idx_order_ticket r \<in> idx_order_ticket ` set (reservation_table db)) rs
        then Inl (ErrConstraint ''idx_order_ticket'')
      else if list_ex (\<lambda>r. rTicketClassID r \<notin> tcID ` set (ticket_class_table db)) rs
        then Inl (ErrConstraint ''fk_ticket_class_reservations'')
      else Inr (db\<lparr>reservation_table := reservation_table db @ number_rows (r_seq db) rs,
                  r_seq := r_seq db + int (length rs)\<rparr>))"

text \<open>A transaction commits what its body wrote, or rolls everything back on an error.\<close>

definition transaction :: "('s \<Rightarrow> 'e + 's) \<Rightarrow> 's \<Rightarrow> 's \<times> ('e + unit)" where
  "transaction f s = (case f s of Inl e \<Rightarrow> (s, Inl e) | Inr t \<Rightarrow> (t, Inr ()))"

lemma transaction_error: "snd (transaction f s) = Inl e \<Longrightarrow> fst (transaction f s) = s"
  by (auto simp: transaction_def split: sum.splits)

lemma transaction_Inr: "transaction f s = (t, Inr u) \<longleftrightarrow> f s = Inr t"
  by (auto simp: transaction_def split: sum.splits)

lemma transaction_Inl: "transaction f s = (t, Inl e) \<longleftrightarrow> f s = Inl e \<and> t = s"
  by (auto simp: transaction_def split: sum.splits)

lemma transaction_keeps:
  "(\<And>t. f s = Inr t \<Longrightarrow> P t) \<Longrightarrow> P s \<Longrightarrow> P (fst (transaction f s))"
  by (auto simp: transaction_def split: sum.splits)

section \<open>The abstract view\<close>

definition look :: "invdb \<Rightarrow> int \<Rightarrow> ticket_class option" where
  "look db k = row tcID k (ticket_class_table db)"

definition qty_where :: "(reservation \<Rightarrow> bool) \<Rightarrow> invdb \<Rightarrow> int" where
  "qty_where p db = sum_where p rQty (reservation_table db)"

definition held :: "invdb \<Rightarrow> int \<Rightarrow> int" where
  "held db k = qty_where (\<lambda>r. rTicketClassID r = k \<and> rStatus r = ReservationStatusActive) db"

definition paid :: "invdb \<Rightarrow> int \<Rightarrow> int" where
  "paid db k = qty_where (\<lambda>r. rTicketClassID r = k \<and> rStatus r = ReservationStatusConfirmed) db"

definition orderRows :: "invdb \<Rightarrow> string \<Rightarrow> reservation list" where
  "orderRows db oc = filter (\<lambda>r. rOrderCode r = oc) (reservation_table db)"

definition wf_db :: "invdb \<Rightarrow> bool" where
  "wf_db db \<longleftrightarrow>
     distinct (map tcID (ticket_class_table db)) \<and>
     (\<forall>tc \<in> set (ticket_class_table db). tcID tc < tc_seq db \<and> tc_check tc) \<and>
     distinct (map rID (reservation_table db)) \<and>
     distinct (map idx_order_ticket (reservation_table db)) \<and>
     (\<forall>r \<in> set (reservation_table db).
        rID r < r_seq db \<and> rQty r > 0 \<and> rTicketClassID r \<in> tcID ` set (ticket_class_table db))"

definition no_drift :: "invdb \<Rightarrow> bool" where
  "no_drift db \<longleftrightarrow>
     (\<forall>tc \<in> set (ticket_class_table db).
        tcReserved tc = held db (tcID tc) \<and> tcSold tc = paid db (tcID tc))"

definition consistent :: "invdb \<Rightarrow> bool" where
  "consistent db \<longleftrightarrow> wf_db db \<and> no_drift db"

lemma wf_dbD:
  assumes "wf_db db"
  shows wf_tc_distinct: "distinct (map tcID (ticket_class_table db))"
    and wf_tc: "\<And>tc. tc \<in> set (ticket_class_table db) \<Longrightarrow> tcID tc < tc_seq db \<and> tc_check tc"
    and wf_r_distinct: "distinct (map rID (reservation_table db))"
    and wf_r_key: "distinct (map idx_order_ticket (reservation_table db))"
    and wf_r: "\<And>r. r \<in> set (reservation_table db) \<Longrightarrow>
          rID r < r_seq db \<and> rQty r > 0 \<and> rTicketClassID r \<in> tcID ` set (ticket_class_table db)"
  using assms unfolding wf_db_def by auto

lemma look_SomeD: "look db k = Some tc \<Longrightarrow> tc \<in> set (ticket_class_table db) \<and> tcID tc = k"
  unfolding look_def by (rule row_SomeD)

lemma look_Some_iff:
  "wf_db db \<Longrightarrow> look db k = Some tc \<longleftrightarrow> tc \<in> set (ticket_class_table db) \<and> tcID tc = k"
  unfolding look_def by (rule row_Some_iff [OF wf_tc_distinct])

lemma look_None: "look db k = None \<longleftrightarrow> k \<notin> tcID ` set (ticket_class_table db)"
  by (simp add: look_def row_None)

lemma no_drift_look:
  "wf_db db \<Longrightarrow> no_drift db \<longleftrightarrow>
     (\<forall>k tc. look db k = Some tc \<longrightarrow> tcReserved tc = held db k \<and> tcSold tc = paid db k)"
  by (auto simp: no_drift_def look_Some_iff)

section \<open>What the statements do to the view\<close>

definition set_tc :: "int \<Rightarrow> (ticket_class \<Rightarrow> ticket_class) \<Rightarrow> invdb \<Rightarrow> invdb" where
  "set_tc k f db = db\<lparr>ticket_class_table :=
     map (\<lambda>tc. if tcID tc = k then f tc else tc) (ticket_class_table db)\<rparr>"

lemma set_tc_frame [simp]:
  "reservation_table (set_tc k f db) = reservation_table db"
  "tc_seq (set_tc k f db) = tc_seq db"
  "r_seq (set_tc k f db) = r_seq db"
  "held (set_tc k f db) = held db"
  "paid (set_tc k f db) = paid db"
  "orderRows (set_tc k f db) = orderRows db"
  by (auto simp: set_tc_def held_def paid_def qty_where_def orderRows_def fun_eq_iff)

lemma look_set_tc:
  assumes "\<And>tc. tcID (f tc) = tcID tc"
  shows "look (set_tc k f db) = (look db)(k := map_option f (look db k))"
proof
  fix j
  have "row tcID j (map (\<lambda>tc. if tcID tc = k then f tc else tc) t) =
      ((\<lambda>j. row tcID j t)(k := map_option f (row tcID k t))) j" for t
    using assms by (induction t) auto
  then show "look (set_tc k f db) j = ((look db)(k := map_option f (look db k))) j"
    by (simp add: look_def set_tc_def fun_upd_def)
qed

lemma wf_set_tc [keeps]:
  assumes "wf_db db" and "\<And>tc. tcID (f tc) = tcID tc"
    and "\<And>tc. look db k = Some tc \<Longrightarrow> tc_check (f tc)"
  shows "wf_db (set_tc k f db)"
proof -
  have ids: "map tcID (ticket_class_table (set_tc k f db)) = map tcID (ticket_class_table db)"
    using assms(2) by (auto simp: set_tc_def)
  then have "tcID ` set (ticket_class_table (set_tc k f db)) = tcID ` set (ticket_class_table db)"
    by (metis list.set_map)
  moreover have "tcID tc < tc_seq db \<and> tc_check tc"
    if "tc \<in> set (ticket_class_table (set_tc k f db))" for tc
    using that assms by (auto simp: set_tc_def look_Some_iff [OF assms(1)] dest: wf_tc)
  ultimately show ?thesis
    using assms(1) ids unfolding wf_db_def by (auto simp del: map_map)
qed

lemma guarded_eq:
  assumes "wf_db db"
  shows "guarded miss k g f db =
     (case look db k of
        None \<Rightarrow> Inl miss
      | Some tc \<Rightarrow> if \<not> g tc then Inl miss
                   else if tc_check (f tc) then Inr (set_tc k f db)
                   else Inl (ErrConstraint ''ticket_class''))"
proof (cases "\<exists>tc. look db k = Some tc \<and> g tc")
  case False
  then have no: "\<not> (tcID tc = k \<and> g tc)" if "tc \<in> set (ticket_class_table db)" for tc
    using that assms by (auto simp: look_Some_iff)
  then have "\<not> list_ex (\<lambda>tc. (tcID tc = k \<and> g tc) \<and> \<not> tc_check (f tc)) (ticket_class_table db)"
    by (auto simp: list_ex_iff)
  moreover have "snd (update_where (\<lambda>tc. tcID tc = k \<and> g tc) f (ticket_class_table db)) = 0"
    unfolding rows_affected_0 using no by auto
  ultimately show ?thesis
    using False by (auto simp: guarded_def update_tc_def Let_def split_beta split: option.splits)
next
  case True
  then obtain tc where lk: "look db k = Some tc" and g: "g tc" by blast
  have uniq: "x = tc" if "x \<in> set (ticket_class_table db)" "tcID x = k" for x
    using that lk look_Some_iff [OF assms, of k x] by simp
  have tc: "tc \<in> set (ticket_class_table db)" "tcID tc = k"
    using look_SomeD [OF lk] by auto
  have ex: "list_ex (\<lambda>tc. (tcID tc = k \<and> g tc) \<and> \<not> tc_check (f tc)) (ticket_class_table db)
      \<longleftrightarrow> \<not> tc_check (f tc)"
    unfolding list_ex_iff using uniq tc g by metis
  have "fst (update_where (\<lambda>tc. tcID tc = k \<and> g tc) f (ticket_class_table db)) =
      ticket_class_table (set_tc k f db)"
    unfolding update_where_def set_tc_def using uniq g by (simp cong: map_cong) metis
  moreover have "snd (update_where (\<lambda>tc. tcID tc = k \<and> g tc) f (ticket_class_table db)) \<noteq> 0"
    unfolding rows_affected_0 using tc g by auto
  ultimately show ?thesis
    using ex lk g by (simp add: guarded_def update_tc_def Let_def split_beta set_tc_def)
qed

text \<open>
  \<open>same_rows\<close>: another state of the same database in which only class counters may differ.
\<close>

definition same_rows :: "invdb \<Rightarrow> invdb \<Rightarrow> bool" where
  "same_rows d db \<longleftrightarrow> wf_db db \<and> reservation_table db = reservation_table d \<and>
     r_seq db = r_seq d \<and> tc_seq db = tc_seq d"

lemma same_rows_refl: "wf_db db \<Longrightarrow> same_rows db db"
  by (simp add: same_rows_def)

lemma same_rows_sums:
  "same_rows d db \<Longrightarrow> held db = held d \<and> paid db = paid d \<and> orderRows db = orderRows d"
  by (auto simp: same_rows_def held_def paid_def qty_where_def orderRows_def fun_eq_iff)

lemma same_rows_set_tc:
  assumes "same_rows d db" and "\<And>tc. tcID (f tc) = tcID tc"
    and "\<And>tc. look db k = Some tc \<Longrightarrow> tc_check (f tc)"
  shows "same_rows d (set_tc k f db)"
  using assms wf_set_tc [of db f k] by (auto simp: same_rows_def)

lemma ids_filter:
  assumes "distinct (map key t)" and "r \<in> set t"
  shows "key r \<in> key ` set (filter q t) \<longleftrightarrow> q r"
proof -
  have inj: "inj_on key (set t)" using assms(1) by (simp add: distinct_map)
  have "q r" if "x \<in> set t" "q x" "key r = key x" for x
    using inj_onD [OF inj that(3) assms(2) that(1)] that(2) by simp
  then show ?thesis using assms(2) by auto
qed

lemma update_reservations_frame [simp]:
  "look (update_reservations p st db) = look db"
  "ticket_class_table (update_reservations p st db) = ticket_class_table db"
  "tc_seq (update_reservations p st db) = tc_seq db"
  "r_seq (update_reservations p st db) = r_seq db"
  by (auto simp: update_reservations_def look_def fun_eq_iff)

lemma wf_update_reservations [keeps]:
  assumes "wf_db db"
  shows "wf_db (update_reservations p st db)"
proof -
  let ?t = "reservation_table (update_reservations p st db)"
  have "map rID ?t = map rID (reservation_table db)"
    "map idx_order_ticket ?t = map idx_order_ticket (reservation_table db)"
    by (auto simp: update_reservations_def update_where_def idx_order_ticket_def)
  moreover have "\<exists>r0 \<in> set (reservation_table db). rID r = rID r0 \<and> rQty r = rQty r0 \<and>
      rTicketClassID r = rTicketClassID r0" if "r \<in> set ?t" for r
    using that by (auto simp: update_reservations_def update_where_def)
  then have "rID r < r_seq db \<and> rQty r > 0 \<and> rTicketClassID r \<in> tcID ` set (ticket_class_table db)"
    if "r \<in> set ?t" for r
    using that wf_r [OF assms] by metis
  ultimately show ?thesis
    using assms unfolding wf_db_def by auto
qed

lemma qty_where_update_reservations:
  assumes "\<And>r. q (r\<lparr>rStatus := st\<rparr>) = q' r"
  shows "qty_where q (update_reservations p st db) =
     qty_where (\<lambda>r. \<not> p r \<and> q r) db + qty_where (\<lambda>r. p r \<and> q' r) db"
  using assms by (simp add: qty_where_def update_reservations_def sum_where_update_where comp_def)

lemma qty_where_split: "qty_where q db = qty_where (\<lambda>r. p r \<and> q r) db + qty_where (\<lambda>r. \<not> p r \<and> q r) db"
  unfolding qty_where_def by (rule sum_where_split)

lemma qty_where_cong:
  "(\<And>r. r \<in> set (reservation_table db) \<Longrightarrow> p r = q r) \<Longrightarrow> qty_where p db = qty_where q db"
  unfolding qty_where_def by (rule sum_where_cong) auto

lemma qty_where_False: "qty_where (\<lambda>r. False) db = 0"
  by (simp add: qty_where_def sum_where_none)

lemma qty_where_nonneg: "wf_db db \<Longrightarrow> 0 \<le> qty_where p db"
  unfolding qty_where_def by (rule sum_where_nonneg) (auto dest: wf_r)

lemma qty_where_mono:
  "wf_db db \<Longrightarrow> (\<And>r. p r \<Longrightarrow> q r) \<Longrightarrow> qty_where p db \<le> qty_where q db"
  unfolding qty_where_def by (rule sum_where_mono) (auto dest: wf_r)

lemma number_rows_props:
  "map idx_order_ticket (number_rows n rs) = map idx_order_ticket rs"
  "map rQty (number_rows n rs) = map rQty rs"
  "map rTicketClassID (number_rows n rs) = map rTicketClassID rs"
  "map rStatus (number_rows n rs) = map rStatus rs"
  "map rOrderCode (number_rows n rs) = map rOrderCode rs"
  by (induction rs arbitrary: n) (auto simp: idx_order_ticket_def)

lemma rID_number_rows: "rID ` set (number_rows n rs) = {n ..< n + int (length rs)}"
  by (induction rs arbitrary: n) (auto simp: atLeastLessThan_iff image_iff)

lemma distinct_number_rows: "distinct (map rID (number_rows n rs))"
proof (induction rs arbitrary: n)
  case Nil
  show ?case by simp
next
  case (Cons r rs)
  have "n \<notin> rID ` set (number_rows (n + 1) rs)" unfolding rID_number_rows by simp
  with Cons.IH [of "n + 1"] show ?case by simp
qed

lemma sum_where_number_rows:
  assumes "\<And>r m. q (r\<lparr>rID := m\<rparr>) = q r"
  shows "sum_where q rQty (number_rows n rs) = sum_where q rQty rs"
  using assms by (induction rs arbitrary: n) auto

lemma insert_reservations_frame:
  assumes "insert_reservations rs db = Inr db'"
  shows "look db' = look db" and "ticket_class_table db' = ticket_class_table db"
    and "reservation_table db' = reservation_table db @ number_rows (r_seq db) rs"
    and "tc_seq db' = tc_seq db" and "r_seq db' = r_seq db + int (length rs)"
  using assms by (auto simp: insert_reservations_def look_def fun_eq_iff split: if_splits)

lemma wf_insert_reservations [keeps]:
  assumes wf: "wf_db db" and ins: "insert_reservations rs db = Inr db'"
  shows "wf_db db'"
proof -
  note fr = insert_reservations_frame [OF ins]
  have chk: "\<forall>r \<in> set rs. rQty r > 0" "distinct (map idx_order_ticket rs)"
    "\<forall>r \<in> set rs. idx_order_ticket r \<notin> idx_order_ticket ` set (reservation_table db)"
    "\<forall>r \<in> set rs. rTicketClassID r \<in> tcID ` set (ticket_class_table db)"
    using ins by (auto simp: insert_reservations_def list_ex_iff chk_reservation_qty_positive_def
        split: if_splits)
  let ?n = "number_rows (r_seq db) rs"
  have key: "idx_order_ticket ` set ?n = idx_order_ticket ` set rs"
    "rTicketClassID ` set ?n = rTicketClassID ` set rs" "rQty ` set ?n = rQty ` set rs"
    using number_rows_props [of "r_seq db" rs] by (metis list.set_map)+
  have "rID ` set (reservation_table db) \<inter> rID ` set ?n = {}"
    using wf_r [OF wf] unfolding rID_number_rows by fastforce
  then have "distinct (map rID (reservation_table db'))"
    using wf_r_distinct [OF wf] distinct_number_rows [of "r_seq db" rs] unfolding fr(3) by auto
  moreover have "distinct (map idx_order_ticket (reservation_table db'))"
    using wf_r_key [OF wf] chk(2,3) key(1) number_rows_props(1) [of "r_seq db" rs]
    unfolding fr(3) by auto
  moreover have "rID r < r_seq db' \<and> rQty r > 0 \<and> rTicketClassID r \<in> tcID ` set (ticket_class_table db')"
    if "r \<in> set (reservation_table db')" for r
  proof (cases "r \<in> set (reservation_table db)")
    case True
    then show ?thesis using wf_r [OF wf, of r] fr(2,5) by auto
  next
    case False
    then have "r \<in> set ?n" using that fr(3) by auto
    then have "rID r \<in> {r_seq db ..< r_seq db + int (length rs)}" "rQty r \<in> rQty ` set rs"
      "rTicketClassID r \<in> rTicketClassID ` set rs"
      using rID_number_rows [of "r_seq db" rs] key by blast+
    then show ?thesis using chk(1,4) fr(2,5) by auto
  qed
  ultimately show ?thesis
    using wf fr(2,4) unfolding wf_db_def by auto
qed

end
