(* ===== verification/Inventory_Reservation.thy ===== *)
theory Inventory_Reservation
  imports Inventory_Store
begin

text \<open>
  \<open>inventory-svc/internal/services/reservation.go\<close>: Reserve, Confirm, Release and the
  expiry batch, each one transaction over the two tables. The clock is an argument. A
  database fault rolls a transaction back, so it is the same as not running it; the errors
  modelled here are the ones the code itself returns and the constraint violations of its
  own writes. \<open>SKIP LOCKED\<close> reads through an argument: the ids other transactions hold.
\<close>

section \<open>Input types and helpers\<close>

record reserve_item =
  riTicketClassID :: int
  riQty :: int

record reserve_input =
  inOrderCode :: string
  inItems :: "reserve_item list"
  inExpiresAt :: time

definition buildModel :: "string \<Rightarrow> time \<Rightarrow> reserve_item \<Rightarrow> reservation" where
  "buildModel oCode expAt it =
     \<lparr>rID = 0, rOrderCode = oCode, rTicketClassID = riTicketClassID it, rQty = riQty it,
      rExpiresAt = expAt, rStatus = ReservationStatusActive\<rparr>"

fun aggregate_loop ::
  "reserve_item list \<Rightarrow> int list \<Rightarrow> (int \<times> int) list \<Rightarrow> int list \<times> (int \<times> int) list" where
  "aggregate_loop [] ids m = (ids, m)"
| "aggregate_loop (it # its) ids m =
     (let ids' = (if map_of m (riTicketClassID it) = None
                  then ids @ [riTicketClassID it] else ids)
      in aggregate_loop its ids' (add_to (riTicketClassID it) (riQty it) m))"

definition aggregateDemand :: "reserve_item list \<Rightarrow> int list \<times> (int \<times> int) list" where
  "aggregateDemand items = (let (ids, m) = aggregate_loop items [] [] in (sort ids, m))"

definition onSale :: "ticket_class \<Rightarrow> time \<Rightarrow> bool" where
  "onSale tc now =
     (if tcStatus tc \<noteq> TicketClassStatusActive then False
      else if (case tcSaleStartAt tc of None \<Rightarrow> False | Some t \<Rightarrow> now < t) then False
      else if (case tcSaleEndAt tc of None \<Rightarrow> False | Some t \<Rightarrow> t < now) then False
      else True)"

section \<open>Reserve\<close>

text \<open>The guard of the \<open>UPDATE\<close>, as it stands in its \<open>WHERE\<close> clause.\<close>

definition reserve_guard :: "int \<Rightarrow> time \<Rightarrow> ticket_class \<Rightarrow> bool" where
  "reserve_guard q now tc \<longleftrightarrow>
     tcStatus tc = TicketClassStatusActive
     \<and> (case tcSaleStartAt tc of None \<Rightarrow> True | Some t \<Rightarrow> t \<le> now)
     \<and> (case tcSaleEndAt tc of None \<Rightarrow> True | Some t \<Rightarrow> t \<ge> now)
     \<and> tcReserved tc + tcSold tc + q \<le> tcTotal tc"

definition explainReserveMiss :: "invdb \<Rightarrow> int \<Rightarrow> int \<Rightarrow> time \<Rightarrow> inv_error" where
  "explainReserveMiss db k q now =
     (case look db k of
        None \<Rightarrow> ErrNotFound
      | Some tc \<Rightarrow> if \<not> onSale tc now then ErrSaleClosed else ErrInsufficientStock)"

definition addReserved :: "int \<Rightarrow> ticket_class \<Rightarrow> ticket_class" where
  "addReserved q tc = tc\<lparr>tcReserved := tcReserved tc + q\<rparr>"

definition reserve_class :: "(int \<times> int) list \<Rightarrow> time \<Rightarrow> int \<Rightarrow> invdb \<Rightarrow> inv_error + invdb" where
  "reserve_class m now k db =
     (let q = lookup0 m k
      in guarded (explainReserveMiss db k q now) k (reserve_guard q now) (addReserved q) db)"

definition live :: "reservation_status \<Rightarrow> bool" where
  "live st \<longleftrightarrow> st = ReservationStatusActive \<or> st = ReservationStatusConfirmed"

definition reserveTx :: "reserve_input \<Rightarrow> time \<Rightarrow> invdb \<Rightarrow> inv_error + invdb" where
  "reserveTx inp now db =
     (let (ids, m) = aggregateDemand (inItems inp);
          statuses = map rStatus (orderRows db (inOrderCode inp))
      in if statuses \<noteq> []
         then (if list_ex live statuses then Inr db else Inl ErrStateConflict)
         else (case for_each (reserve_class m now) ids db of
                 Inl e \<Rightarrow> Inl e
               | Inr db' \<Rightarrow> insert_reservations
                   (map (\<lambda>k. buildModel (inOrderCode inp) (inExpiresAt inp)
                                \<lparr>riTicketClassID = k, riQty = lookup0 m k\<rparr>) ids) db'))"

definition Reserve :: "reserve_input \<Rightarrow> time \<Rightarrow> invdb \<Rightarrow> invdb \<times> (inv_error + unit)" where
  "Reserve inp now = transaction (reserveTx inp now)"

section \<open>Confirm\<close>

record confirm_delta =
  fromReserved :: int
  fromFree :: int

definition delta_of :: "(int \<times> confirm_delta) list \<Rightarrow> int \<Rightarrow> confirm_delta" where
  "delta_of m k = (case map_of m k of None \<Rightarrow> \<lparr>fromReserved = 0, fromFree = 0\<rparr> | Some d \<Rightarrow> d)"

fun collectDeltas ::
  "reservation list \<Rightarrow> (int \<times> confirm_delta) list \<Rightarrow> int list
     \<Rightarrow> inv_error + (int \<times> confirm_delta) list \<times> int list" where
  "collectDeltas [] m rIDs = Inr (m, rIDs)"
| "collectDeltas (r # rs) m rIDs =
     (let d = delta_of m (rTicketClassID r)
      in case rStatus r of
           ReservationStatusActive \<Rightarrow>
             collectDeltas rs
               (AList.update (rTicketClassID r) (d\<lparr>fromReserved := fromReserved d + rQty r\<rparr>) m)
               (rIDs @ [rID r])
         | ReservationStatusExpired \<Rightarrow>
             collectDeltas rs
               (AList.update (rTicketClassID r) (d\<lparr>fromFree := fromFree d + rQty r\<rparr>) m)
               (rIDs @ [rID r])
         | _ \<Rightarrow> Inl ErrStateConflict)"

definition moveToSold :: "int \<Rightarrow> ticket_class \<Rightarrow> ticket_class" where
  "moveToSold q tc = tc\<lparr>tcReserved := tcReserved tc - q, tcSold := tcSold tc + q\<rparr>"

definition addSold :: "int \<Rightarrow> ticket_class \<Rightarrow> ticket_class" where
  "addSold q tc = tc\<lparr>tcSold := tcSold tc + q\<rparr>"

definition confirm_class :: "(int \<times> confirm_delta) list \<Rightarrow> int \<Rightarrow> invdb \<Rightarrow> inv_error + invdb" where
  "confirm_class m k db =
     (let d = delta_of m k
      in case (if fromReserved d > 0
               then guarded ErrInventoryDrift k (\<lambda>tc. tcReserved tc \<ge> fromReserved d)
                      (moveToSold (fromReserved d)) db
               else Inr db) of
           Inl e \<Rightarrow> Inl e
         | Inr db' \<Rightarrow>
             if fromFree d > 0
             then guarded ErrStateConflict k
                    (\<lambda>tc. tcTotal tc - tcReserved tc - tcSold tc \<ge> fromFree d)
                    (addSold (fromFree d)) db'
             else Inr db')"

definition confirmReservationTx :: "string \<Rightarrow> invdb \<Rightarrow> inv_error + invdb" where
  "confirmReservationTx oCode db =
     (let rs = orderRows db oCode
      in if rs = [] then Inl ErrNotFound
         else if list_all (\<lambda>r. rStatus r = ReservationStatusConfirmed) rs then Inr db
         else case collectDeltas rs [] [] of
                Inl e \<Rightarrow> Inl e
              | Inr (m, rIDs) \<Rightarrow>
                  (case for_each (confirm_class m) (sorted_keys m) db of
                     Inl e \<Rightarrow> Inl e
                   | Inr db' \<Rightarrow> Inr (update_reservations (\<lambda>r. rID r \<in> set rIDs)
                                       ReservationStatusConfirmed db')))"

definition Confirm :: "string \<Rightarrow> invdb \<Rightarrow> invdb \<times> (inv_error + unit)" where
  "Confirm oCode = transaction (confirmReservationTx oCode)"

section \<open>Release\<close>

definition terminal :: "reservation_status \<Rightarrow> bool" where
  "terminal st \<longleftrightarrow> st = ReservationStatusCancelled \<or> st = ReservationStatusExpired"

fun collectRelease ::
  "reservation list \<Rightarrow> (int \<times> int) list \<Rightarrow> int list \<Rightarrow> inv_error + (int \<times> int) list \<times> int list" where
  "collectRelease [] m rIDs = Inr (m, rIDs)"
| "collectRelease (r # rs) m rIDs =
     (if rStatus r = ReservationStatusConfirmed then Inl ErrStateConflict
      else if rStatus r \<noteq> ReservationStatusActive then collectRelease rs m rIDs
      else collectRelease rs (add_to (rTicketClassID r) (rQty r) m) (rIDs @ [rID r]))"

definition subReserved :: "int \<Rightarrow> ticket_class \<Rightarrow> ticket_class" where
  "subReserved q tc = tc\<lparr>tcReserved := tcReserved tc - q\<rparr>"

definition release_class :: "(int \<times> int) list \<Rightarrow> int \<Rightarrow> invdb \<Rightarrow> inv_error + invdb" where
  "release_class m k db =
     (let qty = lookup0 m k
      in guarded ErrInventoryDrift k (\<lambda>tc. tcReserved tc \<ge> qty) (subReserved qty) db)"

definition cancelReservationTx :: "string \<Rightarrow> invdb \<Rightarrow> inv_error + invdb" where
  "cancelReservationTx oCode db =
     (let rs = orderRows db oCode
      in if rs = [] then Inr db
         else if list_all (\<lambda>r. terminal (rStatus r)) rs then Inr db
         else case collectRelease rs [] [] of
                Inl e \<Rightarrow> Inl e
              | Inr (tcUps, rIDs) \<Rightarrow>
                  (case for_each (release_class tcUps) (sorted_keys tcUps) db of
                     Inl e \<Rightarrow> Inl e
                   | Inr db' \<Rightarrow> Inr (if rIDs \<noteq> []
                                     then update_reservations (\<lambda>r. rID r \<in> set rIDs)
                                            ReservationStatusCancelled db'
                                     else db')))"

definition Release :: "string \<Rightarrow> invdb \<Rightarrow> invdb \<times> (inv_error + unit)" where
  "Release oCode = transaction (cancelReservationTx oCode)"

section \<open>The expiry batch\<close>

definition overdue :: "time \<Rightarrow> int list \<Rightarrow> int list \<Rightarrow> reservation \<Rightarrow> bool" where
  "overdue now locked excludeTCIDs r \<longleftrightarrow>
     rStatus r = ReservationStatusActive \<and> rExpiresAt r \<le> now
     \<and> rTicketClassID r \<notin> set excludeTCIDs \<and> rID r \<notin> set locked"

definition selectBatch :: "time \<Rightarrow> int list \<Rightarrow> nat \<Rightarrow> int list \<Rightarrow> invdb \<Rightarrow> reservation list" where
  "selectBatch now locked batchSize excludeTCIDs db =
     take batchSize (sort_key rExpiresAt
       (filter (overdue now locked excludeTCIDs) (reservation_table db)))"

text \<open>
  One class of the batch: a miss records the class as drifted and the loop goes on. Only a
  constraint violation would be an error, which the guard rules out.
\<close>

fun expire_classes ::
  "(int \<times> int) list \<Rightarrow> int list \<Rightarrow> invdb \<times> int list \<Rightarrow> inv_error + invdb \<times> int list" where
  "expire_classes m [] (db, drifted) = Inr (db, drifted)"
| "expire_classes m (k # ks) (db, drifted) =
     (case update_tc (\<lambda>tc. tcID tc = k \<and> tcReserved tc \<ge> lookup0 m k)
             (subReserved (lookup0 m k)) db of
        Inl e \<Rightarrow> Inl e
      | Inr (db', n) \<Rightarrow>
          expire_classes m ks (if n = 0 then (db', drifted @ [k]) else (db', drifted)))"

definition selectAndExpireBatch ::
  "time \<Rightarrow> int list \<Rightarrow> nat \<Rightarrow> int list \<Rightarrow> invdb \<Rightarrow> inv_error + invdb \<times> int list \<times> int list" where
  "selectAndExpireBatch now locked batchSize excludeTCIDs db =
     (let rs = selectBatch now locked batchSize excludeTCIDs db
      in if rs = [] then Inr (db, [], [])
         else let qtyByTC = tally rTicketClassID rQty rs []
              in case expire_classes qtyByTC (sorted_keys qtyByTC) (db, []) of
                   Inl e \<Rightarrow> Inl e
                 | Inr (db', drifted) \<Rightarrow>
                     (let expiredIDs = map rID (filter (\<lambda>r. rTicketClassID r \<notin> set drifted) rs)
                      in if expiredIDs = [] then Inr (db', expiredIDs, drifted)
                         else Inr (update_reservations (\<lambda>r. rID r \<in> set expiredIDs)
                                     ReservationStatusExpired db', expiredIDs, drifted)))"

definition effectiveBatch :: "int \<Rightarrow> nat" where
  "effectiveBatch batchSize = nat (if batchSize \<le> 0 \<or> batchSize > 1000 then 500 else batchSize)"

definition BatchExpireReservations ::
  "time \<Rightarrow> int list \<Rightarrow> int \<Rightarrow> invdb \<Rightarrow> invdb \<times> (inv_error + nat)" where
  "BatchExpireReservations now locked batchSize db =
     (let n = effectiveBatch batchSize
      in case selectAndExpireBatch now locked n [] db of
           Inl e \<Rightarrow> (db, Inl e)
         | Inr (db1, expiredIDs, drifted) \<Rightarrow>
             if expiredIDs = [] \<and> drifted \<noteq> []
             then (case selectAndExpireBatch now locked n (sort drifted) db1 of
                     Inl e \<Rightarrow> (db, Inl e)
                   | Inr (db2, expiredIDs2, _) \<Rightarrow> (db2, Inr (length expiredIDs2)))
             else (db1, Inr (length expiredIDs)))"

section \<open>Demand\<close>

definition demand :: "reserve_item list \<Rightarrow> int \<Rightarrow> int" where
  "demand items k = sum_where (\<lambda>it. riTicketClassID it = k) riQty items"

lemma aggregate_loop_spec:
  assumes "aggregate_loop its ids m = (ids', m')" and "distinct ids" and "set ids = fst ` set m"
  shows "distinct ids' \<and> set ids' = set ids \<union> riTicketClassID ` set its \<and>
     (\<forall>k. lookup0 m' k = lookup0 m k + demand its k)"
  using assms
proof (induction its arbitrary: ids m)
  case Nil
  then show ?case by (auto simp: demand_def)
next
  case (Cons it its)
  let ?k = "riTicketClassID it"
  let ?ids = "if map_of m ?k = None then ids @ [?k] else ids"
  let ?m = "add_to ?k (riQty it) m"
  have new: "map_of m ?k = None \<longleftrightarrow> ?k \<notin> set ids"
    using Cons.prems(3) by (simp add: map_of_eq_None_iff)
  have "distinct ?ids" "set ?ids = fst ` set ?m"
    using Cons.prems(2,3) new by auto
  moreover have "aggregate_loop its ?ids ?m = (ids', m')"
    using Cons.prems(1) by (simp add: Let_def)
  ultimately have "distinct ids' \<and> set ids' = set ?ids \<union> riTicketClassID ` set its \<and>
     (\<forall>k. lookup0 m' k = lookup0 ?m k + demand its k)" by (intro Cons.IH) auto
  then show ?case using new by (auto simp: demand_def)
qed

lemma aggregateDemand_spec:
  assumes "aggregateDemand items = (ids, m)"
  shows "sorted ids" and "distinct ids" and "set ids = riTicketClassID ` set items"
    and "lookup0 m k = demand items k"
proof -
  obtain ids0 where "aggregate_loop items [] [] = (ids0, m)" "ids = sort ids0"
    using assms by (auto simp: aggregateDemand_def Let_def split: prod.splits)
  with aggregate_loop_spec [of items "[]" "[]" ids0 m]
  show "sorted ids" "distinct ids" "set ids = riTicketClassID ` set items"
    "lookup0 m k = demand items k" by auto
qed

lemma demand_absent: "k \<notin> riTicketClassID ` set items \<Longrightarrow> demand items k = 0"
  unfolding demand_def by (rule sum_where_none) auto

section \<open>The loops over ticket classes\<close>

lemma upd_ids [simp]:
  "tcID (addReserved q tc) = tcID tc" "tcID (moveToSold q tc) = tcID tc"
  "tcID (addSold q tc) = tcID tc" "tcID (subReserved q tc) = tcID tc"
  by (simp_all add: addReserved_def moveToSold_def addSold_def subReserved_def)

text \<open>The guard of Reserve's \<open>UPDATE\<close> is \<open>onSale\<close> and enough free stock.\<close>

lemma reserve_guard_onSale:
  "reserve_guard q now tc \<longleftrightarrow> onSale tc now \<and> tcTotal tc - tcReserved tc - tcSold tc \<ge> q"
  by (auto simp: reserve_guard_def onSale_def split: option.splits)

definition reserve_ok :: "(int \<times> int) list \<Rightarrow> time \<Rightarrow> int \<Rightarrow> ticket_class \<Rightarrow> bool" where
  "reserve_ok m now k tc \<longleftrightarrow>
     reserve_guard (lookup0 m k) now tc \<and> tc_check (addReserved (lookup0 m k) tc)"

interpretation reserve_loop:
  keyed_loop look "reserve_class m now" "reserve_ok m now" "\<lambda>k. addReserved (lookup0 m k)" "same_rows d"
    "\<lambda>k. True"
  for m now d
proof (unfold_locales, goal_cases)
  case (1 s k tc)
  then have "wf_db s" "look s k = Some tc" by (auto simp: same_rows_def)
  with 1 show ?case
    by (auto simp: reserve_class_def Let_def guarded_eq reserve_ok_def look_set_tc
        intro!: same_rows_set_tc)
next
  case (2 s k)
  then have "wf_db s" by (auto simp: same_rows_def)
  with 2 show ?case
    by (auto simp: reserve_class_def Let_def guarded_eq reserve_ok_def split: option.splits)
qed

definition confirm_upd :: "confirm_delta \<Rightarrow> ticket_class \<Rightarrow> ticket_class" where
  "confirm_upd d tc = tc\<lparr>tcReserved := tcReserved tc - fromReserved d,
     tcSold := tcSold tc + fromReserved d + fromFree d\<rparr>"

definition confirm_ok :: "(int \<times> confirm_delta) list \<Rightarrow> int \<Rightarrow> ticket_class \<Rightarrow> bool" where
  "confirm_ok m k tc \<longleftrightarrow> tcReserved tc \<ge> fromReserved (delta_of m k) \<and>
     tcTotal tc - tcReserved tc - tcSold tc \<ge> fromFree (delta_of m k)"

definition deltas_nonneg :: "(int \<times> confirm_delta) list \<Rightarrow> bool" where
  "deltas_nonneg m \<longleftrightarrow> (\<forall>k. fromReserved (delta_of m k) \<ge> 0 \<and> fromFree (delta_of m k) \<ge> 0)"

lemma confirm_class_eq:
  assumes wf: "wf_db s" and nn: "deltas_nonneg m" and lk: "look s k = Some tc"
  shows "confirm_class m k s =
     (if tcReserved tc < fromReserved (delta_of m k) then Inl ErrInventoryDrift
      else if tcTotal tc - tcReserved tc - tcSold tc < fromFree (delta_of m k)
        then Inl ErrStateConflict
      else Inr (if fromFree (delta_of m k) > 0
                then set_tc k (addSold (fromFree (delta_of m k)))
                  (if fromReserved (delta_of m k) > 0
                   then set_tc k (moveToSold (fromReserved (delta_of m k))) s else s)
                else (if fromReserved (delta_of m k) > 0
                      then set_tc k (moveToSold (fromReserved (delta_of m k))) s else s)))"
proof -
  let ?d = "delta_of m k"
  let ?s = "if fromReserved ?d > 0 then set_tc k (moveToSold (fromReserved ?d)) s else s"
  let ?tc = "if fromReserved ?d > 0 then moveToSold (fromReserved ?d) tc else tc"
  have d: "fromReserved ?d \<ge> 0" "fromFree ?d \<ge> 0" using nn by (auto simp: deltas_nonneg_def)
  have c: "tc_check tc" using look_SomeD [OF lk] wf_tc [OF wf] by blast
  show ?thesis
  proof (cases "tcReserved tc < fromReserved ?d")
    case True
    with d c lk wf show ?thesis
      by (auto simp: confirm_class_def Let_def guarded_eq tc_check_defs)
  next
    case False
    have mv: "tc_check (moveToSold (fromReserved ?d) tc)"
      using False c d by (auto simp: tc_check_defs moveToSold_def)
    then have first: "(if fromReserved ?d > 0
        then guarded ErrInventoryDrift k (\<lambda>tc. tcReserved tc \<ge> fromReserved ?d)
               (moveToSold (fromReserved ?d)) s else Inr s) = Inr ?s"
      using False lk wf by (auto simp: guarded_eq)
    have s: "wf_db ?s" "look ?s k = Some ?tc"
      using lk wf mv by (auto simp: look_set_tc intro!: wf_set_tc)
    have ad: "tc_check (addSold (fromFree ?d) ?tc) \<longleftrightarrow>
        tcTotal tc - tcReserved tc - tcSold tc \<ge> fromFree ?d"
      using False c d by (auto simp: tc_check_defs moveToSold_def addSold_def)
    have "(\<lambda>tc. tcTotal tc - tcReserved tc - tcSold tc \<ge> fromFree ?d) ?tc \<longleftrightarrow>
        tcTotal tc - tcReserved tc - tcSold tc \<ge> fromFree ?d"
      by (auto simp: moveToSold_def)
    then have second: "guarded ErrStateConflict k
        (\<lambda>tc. tcTotal tc - tcReserved tc - tcSold tc \<ge> fromFree ?d) (addSold (fromFree ?d)) ?s =
        (if tcTotal tc - tcReserved tc - tcSold tc \<ge> fromFree ?d
         then Inr (set_tc k (addSold (fromFree ?d)) ?s) else Inl ErrStateConflict)"
      using ad by (simp only: guarded_eq [OF s(1)] s(2) option.case if_True if_False simp_thms)
        (simp split: if_splits)
    have free: "tcTotal tc - tcReserved tc - tcSold tc \<ge> 0" using c by (auto simp: tc_check_defs)
    show ?thesis
      unfolding confirm_class_def Let_def first using second False free d
      by (simp only: sum.case) (auto split: if_splits)
  qed
qed

lemma confirm_class_view:
  assumes "wf_db s" and "deltas_nonneg m" and "look s k = Some tc" and "confirm_ok m k tc"
  shows "\<exists>t. confirm_class m k s = Inr t \<and> (same_rows d s \<longrightarrow> same_rows d t) \<and>
     look t = (look s)(k := Some (confirm_upd (delta_of m k) tc))"
proof -
  let ?d = "delta_of m k"
  have d: "fromReserved ?d \<ge> 0" "fromFree ?d \<ge> 0" using assms(2) by (auto simp: deltas_nonneg_def)
  have c: "tc_check tc" using look_SomeD [OF assms(3)] wf_tc [OF assms(1)] by blast
  let ?s = "if fromReserved ?d > 0 then set_tc k (moveToSold (fromReserved ?d)) s else s"
  let ?t = "if fromFree ?d > 0 then set_tc k (addSold (fromFree ?d)) ?s else ?s"
  have eq: "confirm_class m k s = Inr ?t"
    using confirm_class_eq [OF assms(1,2,3)] assms(4) by (simp add: confirm_ok_def)
  have ls: "look ?s = (look s)(k := Some (if fromReserved ?d > 0 then moveToSold (fromReserved ?d) tc else tc))"
    using assms(3) by (auto simp: look_set_tc)
  have "look ?t = (look s)(k := Some (confirm_upd ?d tc))"
    using assms(3) d ls by (auto simp: look_set_tc confirm_upd_def addSold_def moveToSold_def fun_upd_idem)
  moreover have "same_rows d ?t" if "same_rows d s"
    using that assms(3,4) c d ls
    by (auto simp: confirm_ok_def tc_check_defs moveToSold_def addSold_def look_set_tc
        intro!: same_rows_set_tc)
  ultimately show ?thesis using eq by blast
qed

end
