(* ===== verification/Inventory_Laws.thy ===== *)
theory Inventory_Laws
  imports Inventory_Reservation
begin

text \<open>
  What the inventory transactions do, as equations on the abstract view: \<open>look\<close> (class
  rows by id) and the sums over reservations. Every transaction of
  \<open>inventory-svc/internal/services/reservation.go\<close> is shown to succeed exactly under
  a condition on the state before it, and to keep \<open>consistent\<close>.
\<close>

section \<open>Rows chosen by their ids\<close>

lemma update_by_ids:
  assumes "wf_db db"
  shows "update_reservations (\<lambda>r. rID r \<in> set (map rID (filter q (reservation_table db)))) st db =
         update_reservations q st db"
  using ids_filter [OF wf_r_distinct [OF assms], of _ q]
  by (simp add: update_reservations_def update_where_def cong: map_cong)

lemma same_rows_update:
  assumes "same_rows d db"
  shows "reservation_table (update_reservations p st db) = reservation_table (update_reservations p st d)"
  using assms by (simp add: same_rows_def update_reservations_def)

lemma same_table_sums:
  assumes "reservation_table a = reservation_table b"
  shows "held a = held b" and "paid a = paid b" and "orderRows a = orderRows b"
    and "qty_where p a = qty_where p b"
  using assms by (auto simp: held_def paid_def qty_where_def orderRows_def fun_eq_iff)

text \<open>The tickets of one order, one class and one status.\<close>

definition order_qty :: "invdb \<Rightarrow> string \<Rightarrow> int \<Rightarrow> reservation_status \<Rightarrow> int" where
  "order_qty db oc k st =
     qty_where (\<lambda>r. rOrderCode r = oc \<and> rTicketClassID r = k \<and> rStatus r = st) db"

lemma order_qty_rows:
  "order_qty db oc k st =
     sum_where (\<lambda>r. rTicketClassID r = k \<and> rStatus r = st) rQty (orderRows db oc)"
  by (simp add: order_qty_def qty_where_def orderRows_def sum_where_filter)

lemma order_qty_nonneg: "wf_db db \<Longrightarrow> 0 \<le> order_qty db oc k st"
  unfolding order_qty_def by (rule qty_where_nonneg)

lemma order_qty_le_held: "wf_db db \<Longrightarrow> order_qty db oc k ReservationStatusActive \<le> held db k"
  unfolding order_qty_def held_def by (rule qty_where_mono) auto

lemma sums_update:
  "held (update_reservations q st db) k =
     qty_where (\<lambda>r. \<not> q r \<and> rTicketClassID r = k \<and> rStatus r = ReservationStatusActive) db
     + (if st = ReservationStatusActive then qty_where (\<lambda>r. q r \<and> rTicketClassID r = k) db else 0)"
  "paid (update_reservations q st db) k =
     qty_where (\<lambda>r. \<not> q r \<and> rTicketClassID r = k \<and> rStatus r = ReservationStatusConfirmed) db
     + (if st = ReservationStatusConfirmed then qty_where (\<lambda>r. q r \<and> rTicketClassID r = k) db else 0)"
proof -
  have h: "qty_where (\<lambda>r. rTicketClassID r = k \<and> rStatus r = s) (update_reservations q st db) =
      qty_where (\<lambda>r. \<not> q r \<and> rTicketClassID r = k \<and> rStatus r = s) db
      + (if st = s then qty_where (\<lambda>r. q r \<and> rTicketClassID r = k) db else 0)" for s
    by (cases "st = s")
      (simp_all add: qty_where_update_reservations [where q' = "\<lambda>r. rTicketClassID r = k \<and> st = s"]
        qty_where_False)
  from h [of ReservationStatusActive] h [of ReservationStatusConfirmed]
  show "held (update_reservations q st db) k =
     qty_where (\<lambda>r. \<not> q r \<and> rTicketClassID r = k \<and> rStatus r = ReservationStatusActive) db
     + (if st = ReservationStatusActive then qty_where (\<lambda>r. q r \<and> rTicketClassID r = k) db else 0)"
    "paid (update_reservations q st db) k =
     qty_where (\<lambda>r. \<not> q r \<and> rTicketClassID r = k \<and> rStatus r = ReservationStatusConfirmed) db
     + (if st = ReservationStatusConfirmed then qty_where (\<lambda>r. q r \<and> rTicketClassID r = k) db else 0)"
    unfolding held_def paid_def by simp_all
qed

section \<open>Confirm\<close>

interpretation confirm_loop:
  keyed_loop look "confirm_class m" "confirm_ok m" "\<lambda>k. confirm_upd (delta_of m k)"
    "\<lambda>s. same_rows d s \<and> deltas_nonneg m"
    "\<lambda>k. fromReserved (delta_of m k) + fromFree (delta_of m k) > 0"
  for m d
proof (unfold_locales, goal_cases)
  case (1 s k tc)
  then have "wf_db s" "look s k = Some tc" by (auto simp: same_rows_def)
  with 1 confirm_class_view [of s m k tc d] show ?case by blast
next
  case (2 s k)
  then have wf: "wf_db s" and nn: "deltas_nonneg m" by (auto simp: same_rows_def)
  show ?case
  proof (cases "look s k")
    case None
    have "0 < fromReserved (delta_of m k) \<or> 0 < fromFree (delta_of m k)"
      using 2(2) by linarith
    with None wf show ?thesis
      by (auto simp: confirm_class_def Let_def guarded_eq)
  next
    case (Some tc)
    with 2(3) have "\<not> confirm_ok m k tc" by blast
    with confirm_class_eq [OF wf nn Some] show ?thesis
      by (auto simp: confirm_ok_def)
  qed
qed

definition confirmable :: "reservation \<Rightarrow> bool" where
  "confirmable r \<longleftrightarrow> rStatus r = ReservationStatusActive \<or> rStatus r = ReservationStatusExpired"

text \<open>What the deltas of \<open>collectDeltas\<close> add up to, per class.\<close>

definition sum_delta :: "confirm_delta \<Rightarrow> reservation list \<Rightarrow> int \<Rightarrow> confirm_delta" where
  "sum_delta d rs k =
     \<lparr>fromReserved = fromReserved d
        + sum_where (\<lambda>r. rTicketClassID r = k \<and> rStatus r = ReservationStatusActive) rQty rs,
      fromFree = fromFree d
        + sum_where (\<lambda>r. rTicketClassID r = k \<and> rStatus r = ReservationStatusExpired) rQty rs\<rparr>"

lemma delta_of_Nil [simp]: "delta_of [] k = \<lparr>fromReserved = 0, fromFree = 0\<rparr>"
  by (simp add: delta_of_def)

lemma delta_of_update [simp]:
  "delta_of (AList.update j d m) k = (if j = k then d else delta_of m k)"
  by (simp add: delta_of_def update_conv)

lemma collectDeltas_error:
  "\<not> list_all confirmable rs \<Longrightarrow> collectDeltas rs m ids = Inl ErrStateConflict"
  by (induction rs arbitrary: m ids)
    (auto simp: confirmable_def Let_def split: reservation_status.splits)

lemma collectDeltas_ok:
  assumes "list_all confirmable rs" and "distinct (map fst m)"
  shows "\<exists>m'. collectDeltas rs m ids = Inr (m', ids @ map rID rs) \<and> distinct (map fst m') \<and>
     fst ` set m' = fst ` set m \<union> rTicketClassID ` set rs \<and>
     (\<forall>k. delta_of m' k = sum_delta (delta_of m k) rs k)"
  using assms
proof (induction rs arbitrary: m ids)
  case Nil
  then show ?case by (simp add: sum_delta_def)
next
  case (Cons r rs)
  let ?k = "rTicketClassID r"
  let ?d = "if rStatus r = ReservationStatusActive
    then (delta_of m ?k)\<lparr>fromReserved := fromReserved (delta_of m ?k) + rQty r\<rparr>
    else (delta_of m ?k)\<lparr>fromFree := fromFree (delta_of m ?k) + rQty r\<rparr>"
  let ?m = "AList.update ?k ?d m"
  have st: "rStatus r = ReservationStatusActive \<or> rStatus r = ReservationStatusExpired"
    using Cons.prems(1) by (simp add: confirmable_def)
  then have step: "collectDeltas (r # rs) m ids = collectDeltas rs ?m (ids @ [rID r])"
    by (auto simp: Let_def)
  obtain m' where m': "collectDeltas rs ?m (ids @ [rID r]) = Inr (m', (ids @ [rID r]) @ map rID rs)"
    "distinct (map fst m')" "fst ` set m' = fst ` set ?m \<union> rTicketClassID ` set rs"
    "\<forall>k. delta_of m' k = sum_delta (delta_of ?m k) rs k"
    using Cons.IH [of ?m "ids @ [rID r]"] Cons.prems by (auto simp: distinct_update)
  have "sum_delta (delta_of ?m k) rs k = sum_delta (delta_of m k) (r # rs) k" for k
    using st by (auto simp: sum_delta_def)
  then have "\<forall>k. delta_of m' k = sum_delta (delta_of m k) (r # rs) k" using m'(4) by metis
  with step m' show ?case by (auto simp: fst_set_update)
qed

text \<open>
  Confirm on an order with some row not yet confirmed: the classes of the order, the test
  each must pass, and the resulting state.
\<close>

definition confirm_fits :: "invdb \<Rightarrow> string \<Rightarrow> int \<Rightarrow> bool" where
  "confirm_fits db oc k \<longleftrightarrow> (\<exists>tc. look db k = Some tc \<and>
     tcReserved tc \<ge> order_qty db oc k ReservationStatusActive \<and>
     tcTotal tc - tcReserved tc - tcSold tc \<ge> order_qty db oc k ReservationStatusExpired)"

definition confirmed_class :: "invdb \<Rightarrow> string \<Rightarrow> int \<Rightarrow> ticket_class \<Rightarrow> ticket_class" where
  "confirmed_class db oc k =
     confirm_upd \<lparr>fromReserved = order_qty db oc k ReservationStatusActive,
                  fromFree = order_qty db oc k ReservationStatusExpired\<rparr>"

lemma confirm_upd_zero [simp]: "confirm_upd \<lparr>fromReserved = 0, fromFree = 0\<rparr> tc = tc"
  by (simp add: confirm_upd_def)

lemma orderRows_ids:
  "set (map rID (orderRows db oc)) = set (map rID (filter (\<lambda>r. rOrderCode r = oc) (reservation_table db)))"
  by (simp add: orderRows_def)

lemma list_all_confirmable_qty:
  assumes "list_all confirmable (orderRows db oc)"
  shows "qty_where (\<lambda>r. rOrderCode r = oc \<and> rTicketClassID r = k) db =
     order_qty db oc k ReservationStatusActive + order_qty db oc k ReservationStatusExpired"
proof -
  have "order_qty db oc k st = qty_where (\<lambda>r. rStatus r = st \<and> rOrderCode r = oc \<and> rTicketClassID r = k) db" for st
    unfolding order_qty_def by (rule qty_where_cong) auto
  moreover have "order_qty db oc k ReservationStatusExpired =
      qty_where (\<lambda>r. rStatus r \<noteq> ReservationStatusActive \<and> rOrderCode r = oc \<and> rTicketClassID r = k) db"
    unfolding order_qty_def
    by (rule qty_where_cong)
      (use assms in \<open>auto simp: list_all_iff orderRows_def confirmable_def\<close>)
  ultimately show ?thesis
    using qty_where_split [of "\<lambda>r. rOrderCode r = oc \<and> rTicketClassID r = k" db
        "\<lambda>r. rStatus r = ReservationStatusActive"] by simp
qed

lemma order_qty_class:
  assumes "k \<notin> rTicketClassID ` set (orderRows db oc)"
  shows "order_qty db oc k st = 0"
  unfolding order_qty_rows by (rule sum_where_none) (use assms in auto)

lemma collected_deltas:
  assumes "wf_db db" and "list_all confirmable (orderRows db oc)"
  shows "\<exists>m. collectDeltas (orderRows db oc) [] [] = Inr (m, map rID (orderRows db oc)) \<and>
     distinct (sorted_keys m) \<and> set (sorted_keys m) = rTicketClassID ` set (orderRows db oc) \<and>
     deltas_nonneg m \<and>
     (\<forall>k. delta_of m k = \<lparr>fromReserved = order_qty db oc k ReservationStatusActive,
                          fromFree = order_qty db oc k ReservationStatusExpired\<rparr>)"
  using collectDeltas_ok [OF assms(2), of "[]" "[]"] order_qty_nonneg [OF assms(1)]
  by (auto simp: sum_delta_def order_qty_rows [symmetric] deltas_nonneg_def distinct_sorted_keys)

lemma order_class_positive:
  assumes wf: "wf_db db" and "list_all confirmable (orderRows db oc)"
    and "k \<in> rTicketClassID ` set (orderRows db oc)"
  shows "0 < order_qty db oc k ReservationStatusActive + order_qty db oc k ReservationStatusExpired"
proof -
  obtain r where r: "r \<in> set (reservation_table db)" "rOrderCode r = oc" "rTicketClassID r = k"
    using assms(3) by (auto simp: orderRows_def)
  have "rQty r \<le> sum_list (map rQty (filter (\<lambda>r. rOrderCode r = oc \<and> rTicketClassID r = k) (reservation_table db)))"
    by (rule member_le_sum_list) (use r wf_r [OF wf] in \<open>auto simp: image_iff intro: less_imp_le\<close>)
  then show ?thesis
    using list_all_confirmable_qty [OF assms(2), of k] wf_r [OF wf r(1)]
    by (simp add: qty_where_def sum_where_def)
qed

lemma confirmTx_pending:
  assumes wf: "wf_db db" and some: "\<not> list_all (\<lambda>r. rStatus r = ReservationStatusConfirmed) (orderRows db oc)"
    and con: "list_all confirmable (orderRows db oc)"
  shows "(\<exists>db'. confirmReservationTx oc db = Inr db') \<longleftrightarrow>
      (\<forall>k \<in> rTicketClassID ` set (orderRows db oc). confirm_fits db oc k)"
    and "confirmReservationTx oc db = Inr db' \<Longrightarrow>
      wf_db db' \<and> look db' = (\<lambda>k. map_option (confirmed_class db oc k) (look db k)) \<and>
      reservation_table db' = reservation_table
        (update_reservations (\<lambda>r. rOrderCode r = oc) ReservationStatusConfirmed db)"
proof -
  obtain m where m: "collectDeltas (orderRows db oc) [] [] = Inr (m, map rID (orderRows db oc))"
    "distinct (sorted_keys m)" "set (sorted_keys m) = rTicketClassID ` set (orderRows db oc)"
    "deltas_nonneg m"
    "\<And>k. delta_of m k = \<lparr>fromReserved = order_qty db oc k ReservationStatusActive,
                          fromFree = order_qty db oc k ReservationStatusExpired\<rparr>"
    using collected_deltas [OF wf con] by blast
  have ne: "orderRows db oc \<noteq> []" using some by auto
  have pass: "confirm_loop.passes m db k \<longleftrightarrow> confirm_fits db oc k" for k
    by (simp add: confirm_loop.passes_def confirm_fits_def confirm_ok_def m(5))
  have key: "0 < fromReserved (delta_of m k) + fromFree (delta_of m k)" if "k \<in> set (sorted_keys m)" for k
    using order_class_positive [OF wf con] that m(3,5) by simp
  have inv: "same_rows db db \<and> deltas_nonneg m" using wf m(4) by (simp add: same_rows_refl)
  have tx: "confirmReservationTx oc db =
      (case for_each (confirm_class m) (sorted_keys m) db of
         Inl e \<Rightarrow> Inl e
       | Inr db' \<Rightarrow> Inr (update_reservations (\<lambda>r. rID r \<in> set (map rID (orderRows db oc)))
                           ReservationStatusConfirmed db'))"
    using ne some m(1) by (simp add: confirmReservationTx_def Let_def)
  show "(\<exists>db'. confirmReservationTx oc db = Inr db') \<longleftrightarrow>
      (\<forall>k \<in> rTicketClassID ` set (orderRows db oc). confirm_fits db oc k)"
    using confirm_loop.loop_iff [OF m(2) inv key] unfolding pass m(3) tx
    by (auto split: sum.splits)
  assume "confirmReservationTx oc db = Inr db'"
  then obtain s where s: "for_each (confirm_class m) (sorted_keys m) db = Inr s"
    "db' = update_reservations (\<lambda>r. rID r \<in> set (map rID (orderRows db oc))) ReservationStatusConfirmed s"
    unfolding tx by (auto split: sum.splits)
  note view = confirm_loop.loop_view [OF m(2) inv key s(1)]
  have rows: "same_rows db s" using view(1) by simp
  then have wfs: "wf_db s" and tab: "reservation_table s = reservation_table db"
    by (auto simp: same_rows_def)
  have "look s = (\<lambda>k. map_option (confirmed_class db oc k) (look db k))"
  proof
    fix k
    have "look s k = (if k \<in> set (sorted_keys m)
        then map_option (confirm_upd (delta_of m k)) (look db k) else look db k)"
      using fun_cong [OF view(3)] by simp
    then show "look s k = map_option (confirmed_class db oc k) (look db k)"
      using order_qty_class [of k db oc] by (cases "look db k")
        (auto simp: m(3) [unfolded set_sorted_keys] m(5) confirmed_class_def)
  qed
  moreover have "reservation_table db' = reservation_table
        (update_reservations (\<lambda>r. rOrderCode r = oc) ReservationStatusConfirmed db)"
  proof -
    have "orderRows db oc = filter (\<lambda>r. rOrderCode r = oc) (reservation_table s)"
      by (simp add: tab orderRows_def)
    then have "db' = update_reservations (\<lambda>r. rOrderCode r = oc) ReservationStatusConfirmed s"
      unfolding s(2) by (simp only: update_by_ids [OF wfs])
    then show ?thesis using same_rows_update [OF rows] by simp
  qed
  ultimately show "wf_db db' \<and> look db' = (\<lambda>k. map_option (confirmed_class db oc k) (look db k)) \<and>
      reservation_table db' = reservation_table
        (update_reservations (\<lambda>r. rOrderCode r = oc) ReservationStatusConfirmed db)"
    using s(2) wfs by (simp add: wf_update_reservations)
qed

lemma confirmTx_drift_free:
  assumes "consistent db" and "confirmReservationTx oc db = Inl e"
  shows "e = (if orderRows db oc = [] then ErrNotFound else ErrStateConflict)"
proof (cases "orderRows db oc = [] \<or> \<not> list_all confirmable (orderRows db oc) \<or>
    list_all (\<lambda>r. rStatus r = ReservationStatusConfirmed) (orderRows db oc)")
  case True
  then show ?thesis using assms(2) collectDeltas_error [of "orderRows db oc" "[]" "[]"]
    by (auto simp: confirmReservationTx_def Let_def split: if_splits)
next
  case False
  then have con: "list_all confirmable (orderRows db oc)"
    and some: "\<not> list_all (\<lambda>r. rStatus r = ReservationStatusConfirmed) (orderRows db oc)"
    and ne: "orderRows db oc \<noteq> []" by auto
  have wf: "wf_db db" and nd: "no_drift db" using assms(1) by (auto simp: consistent_def)
  obtain m where m: "collectDeltas (orderRows db oc) [] [] = Inr (m, map rID (orderRows db oc))"
    "distinct (sorted_keys m)" "set (sorted_keys m) = rTicketClassID ` set (orderRows db oc)"
    "deltas_nonneg m"
    "\<And>k. delta_of m k = \<lparr>fromReserved = order_qty db oc k ReservationStatusActive,
                          fromFree = order_qty db oc k ReservationStatusExpired\<rparr>"
    using collected_deltas [OF wf con] by blast
  have inv: "same_rows db db \<and> deltas_nonneg m" using wf m(4) by (simp add: same_rows_refl)
  have fe: "for_each (confirm_class m) (sorted_keys m) db = Inl e"
    using assms(2) ne some m(1) by (auto simp: confirmReservationTx_def Let_def split: sum.splits)
  then have "\<exists>k \<in> set (sorted_keys m). \<not> confirm_loop.passes m db k"
    using confirm_loop.loop_ok [OF m(2) inv] by fastforce
  from split_list_first_prop [OF this] obtain xs k ys
    where sp: "sorted_keys m = xs @ k # ys" "\<not> confirm_loop.passes m db k"
      "\<forall>j \<in> set xs. \<not> \<not> confirm_loop.passes m db j" by blast
  have kin: "k \<in> set (sorted_keys m)" using sp(1) by simp
  then have pos: "0 < fromReserved (delta_of m k) + fromFree (delta_of m k)"
    using order_class_positive [OF wf con] m(3,5) by simp
  from confirm_loop.loop_miss [of xs k ys db db m] sp inv m(2) pos obtain t e'
    where t: "for_each (confirm_class m) (xs @ k # ys) db = Inl e'" "confirm_class m k t = Inl e'"
      "same_rows db t" "look t k = look db k" by (metis (no_types, lifting))
  obtain r where r: "r \<in> set (reservation_table db)" "rTicketClassID r = k"
    using kin m(3) by (auto simp: orderRows_def)
  then obtain tc where lk: "look db k = Some tc"
    using wf_r [OF wf r(1)] look_None [of db k] by (cases "look db k") auto
  have "tcReserved tc = held db k" using nd lk by (simp add: no_drift_look [OF wf])
  then have "\<not> tcReserved tc < fromReserved (delta_of m k)"
    using order_qty_le_held [OF wf, of oc k] m(5) by simp
  then have "e' = ErrStateConflict"
    using confirm_class_eq [of t m k tc] t lk m(4)
    by (auto simp: same_rows_def split: if_splits)
  then show ?thesis using fe t(1) sp(1) ne by simp
qed

section \<open>Release\<close>

lemma collectRelease_error:
  "\<exists>r \<in> set rs. rStatus r = ReservationStatusConfirmed \<Longrightarrow>
   collectRelease rs m ids = Inl ErrStateConflict"
  by (induction rs arbitrary: m ids) auto

lemma collectRelease_ok:
  assumes "\<forall>r \<in> set rs. rStatus r \<noteq> ReservationStatusConfirmed"
  shows "collectRelease rs m ids =
     Inr (tally rTicketClassID rQty (filter (\<lambda>r. rStatus r = ReservationStatusActive) rs) m,
          ids @ map rID (filter (\<lambda>r. rStatus r = ReservationStatusActive) rs))"
  using assms by (induction rs arbitrary: m ids) auto

definition released_class :: "(int \<times> int) list \<Rightarrow> int \<Rightarrow> ticket_class \<Rightarrow> ticket_class" where
  "released_class m k = subReserved (lookup0 m k)"

definition release_ok :: "(int \<times> int) list \<Rightarrow> int \<Rightarrow> ticket_class \<Rightarrow> bool" where
  "release_ok m k tc \<longleftrightarrow> tcReserved tc \<ge> lookup0 m k"

definition qty_nonneg :: "(int \<times> int) list \<Rightarrow> bool" where
  "qty_nonneg m \<longleftrightarrow> (\<forall>k. lookup0 m k \<ge> 0)"

lemma check_subReserved:
  "tc_check tc \<Longrightarrow> 0 \<le> q \<Longrightarrow> q \<le> tcReserved tc \<Longrightarrow> tc_check (subReserved q tc)"
  by (auto simp: tc_check_defs subReserved_def)

lemma wf_look_check: "wf_db db \<Longrightarrow> look db k = Some tc \<Longrightarrow> tc_check tc"
  using look_SomeD wf_tc by blast

interpretation release_loop:
  keyed_loop look "release_class m" "release_ok m" "released_class m"
    "\<lambda>s. same_rows d s \<and> qty_nonneg m" "\<lambda>k. True"
  for m d
proof (unfold_locales, goal_cases)
  case (1 s k tc)
  then have "wf_db s" "tc_check tc" "0 \<le> lookup0 m k"
    by (auto simp: same_rows_def qty_nonneg_def intro: wf_look_check)
  with 1 show ?case
    by (auto simp: release_class_def Let_def guarded_eq release_ok_def released_class_def
        look_set_tc check_subReserved intro!: same_rows_set_tc)
next
  case (2 s k)
  then have "wf_db s" by (auto simp: same_rows_def)
  with 2 show ?case
    by (auto simp: release_class_def Let_def guarded_eq release_ok_def split: option.splits)
qed

definition has_confirmed :: "invdb \<Rightarrow> string \<Rightarrow> bool" where
  "has_confirmed db oc \<longleftrightarrow> (\<exists>r \<in> set (orderRows db oc). rStatus r = ReservationStatusConfirmed)"

definition active_of :: "string \<Rightarrow> reservation \<Rightarrow> bool" where
  "active_of oc r \<longleftrightarrow> rOrderCode r = oc \<and> rStatus r = ReservationStatusActive"

lemma subReserved_0 [simp]: "subReserved 0 = (\<lambda>tc. tc)"
  by (simp add: subReserved_def fun_eq_iff)

lemma no_active_qty:
  assumes "\<And>r. r \<in> set (orderRows db oc) \<Longrightarrow> rStatus r \<noteq> ReservationStatusActive"
  shows "order_qty db oc k ReservationStatusActive = 0"
  unfolding order_qty_rows by (rule sum_where_none) (use assms in auto)

lemma update_reservations_none:
  assumes "\<And>r. r \<in> set (reservation_table db) \<Longrightarrow> \<not> p r"
  shows "update_reservations p st db = db"
proof -
  have "map (\<lambda>r. if p r then r\<lparr>rStatus := st\<rparr> else r) (reservation_table db) = reservation_table db"
    using assms by (intro map_idI) auto
  then show ?thesis by (simp add: update_reservations_def update_where_def)
qed

text \<open>Release without drift: refused exactly when the order is confirmed, a step otherwise.\<close>

lemma releaseTx_confirmed:
  assumes "has_confirmed db oc"
  shows "cancelReservationTx oc db = Inl ErrStateConflict"
proof -
  from assms obtain r where r: "r \<in> set (orderRows db oc)" "rStatus r = ReservationStatusConfirmed"
    by (auto simp: has_confirmed_def)
  then have "orderRows db oc \<noteq> []" "\<not> list_all (\<lambda>r. terminal (rStatus r)) (orderRows db oc)"
    by (auto simp: list_all_iff terminal_def intro!: bexI [of _ r])
  with r show ?thesis
    using collectRelease_error [OF assms [unfolded has_confirmed_def], of "[]" "[]"]
    by (auto simp: cancelReservationTx_def Let_def)
qed

lemma releaseTx_terminal:
  assumes "list_all (\<lambda>r. terminal (rStatus r)) (orderRows db oc)"
  shows "cancelReservationTx oc db = Inr db"
  using assms by (auto simp: cancelReservationTx_def Let_def)

lemma releaseTx_step:
  assumes wf: "wf_db db" and nc: "\<not> has_confirmed db oc"
  shows "\<forall>k \<in> rTicketClassID ` set (filter (active_of oc) (reservation_table db)).
        (\<exists>tc. look db k = Some tc \<and> tcReserved tc \<ge> order_qty db oc k ReservationStatusActive) \<Longrightarrow>
      \<exists>db'. cancelReservationTx oc db = Inr db'" (is "?pass \<Longrightarrow> _")
    and "cancelReservationTx oc db = Inr db' \<Longrightarrow>
      wf_db db' \<and>
      look db' = (\<lambda>k. map_option (subReserved (order_qty db oc k ReservationStatusActive)) (look db k)) \<and>
      reservation_table db' = reservation_table
        (update_reservations (active_of oc) ReservationStatusCancelled db)"
proof -
  let ?A = "filter (\<lambda>r. rStatus r = ReservationStatusActive) (orderRows db oc)"
  let ?m = "tally rTicketClassID rQty ?A []"
  have A: "?A = filter (active_of oc) (reservation_table db)"
    by (auto simp: orderRows_def active_of_def intro: filter_cong)
  have m: "lookup0 ?m k = order_qty db oc k ReservationStatusActive" for k
    by (simp add: lookup0_tally order_qty_rows sum_where_filter)
      (rule sum_where_cong, auto)
  have keys: "set (sorted_keys ?m) = rTicketClassID ` set ?A" by (simp add: keys_tally)
  have dis: "distinct (sorted_keys ?m)" by (simp add: distinct_sorted_keys distinct_tally)
  have inv: "same_rows db db \<and> qty_nonneg ?m"
    using order_qty_nonneg [OF wf] by (simp add: same_rows_refl wf qty_nonneg_def m)
  show "\<exists>db'. cancelReservationTx oc db = Inr db'" if ?pass
  proof (cases "list_all (\<lambda>r. terminal (rStatus r)) (orderRows db oc)")
    case True
    then show ?thesis by (simp add: releaseTx_terminal)
  next
    case False
    have "release_loop.passes ?m db k" if "k \<in> set (sorted_keys ?m)" for k
    proof -
      have "k \<in> rTicketClassID ` set (filter (active_of oc) (reservation_table db))"
        using that keys A by simp
      with \<open>?pass\<close> show ?thesis
        unfolding release_loop.passes_def release_ok_def m by blast
    qed
    with release_loop.loop_ok [OF dis inv] obtain t
      where "for_each (release_class ?m) (sorted_keys ?m) db = Inr t" by blast
    with False nc show ?thesis
      by (auto simp: cancelReservationTx_def Let_def collectRelease_ok has_confirmed_def)
  qed
  assume ok: "cancelReservationTx oc db = Inr db'"
  show "wf_db db' \<and>
      look db' = (\<lambda>k. map_option (subReserved (order_qty db oc k ReservationStatusActive)) (look db k)) \<and>
      reservation_table db' = reservation_table
        (update_reservations (active_of oc) ReservationStatusCancelled db)"
  proof (cases "list_all (\<lambda>r. terminal (rStatus r)) (orderRows db oc)")
    case True
    then have t: "rStatus r \<noteq> ReservationStatusActive" if "r \<in> set (orderRows db oc)" for r
      using that by (auto simp: list_all_iff terminal_def)
    then have "update_reservations (active_of oc) ReservationStatusCancelled db = db"
      by (intro update_reservations_none) (auto simp: active_of_def orderRows_def)
    then show ?thesis
      using ok wf no_active_qty [OF t] by (simp add: releaseTx_terminal [OF True] option.map_ident)
  next
    case False
    then have ne: "?A \<noteq> []" "orderRows db oc \<noteq> []"
      using nc by (auto simp: list_all_iff terminal_def has_confirmed_def filter_empty_conv
          intro: reservation_status.exhaust)
    obtain s where s: "for_each (release_class ?m) (sorted_keys ?m) db = Inr s"
      "db' = update_reservations (\<lambda>r. rID r \<in> set (map rID ?A)) ReservationStatusCancelled s"
      using ok ne False nc
      by (auto simp: cancelReservationTx_def Let_def collectRelease_ok has_confirmed_def
          split: sum.splits)
    note view = release_loop.loop_view [OF dis inv TrueI s(1)]
    have rows: "same_rows db s" using view(1) by simp
    then have wfs: "wf_db s" and tab: "reservation_table s = reservation_table db"
      by (auto simp: same_rows_def)
    have "look s k = map_option (subReserved (order_qty db oc k ReservationStatusActive)) (look db k)" for k
    proof -
      have "look s k = (if k \<in> set (sorted_keys ?m)
          then map_option (released_class ?m k) (look db k) else look db k)"
        using fun_cong [OF view(3)] by simp
      moreover have "order_qty db oc k ReservationStatusActive = 0" if "k \<notin> rTicketClassID ` set ?A"
        using that unfolding order_qty_rows by (intro sum_where_none) auto
      ultimately show ?thesis unfolding keys
        by (auto simp: released_class_def m option.map_ident)
    qed
    moreover have "db' = update_reservations (active_of oc) ReservationStatusCancelled s"
      unfolding s(2) A using update_by_ids [OF wfs, of "active_of oc"] by (simp add: tab)
    ultimately show ?thesis
      using wfs same_rows_update [OF rows] by (auto simp: wf_update_reservations)
  qed
qed

section \<open>Reserve\<close>

definition reserve_fits :: "invdb \<Rightarrow> reserve_item list \<Rightarrow> time \<Rightarrow> int \<Rightarrow> bool" where
  "reserve_fits db items now k \<longleftrightarrow> (\<exists>tc. look db k = Some tc \<and> onSale tc now \<and>
     tcTotal tc - tcReserved tc - tcSold tc \<ge> demand items k)"

text \<open>What the gRPC layer's validation guarantees of the items of a Reserve.\<close>

definition valid_items :: "reserve_item list \<Rightarrow> bool" where
  "valid_items items \<longleftrightarrow> items \<noteq> [] \<and> (\<forall>it \<in> set items. riQty it > 0)"

definition reserve_rows :: "reserve_input \<Rightarrow> reservation list" where
  "reserve_rows inp = map (\<lambda>k. buildModel (inOrderCode inp) (inExpiresAt inp)
       \<lparr>riTicketClassID = k, riQty = demand (inItems inp) k\<rparr>) (fst (aggregateDemand (inItems inp)))"

lemma demand_positive:
  assumes "valid_items items" and "k \<in> riTicketClassID ` set items"
  shows "0 < demand items k"
proof -
  obtain it where it: "it \<in> set items" "riTicketClassID it = k" using assms(2) by auto
  have "riQty it \<le> sum_list (map riQty (filter (\<lambda>it. riTicketClassID it = k) items))"
    by (rule member_le_sum_list) (use it assms(1) in \<open>auto simp: valid_items_def intro: less_imp_le\<close>)
  moreover have "0 < riQty it" using assms(1) it(1) by (auto simp: valid_items_def)
  ultimately show ?thesis by (simp add: demand_def sum_where_def)
qed

lemma addReserved_0 [simp]: "addReserved 0 = (\<lambda>tc. tc)"
  by (simp add: addReserved_def fun_eq_iff)

lemma check_addReserved:
  "tc_check tc \<Longrightarrow> 0 \<le> q \<Longrightarrow> tcTotal tc - tcReserved tc - tcSold tc \<ge> q \<Longrightarrow> tc_check (addReserved q tc)"
  by (auto simp: tc_check_defs addReserved_def)

lemma reserveTx_again:
  assumes "orderRows db (inOrderCode inp) \<noteq> []"
  shows "reserveTx inp now db =
     (if \<exists>r \<in> set (orderRows db (inOrderCode inp)). live (rStatus r) then Inr db else Inl ErrStateConflict)"
  using assms by (auto simp: reserveTx_def Let_def list_ex_iff split: prod.splits)

lemma reserveTx_fresh_eq:
  assumes "orderRows db (inOrderCode inp) = []"
    and "aggregateDemand (inItems inp) = (ids, m)"
  shows "reserveTx inp now db =
     (case for_each (reserve_class m now) ids db of
        Inl e \<Rightarrow> Inl e | Inr db' \<Rightarrow> insert_reservations (reserve_rows inp) db')"
  using assms(1) aggregateDemand_spec(4) [OF assms(2)]
  by (simp add: reserveTx_def assms(2) reserve_rows_def cong: sum.case_cong)

lemma reserve_rows_props:
  assumes "aggregateDemand (inItems inp) = (ids, m)"
  shows "map rTicketClassID (reserve_rows inp) = ids"
    and "map rQty (reserve_rows inp) = map (demand (inItems inp)) ids"
    and "\<And>r. r \<in> set (reserve_rows inp) \<Longrightarrow>
           rOrderCode r = inOrderCode inp \<and> rStatus r = ReservationStatusActive"
    and "distinct (map idx_order_ticket (reserve_rows inp))"
  using aggregateDemand_spec(2) [OF assms]
  by (auto simp: reserve_rows_def assms buildModel_def idx_order_ticket_def comp_def distinct_map
      inj_on_def cong: map_cong)

lemma reserve_passes:
  assumes "wf_db db" and "aggregateDemand (inItems inp) = (ids, m)"
    and "valid_items (inItems inp)" and "k \<in> set ids"
  shows "reserve_loop.passes m now db k \<longleftrightarrow> reserve_fits db (inItems inp) now k"
proof -
  have d: "lookup0 m k = demand (inItems inp) k" by (rule aggregateDemand_spec(4) [OF assms(2)])
  have "0 < demand (inItems inp) k"
    using demand_positive [OF assms(3)] assms(4) aggregateDemand_spec(3) [OF assms(2)] by simp
  then show ?thesis
    unfolding reserve_loop.passes_def reserve_fits_def reserve_ok_def reserve_guard_onSale d
    using assms(1) by (auto intro!: check_addReserved dest: wf_look_check)
qed

lemma insert_reserve_rows:
  assumes agg: "aggregateDemand (inItems inp) = (ids, m)" and ok: "valid_items (inItems inp)"
    and fresh: "orderRows s (inOrderCode inp) = []" and fk: "\<And>k. k \<in> set ids \<Longrightarrow> look s k \<noteq> None"
  shows "\<exists>s'. insert_reservations (reserve_rows inp) s = Inr s'"
proof -
  note p = reserve_rows_props [OF agg] and ids = aggregateDemand_spec(3) [OF agg]
  have cls: "rTicketClassID ` set (reserve_rows inp) = set ids" using p(1) by (metis list.set_map)
  have "ids \<noteq> []" using ids ok by (auto simp: valid_items_def)
  then have ne: "reserve_rows inp \<noteq> []" using p(1) by auto
  have pos: "rQty r > 0" if "r \<in> set (reserve_rows inp)" for r
    using that demand_positive [OF ok] ids by (auto simp: reserve_rows_def agg buildModel_def)
  have new: "idx_order_ticket r \<notin> idx_order_ticket ` set (reservation_table s)"
    if "r \<in> set (reserve_rows inp)" for r
    using p(3) [OF that] fresh by (auto simp: orderRows_def idx_order_ticket_def filter_empty_conv)
  have tc: "rTicketClassID r \<in> tcID ` set (ticket_class_table s)" if "r \<in> set (reserve_rows inp)" for r
  proof -
    have "rTicketClassID r \<in> set ids" using imageI [OF that, of rTicketClassID] by (simp only: cls)
    with fk have "look s (rTicketClassID r) \<noteq> None" by simp
    then show ?thesis by (simp add: look_None)
  qed
  have "\<not> list_ex (\<lambda>r. \<not> chk_reservation_qty_positive r) (reserve_rows inp)"
    using pos unfolding list_ex_iff chk_reservation_qty_positive_def by blast
  moreover have "\<not> list_ex (\<lambda>r. idx_order_ticket r \<in> idx_order_ticket ` set (reservation_table s))
      (reserve_rows inp)" using new unfolding list_ex_iff by blast
  moreover have "\<not> list_ex (\<lambda>r. rTicketClassID r \<notin> tcID ` set (ticket_class_table s)) (reserve_rows inp)"
    using tc unfolding list_ex_iff by blast
  ultimately show ?thesis
    using ne p(4) unfolding insert_reservations_def by simp
qed

lemma reserveTx_fresh:
  assumes wf: "wf_db db" and fresh: "orderRows db (inOrderCode inp) = []"
    and ok: "valid_items (inItems inp)"
  shows "(\<exists>db'. reserveTx inp now db = Inr db') \<longleftrightarrow>
      (\<forall>it \<in> set (inItems inp). reserve_fits db (inItems inp) now (riTicketClassID it))"
    and "reserveTx inp now db = Inr db' \<Longrightarrow>
      wf_db db' \<and>
      look db' = (\<lambda>k. map_option (addReserved (demand (inItems inp) k)) (look db k)) \<and>
      reservation_table db' = reservation_table db @ number_rows (r_seq db) (reserve_rows inp)"
    and "reserveTx inp now db = Inl e \<Longrightarrow>
      \<exists>k \<in> riTicketClassID ` set (inItems inp). \<not> reserve_fits db (inItems inp) now k \<and>
        (\<forall>j \<in> riTicketClassID ` set (inItems inp). j < k \<longrightarrow> reserve_fits db (inItems inp) now j) \<and>
        e = explainReserveMiss db k (demand (inItems inp) k) now"
proof -
  obtain ids m where agg: "aggregateDemand (inItems inp) = (ids, m)" by (cases "aggregateDemand (inItems inp)")
  note sp = aggregateDemand_spec [OF agg]
  note pass = reserve_passes [OF wf agg ok]
  note eq = reserveTx_fresh_eq [OF fresh agg]
  have inv: "same_rows db db" by (rule same_rows_refl [OF wf])
  have ids: "set ids = riTicketClassID ` set (inItems inp)" by (rule sp(3))
  have after: "wf_db s \<and> look s = (\<lambda>k. map_option (addReserved (demand (inItems inp) k)) (look db k)) \<and>
      reservation_table s = reservation_table db \<and> r_seq s = r_seq db \<and>
      (\<forall>k \<in> set ids. look s k \<noteq> None)"
    if "for_each (reserve_class m now) ids db = Inr s" for s
  proof -
    note view = reserve_loop.loop_view [OF sp(2) inv TrueI that]
    have "look s k = map_option (addReserved (demand (inItems inp) k)) (look db k)" for k
      using fun_cong [OF view(3), of k] demand_absent [of k "inItems inp"] sp(4) ids
      by (cases "k \<in> set ids") (auto simp: option.map_ident)
    moreover have "look s k \<noteq> None" if "k \<in> set ids" for k
      using view(2) [OF that] fun_cong [OF view(3), of k] that by (auto simp: reserve_loop.passes_def)
    ultimately show ?thesis using view(1) by (auto simp: same_rows_def)
  qed
  have ins: "\<exists>s'. insert_reservations (reserve_rows inp) s = Inr s'"
    if "for_each (reserve_class m now) ids db = Inr s" for s
    using after [OF that] fresh same_table_sums(3) [of s db]
    by (intro insert_reserve_rows [OF agg ok]) auto
  have iff: "(\<exists>s. for_each (reserve_class m now) ids db = Inr s) \<longleftrightarrow>
      (\<forall>k \<in> set ids. reserve_fits db (inItems inp) now k)"
    using reserve_loop.loop_iff [OF sp(2) inv TrueI] pass by blast
  have "(\<exists>db'. reserveTx inp now db = Inr db') \<longleftrightarrow> (\<exists>s. for_each (reserve_class m now) ids db = Inr s)"
    unfolding eq using ins by (auto split: sum.splits)
  then show "(\<exists>db'. reserveTx inp now db = Inr db') \<longleftrightarrow>
      (\<forall>it \<in> set (inItems inp). reserve_fits db (inItems inp) now (riTicketClassID it))"
    using iff ids by simp
  show "wf_db db' \<and>
      look db' = (\<lambda>k. map_option (addReserved (demand (inItems inp) k)) (look db k)) \<and>
      reservation_table db' = reservation_table db @ number_rows (r_seq db) (reserve_rows inp)"
    if fin: "reserveTx inp now db = Inr db'"
  proof -
    obtain s where s: "for_each (reserve_class m now) ids db = Inr s"
      "insert_reservations (reserve_rows inp) s = Inr db'"
      using fin unfolding eq by (auto split: sum.splits)
    show ?thesis
      using after [OF s(1)] insert_reservations_frame [OF s(2)] wf_insert_reservations [OF _ s(2)]
      by simp
  qed
  show "\<exists>k \<in> riTicketClassID ` set (inItems inp). \<not> reserve_fits db (inItems inp) now k \<and>
        (\<forall>j \<in> riTicketClassID ` set (inItems inp). j < k \<longrightarrow> reserve_fits db (inItems inp) now j) \<and>
        e = explainReserveMiss db k (demand (inItems inp) k) now"
    if bad: "reserveTx inp now db = Inl e"
  proof -
    have fe: "for_each (reserve_class m now) ids db = Inl e"
      using bad ins unfolding eq by (auto split: sum.splits)
    then have "\<exists>k \<in> set ids. \<not> reserve_fits db (inItems inp) now k" using iff by auto
    from split_list_first_prop [OF this] obtain xs k ys where k: "ids = xs @ k # ys"
      "\<not> reserve_fits db (inItems inp) now k" "\<forall>j \<in> set xs. reserve_fits db (inItems inp) now j"
      by blast
    have "\<exists>t e. for_each (reserve_class m now) (xs @ k # ys) db = Inl e \<and>
        reserve_class m now k t = Inl e \<and> same_rows db t \<and> look t k = look db k"
      using reserve_loop.loop_miss [of xs k ys db db m now] sp(2) inv k pass by (simp add: k(1))
    then obtain t where t: "reserve_class m now k t = Inl e" "same_rows db t" "look t k = look db k"
      using fe k(1) by auto
    have "k \<in> set ids" using k(1) by simp
    then have "0 < demand (inItems inp) k" using demand_positive [OF ok] ids by simp
    then have "e = explainReserveMiss db k (demand (inItems inp) k) now"
      using t sp(4) [of k] wf_look_check [of t k]
      by (auto simp: reserve_class_def Let_def guarded_eq same_rows_def explainReserveMiss_def
          reserve_guard_onSale intro: check_addReserved split: option.splits if_splits)
    moreover have "reserve_fits db (inItems inp) now j" if "j \<in> set ids" "j < k" for j
      using that sp(1,2) k(1,3) by (auto simp: sorted_append)
    ultimately show ?thesis using k(1,2) ids by (metis in_set_conv_decomp)
  qed
qed

section \<open>The expiry batch\<close>

lemma update_tc_hit:
  assumes "wf_db db" and "look db k = Some tc" and "g tc" and "tc_check (f tc)"
  shows "\<exists>n. update_tc (\<lambda>tc. tcID tc = k \<and> g tc) f db = Inr (set_tc k f db, Suc n)"
proof -
  have "guarded ErrNotFound k g f db = Inr (set_tc k f db)"
    using guarded_eq [OF assms(1), of ErrNotFound k g f] assms(2-4) by simp
  then show ?thesis
    by (auto simp: guarded_def gr0_conv_Suc split: sum.splits prod.splits if_splits)
qed

lemma update_tc_miss:
  assumes "\<And>tc. look db k = Some tc \<Longrightarrow> \<not> g tc" and "wf_db db"
  shows "update_tc (\<lambda>tc. tcID tc = k \<and> g tc) f db = Inr (db, 0)"
proof -
  have no: "\<not> (tcID tc = k \<and> g tc)" if "tc \<in> set (ticket_class_table db)" for tc
    using assms(1) look_Some_iff [OF assms(2)] that by blast
  then have "map (\<lambda>tc. if tcID tc = k \<and> g tc then f tc else tc) (ticket_class_table db) =
      ticket_class_table db" by (intro map_idI) auto
  moreover have "filter (\<lambda>tc. tcID tc = k \<and> g tc) (ticket_class_table db) = []"
    using no by (simp add: filter_empty_conv)
  moreover have "\<not> list_ex (\<lambda>tc. (tcID tc = k \<and> g tc) \<and> \<not> tc_check (f tc)) (ticket_class_table db)"
    using no by (auto simp: list_ex_iff)
  ultimately show ?thesis by (simp add: update_tc_def update_where_def)
qed

definition drifts :: "(int \<times> int) list \<Rightarrow> invdb \<Rightarrow> int \<Rightarrow> bool" where
  "drifts m db k \<longleftrightarrow> \<not> (\<exists>tc. look db k = Some tc \<and> tcReserved tc \<ge> lookup0 m k)"

lemma expire_classes_spec:
  assumes "wf_db db" and "qty_nonneg m" and "distinct ks"
  shows "\<exists>db'. expire_classes m ks (db, dr) = Inr (db', dr @ filter (drifts m db) ks) \<and>
     same_rows db db' \<and>
     look db' = (\<lambda>k. if k \<in> set ks \<and> \<not> drifts m db k
                     then map_option (subReserved (lookup0 m k)) (look db k) else look db k)"
  using assms
proof (induction ks arbitrary: db dr)
  case Nil
  then show ?case by (simp add: same_rows_refl)
next
  case (Cons k ks)
  let ?db = "if drifts m db k then db else set_tc k (subReserved (lookup0 m k)) db"
  let ?dr = "if drifts m db k then dr @ [k] else dr"
  have q: "0 \<le> lookup0 m k" using Cons.prems(2) by (simp add: qty_nonneg_def)
  have step: "expire_classes m (k # ks) (db, dr) = expire_classes m ks (?db, ?dr)"
  proof (cases "drifts m db k")
    case True
    then have "update_tc (\<lambda>tc. tcID tc = k \<and> lookup0 m k \<le> tcReserved tc) (subReserved (lookup0 m k)) db
        = Inr (db, 0)"
      by (intro update_tc_miss) (auto simp: drifts_def Cons.prems(1))
    with True show ?thesis by simp
  next
    case False
    then obtain tc where tc: "look db k = Some tc" "tcReserved tc \<ge> lookup0 m k"
      by (auto simp: drifts_def)
    have "tc_check (subReserved (lookup0 m k) tc)"
      using wf_look_check [OF Cons.prems(1) tc(1)] tc(2) q by (intro check_subReserved)
    from update_tc_hit [where f = "subReserved (lookup0 m k)"
        and g = "\<lambda>tc. lookup0 m k \<le> tcReserved tc", OF Cons.prems(1) tc(1) tc(2) this]
    obtain n where "update_tc (\<lambda>tc. tcID tc = k \<and> lookup0 m k \<le> tcReserved tc)
        (subReserved (lookup0 m k)) db = Inr (set_tc k (subReserved (lookup0 m k)) db, Suc n)"
      by blast
    with False show ?thesis by simp
  qed
  have rows: "same_rows db ?db"
    using Cons.prems(1) q
    by (auto simp: drifts_def same_rows_refl intro!: same_rows_set_tc check_subReserved
        dest: wf_look_check)
  have lk: "look ?db = (if drifts m db k then look db
      else (look db)(k := map_option (subReserved (lookup0 m k)) (look db k)))"
    by (simp add: look_set_tc)
  have dr: "drifts m ?db j \<longleftrightarrow> drifts m db j" if "j \<noteq> k" for j
  proof -
    have "look ?db j = look db j" using that unfolding lk by simp
    then show ?thesis by (simp only: drifts_def)
  qed
  from Cons.IH [of ?db ?dr] Cons.prems rows obtain db'
    where db': "expire_classes m ks (?db, ?dr) = Inr (db', ?dr @ filter (drifts m ?db) ks)"
      "same_rows ?db db'"
      "look db' = (\<lambda>k. if k \<in> set ks \<and> \<not> drifts m ?db k
                     then map_option (subReserved (lookup0 m k)) (look ?db k) else look ?db k)"
    by (auto simp: same_rows_def)
  have kin: "k \<notin> set ks" using Cons.prems(3) by simp
  then have "filter (drifts m ?db) ks = filter (drifts m db) ks"
    by (intro filter_cong refl dr) blast
  moreover have "look db' j = (if j \<in> set (k # ks) \<and> \<not> drifts m db j
      then map_option (subReserved (lookup0 m j)) (look db j) else look db j)" for j
    using fun_cong [OF db'(3), of j] dr [of j] kin by (cases "j = k") (auto simp: lk)
  moreover have "same_rows db db'" using rows db'(2) by (auto simp: same_rows_def)
  ultimately show ?case using step db'(1) by auto
qed

lemma selectBatch_rows:
  assumes "wf_db db"
  shows "distinct (map rID (selectBatch now locked n ex db))"
    and "r \<in> set (selectBatch now locked n ex db) \<Longrightarrow>
      r \<in> set (reservation_table db) \<and> overdue now locked ex r"
proof -
  let ?f = "filter (overdue now locked ex) (reservation_table db)"
  have "mset (map rID (sort_key rExpiresAt ?f)) = mset (map rID ?f)" by simp
  then have "distinct (map rID (sort_key rExpiresAt ?f)) = distinct (map rID ?f)"
    by (metis mset_eq_imp_distinct_iff)
  then have "distinct (map rID (sort_key rExpiresAt ?f))"
    using wf_r_distinct [OF assms] by (simp add: distinct_map_filter)
  then show "distinct (map rID (selectBatch now locked n ex db))"
    by (simp add: selectBatch_def take_map [symmetric] distinct_take)
  assume "r \<in> set (selectBatch now locked n ex db)"
  then show "r \<in> set (reservation_table db) \<and> overdue now locked ex r"
    unfolding selectBatch_def by (auto dest!: in_set_takeD)
qed

section \<open>The gap between the counters and the reservations\<close>

text \<open>
  \<open>gap db k\<close>: how far the counters of class \<open>k\<close> are from the sums over its reservations.
  Every transaction keeps it, so drift can only enter from outside and never spreads.
\<close>

definition gap :: "invdb \<Rightarrow> int \<Rightarrow> (int \<times> int) option" where
  "gap db k = map_option (\<lambda>tc. (tcReserved tc - held db k, tcSold tc - paid db k)) (look db k)"

lemma no_drift_gap:
  "wf_db db \<Longrightarrow> no_drift db \<longleftrightarrow> (\<forall>k. gap db k = None \<or> gap db k = Some (0, 0))"
proof -
  assume wf: "wf_db db"
  have "(\<forall>tc. look db k = Some tc \<longrightarrow> tcReserved tc = held db k \<and> tcSold tc = paid db k) \<longleftrightarrow>
      gap db k = None \<or> gap db k = Some (0, 0)" for k
    by (cases "look db k") (auto simp: gap_def)
  then show ?thesis by (simp add: no_drift_look [OF wf])
qed

lemma gap_keeps_no_drift:
  "no_drift db \<Longrightarrow> wf_db db \<Longrightarrow> wf_db db' \<Longrightarrow> gap db' = gap db \<Longrightarrow> no_drift db'"
  by (simp add: no_drift_gap)

lemma gap_eqI:
  assumes "look db' = (\<lambda>k. map_option (f k) (look db k))"
    and "\<And>k tc. look db k = Some tc \<Longrightarrow>
      tcReserved (f k tc) - tcReserved tc = held db' k - held db k \<and>
      tcSold (f k tc) - tcSold tc = paid db' k - paid db k"
  shows "gap db' = gap db"
proof
  fix k
  show "gap db' k = gap db k"
  proof (cases "look db k")
    case None
    then show ?thesis by (simp add: gap_def assms(1))
  next
    case (Some tc)
    from assms(2) [OF this] Some show ?thesis by (auto simp: gap_def assms(1))
  qed
qed

lemma order_qty_split:
  "held db k = order_qty db oc k ReservationStatusActive
     + qty_where (\<lambda>r. rOrderCode r \<noteq> oc \<and> rTicketClassID r = k \<and> rStatus r = ReservationStatusActive) db"
  "paid db k = order_qty db oc k ReservationStatusConfirmed
     + qty_where (\<lambda>r. rOrderCode r \<noteq> oc \<and> rTicketClassID r = k \<and> rStatus r = ReservationStatusConfirmed) db"
  unfolding held_def paid_def order_qty_def by (rule qty_where_split)+

lemma confirmable_no_paid:
  assumes "list_all confirmable (orderRows db oc)"
  shows "order_qty db oc k ReservationStatusConfirmed = 0"
  unfolding order_qty_rows
  by (rule sum_where_none) (use assms in \<open>auto simp: list_all_iff confirmable_def\<close>)

lemma confirm_sums:
  assumes con: "list_all confirmable (orderRows db oc)"
    and tab: "reservation_table db' = reservation_table
        (update_reservations (\<lambda>r. rOrderCode r = oc) ReservationStatusConfirmed db)"
  shows "held db' k = held db k - order_qty db oc k ReservationStatusActive"
    and "paid db' k = paid db k + order_qty db oc k ReservationStatusActive
       + order_qty db oc k ReservationStatusExpired"
  using order_qty_split [of db k oc] confirmable_no_paid [OF con] list_all_confirmable_qty [OF con, of k]
  unfolding same_table_sums(1) [OF tab] same_table_sums(2) [OF tab] sums_update by simp_all

lemma active_of_sums:
  assumes tab: "reservation_table db' = reservation_table (update_reservations (active_of oc) st db)"
    and "st \<noteq> ReservationStatusActive" and "st \<noteq> ReservationStatusConfirmed"
  shows "held db' k = held db k - order_qty db oc k ReservationStatusActive" and "paid db' k = paid db k"
proof -
  have "qty_where (\<lambda>r. \<not> active_of oc r \<and> rTicketClassID r = k \<and> rStatus r = ReservationStatusActive) db =
      qty_where (\<lambda>r. rOrderCode r \<noteq> oc \<and> rTicketClassID r = k \<and> rStatus r = ReservationStatusActive) db"
    "qty_where (\<lambda>r. \<not> active_of oc r \<and> rTicketClassID r = k \<and> rStatus r = ReservationStatusConfirmed) db =
      paid db k"
    unfolding paid_def by (rule qty_where_cong, auto simp: active_of_def)+
  then show "held db' k = held db k - order_qty db oc k ReservationStatusActive" "paid db' k = paid db k"
    using assms(2,3) order_qty_split [of db k oc]
    unfolding same_table_sums(1) [OF tab] same_table_sums(2) [OF tab] sums_update by simp_all
qed

lemma reserve_sums:
  assumes tab: "reservation_table db' = reservation_table db @ number_rows n (reserve_rows inp)"
    and agg: "aggregateDemand (inItems inp) = (ids, m)"
  shows "held db' k = held db k + demand (inItems inp) k" and "paid db' k = paid db k"
proof -
  note sp = aggregateDemand_spec [OF agg] and p = reserve_rows_props [OF agg]
  have new: "sum_where (\<lambda>r. rTicketClassID r = k \<and> rStatus r = st) rQty (number_rows n (reserve_rows inp)) =
      (if st = ReservationStatusActive then demand (inItems inp) k else 0)" for st
  proof -
    have "sum_where (\<lambda>r. rTicketClassID r = k \<and> rStatus r = st) rQty (reserve_rows inp) =
        (if st = ReservationStatusActive then sum_where (\<lambda>j. j = k) (demand (inItems inp)) ids else 0)"
      unfolding reserve_rows_def agg fst_conv
      by (induction ids) (auto simp: buildModel_def)
    moreover have "sum_where (\<lambda>j. j = k) (demand (inItems inp)) ids = demand (inItems inp) k"
    proof (cases "k \<in> set ids")
      case True
      then show ?thesis using sp(2) by (induction ids) (auto intro: sum_where_none)
    next
      case False
      then have "sum_where (\<lambda>j. j = k) (demand (inItems inp)) ids = 0"
        by (intro sum_where_none) blast
      with False show ?thesis using demand_absent [of k "inItems inp"] sp(3) by simp
    qed
    ultimately show ?thesis by (simp add: sum_where_number_rows)
  qed
  show "held db' k = held db k + demand (inItems inp) k" "paid db' k = paid db k"
    by (simp_all add: held_def paid_def qty_where_def tab new)
qed

section \<open>Every transaction keeps the database well formed and the gap\<close>

lemma confirmTx_keeps [keeps]:
  assumes wf: "wf_db db" and tx: "confirmReservationTx oc db = Inr db'"
  shows "wf_db db' \<and> gap db' = gap db"
proof (cases "list_all (\<lambda>r. rStatus r = ReservationStatusConfirmed) (orderRows db oc)")
  case True
  with assms show ?thesis by (auto simp: confirmReservationTx_def Let_def split: if_splits)
next
  case False
  have con: "list_all confirmable (orderRows db oc)"
  proof (rule ccontr)
    assume "\<not> list_all confirmable (orderRows db oc)"
    from tx False collectDeltas_error [OF this, of "[]" "[]"] show False
      by (auto simp: confirmReservationTx_def Let_def split: if_splits)
  qed
  from confirmTx_pending(2) [OF wf False con tx]
  have eff: "wf_db db'" "look db' = (\<lambda>k. map_option (confirmed_class db oc k) (look db k))"
    "reservation_table db' = reservation_table
        (update_reservations (\<lambda>r. rOrderCode r = oc) ReservationStatusConfirmed db)" by auto
  have "gap db' = gap db"
    by (rule gap_eqI [OF eff(2)])
      (simp add: confirm_sums [OF con eff(3)] confirmed_class_def confirm_upd_def)
  with eff(1) show ?thesis by simp
qed

lemma releaseTx_keeps [keeps]:
  assumes wf: "wf_db db" and tx: "cancelReservationTx oc db = Inr db'"
  shows "wf_db db' \<and> gap db' = gap db"
proof -
  have nc: "\<not> has_confirmed db oc" using tx releaseTx_confirmed [of db oc] by auto
  from releaseTx_step(2) [OF wf nc tx]
  have eff: "wf_db db'"
    "look db' = (\<lambda>k. map_option (subReserved (order_qty db oc k ReservationStatusActive)) (look db k))"
    "reservation_table db' = reservation_table
        (update_reservations (active_of oc) ReservationStatusCancelled db)" by auto
  have "gap db' = gap db"
    by (rule gap_eqI [OF eff(2)]) (simp add: active_of_sums [OF eff(3)] subReserved_def)
  with eff(1) show ?thesis by simp
qed

lemma reserveTx_keeps [keeps]:
  assumes wf: "wf_db db" and ok: "valid_items (inItems inp)" and tx: "reserveTx inp now db = Inr db'"
  shows "wf_db db' \<and> gap db' = gap db"
proof (cases "orderRows db (inOrderCode inp) = []")
  case False
  with assms show ?thesis by (auto simp: reserveTx_again split: if_splits)
next
  case True
  obtain ids m where agg: "aggregateDemand (inItems inp) = (ids, m)" by (cases "aggregateDemand (inItems inp)")
  from reserveTx_fresh(2) [OF wf True ok tx]
  have eff: "wf_db db'"
    "look db' = (\<lambda>k. map_option (addReserved (demand (inItems inp) k)) (look db k))"
    "reservation_table db' = reservation_table db @ number_rows (r_seq db) (reserve_rows inp)" by auto
  have "gap db' = gap db"
    by (rule gap_eqI [OF eff(2)]) (simp add: reserve_sums [OF eff(3) agg] addReserved_def)
  with eff(1) show ?thesis by simp
qed

lemma sum_where_ids:
  assumes "distinct (map key t)" and "distinct (map key rs)" and "set rs \<subseteq> set t"
  shows "sum_where (\<lambda>r. key r \<in> set (map key rs) \<and> p r) f t = sum_where p f rs"
proof -
  have inj: "inj_on key (set t)" using assms(1) by (simp add: distinct_map)
  have "set (filter (\<lambda>r. key r \<in> set (map key rs)) t) = set rs"
  proof (intro equalityI subsetI)
    fix r assume "r \<in> set (filter (\<lambda>r. key r \<in> set (map key rs)) t)"
    then obtain x where "r \<in> set t" "x \<in> set rs" "key r = key x" by auto
    with inj_onD [OF inj this(3)] assms(3) show "r \<in> set rs" by auto
  qed (use assms(3) in auto)
  moreover have "distinct (filter (\<lambda>r. key r \<in> set (map key rs)) t)" "distinct rs"
    using assms(1,2) by (simp_all add: distinct_map)
  ultimately have "mset (filter (\<lambda>r. key r \<in> set (map key rs)) t) = mset rs"
    by (simp only: set_eq_iff_mset_eq_distinct [symmetric])
  then have "sum_list (map f (filter p (filter (\<lambda>r. key r \<in> set (map key rs)) t))) =
      sum_list (map f (filter p rs))"
    unfolding sum_mset_sum_list [symmetric] mset_map mset_filter by simp
  then show ?thesis by (simp add: sum_where_def conj_commute)
qed

text \<open>The expiry batch: rows of drifted classes stay, the others expire.\<close>

definition batch_qty :: "reservation list \<Rightarrow> (int \<times> int) list" where
  "batch_qty rs = tally rTicketClassID rQty rs []"

lemma batch_expireTx:
  assumes wf: "wf_db db"
  shows "\<exists>db' drifted. selectAndExpireBatch now locked n ex db =
       Inr (db', map rID (filter (\<lambda>r. \<not> drifts (batch_qty (selectBatch now locked n ex db)) db (rTicketClassID r))
                     (selectBatch now locked n ex db)), drifted) \<and>
     set drifted = {k \<in> rTicketClassID ` set (selectBatch now locked n ex db).
                      drifts (batch_qty (selectBatch now locked n ex db)) db k} \<and>
     wf_db db' \<and> gap db' = gap db \<and>
     reservation_table db' = reservation_table (update_reservations
       (\<lambda>r. rID r \<in> set (map rID (filter
          (\<lambda>r. \<not> drifts (batch_qty (selectBatch now locked n ex db)) db (rTicketClassID r))
          (selectBatch now locked n ex db)))) ReservationStatusExpired db)"
proof -
  let ?rs = "selectBatch now locked n ex db"
  let ?m = "batch_qty ?rs"
  let ?ok = "\<lambda>r. \<not> drifts ?m db (rTicketClassID r)"
  note rows = selectBatch_rows [OF wf, where now = now and locked = locked and n = n and ex = ex]
  have m: "lookup0 ?m k = sum_where (\<lambda>r. rTicketClassID r = k) rQty ?rs" for k
    by (simp add: batch_qty_def lookup0_tally)
  have keys: "set (sorted_keys ?m) = rTicketClassID ` set ?rs" by (simp add: batch_qty_def keys_tally)
  have dis: "distinct (sorted_keys ?m)" by (simp add: batch_qty_def distinct_sorted_keys distinct_tally)
  have nn: "qty_nonneg ?m"
    unfolding qty_nonneg_def m using rows(2) wf_r [OF wf] by (fastforce intro!: sum_where_nonneg)
  show ?thesis
  proof (cases "?rs = []")
    case True
    then show ?thesis using wf
      by (auto simp: selectAndExpireBatch_def Let_def update_reservations_none)
  next
    case False
    define dr where "dr = filter (drifts ?m db) (sorted_keys ?m)"
    have drset: "set dr = {k \<in> rTicketClassID ` set ?rs. drifts ?m db k}"
      unfolding dr_def set_filter keys by blast
    obtain s where s: "expire_classes ?m (sorted_keys ?m) (db, []) = Inr (s, dr)" "same_rows db s"
      "look s = (\<lambda>k. if k \<in> set (sorted_keys ?m) \<and> \<not> drifts ?m db k
                  then map_option (subReserved (lookup0 ?m k)) (look db k) else look db k)"
      using expire_classes_spec [OF wf nn dis, of "[]"] by (auto simp: dr_def)
    let ?ids = "map rID (filter ?ok ?rs)"
    have ids: "map rID (filter (\<lambda>r. rTicketClassID r \<notin> set dr) ?rs) = ?ids"
      by (rule arg_cong [where f = "map rID"], rule filter_cong) (auto simp: drset)
    let ?db' = "update_reservations (\<lambda>r. rID r \<in> set ?ids) ReservationStatusExpired s"
    have run: "selectAndExpireBatch now locked n ex db = Inr (?db', ?ids, dr)"
    proof -
      have eq: "selectAndExpireBatch now locked n ex db =
          (let expiredIDs = map rID (filter (\<lambda>r. rTicketClassID r \<notin> set dr) ?rs)
           in if expiredIDs = [] then Inr (s, expiredIDs, dr)
              else Inr (update_reservations (\<lambda>r. rID r \<in> set expiredIDs) ReservationStatusExpired s,
                        expiredIDs, dr))"
        using False s(1) by (simp add: selectAndExpireBatch_def Let_def batch_qty_def [symmetric])
      have "?db' = s" if "?ids = []"
        unfolding that by (intro update_reservations_none) simp
      then show ?thesis unfolding eq ids Let_def by presburger
    qed
    have wfs: "wf_db s" and tab: "reservation_table s = reservation_table db"
      using s(2) by (auto simp: same_rows_def)
    have wf': "wf_db ?db'" by (rule wf_update_reservations [OF wfs])
    have cut: "qty_where (\<lambda>r. rID r \<in> set ?ids \<and> rTicketClassID r = k \<and> rStatus r = st) db =
        (if st = ReservationStatusActive \<and> \<not> drifts ?m db k then lookup0 ?m k else 0)" for k st
    proof -
      have "qty_where (\<lambda>r. rID r \<in> set ?ids \<and> rTicketClassID r = k \<and> rStatus r = st) db =
          sum_where (\<lambda>r. rTicketClassID r = k \<and> rStatus r = st) rQty (filter ?ok ?rs)"
        unfolding qty_where_def
        by (rule sum_where_ids [OF wf_r_distinct [OF wf]])
          (use rows in \<open>auto simp: distinct_map_filter\<close>)
      also have "\<dots> = (if st = ReservationStatusActive \<and> \<not> drifts ?m db k then lookup0 ?m k else 0)"
        unfolding m sum_where_filter using rows(2)
        by (auto simp: overdue_def intro!: sum_where_cong sum_where_none)
      finally show ?thesis .
    qed
    have notids: "lookup0 ?m k = 0" if "k \<notin> set (sorted_keys ?m)" for k
      using that unfolding m keys by (intro sum_where_none) blast
    have "gap ?db' = gap db"
    proof (rule gap_eqI [where f = "\<lambda>k. if drifts ?m db k then (\<lambda>tc. tc) else subReserved (lookup0 ?m k)"], goal_cases)
      case 1
      show ?case using notids by (auto simp: fun_eq_iff s(3) option.map_ident)
    next
      case (2 k tc)
      have "held ?db' k = held db k - (if drifts ?m db k then 0 else lookup0 ?m k)" "paid ?db' k = paid db k"
        using cut [of k ReservationStatusActive] cut [of k ReservationStatusConfirmed]
          qty_where_split [of "\<lambda>r. rTicketClassID r = k \<and> rStatus r = ReservationStatusActive" db "\<lambda>r. rID r \<in> set ?ids"]
          qty_where_split [of "\<lambda>r. rTicketClassID r = k \<and> rStatus r = ReservationStatusConfirmed" db "\<lambda>r. rID r \<in> set ?ids"]
        unfolding sums_update same_table_sums(4) [OF tab] by (simp_all add: held_def paid_def)
      then show ?case by (simp add: subReserved_def)
    qed
    moreover have "reservation_table ?db' = reservation_table (update_reservations
        (\<lambda>r. rID r \<in> set ?ids) ReservationStatusExpired db)"
      using same_rows_update [OF s(2)] by simp
    ultimately show ?thesis using run drset wf' by blast
  qed
qed

end
