(* ===== verification/Inventory_TicketClass.thy ===== *)
theory Inventory_TicketClass
  imports Inventory_Laws
begin

text \<open>
  \<open>inventory-svc/internal/services/ticketclass.go\<close>, with its builder and types: the
  operations on ticket classes, and how the read side (CheckAvailability, GetEventStock)
  agrees with the write side (Reserve). A sequence value a refused insert consumed is not
  counted: only that ids are fresh matters.
\<close>

section \<open>Inputs\<close>

record create_ticket_class_input =
  ciEventID :: string
  ciName :: string
  ciPriceCents :: int
  ciCurrency :: string
  ciTotal :: int
  ciSaleStartAt :: "time option"
  ciSaleEndAt :: "time option"

record update_ticket_class_input =
  uiName :: "string option"
  uiPriceCents :: "int option"
  uiCurrency :: "string option"
  uiTotal :: "int option"
  uiSaleStartAt :: "time option"
  uiSaleEndAt :: "time option"
  uiStatus :: "string option"

record get_many_input =
  gmEventID :: string
  gmIDs :: "int list"

record event_stock =
  esTotal :: int
  esSold :: int
  esAvailable :: int

section \<open>Create\<close>

definition buildTicketClass :: "create_ticket_class_input \<Rightarrow> ticket_class" where
  "buildTicketClass i =
     \<lparr>tcID = 0, tcEventID = ciEventID i, tcName = ciName i, tcPriceCents = ciPriceCents i,
      tcCurrency = ciCurrency i, tcTotal = ciTotal i, tcReserved = 0, tcSold = 0,
      tcSaleStartAt = ciSaleStartAt i, tcSaleEndAt = ciSaleEndAt i,
      tcStatus = TicketClassStatusActive\<rparr>"

definition CreateTicketClass ::
  "create_ticket_class_input \<Rightarrow> invdb \<Rightarrow> invdb \<times> (inv_error + ticket_class)" where
  "CreateTicketClass i db =
     (let tc = (buildTicketClass i)\<lparr>tcID := tc_seq db\<rparr>
      in if \<not> tc_check tc then (db, Inl (ErrConstraint ''ticket_class''))
         else if idx_event_name tc \<in> idx_event_name ` set (ticket_class_table db)
           then (db, Inl (ErrConstraint ''idx_event_name''))
         else (db\<lparr>ticket_class_table := ticket_class_table db @ [tc], tc_seq := tc_seq db + 1\<rparr>, Inr tc))"

section \<open>Update\<close>

text \<open>A column of the update, in the order \<open>updateColumns\<close> looks at the fields.\<close>

datatype tc_column =
  ColName string | ColPriceCents int | ColCurrency string | ColTotal int
  | ColSaleStartAt time | ColSaleEndAt time | ColStatus ticket_class_status

definition status_of :: "string \<Rightarrow> ticket_class_status" where
  "status_of s = (if s = ''ACTIVE'' then TicketClassStatusActive
                  else if s = ''INACTIVE'' then TicketClassStatusInactive
                  else TicketClassStatusOther s)"

definition if_set :: "('a \<Rightarrow> tc_column) \<Rightarrow> 'a option \<Rightarrow> tc_column list" where
  "if_set c x = (case x of None \<Rightarrow> [] | Some v \<Rightarrow> [c v])"

definition updateColumns :: "update_ticket_class_input \<Rightarrow> tc_column list" where
  "updateColumns i =
     if_set ColName (uiName i) @ if_set ColPriceCents (uiPriceCents i)
     @ if_set ColCurrency (uiCurrency i) @ if_set ColTotal (uiTotal i)
     @ if_set ColSaleStartAt (uiSaleStartAt i) @ if_set ColSaleEndAt (uiSaleEndAt i)
     @ if_set (\<lambda>s. ColStatus (status_of s)) (uiStatus i)"

fun write_column :: "tc_column \<Rightarrow> ticket_class \<Rightarrow> ticket_class" where
  "write_column (ColName v) tc = tc\<lparr>tcName := v\<rparr>"
| "write_column (ColPriceCents v) tc = tc\<lparr>tcPriceCents := v\<rparr>"
| "write_column (ColCurrency v) tc = tc\<lparr>tcCurrency := v\<rparr>"
| "write_column (ColTotal v) tc = tc\<lparr>tcTotal := v\<rparr>"
| "write_column (ColSaleStartAt v) tc = tc\<lparr>tcSaleStartAt := Some v\<rparr>"
| "write_column (ColSaleEndAt v) tc = tc\<lparr>tcSaleEndAt := Some v\<rparr>"
| "write_column (ColStatus v) tc = tc\<lparr>tcStatus := v\<rparr>"

definition write_columns :: "tc_column list \<Rightarrow> ticket_class \<Rightarrow> ticket_class" where
  "write_columns cols tc = fold write_column cols tc"

definition below_committed :: "update_ticket_class_input \<Rightarrow> ticket_class \<Rightarrow> bool" where
  "below_committed i tc \<longleftrightarrow>
     (case uiTotal i of None \<Rightarrow> False | Some t \<Rightarrow> t < tcReserved tc + tcSold tc)"

definition name_taken :: "invdb \<Rightarrow> int \<Rightarrow> ticket_class \<Rightarrow> bool" where
  "name_taken db k tc \<longleftrightarrow>
     list_ex (\<lambda>o'. tcID o' \<noteq> k \<and> idx_event_name o' = idx_event_name tc) (ticket_class_table db)"

definition UpdateTicketClass ::
  "int \<Rightarrow> update_ticket_class_input \<Rightarrow> invdb \<Rightarrow> invdb \<times> (inv_error + ticket_class)" where
  "UpdateTicketClass k i db =
     (let cols = updateColumns i
      in case look db k of
           None \<Rightarrow> (db, Inl ErrNotFound)
         | Some tc \<Rightarrow>
             if below_committed i tc then (db, Inl ErrStateConflict)
             else if cols = [] then (db, Inr tc)
             else if name_taken db k (write_columns cols tc)
               then (db, Inl (ErrConstraint ''idx_event_name''))
             else (case update_tc (\<lambda>r. tcID r = k) (write_columns cols) db of
                     Inl e \<Rightarrow> (db, Inl e)
                   | Inr (db', _) \<Rightarrow>
                       (case look db' k of None \<Rightarrow> (db, Inl ErrNotFound) | Some tc' \<Rightarrow> (db', Inr tc'))))"

section \<open>Reads\<close>

definition GetByID :: "int \<Rightarrow> invdb \<Rightarrow> inv_error + ticket_class" where
  "GetByID k db = (case look db k of None \<Rightarrow> Inl ErrNotFound | Some tc \<Rightarrow> Inr tc)"

definition GetMany :: "get_many_input \<Rightarrow> invdb \<Rightarrow> ticket_class list" where
  "GetMany i db =
     filter (\<lambda>tc. (gmEventID i \<noteq> [] \<longrightarrow> tcEventID tc = gmEventID i)
                  \<and> (gmIDs i \<noteq> [] \<longrightarrow> tcID tc \<in> set (gmIDs i))) (ticket_class_table db)"

definition GetAvailableCount :: "int \<Rightarrow> invdb \<Rightarrow> inv_error + int" where
  "GetAvailableCount k db =
     (case look db k of None \<Rightarrow> Inl ErrNotFound
      | Some tc \<Rightarrow> Inr (tcTotal tc - tcReserved tc - tcSold tc))"

fun check_loop :: "ticket_class list \<Rightarrow> (int \<times> int) list \<Rightarrow> time \<Rightarrow> bool" where
  "check_loop [] m now = True"
| "check_loop (tc # tcs) m now =
     (if \<not> onSale tc now then False
      else if tcTotal tc - tcReserved tc - tcSold tc < lookup0 m (tcID tc) then False
      else check_loop tcs m now)"

definition CheckAvailability :: "reserve_item list \<Rightarrow> time \<Rightarrow> invdb \<Rightarrow> bool" where
  "CheckAvailability ins now db =
     (if ins = [] then True
      else let (ids, m) = aggregateDemand ins;
               tcs = filter (\<lambda>tc. tcID tc \<in> set ids) (ticket_class_table db)
           in if length tcs \<noteq> length ids then False else check_loop tcs m now)"

definition GetEventStock :: "string \<Rightarrow> time \<Rightarrow> invdb \<Rightarrow> event_stock" where
  "GetEventStock ev now db =
     (let p = (\<lambda>tc. tcEventID tc = ev \<and> tcStatus tc = TicketClassStatusActive
                  \<and> (case tcSaleEndAt tc of None \<Rightarrow> True | Some t \<Rightarrow> t \<ge> now));
          q = (\<lambda>tc. p tc \<and> (case tcSaleStartAt tc of None \<Rightarrow> True | Some t \<Rightarrow> t \<le> now))
      in \<lparr>esTotal = sum_where p tcTotal (ticket_class_table db),
          esSold = sum_where p tcSold (ticket_class_table db),
          esAvailable = sum_where q (\<lambda>tc. tcTotal tc - tcReserved tc - tcSold tc) (ticket_class_table db)\<rparr>)"

section \<open>Delete\<close>

definition deleteTerminalReservations :: "int \<Rightarrow> invdb \<Rightarrow> invdb" where
  "deleteTerminalReservations k db =
     db\<lparr>reservation_table :=
       filter (\<lambda>r. \<not> (rTicketClassID r = k \<and> terminal (rStatus r))) (reservation_table db)\<rparr>"

definition deleteTx :: "int \<Rightarrow> invdb \<Rightarrow> inv_error + invdb" where
  "deleteTx k db =
     (case look db k of
        None \<Rightarrow> Inr db
      | Some tc \<Rightarrow>
          let liveCount = length (filter (\<lambda>r. rTicketClassID r = k \<and> live (rStatus r)) (reservation_table db))
          in if liveCount > 0 then Inl ErrStateConflict
             else let db' = deleteTerminalReservations k db
                  in if list_ex (\<lambda>r. rTicketClassID r = k) (reservation_table db')
                     then Inl (ErrConstraint ''fk_ticket_class_reservations'')
                     else Inr (db'\<lparr>ticket_class_table :=
                            filter (\<lambda>r. tcID r \<noteq> tcID tc) (ticket_class_table db')\<rparr>))"

definition DeleteTicketClass :: "int \<Rightarrow> invdb \<Rightarrow> invdb \<times> (inv_error + unit)" where
  "DeleteTicketClass k = transaction (deleteTx k)"

section \<open>What the operations keep\<close>

lemma held_absent:
  assumes "wf_db db" and "look db k = None"
  shows "held db k = 0" and "paid db k = 0"
proof -
  have no: "rTicketClassID r \<noteq> k" if "r \<in> set (reservation_table db)" for r
    using wf_r [OF assms(1) that] assms(2) by (auto simp: look_None)
  show "held db k = 0" "paid db k = 0"
    unfolding held_def paid_def qty_where_def by (rule sum_where_none, use no in blast)+
qed

lemma create_keeps [keeps]:
  assumes "consistent db" and "CreateTicketClass i db = (db', res)"
  shows "consistent db'"
proof (cases "db' = db")
  case True
  with assms(1) show ?thesis by simp
next
  case False
  let ?tc = "(buildTicketClass i)\<lparr>tcID := tc_seq db\<rparr>"
  have wf: "wf_db db" and nd: "no_drift db" using assms(1) by (auto simp: consistent_def)
  have ok: "tc_check ?tc"
    and db': "db' = db\<lparr>ticket_class_table := ticket_class_table db @ [?tc], tc_seq := tc_seq db + 1\<rparr>"
    using assms(2) False by (auto simp: CreateTicketClass_def Let_def split: if_splits)
  have new: "tc_seq db \<notin> tcID ` set (ticket_class_table db)"
    using wf_tc [OF wf] by (metis imageE less_irrefl)
  have wf': "wf_db db'"
    using wf ok new unfolding wf_db_def db' by (auto simp: less_imp_le dest!: bspec)
  have "held db' = held db" "paid db' = paid db"
    by (auto intro!: same_table_sums simp: db')
  moreover have "held db (tc_seq db) = 0" "paid db (tc_seq db) = 0"
    using held_absent [OF wf] new look_None [of db "tc_seq db"] by auto
  ultimately have "no_drift db'"
    using nd unfolding no_drift_def by (auto simp: db' buildTicketClass_def)
  with wf' show ?thesis by (simp add: consistent_def)
qed

lemma write_column_frame [simp]:
  "tcID (write_column c tc) = tcID tc" "tcReserved (write_column c tc) = tcReserved tc"
  "tcSold (write_column c tc) = tcSold tc" "tcEventID (write_column c tc) = tcEventID tc"
  by (cases c; simp)+

lemma write_columns_frame [simp]:
  "tcID (write_columns cs tc) = tcID tc" "tcReserved (write_columns cs tc) = tcReserved tc"
  "tcSold (write_columns cs tc) = tcSold tc" "tcEventID (write_columns cs tc) = tcEventID tc"
  unfolding write_columns_def by (induction cs arbitrary: tc) auto

lemma update_cases:
  assumes wf: "wf_db db" and up: "UpdateTicketClass k i db = (db', Inr tc')"
  obtains "db' = db" "look db k = Some tc'" "updateColumns i = []"
  | tc where "look db k = Some tc" "\<not> below_committed i tc" "tc' = write_columns (updateColumns i) tc"
      "tc_check tc'" "db' = set_tc k (write_columns (updateColumns i)) db"
proof -
  obtain tc where lk: "look db k = Some tc" "\<not> below_committed i tc"
    using up by (auto simp: UpdateTicketClass_def Let_def split: option.splits if_splits)
  show thesis
  proof (cases "updateColumns i = []")
    case True
    with up lk that(1) show ?thesis by (auto simp: UpdateTicketClass_def)
  next
    case False
    let ?f = "write_columns (updateColumns i)"
    obtain n where u: "update_tc (\<lambda>r. tcID r = k) ?f db = Inr (db', n)" "look db' k = Some tc'"
      using up lk False
      by (auto simp: UpdateTicketClass_def Let_def split: option.splits if_splits sum.splits)
    have tcin: "tc \<in> set (ticket_class_table db)" "tcID tc = k" using look_SomeD [OF lk(1)] by auto
    have chk: "tc_check (?f tc)"
      using u(1) tcin by (auto simp: update_tc_def list_ex_iff split: if_splits)
    have "db' = set_tc k ?f db"
      using u(1) by (auto simp: update_tc_def update_where_def set_tc_def split: if_splits)
    moreover from this have "tc' = ?f tc" using u(2) lk(1) by (simp add: look_set_tc)
    ultimately show ?thesis using lk chk that(2) by blast
  qed
qed

lemma update_error_keeps: "UpdateTicketClass k i db = (db', Inl e) \<Longrightarrow> db' = db"
  by (auto simp: UpdateTicketClass_def Let_def split: option.splits if_splits sum.splits)

lemma update_keeps [keeps]:
  assumes wf: "wf_db db" and up: "UpdateTicketClass k i db = (db', res)"
  shows "wf_db db' \<and> gap db' = gap db"
proof (cases res)
  case (Inl e)
  with up update_error_keeps wf show ?thesis by blast
next
  case (Inr tc')
  with up have "UpdateTicketClass k i db = (db', Inr tc')" by simp
  then show ?thesis
  proof (cases rule: update_cases [OF wf, consumes 1, case_names none cols])
    case none
    with wf show ?thesis by simp
  next
    case (cols tc)
    let ?f = "write_columns (updateColumns i)"
    have "wf_db db'" unfolding cols(5) using cols by (intro wf_set_tc wf) auto
    moreover have "look db' = (\<lambda>j. map_option (if j = k then ?f else (\<lambda>tc. tc)) (look db j))"
      unfolding cols(5) by (auto simp: look_set_tc fun_eq_iff option.map_ident)
    then have "gap db' = gap db" by (rule gap_eqI) (auto simp: cols(5))
    ultimately show ?thesis by simp
  qed
qed

lemma delete_ok:
  assumes wf: "wf_db db" and lk: "look db k = Some tc"
  shows "deleteTx k db =
     (if \<exists>r \<in> set (reservation_table db). rTicketClassID r = k \<and> live (rStatus r) then Inl ErrStateConflict
      else Inr (db\<lparr>ticket_class_table := filter (\<lambda>r. tcID r \<noteq> k) (ticket_class_table db),
                   reservation_table := filter (\<lambda>r. rTicketClassID r \<noteq> k) (reservation_table db)\<rparr>))"
proof -
  have part: "terminal st \<longleftrightarrow> \<not> live st" for st
    by (cases st) (auto simp: terminal_def live_def)
  have "filter (\<lambda>r. \<not> (rTicketClassID r = k \<and> terminal (rStatus r))) (reservation_table db) =
      filter (\<lambda>r. rTicketClassID r \<noteq> k) (reservation_table db)"
    if "\<not> (\<exists>r \<in> set (reservation_table db). rTicketClassID r = k \<and> live (rStatus r))"
    using that by (intro filter_cong) (auto simp: part)
  moreover have "tcID tc = k" using look_SomeD [OF lk] by simp
  moreover have "0 < length (filter (\<lambda>r. rTicketClassID r = k \<and> live (rStatus r)) (reservation_table db))
      \<longleftrightarrow> (\<exists>r \<in> set (reservation_table db). rTicketClassID r = k \<and> live (rStatus r))"
    by (simp add: filter_empty_conv)
  ultimately show ?thesis
    by (auto simp: deleteTx_def lk Let_def deleteTerminalReservations_def list_ex_iff)
qed

lemma delete_keeps [keeps]:
  assumes cons: "consistent db" and del: "deleteTx k db = Inr db'"
  shows "consistent db'"
proof (cases "look db k")
  case None
  with del cons show ?thesis by (simp add: deleteTx_def)
next
  case (Some tc)
  have wf: "wf_db db" and nd: "no_drift db" using cons by (auto simp: consistent_def)
  have db': "db' = db\<lparr>ticket_class_table := filter (\<lambda>r. tcID r \<noteq> k) (ticket_class_table db),
                   reservation_table := filter (\<lambda>r. rTicketClassID r \<noteq> k) (reservation_table db)\<rparr>"
    using del delete_ok [OF wf Some] by (simp split: if_splits)
  have "wf_db db'"
    using wf unfolding wf_db_def db' by (auto simp: distinct_map_filter image_iff)
  moreover have "held db' j = held db j \<and> paid db' j = paid db j" if "j \<noteq> k" for j
    using that unfolding held_def paid_def qty_where_def db'
    by (auto simp: sum_where_filter intro!: sum_where_cong)
  then have "no_drift db'" using nd unfolding no_drift_def by (auto simp: db')
  ultimately show ?thesis by (simp add: consistent_def)
qed

section \<open>The read side agrees with the write side\<close>

lemma check_loop_all:
  "check_loop tcs m now \<longleftrightarrow> (\<forall>tc \<in> set tcs. onSale tc now \<and>
      tcTotal tc - tcReserved tc - tcSold tc \<ge> lookup0 m (tcID tc))"
  by (induction tcs) auto

lemma found_all:
  assumes wf: "wf_db db" and "distinct ids"
  shows "length (filter (\<lambda>tc. tcID tc \<in> set ids) (ticket_class_table db)) = length ids \<longleftrightarrow>
     (\<forall>k \<in> set ids. look db k \<noteq> None)"
proof -
  let ?t = "filter (\<lambda>tc. tcID tc \<in> set ids) (ticket_class_table db)"
  have d: "distinct (map tcID ?t)" using wf_tc_distinct [OF wf] by (simp add: distinct_map_filter)
  have sub: "tcID ` set ?t \<subseteq> set ids" by auto
  have "length ?t = card (tcID ` set ?t)"
    using distinct_card [OF d] by simp
  moreover have "length ids = card (set ids)" using assms(2) by (simp add: distinct_card)
  ultimately have "length ?t = length ids \<longleftrightarrow> tcID ` set ?t = set ids"
    using card_subset_eq [OF _ sub] by auto
  also have "\<dots> \<longleftrightarrow> (\<forall>k \<in> set ids. k \<in> tcID ` set (ticket_class_table db))"
    by auto
  finally show ?thesis by (simp add: look_None)
qed

lemma checkAvailability_fits:
  assumes wf: "wf_db db" and ne: "items \<noteq> []"
  shows "CheckAvailability items now db \<longleftrightarrow>
     (\<forall>it \<in> set items. reserve_fits db items now (riTicketClassID it))"
proof -
  obtain ids m where agg: "aggregateDemand items = (ids, m)" by (cases "aggregateDemand items")
  note sp = aggregateDemand_spec [OF agg]
  have "CheckAvailability items now db \<longleftrightarrow>
      (\<forall>k \<in> set ids. look db k \<noteq> None) \<and>
      (\<forall>tc \<in> set (ticket_class_table db). tcID tc \<in> set ids \<longrightarrow>
         onSale tc now \<and> tcTotal tc - tcReserved tc - tcSold tc \<ge> demand items (tcID tc))"
    using found_all [OF wf sp(2)] ne
    by (auto simp: CheckAvailability_def agg check_loop_all sp(4) Let_def)
  also have "\<dots> \<longleftrightarrow> (\<forall>k \<in> set ids. reserve_fits db items now k)"
  proof (intro iffI ballI conjI impI; (elim conjE)?)
    fix k
    assume all: "\<forall>k \<in> set ids. look db k \<noteq> None"
      "\<forall>tc \<in> set (ticket_class_table db). tcID tc \<in> set ids \<longrightarrow>
         onSale tc now \<and> tcTotal tc - tcReserved tc - tcSold tc \<ge> demand items (tcID tc)"
      and k: "k \<in> set ids"
    then obtain tc where "look db k = Some tc" by fastforce
    with all(2) k look_SomeD [OF this] show "reserve_fits db items now k"
      by (auto simp: reserve_fits_def)
  next
    fix k assume "\<forall>k \<in> set ids. reserve_fits db items now k" "k \<in> set ids"
    then show "look db k \<noteq> None" by (auto simp: reserve_fits_def)
  next
    fix tc assume "\<forall>k \<in> set ids. reserve_fits db items now k" "tc \<in> set (ticket_class_table db)"
      "tcID tc \<in> set ids"
    then show "onSale tc now" "demand items (tcID tc) \<le> tcTotal tc - tcReserved tc - tcSold tc"
      using look_Some_iff [OF wf, of "tcID tc" tc] by (auto simp: reserve_fits_def)
  qed
  finally show ?thesis using sp(3) by auto
qed

end
