(* ===== verification/Inventory_Worker.thy ===== *)
theory Inventory_Worker
  imports Inventory_TicketClass
begin

text \<open>
  The expiry worker (\<open>inventory-svc/internal/workers/reservation_exp_worker.go\<close>): the
  constructor's defaults and \<open>runJob\<close>, a loop of at most 100 batches. What the worker needs
  of the service is the Go interface \<open>reservationExpirer\<close>, here the locale
  \<open>reservation_expirer\<close>; the service's own batch is its instance. Iteration \<open>i\<close>
  of a run sees the clock \<open>now i\<close> and the rows \<open>locked i\<close> other transactions hold.
  Tickers and goroutines are not modelled.
\<close>

record expiry_worker =
  wInterval :: duration
  wBatchSize :: int

definition NewReservationExpiryWorker :: "duration \<Rightarrow> int \<Rightarrow> expiry_worker" where
  "NewReservationExpiryWorker interval batchSize =
     \<lparr>wInterval = (if interval \<le> 0 then minute else interval),
      wBatchSize = (if batchSize \<le> 0 then 500 else batchSize)\<rparr>"

definition drainMaxIterations :: nat where "drainMaxIterations = 100"

text \<open>How a run ends: the number of rows expired, and whether it stopped as drained.\<close>

datatype job_end = JobFailed nat inv_error | JobDrained nat | JobHitCap nat

fun drain ::
  "(nat \<Rightarrow> int \<Rightarrow> 's \<Rightarrow> 's \<times> (inv_error + nat)) \<Rightarrow> int \<Rightarrow> nat list \<Rightarrow> nat \<Rightarrow> 's \<Rightarrow> 's \<times> job_end"
where
  "drain expire b [] tot s = (s, JobHitCap tot)"
| "drain expire b (i # its) tot s =
     (case expire i b s of
        (s', Inl e) \<Rightarrow> (s', JobFailed tot e)
      | (s', Inr n) \<Rightarrow> if int n < b then (s', JobDrained (tot + n))
                       else drain expire b its (tot + n) s')"

definition runJob ::
  "(nat \<Rightarrow> int \<Rightarrow> 's \<Rightarrow> 's \<times> (inv_error + nat)) \<Rightarrow> expiry_worker \<Rightarrow> 's \<Rightarrow> 's \<times> job_end" where
  "runJob expire w s = drain expire (wBatchSize w) [0 ..< drainMaxIterations] 0 s"

text \<open>The service's batch as the worker calls it.\<close>

definition expire_call ::
  "(nat \<Rightarrow> time) \<Rightarrow> (nat \<Rightarrow> int list) \<Rightarrow> nat \<Rightarrow> int \<Rightarrow> invdb \<Rightarrow> invdb \<times> (inv_error + nat)" where
  "expire_call now locked i b db = BatchExpireReservations (now i) (locked i) b db"

section \<open>The interface\<close>

text \<open>
  \<open>backlog s\<close> counts what is left to expire; a batch of size \<open>b\<close> takes
  \<open>min b (backlog s)\<close> of it.
\<close>

locale reservation_expirer =
  fixes expire :: "nat \<Rightarrow> int \<Rightarrow> 's \<Rightarrow> 's \<times> (inv_error + nat)"
    and inv :: "'s \<Rightarrow> bool"
    and backlog :: "'s \<Rightarrow> nat"
    and good_size :: "int \<Rightarrow> bool"
  assumes batch: "\<lbrakk>inv s; good_size b\<rbrakk> \<Longrightarrow>
      \<exists>s'. expire i b s = (s', Inr (min (nat b) (backlog s))) \<and> inv s' \<and>
           backlog s' = backlog s - min (nat b) (backlog s)"
    and size_pos: "good_size b \<Longrightarrow> 0 < b"
begin

lemma drain_spec:
  assumes "inv s" and "good_size b"
  shows "\<exists>s'. inv s' \<and> backlog s' = backlog s - length its * nat b \<and>
     drain expire b its tot s =
       (if backlog s < length its * nat b then (s', JobDrained (tot + backlog s))
        else (s', JobHitCap (tot + length its * nat b)))"
  using assms(1)
proof (induction its arbitrary: s tot)
  case Nil
  then show ?case by auto
next
  case (Cons i its)
  have b: "0 < b" by (rule size_pos [OF assms(2)])
  from batch [OF Cons.prems assms(2), of i] obtain s1
    where s1: "expire i b s = (s1, Inr (min (nat b) (backlog s)))" "inv s1"
      "backlog s1 = backlog s - min (nat b) (backlog s)" by blast
  show ?case
  proof (cases "backlog s < nat b")
    case True
    then have "int (min (nat b) (backlog s)) < b" by linarith
    moreover have "backlog s < length (i # its) * nat b" using True by simp
    moreover have "min (nat b) (backlog s) = backlog s" using True by simp
    ultimately show ?thesis using s1 by auto
  next
    case False
    then have m: "min (nat b) (backlog s) = nat b" "\<not> int (nat b) < b" using b by auto
    from Cons.IH [OF s1(2), of "tot + nat b"] obtain s2
      where s2: "inv s2" "backlog s2 = backlog s1 - length its * nat b"
        "drain expire b its (tot + nat b) s1 =
           (if backlog s1 < length its * nat b then (s2, JobDrained (tot + nat b + backlog s1))
            else (s2, JobHitCap (tot + nat b + length its * nat b)))" by blast
    have bl: "backlog s1 = backlog s - nat b" "nat b \<le> backlog s" using s1(3) m False by auto
    have "drain expire b (i # its) tot s = drain expire b its (tot + nat b) s1"
      using s1(1) m by simp
    moreover have "backlog s1 < length its * nat b \<longleftrightarrow> backlog s < length (i # its) * nat b"
      using bl by auto
    ultimately show ?thesis using s2 bl by (intro exI [of _ s2]) (auto simp: add.assoc)
  qed
qed

lemma run_spec:
  assumes "inv s" and "good_size (wBatchSize w)"
  shows "\<exists>s'. inv s' \<and> backlog s' = backlog s - 100 * nat (wBatchSize w) \<and>
     runJob expire w s =
       (if backlog s < 100 * nat (wBatchSize w) then (s', JobDrained (backlog s))
        else (s', JobHitCap (100 * nat (wBatchSize w))))"
proof -
  have len: "length [0 ..< drainMaxIterations] = 100" by (simp add: drainMaxIterations_def)
  from drain_spec [OF assms, of "[0 ..< drainMaxIterations]" 0] show ?thesis
    unfolding len add_0 runJob_def by blast
qed

end

section \<open>The service provides it\<close>

definition overdue_rows :: "time \<Rightarrow> invdb \<Rightarrow> reservation list" where
  "overdue_rows now db = filter (overdue now [] []) (reservation_table db)"

lemma covered_no_drifts:
  assumes wf: "wf_db db" and "k \<in> rTicketClassID ` set (selectBatch now locked n ex db)"
    and cov: "\<And>tc. look db k = Some tc \<Longrightarrow> held db k \<le> tcReserved tc"
  shows "\<not> drifts (batch_qty (selectBatch now locked n ex db)) db k"
proof -
  let ?rs = "selectBatch now locked n ex db"
  note rows = selectBatch_rows [OF wf, where now = now and locked = locked and n = n and ex = ex]
  obtain r where r: "r \<in> set ?rs" "rTicketClassID r = k" using assms(2) by auto
  have "k \<in> tcID ` set (ticket_class_table db)" using rows(2) [OF r(1)] wf_r [OF wf] r(2) by auto
  then obtain tc where tc: "look db k = Some tc" using look_None [of db k] by auto
  have "lookup0 (batch_qty ?rs) k = sum_where (\<lambda>r. rTicketClassID r = k) rQty ?rs"
    by (simp add: batch_qty_def lookup0_tally)
  also have "\<dots> = qty_where (\<lambda>r. rID r \<in> set (map rID ?rs) \<and> rTicketClassID r = k) db"
    unfolding qty_where_def
    by (rule sum_where_ids [OF wf_r_distinct [OF wf] rows(1), symmetric]) (use rows(2) in auto)
  also have "\<dots> \<le> held db k"
    unfolding held_def qty_where_def
  proof (rule sum_where_mono)
    fix x assume x: "x \<in> set (reservation_table db)" "rID x \<in> set (map rID ?rs) \<and> rTicketClassID x = k"
    then obtain y where y: "y \<in> set ?rs" "rID x = rID y" by auto
    have "x = y"
      using wf_r_distinct [OF wf] x(1) rows(2) [OF y(1)] y(2)
      by (auto simp: distinct_map dest: inj_onD)
    then show "rTicketClassID x = k \<and> rStatus x = ReservationStatusActive"
      using x(2) rows(2) [OF y(1)] by (auto simp: overdue_def)
  qed (use wf_r [OF wf] in \<open>auto intro: less_imp_le\<close>)
  also have "\<dots> \<le> tcReserved tc" by (rule cov [OF tc])
  finally show ?thesis using tc by (auto simp: drifts_def)
qed

lemma consistent_no_drifts:
  assumes "consistent db" and "k \<in> rTicketClassID ` set (selectBatch now locked n ex db)"
  shows "\<not> drifts (batch_qty (selectBatch now locked n ex db)) db k"
  using assms(1) by (intro covered_no_drifts [OF _ assms(2)]) (auto simp: consistent_def no_drift_look)

lemma expire_batch_step:
  assumes cons: "consistent db"
  shows "\<exists>db'. BatchExpireReservations now locked b db =
       (db', Inr (length (selectBatch now locked (effectiveBatch b) [] db))) \<and> consistent db' \<and>
     reservation_table db' = reservation_table (update_reservations
       (\<lambda>r. rID r \<in> set (map rID (selectBatch now locked (effectiveBatch b) [] db)))
       ReservationStatusExpired db)"
proof -
  let ?rs = "selectBatch now locked (effectiveBatch b) [] db"
  have wf: "wf_db db" and nd: "no_drift db" using cons by (auto simp: consistent_def)
  from batch_expireTx [OF wf, where now = now and locked = locked and n = "effectiveBatch b" and ex = "[]"]
  obtain db' dr where x: "selectAndExpireBatch now locked (effectiveBatch b) [] db = Inr (db',
       map rID (filter (\<lambda>r. \<not> drifts (batch_qty ?rs) db (rTicketClassID r)) ?rs), dr)"
    "set dr = {k \<in> rTicketClassID ` set ?rs. drifts (batch_qty ?rs) db k}"
    "wf_db db'" "gap db' = gap db"
    "reservation_table db' = reservation_table (update_reservations
       (\<lambda>r. rID r \<in> set (map rID (filter (\<lambda>r. \<not> drifts (batch_qty ?rs) db (rTicketClassID r)) ?rs)))
       ReservationStatusExpired db)" by blast
  have all: "filter (\<lambda>r. \<not> drifts (batch_qty ?rs) db (rTicketClassID r)) ?rs = ?rs"
    using consistent_no_drifts [OF cons] by (intro filter_True) blast
  have "set dr = {}"
    unfolding x(2) using consistent_no_drifts [OF cons] by blast
  then have "dr = []" by simp
  with x(1,5) have "BatchExpireReservations now locked b db = (db', Inr (length ?rs))"
    unfolding all by (simp add: BatchExpireReservations_def Let_def)
  moreover have "consistent db'"
    using x(3,4) gap_keeps_no_drift [OF nd wf] by (simp add: consistent_def)
  ultimately show ?thesis using x(5) unfolding all by blast
qed

text \<open>With the clock at \<open>now\<close> and nothing locked, a batch takes what fits of the backlog.\<close>

definition overdue_count :: "time \<Rightarrow> invdb \<Rightarrow> nat" where
  "overdue_count now db = length (overdue_rows now db)"

lemma selectBatch_length:
  "length (selectBatch now [] n [] db) = min n (overdue_count now db)"
  by (simp add: selectBatch_def overdue_count_def overdue_rows_def)

lemma overdue_after:
  assumes wf: "wf_db db"
    and tab: "reservation_table db' = reservation_table (update_reservations
       (\<lambda>r. rID r \<in> set (map rID (selectBatch now [] n [] db))) ReservationStatusExpired db)"
  shows "overdue_count now db' = overdue_count now db - length (selectBatch now [] n [] db)"
proof -
  let ?rs = "selectBatch now [] n [] db"
  let ?in = "\<lambda>r. rID r \<in> set (map rID ?rs)"
  let ?od = "overdue now [] []"
  note rows = selectBatch_rows [OF wf, where now = now and locked = "[]" and n = n and ex = "[]"]
  have "overdue_count now db' = length (filter (\<lambda>r. ?od r \<and> \<not> ?in r) (reservation_table db))"
    unfolding overdue_count_def overdue_rows_def tab update_reservations_def update_where_def
    by (simp add: filter_map comp_def)
      (rule arg_cong [where f = length], rule filter_cong, auto simp: overdue_def)
  moreover have "length (filter ?od (reservation_table db)) =
      length (filter (\<lambda>r. ?od r \<and> ?in r) (reservation_table db))
      + length (filter (\<lambda>r. ?od r \<and> \<not> ?in r) (reservation_table db))"
    by (rule length_filter_split)
  moreover have "length (filter (\<lambda>r. ?od r \<and> ?in r) (reservation_table db)) = length ?rs"
  proof -
    have "sum_where (\<lambda>r. ?in r \<and> True) (\<lambda>r. 1) (reservation_table db) = sum_where (\<lambda>r. True) (\<lambda>r. 1) ?rs"
      by (rule sum_where_ids [OF wf_r_distinct [OF wf] rows(1)]) (use rows(2) in auto)
    then have "length (filter ?in (reservation_table db)) = length ?rs"
      by (simp add: sum_where_def sum_list_triv)
    moreover have "filter (\<lambda>r. ?od r \<and> ?in r) (reservation_table db) = filter ?in (reservation_table db)"
    proof (rule filter_cong [OF refl])
      fix x assume x: "x \<in> set (reservation_table db)"
      have "?od x" if "?in x"
      proof -
        from that obtain y where y: "y \<in> set ?rs" "rID x = rID y" by auto
        then have "x = y"
          using wf_r_distinct [OF wf] x rows(2) [OF y(1)] by (auto simp: distinct_map dest: inj_onD)
        with rows(2) [OF y(1)] show ?thesis by simp
      qed
      then show "(?od x \<and> ?in x) = ?in x" by blast
    qed
    ultimately show ?thesis by simp
  qed
  ultimately show ?thesis by (simp add: overdue_count_def overdue_rows_def)
qed

interpretation sweeper:
  reservation_expirer "expire_call (\<lambda>i. now) (\<lambda>i. [])" consistent "overdue_count now"
    "\<lambda>b. 0 < b \<and> b \<le> 1000"
  for now
proof (unfold_locales, goal_cases)
  case (1 db b i)
  then have eff: "effectiveBatch b = nat b" by (simp add: effectiveBatch_def)
  from expire_batch_step [OF 1(1), of now "[]" b] obtain db'
    where db': "BatchExpireReservations now [] b db =
        (db', Inr (length (selectBatch now [] (nat b) [] db)))" "consistent db'"
      "reservation_table db' = reservation_table (update_reservations
         (\<lambda>r. rID r \<in> set (map rID (selectBatch now [] (nat b) [] db))) ReservationStatusExpired db)"
    unfolding eff by blast
  have "wf_db db" using 1(1) by (simp add: consistent_def)
  from overdue_after [OF this db'(3)] db'(1,2) show ?case
    by (simp add: expire_call_def selectBatch_length)
next
  case (2 b)
  then show ?case by simp
qed

end
