(* ===== verification/Inventory_Props.thy ===== *)
theory Inventory_Props
  imports Inventory_Worker
begin

text \<open>
  The inventory service as a step relation, one step per service call as the gRPC layer
  lets it through (a Reserve has items, with positive quantities), and the service's
  properties. Postgres serialises the transactions of two calls on a row by its lock, so a
  run is a sequence of whole transactions.
\<close>

section \<open>Runs\<close>

definition empty_db :: invdb where
  "empty_db = \<lparr>ticket_class_table = [], reservation_table = [], tc_seq = 1, r_seq = 1\<rparr>"

inductive inv_step :: "invdb \<Rightarrow> invdb \<Rightarrow> bool" where
  step_reserve: "valid_items (inItems inp) \<Longrightarrow> inv_step db (fst (Reserve inp now db))"
| step_confirm: "inv_step db (fst (Confirm oc db))"
| step_release: "inv_step db (fst (Release oc db))"
| step_expire: "inv_step db (fst (BatchExpireReservations now locked b db))"
| step_create: "inv_step db (fst (CreateTicketClass i db))"
| step_update: "inv_step db (fst (UpdateTicketClass k u db))"
| step_delete: "inv_step db (fst (DeleteTicketClass k db))"

inductive inv_reachable :: "invdb \<Rightarrow> bool" where
  reach_empty: "inv_reachable empty_db"
| reach_step: "inv_reachable db \<Longrightarrow> inv_step db db' \<Longrightarrow> inv_reachable db'"

inductive_cases inv_stepE: "inv_step db db'"

lemma consistentI_gap: "consistent db \<Longrightarrow> wf_db db' \<and> gap db' = gap db \<Longrightarrow> consistent db'"
  by (auto simp: consistent_def intro: gap_keeps_no_drift)

lemma consistentD: "consistent db \<Longrightarrow> wf_db db" "consistent db \<Longrightarrow> no_drift db"
  by (auto simp: consistent_def)

lemma step_consistent:
  assumes "inv_step db db'" and "consistent db"
  shows "consistent db'"
proof -
  have wf: "wf_db db" using assms(2) by (simp add: consistent_def)
  from assms(1) show ?thesis
  proof cases
  case (step_reserve inp now)
  show ?thesis unfolding step_reserve(1) Reserve_def
    by (rule transaction_keeps)
      (use reserveTx_keeps [OF wf step_reserve(2)] assms(2) consistentI_gap [OF assms(2)] in blast)+
next
  case (step_confirm oc)
  show ?thesis unfolding step_confirm Confirm_def
    by (rule transaction_keeps) (use confirmTx_keeps [OF wf] assms(2) consistentI_gap [OF assms(2)] in blast)+
next
  case (step_release oc)
  show ?thesis unfolding step_release Release_def
    by (rule transaction_keeps) (use releaseTx_keeps [OF wf] assms(2) consistentI_gap [OF assms(2)] in blast)+
next
  case (step_expire now locked b)
  with expire_batch_step [OF assms(2), of now locked b] show ?thesis by auto
next
  case (step_create i)
  with create_keeps [OF assms(2)] show ?thesis by (metis prod.collapse)
next
  case (step_update k u)
  with update_keeps [OF consistentD(1) [OF assms(2)]] consistentI_gap [OF assms(2)]
  show ?thesis by (metis prod.collapse)
next
  case (step_delete k)
  show ?thesis unfolding step_delete DeleteTicketClass_def
    by (rule transaction_keeps) (use delete_keeps [OF assms(2)] assms(2) in blast)+
  qed
qed

lemma empty_consistent: "consistent empty_db"
  by (simp add: consistent_def wf_db_def no_drift_def empty_db_def)

lemma reachable_consistent: "inv_reachable db \<Longrightarrow> consistent db"
  by (induction rule: inv_reachable.induct) (auto intro: empty_consistent step_consistent)

text \<open>A small database for the witnesses: one class with an active, a paid and an expired order.\<close>

definition demo_class :: ticket_class where
  "demo_class = \<lparr>tcID = 1, tcEventID = ''e'', tcName = ''GA'', tcPriceCents = 500,
     tcCurrency = ''USD'', tcTotal = 10, tcReserved = 3, tcSold = 2,
     tcSaleStartAt = None, tcSaleEndAt = Some 1000, tcStatus = TicketClassStatusActive\<rparr>"

definition demo_rows :: "reservation list" where
  "demo_rows =
     [\<lparr>rID = 1, rOrderCode = ''A'', rTicketClassID = 1, rQty = 3, rExpiresAt = 50,
       rStatus = ReservationStatusActive\<rparr>,
      \<lparr>rID = 2, rOrderCode = ''B'', rTicketClassID = 1, rQty = 2, rExpiresAt = 20,
       rStatus = ReservationStatusConfirmed\<rparr>,
      \<lparr>rID = 3, rOrderCode = ''E'', rTicketClassID = 1, rQty = 4, rExpiresAt = 10,
       rStatus = ReservationStatusExpired\<rparr>]"

definition demo_db :: invdb where
  "demo_db = \<lparr>ticket_class_table = [demo_class], reservation_table = demo_rows, tc_seq = 2, r_seq = 4\<rparr>"

definition demo_reserve :: reserve_input where
  "demo_reserve = \<lparr>inOrderCode = ''N'', inItems = [\<lparr>riTicketClassID = 1, riQty = 2\<rparr>,
     \<lparr>riTicketClassID = 1, riQty = 1\<rparr>], inExpiresAt = 90\<rparr>"

lemmas demo_defs = demo_db_def demo_class_def demo_rows_def demo_reserve_def

lemma demo_consistent: "consistent demo_db"
  by (simp add: consistent_def wf_db_def no_drift_def demo_defs tc_check_defs held_def paid_def
      qty_where_def idx_order_ticket_def)

lemma demo_wf: "wf_db demo_db" by (rule consistentD(1) [OF demo_consistent])

lemma reserved_code:
  assumes "aggregateDemand (inItems inp) = (ids, m)" and "r \<in> set (number_rows n (reserve_rows inp))"
  shows "rOrderCode r = inOrderCode inp"
proof -
  have "rOrderCode r \<in> rOrderCode ` set (reserve_rows inp)"
    using imageI [OF assms(2), of rOrderCode] number_rows_props(5) [of n "reserve_rows inp"]
    by (metis list.set_map)
  then show ?thesis using reserve_rows_props(3) [OF assms(1)] by auto
qed

section \<open>Properties\<close>

text \<open>
  C1. No oversell: in every state the service can reach, the counters of a class are exactly
  the tickets its active and confirmed reservations hold, and these never pass its capacity.
\<close>

theorem no_oversell:
  assumes "inv_reachable db" and "look db k = Some tc"
  shows "tcReserved tc = held db k \<and> tcSold tc = paid db k
    \<and> 0 \<le> held db k \<and> 0 \<le> paid db k \<and> held db k + paid db k \<le> tcTotal tc"
proof -
  have c: "consistent db" by (rule reachable_consistent [OF assms(1)])
  then have "tcReserved tc = held db k" "tcSold tc = paid db k"
    using assms(2) consistentD(2) [OF c] by (auto simp: no_drift_look [OF consistentD(1) [OF c]])
  moreover have "tc_check tc" by (rule wf_look_check [OF consistentD(1) [OF c] assms(2)])
  ultimately show ?thesis by (auto simp: tc_check_defs)
qed

definition demo_create :: create_ticket_class_input where
  "demo_create = \<lparr>ciEventID = ''e'', ciName = ''GA'', ciPriceCents = 5, ciCurrency = ''USD'',
     ciTotal = 4, ciSaleStartAt = None, ciSaleEndAt = None\<rparr>"

definition demo_run :: invdb where
  "demo_run = fst (Reserve demo_reserve 7 (fst (CreateTicketClass demo_create empty_db)))"

lemma demo_run_eq:
  "demo_run = \<lparr>ticket_class_table = [(buildTicketClass demo_create)\<lparr>tcID := 1, tcReserved := 3\<rparr>],
     reservation_table = [\<lparr>rID = 1, rOrderCode = ''N'', rTicketClassID = 1, rQty = 3, rExpiresAt = 90,
       rStatus = ReservationStatusActive\<rparr>], tc_seq = 2, r_seq = 2\<rparr>"
  by code_simp

lemma demo_run_reachable: "inv_reachable demo_run"
  unfolding demo_run_def
  by (rule reach_step [OF reach_step [OF reach_empty step_create] step_reserve])
    (simp add: valid_items_def demo_reserve_def)

lemma no_oversell_witness: "held demo_run 1 + paid demo_run 1 \<le> 4"
  using no_oversell [OF demo_run_reachable, of 1 "(buildTicketClass demo_create)\<lparr>tcID := 1, tcReserved := 3\<rparr>"]
  by (simp add: demo_run_eq look_def buildTicketClass_def demo_create_def)

text \<open>
  C15. Reserve is all or nothing. For an order code with no rows it succeeds exactly when
  every class it names exists, is on sale and has as many free tickets as the order asks
  for in total; it then raises each counter by exactly that demand, with one active row per
  class. Otherwise it changes nothing.
\<close>

theorem reserve_exact:
  assumes "wf_db db" and "orderRows db (inOrderCode inp) = []" and "valid_items (inItems inp)"
  shows "(snd (Reserve inp now db) = Inr () \<longleftrightarrow>
          (\<forall>it \<in> set (inItems inp). reserve_fits db (inItems inp) now (riTicketClassID it))) \<and>
      (if snd (Reserve inp now db) = Inr ()
       then look (fst (Reserve inp now db)) k = map_option (addReserved (demand (inItems inp) k)) (look db k) \<and>
            held (fst (Reserve inp now db)) k = held db k + demand (inItems inp) k \<and>
            paid (fst (Reserve inp now db)) k = paid db k \<and>
            orderRows (fst (Reserve inp now db)) (inOrderCode inp) =
              number_rows (r_seq db) (reserve_rows inp)
       else fst (Reserve inp now db) = db)"
proof -
  note fresh = reserveTx_fresh [OF assms, of now]
  show ?thesis
  proof (cases "reserveTx inp now db")
    case (Inl e)
    with fresh(1) show ?thesis by (auto simp: Reserve_def transaction_def)
  next
    case (Inr db')
    obtain ids m where agg: "aggregateDemand (inItems inp) = (ids, m)" by (cases "aggregateDemand (inItems inp)")
    note eff = fresh(2) [OF Inr]
    have tab: "reservation_table db' = reservation_table db @ number_rows (r_seq db) (reserve_rows inp)"
      using eff by simp
    have "orderRows db' (inOrderCode inp) = number_rows (r_seq db) (reserve_rows inp)"
      using assms(2) reserved_code [OF agg, of _ "r_seq db"] by (simp add: orderRows_def tab)
    with Inr fresh(1) eff reserve_sums [OF tab agg] show ?thesis
      by (auto simp: Reserve_def transaction_def)
  qed
qed

lemma demo_reserve_valid: "valid_items (inItems demo_reserve)"
  by (simp add: demo_reserve_def valid_items_def)

lemma demo_fits: "reserve_fits demo_db (inItems demo_reserve) 7 1"
  by (simp add: reserve_fits_def demo_defs look_def onSale_def demand_def)

lemma reserve_exact_witness:
  "snd (Reserve demo_reserve 7 demo_db) = Inr () \<and> held (fst (Reserve demo_reserve 7 demo_db)) 1 = 6"
proof -
  have "held demo_db 1 = 3" "demand (inItems demo_reserve) 1 = 3"
    by (simp_all add: held_def qty_where_def demo_defs demand_def)
  moreover have "orderRows demo_db (inOrderCode demo_reserve) = []"
    by (simp add: demo_defs orderRows_def)
  moreover have "\<forall>it \<in> set (inItems demo_reserve).
      reserve_fits demo_db (inItems demo_reserve) 7 (riTicketClassID it)"
    using demo_fits by (simp add: demo_reserve_def)
  ultimately show ?thesis
    using reserve_exact [OF demo_wf _ demo_reserve_valid, of 7 1] by simp
qed

text \<open>
  Why a Reserve fails: the error is that of the smallest class id that does not fit, and
  says which of the three reasons it is: the class does not exist, is not on sale, or has
  too few free tickets.
\<close>

theorem reserve_error:
  assumes "wf_db db" and "orderRows db (inOrderCode inp) = []" and "valid_items (inItems inp)"
    and "snd (Reserve inp now db) = Inl e"
  shows "\<exists>k \<in> riTicketClassID ` set (inItems inp).
      (\<forall>j \<in> riTicketClassID ` set (inItems inp). j < k \<longrightarrow> reserve_fits db (inItems inp) now j) \<and>
      (case look db k of
         None \<Rightarrow> e = ErrNotFound
       | Some tc \<Rightarrow> if onSale tc now
           then e = ErrInsufficientStock \<and> tcTotal tc - tcReserved tc - tcSold tc < demand (inItems inp) k
           else e = ErrSaleClosed)"
proof -
  have "reserveTx inp now db = Inl e"
    using assms(4) by (auto simp: Reserve_def transaction_def split: sum.splits)
  from reserveTx_fresh(3) [OF assms(1-3) this] obtain k
    where k: "k \<in> riTicketClassID ` set (inItems inp)" "\<not> reserve_fits db (inItems inp) now k"
      "\<forall>j \<in> riTicketClassID ` set (inItems inp). j < k \<longrightarrow> reserve_fits db (inItems inp) now j"
      "e = explainReserveMiss db k (demand (inItems inp) k) now" by blast
  have "case look db k of
         None \<Rightarrow> e = ErrNotFound
       | Some tc \<Rightarrow> if onSale tc now
           then e = ErrInsufficientStock \<and> tcTotal tc - tcReserved tc - tcSold tc < demand (inItems inp) k
           else e = ErrSaleClosed"
    using k(2,4) by (auto simp: explainReserveMiss_def reserve_fits_def split: option.splits)
  with k(1,3) show ?thesis by blast
qed

lemma reserve_error_witness:
  "snd (Reserve (demo_reserve\<lparr>inItems := [\<lparr>riTicketClassID = 1, riQty = 6\<rparr>]\<rparr>) 7 demo_db)
     = Inl ErrInsufficientStock \<and> (5::int) < 6"
proof -
  let ?inp = "demo_reserve\<lparr>inItems := [\<lparr>riTicketClassID = 1, riQty = 6\<rparr>]\<rparr>"
  have e: "snd (Reserve ?inp 7 demo_db) = Inl ErrInsufficientStock" by code_simp
  then show ?thesis
    using reserve_error [OF demo_wf _ _ e]
    by (simp add: demo_defs orderRows_def valid_items_def look_def onSale_def demand_def)
qed

text \<open>
  A Reserve is safe to retry: once an order code has rows, a further Reserve of it never
  touches the database. It reports success while some row is live, and a state conflict when
  all are terminal, so a success always stands for tickets actually held or paid.
\<close>

theorem reserve_retry:
  assumes "orderRows db (inOrderCode inp) \<noteq> []"
  shows "Reserve inp now db =
     (db, if \<exists>r \<in> set (orderRows db (inOrderCode inp)). live (rStatus r)
          then Inr () else Inl ErrStateConflict)"
  using reserveTx_again [OF assms, of now] by (simp add: Reserve_def transaction_def)

lemma reserve_retry_witness:
  "Reserve (demo_reserve\<lparr>inOrderCode := ''A''\<rparr>) 7 demo_db = (demo_db, Inr ())
   \<and> Reserve (demo_reserve\<lparr>inOrderCode := ''E''\<rparr>) 7 demo_db = (demo_db, Inl ErrStateConflict)"
  using reserve_retry [of demo_db "demo_reserve\<lparr>inOrderCode := ''A''\<rparr>" 7]
    reserve_retry [of demo_db "demo_reserve\<lparr>inOrderCode := ''E''\<rparr>" 7]
  by (simp add: orderRows_def demo_defs live_def)

lemma confirm_rows:
  assumes "reservation_table db' = reservation_table
      (update_reservations (\<lambda>r. rOrderCode r = oc) st db)"
  shows "orderRows db' oc = map (\<lambda>r. r\<lparr>rStatus := st\<rparr>) (orderRows db oc)"
proof -
  have "filter (\<lambda>r. rOrderCode r = oc) (map (\<lambda>r. if rOrderCode r = oc then r\<lparr>rStatus := st\<rparr> else r) t) =
      map (\<lambda>r. r\<lparr>rStatus := st\<rparr>) (filter (\<lambda>r. rOrderCode r = oc) t)" for t
    by (induction t) auto
  then show ?thesis by (simp add: orderRows_def assms update_reservations_def update_where_def)
qed

lemma confirm_effect:
  assumes "consistent db" and "orderRows db oc \<noteq> []" and "list_all confirmable (orderRows db oc)"
  shows "(snd (Confirm oc db) = Inr () \<longleftrightarrow>
        (\<forall>k tc. look db k = Some tc \<longrightarrow> k \<in> rTicketClassID ` set (orderRows db oc) \<longrightarrow>
           order_qty db oc k ReservationStatusExpired \<le> tcTotal tc - tcReserved tc - tcSold tc)) \<and>
      (if snd (Confirm oc db) = Inr ()
       then look (fst (Confirm oc db)) k = map_option (confirmed_class db oc k) (look db k) \<and>
            list_all (\<lambda>r. rStatus r = ReservationStatusConfirmed) (orderRows (fst (Confirm oc db)) oc) \<and>
            Confirm oc (fst (Confirm oc db)) = (fst (Confirm oc db), Inr ())
       else Confirm oc db = (db, Inl ErrStateConflict))"
proof -
  have wf: "wf_db db" and nd: "no_drift db" using assms(1) by (auto simp: consistent_def)
  have some: "\<not> list_all (\<lambda>r. rStatus r = ReservationStatusConfirmed) (orderRows db oc)"
    using assms(2,3) by (cases "orderRows db oc") (auto simp: confirmable_def)
  have suc: "snd (Confirm oc db) = Inr () \<longleftrightarrow> (\<exists>db'. confirmReservationTx oc db = Inr db')"
    by (auto simp: Confirm_def transaction_def split: sum.splits)
  have fits: "confirm_fits db oc k \<longleftrightarrow> (\<forall>tc. look db k = Some tc \<longrightarrow>
      order_qty db oc k ReservationStatusExpired \<le> tcTotal tc - tcReserved tc - tcSold tc)"
    if kin: "k \<in> rTicketClassID ` set (orderRows db oc)" for k
  proof -
    obtain r where "r \<in> set (reservation_table db)" "rTicketClassID r = k"
      using kin by (auto simp: orderRows_def)
    then obtain tc where tc: "look db k = Some tc"
      using wf_r [OF wf] look_None [of db k] by (cases "look db k") auto
    then show ?thesis
      using nd order_qty_le_held [OF wf, of oc k] by (simp add: confirm_fits_def no_drift_look [OF wf])
  qed
  have iff: "snd (Confirm oc db) = Inr () \<longleftrightarrow>
        (\<forall>k tc. look db k = Some tc \<longrightarrow> k \<in> rTicketClassID ` set (orderRows db oc) \<longrightarrow>
           order_qty db oc k ReservationStatusExpired \<le> tcTotal tc - tcReserved tc - tcSold tc)"
    unfolding suc confirmTx_pending(1) [OF wf some assms(3)] using fits by meson
  have "if snd (Confirm oc db) = Inr ()
       then look (fst (Confirm oc db)) k = map_option (confirmed_class db oc k) (look db k) \<and>
            list_all (\<lambda>r. rStatus r = ReservationStatusConfirmed) (orderRows (fst (Confirm oc db)) oc) \<and>
            Confirm oc (fst (Confirm oc db)) = (fst (Confirm oc db), Inr ())
       else Confirm oc db = (db, Inl ErrStateConflict)"
  proof (cases "confirmReservationTx oc db")
    case (Inl e)
    with confirmTx_drift_free [OF assms(1) Inl] assms(2) show ?thesis
      by (simp add: Confirm_def transaction_def)
  next
    case (Inr db')
    note eff = confirmTx_pending(2) [OF wf some assms(3) Inr]
    have rows: "orderRows db' oc = map (\<lambda>r. r\<lparr>rStatus := ReservationStatusConfirmed\<rparr>) (orderRows db oc)"
      using confirm_rows eff by blast
    then have all: "rStatus r = ReservationStatusConfirmed" if "r \<in> set (orderRows db' oc)" for r
      using that by auto
    have "orderRows db' oc \<noteq> []" using assms(2) rows by simp
    with all have "confirmReservationTx oc db' = Inr db'"
      by (auto simp: confirmReservationTx_def Let_def list_all_iff)
    with Inr eff all show ?thesis
      by (simp add: Confirm_def transaction_def list_all_iff)
  qed
  with iff show ?thesis by blast
qed

text \<open>
  C16. Confirm of an order whose rows are active or expired. It succeeds exactly when, for each
  class of the order, the tickets of its expired rows are still free; then the active
  tickets move from reserved to sold, the expired ones are taken again out of free stock, and
  all rows are confirmed. A second Confirm changes nothing. Otherwise nothing changes and the
  error is a state conflict.
\<close>

theorem confirm_exact:
  assumes "consistent db" and "orderRows db oc \<noteq> []" and "list_all confirmable (orderRows db oc)"
  shows "(snd (Confirm oc db) = Inr () \<longleftrightarrow>
        (\<forall>k tc. look db k = Some tc \<longrightarrow> k \<in> rTicketClassID ` set (orderRows db oc) \<longrightarrow>
           order_qty db oc k ReservationStatusExpired \<le> tcTotal tc - tcReserved tc - tcSold tc)) \<and>
      (if snd (Confirm oc db) = Inr ()
       then look (fst (Confirm oc db)) k = map_option (confirmed_class db oc k) (look db k) \<and>
            list_all (\<lambda>r. rStatus r = ReservationStatusConfirmed) (orderRows (fst (Confirm oc db)) oc) \<and>
            Confirm oc (fst (Confirm oc db)) = (fst (Confirm oc db), Inr ())
       else Confirm oc db = (db, Inl ErrStateConflict))"
  using assms by (rule confirm_effect)

lemma confirm_exact_witness: "snd (Confirm ''E'' demo_db) = Inr () \<and> tcSold demo_class + 4 = 6"
  using confirm_exact [OF demo_consistent, of "''E''" 1]
  by (simp add: demo_defs orderRows_def confirmable_def order_qty_def qty_where_def look_def)

text \<open>
  Confirm refuses what it must not guess: an order with no rows is not found, and an order
  with a released row, or with confirmed and unconfirmed rows together, is a state
  conflict; in both cases nothing changes.
\<close>

theorem confirm_refuses:
  assumes "\<not> list_all confirmable (orderRows db oc)"
    and "\<not> list_all (\<lambda>r. rStatus r = ReservationStatusConfirmed) (orderRows db oc)"
  shows "Confirm oc db = (db, Inl ErrStateConflict) \<and>
     (\<forall>oc'. orderRows db oc' = [] \<longrightarrow> Confirm oc' db = (db, Inl ErrNotFound))"
  using collectDeltas_error [OF assms(1), of "[]" "[]"] assms
  by (auto simp: Confirm_def transaction_def confirmReservationTx_def Let_def)

definition released_db :: invdb where
  "released_db = fst (Release ''A'' demo_db)"

lemma released_db_eq:
  "released_db = demo_db\<lparr>ticket_class_table := [demo_class\<lparr>tcReserved := 0\<rparr>],
     reservation_table := (demo_rows)[0 := (demo_rows ! 0)\<lparr>rStatus := ReservationStatusCancelled\<rparr>]\<rparr>"
  by code_simp

lemma confirm_refuses_witness: "Confirm ''A'' released_db = (released_db, Inl ErrStateConflict)"
  using confirm_refuses [of released_db "''A''"]
  by (simp add: released_db_eq demo_defs orderRows_def confirmable_def)

lemma release_no_drift:
  assumes "consistent db" and "\<not> has_confirmed db oc"
  shows "\<exists>db'. cancelReservationTx oc db = Inr db'"
proof -
  have wf: "wf_db db" and nd: "no_drift db" using assms(1) by (auto simp: consistent_def)
  have "\<forall>k \<in> rTicketClassID ` set (filter (active_of oc) (reservation_table db)).
        (\<exists>tc. look db k = Some tc \<and> tcReserved tc \<ge> order_qty db oc k ReservationStatusActive)"
  proof
    fix k assume "k \<in> rTicketClassID ` set (filter (active_of oc) (reservation_table db))"
    then have "k \<in> tcID ` set (ticket_class_table db)" using wf_r [OF wf] by auto
    then obtain tc where "look db k = Some tc" using look_None [of db k] by auto
    then show "\<exists>tc. look db k = Some tc \<and> tcReserved tc \<ge> order_qty db oc k ReservationStatusActive"
      using nd order_qty_le_held [OF wf, of oc k] by (simp add: no_drift_look [OF wf])
  qed
  then show ?thesis by (rule releaseTx_step(1) [OF wf assms(2)])
qed

lemma release_effect:
  assumes "consistent db"
  shows "(if has_confirmed db oc then Release oc db = (db, Inl ErrStateConflict)
      else snd (Release oc db) = Inr () \<and>
           look (fst (Release oc db)) k =
             map_option (subReserved (order_qty db oc k ReservationStatusActive)) (look db k) \<and>
           order_qty (fst (Release oc db)) oc k ReservationStatusActive = 0 \<and>
           paid (fst (Release oc db)) k = paid db k \<and>
           Release oc (fst (Release oc db)) = (fst (Release oc db), Inr ()))"
proof (cases "has_confirmed db oc")
  case True
  then show ?thesis by (simp add: Release_def transaction_def releaseTx_confirmed)
next
  case False
  have wf: "wf_db db" using assms(1) by (simp add: consistent_def)
  obtain db' where tx: "cancelReservationTx oc db = Inr db'"
    using release_no_drift [OF assms False] by blast
  note eff = releaseTx_step(2) [OF wf False tx]
  then have tab: "reservation_table db' =
      map (\<lambda>r. if active_of oc r then r\<lparr>rStatus := ReservationStatusCancelled\<rparr> else r) (reservation_table db)"
    by (simp add: update_reservations_def update_where_def)
  have trm: "terminal (rStatus r)" if "r \<in> set (orderRows db' oc)" for r
  proof -
    have "r \<in> set (reservation_table db')" and oc: "rOrderCode r = oc"
      using that by (simp_all add: orderRows_def)
    then obtain r0 where "r0 \<in> set (reservation_table db)"
      "r = (if active_of oc r0 then r0\<lparr>rStatus := ReservationStatusCancelled\<rparr> else r0)"
      unfolding tab set_map by blast
    then show ?thesis
      using False oc by (cases "rStatus r0")
        (auto simp: active_of_def has_confirmed_def orderRows_def terminal_def split: if_splits)
  qed
  have "cancelReservationTx oc db' = Inr db'"
    by (rule releaseTx_terminal) (use trm in \<open>simp add: list_all_iff\<close>)
  moreover have "order_qty db' oc k ReservationStatusActive = 0"
    by (rule no_active_qty) (use trm in \<open>force simp: terminal_def\<close>)
  moreover have "paid db' k = paid db k" using eff by (intro active_of_sums(2)) auto
  ultimately show ?thesis
    using tx eff False by (simp add: Release_def transaction_def)
qed

text \<open>
  C17. Release on a state the service can reach: it is refused exactly when some ticket of the
  order is paid, and then changes nothing. Otherwise it succeeds, gives every class back
  exactly what the order held of it, leaves no active row of the order, and never touches
  sold counters; a second Release changes nothing.
\<close>

theorem release_exact:
  assumes "consistent db"
  shows "(if has_confirmed db oc then Release oc db = (db, Inl ErrStateConflict)
      else snd (Release oc db) = Inr () \<and>
           look (fst (Release oc db)) k =
             map_option (subReserved (order_qty db oc k ReservationStatusActive)) (look db k) \<and>
           order_qty (fst (Release oc db)) oc k ReservationStatusActive = 0 \<and>
           paid (fst (Release oc db)) k = paid db k \<and>
           Release oc (fst (Release oc db)) = (fst (Release oc db), Inr ()))"
  using assms by (rule release_effect)

lemma release_exact_witness: "look released_db 1 = Some (demo_class\<lparr>tcReserved := 0\<rparr>)"
proof -
  have "\<not> has_confirmed demo_db ''A''" "look demo_db 1 = Some demo_class"
    "order_qty demo_db ''A'' 1 ReservationStatusActive = 3"
    by (simp_all add: has_confirmed_def demo_defs orderRows_def look_def order_qty_def qty_where_def)
  then show ?thesis
    using release_exact [OF demo_consistent, of "''A''" 1]
    by (simp add: released_db_def subReserved_def demo_class_def)
qed

text \<open>
  The counters never drift by the service's own doing: from a state it can reach no
  operation reports inventory drift.
\<close>

theorem never_drift:
  assumes "inv_reachable db"
  shows "snd (Confirm oc db) \<noteq> Inl ErrInventoryDrift \<and> snd (Release oc db) \<noteq> Inl ErrInventoryDrift
    \<and> (\<exists>n. snd (BatchExpireReservations now locked b db) = Inr n)"
proof -
  have c: "consistent db" by (rule reachable_consistent [OF assms])
  then have wf: "wf_db db" by (simp add: consistent_def)
  have "snd (Confirm oc db) \<noteq> Inl ErrInventoryDrift"
    using confirmTx_drift_free [OF c, of oc ErrInventoryDrift]
    by (auto simp: Confirm_def transaction_def split: sum.splits if_splits)
  moreover have "snd (Release oc db) \<noteq> Inl ErrInventoryDrift"
  proof (cases "has_confirmed db oc")
    case True
    then show ?thesis by (simp add: Release_def transaction_def releaseTx_confirmed)
  next
    case False
    then show ?thesis
      using release_no_drift [OF c False] by (auto simp: Release_def transaction_def)
  qed
  moreover have "\<exists>n. snd (BatchExpireReservations now locked b db) = Inr n"
    using expire_batch_step [OF c, of now locked b] by auto
  ultimately show ?thesis by blast
qed

lemma never_drift_witness: "snd (Confirm ''N'' demo_run) \<noteq> Inl ErrInventoryDrift"
  using never_drift [OF demo_run_reachable] by blast

lemma release_after_reserve:
  assumes "consistent db" and "orderRows db (inOrderCode inp) = []" and "valid_items (inItems inp)"
    and "reserveTx inp now db = Inr db1"
  shows "consistent db1 \<and> (\<forall>k. held db1 k = held db k + order_qty db1 (inOrderCode inp) k ReservationStatusActive) \<and>
     (\<exists>db2. cancelReservationTx (inOrderCode inp) db1 = Inr db2 \<and> consistent db2 \<and>
     look db2 = look db \<and> paid db2 = paid db)"
proof -
  have wf: "wf_db db" using assms(1) by (simp add: consistent_def)
  obtain ids m where agg: "aggregateDemand (inItems inp) = (ids, m)" by (cases "aggregateDemand (inItems inp)")
  note eff = reserveTx_fresh(2) [OF wf assms(2-4)]
  have tab: "reservation_table db1 = reservation_table db @ number_rows (r_seq db) (reserve_rows inp)"
    using eff by simp
  have rows: "orderRows db1 (inOrderCode inp) = number_rows (r_seq db) (reserve_rows inp)"
    using assms(2) reserved_code [OF agg, of _ "r_seq db"] by (simp add: orderRows_def tab)
  have act: "rStatus r = ReservationStatusActive" if "r \<in> set (orderRows db1 (inOrderCode inp))" for r
  proof -
    have "rStatus r \<in> rStatus ` set (reserve_rows inp)"
      using that number_rows_props(4) [of "r_seq db" "reserve_rows inp"] unfolding rows
      by (metis image_eqI list.set_map)
    then show ?thesis using reserve_rows_props(3) [OF agg] by auto
  qed
  have c1: "consistent db1"
    using consistentI_gap [OF assms(1) reserveTx_keeps [OF wf assms(3,4)]] .
  have nc: "\<not> has_confirmed db1 (inOrderCode inp)" using act by (auto simp: has_confirmed_def)
  have "order_qty db1 (inOrderCode inp) k ReservationStatusActive = held db1 k - held db k" for k
  proof -
    have "orderRows db (inOrderCode inp) = []" by (rule assms(2))
    then have "order_qty db (inOrderCode inp) k ReservationStatusActive = 0" by (simp add: order_qty_rows)
    then show ?thesis
      by (simp add: order_qty_def held_def qty_where_def tab)
        (rule sum_where_cong, use reserved_code [OF agg, of _ "r_seq db"] in auto)
  qed
  note own = this
  have q: "order_qty db1 (inOrderCode inp) k ReservationStatusActive = demand (inItems inp) k" for k
    using own reserve_sums(1) [OF tab agg] by simp
  obtain db2 where db2: "cancelReservationTx (inOrderCode inp) db1 = Inr db2"
    using release_no_drift [OF c1 nc] by blast
  have wf1: "wf_db db1" using c1 by (simp add: consistent_def)
  note rel = releaseTx_step(2) [OF wf1 nc db2]
  have "look db2 k = look db k" for k
  proof -
    have "look db2 k = map_option (subReserved (demand (inItems inp) k)) (look db1 k)" using rel q by simp
    also have "\<dots> = look db k"
      using eff by (cases "look db k") (simp_all add: subReserved_def addReserved_def)
    finally show ?thesis .
  qed
  then have lk: "look db2 = look db" by (rule ext)
  have tab2: "reservation_table db2 = reservation_table
      (update_reservations (active_of (inOrderCode inp)) ReservationStatusCancelled db1)" using rel by simp
  have "paid db2 k = paid db k" for k
    using active_of_sums(2) [OF tab2] reserve_sums(2) [OF tab agg] by simp
  then have pd: "paid db2 = paid db" by (rule ext)
  have "consistent db2" using consistentI_gap [OF c1 releaseTx_keeps [OF wf1 db2]] .
  with c1 db2 lk pd own show ?thesis by simp
qed

text \<open>
  Reserve followed by Release gives the stock back: the counters of every class are what
  they were, whatever the order asked for.
\<close>

theorem reserve_release_roundtrip:
  assumes "consistent db" and "orderRows db (inOrderCode inp) = []" and "valid_items (inItems inp)"
  shows "look (fst (Release (inOrderCode inp) (fst (Reserve inp now db)))) k = look db k"
proof (cases "reserveTx inp now db")
  case (Inl e)
  then show ?thesis using assms(2)
    by (simp add: Reserve_def transaction_def Release_def cancelReservationTx_def)
next
  case (Inr db1)
  with release_after_reserve [OF assms Inr] show ?thesis
    by (auto simp: Reserve_def Release_def transaction_def)
qed

lemma reserve_release_roundtrip_witness:
  "look (fst (Release ''N'' (fst (Reserve demo_reserve 7 demo_db)))) 1 = Some demo_class"
  using reserve_release_roundtrip [OF demo_consistent _ demo_reserve_valid, of 7 1]
  by (simp add: demo_defs orderRows_def look_def)

text \<open>
  A drifted class never stalls expiry. Whatever the counter of one class says, if an
  unlocked hold of another class is overdue, and the counters of the other classes cover
  their holds, then the batch expires at least one hold.
\<close>

theorem expire_past_drift:
  assumes wf: "wf_db db"
    and r: "r \<in> set (reservation_table db)" "overdue now locked [d] r"
    and cov: "\<And>k tc. k \<noteq> d \<Longrightarrow> look db k = Some tc \<Longrightarrow> held db k \<le> tcReserved tc"
  shows "\<exists>n > 0. snd (BatchExpireReservations now locked b db) = Inr n"
proof -
  let ?n = "effectiveBatch b"
  have n: "0 < ?n" by (auto simp: effectiveBatch_def)
  have page: "selectBatch now locked ?n ex db' \<noteq> []"
    if "r \<in> set (reservation_table db')" "overdue now locked ex r" for ex db'
  proof -
    have "r \<in> set (sort_key rExpiresAt (filter (overdue now locked ex) (reservation_table db')))"
      using that by simp
    then have "sort_key rExpiresAt (filter (overdue now locked ex) (reservation_table db')) \<noteq> []"
      by (metis empty_iff list.set(1))
    then show ?thesis using n by (simp add: selectBatch_def)
  qed
  let ?rs = "selectBatch now locked ?n [] db"
  let ?D = "\<lambda>r. drifts (batch_qty ?rs) db (rTicketClassID r)"
  from batch_expireTx [OF wf, where now = now and locked = locked and n = ?n and ex = "[]"]
  obtain db1 dr where x: "selectAndExpireBatch now locked ?n [] db =
      Inr (db1, map rID (filter (\<lambda>r. \<not> ?D r) ?rs), dr)"
    "set dr = {k \<in> rTicketClassID ` set ?rs. drifts (batch_qty ?rs) db k}"
    "wf_db db1" "gap db1 = gap db"
    "reservation_table db1 = reservation_table (update_reservations
       (\<lambda>r. rID r \<in> set (map rID (filter (\<lambda>r. \<not> ?D r) ?rs))) ReservationStatusExpired db)"
    by blast
  have od: "overdue now locked [] r" using r(2) by (auto simp: overdue_def)
  show ?thesis
  proof (cases "filter (\<lambda>r. \<not> ?D r) ?rs = []")
    case False
    with x(1) show ?thesis by (simp add: BatchExpireReservations_def Let_def)
  next
    case True
    then have all: "?D x" if "x \<in> set ?rs" for x
      using that by (auto simp: filter_empty_conv)
    have cls: "rTicketClassID x = d" if "x \<in> set ?rs" for x
    proof (rule ccontr)
      assume ne: "rTicketClassID x \<noteq> d"
      have "\<not> ?D x" by (rule covered_no_drifts [OF wf]) (use that cov [OF ne] in auto)
      with all [OF that] show False by simp
    qed
    have ne: "?rs \<noteq> []" by (rule page [OF r(1) od])
    have dr: "set dr = {d}" unfolding x(2) using all cls ne by (cases ?rs) auto
    then have drne: "dr \<noteq> []" by auto
    have tab1: "reservation_table db1 = reservation_table db"
      using x(5) unfolding True by (simp add: update_reservations_none)
    let ?ex = "sort dr"
    have exset: "set ?ex = {d}" using dr by simp
    then have odx: "overdue now locked ?ex r" using r(2) by (simp add: overdue_def)
    let ?rs2 = "selectBatch now locked ?n ?ex db1"
    let ?D2 = "\<lambda>r. drifts (batch_qty ?rs2) db1 (rTicketClassID r)"
    note rows2 = selectBatch_rows [OF x(3), where now = now and locked = locked and n = ?n and ex = ?ex]
    have held1: "held db1 = held db" by (rule same_table_sums(1) [OF tab1])
    have good: "\<not> ?D2 y" if "y \<in> set ?rs2" for y
    proof (rule covered_no_drifts [OF x(3)])
      have ne: "rTicketClassID y \<noteq> d" using rows2(2) [OF that] exset by (auto simp: overdue_def)
      fix tc assume lk: "look db1 (rTicketClassID y) = Some tc"
      from fun_cong [OF x(4), of "rTicketClassID y"] lk obtain tc0
        where "look db (rTicketClassID y) = Some tc0" "tcReserved tc0 = tcReserved tc"
        by (cases "look db (rTicketClassID y)") (auto simp: gap_def held1)
      with cov [OF ne] show "held db1 (rTicketClassID y) \<le> tcReserved tc" by (simp add: held1)
    qed (use that in auto)
    have "?rs2 \<noteq> []" by (rule page) (use r(1) tab1 odx in auto)
    then have nz: "filter (\<lambda>r. \<not> ?D2 r) ?rs2 \<noteq> []" using good by (auto simp: filter_empty_conv)
    from batch_expireTx [OF x(3), where now = now and locked = locked and n = ?n and ex = ?ex]
    obtain db2 dr2 where "selectAndExpireBatch now locked ?n ?ex db1 =
      Inr (db2, map rID (filter (\<lambda>r. \<not> ?D2 r) ?rs2), dr2)" by blast
    with x(1) True drne nz show ?thesis by (simp add: BatchExpireReservations_def Let_def)
  qed
qed

definition drifted_db :: invdb where
  "drifted_db = \<lparr>ticket_class_table = [demo_class\<lparr>tcReserved := 0\<rparr>, demo_class\<lparr>tcID := 2, tcName := ''B''\<rparr>],
     reservation_table =
      [\<lparr>rID = 1, rOrderCode = ''A'', rTicketClassID = 1, rQty = 3, rExpiresAt = 50,
        rStatus = ReservationStatusActive\<rparr>,
       \<lparr>rID = 2, rOrderCode = ''B'', rTicketClassID = 2, rQty = 2, rExpiresAt = 60,
        rStatus = ReservationStatusActive\<rparr>], tc_seq = 3, r_seq = 3\<rparr>"

lemma expire_past_drift_witness:
  "\<exists>n > 0. snd (BatchExpireReservations 70 [] 1 drifted_db) = Inr n"
proof (rule expire_past_drift)
  show "wf_db drifted_db"
    by (simp add: wf_db_def drifted_db_def demo_class_def tc_check_defs idx_order_ticket_def)
  show "(reservation_table drifted_db) ! 1 \<in> set (reservation_table drifted_db)"
    and "overdue 70 [] [1] ((reservation_table drifted_db) ! 1)"
    by (simp_all add: drifted_db_def overdue_def)
  show "held drifted_db k \<le> tcReserved tc" if "k \<noteq> 1" "look drifted_db k = Some tc" for k tc
    using that by (auto simp: drifted_db_def look_def held_def qty_where_def demo_class_def split: if_splits)
qed

text \<open>
  C26. One run of the expiry worker with a batch size up to 1000, at a fixed clock with no row
  locked: it expires every overdue hold when there are fewer than 100 batches of them,
  and says it drained; otherwise it expires exactly 100 batches and says that a
  backlog may remain. It always ends in a consistent state.
\<close>

theorem worker_run:
  assumes "consistent db" and "0 < wBatchSize w" and "wBatchSize w \<le> 1000"
  shows "\<exists>db'. consistent db' \<and>
     overdue_count now db' = overdue_count now db - 100 * nat (wBatchSize w) \<and>
     runJob (expire_call (\<lambda>i. now) (\<lambda>i. [])) w db =
       (if overdue_count now db < 100 * nat (wBatchSize w) then (db', JobDrained (overdue_count now db))
        else (db', JobHitCap (100 * nat (wBatchSize w))))"
  by (rule sweeper.run_spec) (use assms in auto)

lemma worker_run_witness:
  "\<exists>db'. runJob (expire_call (\<lambda>i. 60) (\<lambda>i. [])) (NewReservationExpiryWorker 0 2) demo_db
     = (db', JobDrained 1) \<and> overdue_count 60 db' = 0"
  using worker_run [OF demo_consistent, of "NewReservationExpiryWorker 0 2" 60]
  by (auto simp: NewReservationExpiryWorker_def overdue_count_def overdue_rows_def overdue_def demo_defs)

text \<open>
  A worker configured with a batch size above 1000 stops after its first batch and reports
  that it drained, however many overdue holds are left: the service clamps such a size to
  500, and 500 is less than the size the worker compares with.
\<close>

theorem oversized_batch_never_drains:
  assumes "consistent db" and "1000 < wBatchSize w"
  shows "\<exists>db' n. runJob (expire_call (\<lambda>i. now) (\<lambda>i. [])) w db = (db', JobDrained n) \<and> n \<le> 500 \<and>
     overdue_count now db' = overdue_count now db - n"
proof -
  have eff: "effectiveBatch (wBatchSize w) = 500" using assms(2) by (simp add: effectiveBatch_def)
  have wf: "wf_db db" using assms(1) by (simp add: consistent_def)
  from expire_batch_step [OF assms(1), of now "[]" "wBatchSize w"] obtain db'
    where db': "BatchExpireReservations now [] (wBatchSize w) db =
        (db', Inr (length (selectBatch now [] 500 [] db)))"
      "reservation_table db' = reservation_table (update_reservations
         (\<lambda>r. rID r \<in> set (map rID (selectBatch now [] 500 [] db))) ReservationStatusExpired db)"
    unfolding eff by blast
  have le: "length (selectBatch now [] 500 [] db) \<le> 500" by (simp add: selectBatch_length)
  have "[0 ..< drainMaxIterations] = 0 # [1 ..< drainMaxIterations]"
    by (simp add: drainMaxIterations_def upt_rec)
  then have "runJob (expire_call (\<lambda>i. now) (\<lambda>i. [])) w db =
      (db', JobDrained (length (selectBatch now [] 500 [] db)))"
    using db'(1) le assms(2) by (simp add: runJob_def expire_call_def)
  with overdue_after [OF wf db'(2)] le show ?thesis by blast
qed

lemma oversized_batch_never_drains_witness:
  "\<exists>db' n. runJob (expire_call (\<lambda>i. 60) (\<lambda>i. [])) \<lparr>wInterval = 1, wBatchSize = 2000\<rparr> demo_db
     = (db', JobDrained n) \<and> n \<le> 500"
  using oversized_batch_never_drains [OF demo_consistent, of "\<lparr>wInterval = 1, wBatchSize = 2000\<rparr>" 60] by auto

text \<open>
  C29. The pre-check tells the truth: on the same state and at the same time, CheckAvailability
  accepts a list of items exactly when a Reserve of them under a new order code succeeds,
  repeated items included.
\<close>

theorem check_iff_reserve:
  assumes "wf_db db" and "orderRows db (inOrderCode inp) = []" and "valid_items (inItems inp)"
  shows "CheckAvailability (inItems inp) now db \<longleftrightarrow> snd (Reserve inp now db) = Inr ()"
proof -
  have "snd (Reserve inp now db) = Inr () \<longleftrightarrow> (\<exists>db'. reserveTx inp now db = Inr db')"
    by (auto simp: Reserve_def transaction_def split: sum.splits)
  then show ?thesis
    using checkAvailability_fits [OF assms(1), of "inItems inp" now] reserveTx_fresh(1) [OF assms] assms(3)
    by (simp add: valid_items_def)
qed

lemma check_iff_reserve_witness: "snd (Reserve demo_reserve 7 demo_db) = Inr ()"
proof -
  have "CheckAvailability (inItems demo_reserve) 7 demo_db" by code_simp
  then show ?thesis
    using check_iff_reserve [OF demo_wf _ demo_reserve_valid, of 7]
    by (simp add: demo_defs orderRows_def)
qed

text \<open>
  Updating a ticket class never lets the capacity fall below what is held and sold, and
  never touches the counters, the id or the event of the class, any other class or any
  reservation. A refused update changes nothing.
\<close>

theorem update_keeps_counters:
  assumes "wf_db db" and "look db k = Some tc"
  shows "case UpdateTicketClass k u db of
      (db', Inl e) \<Rightarrow> db' = db
    | (db', Inr tc') \<Rightarrow> look db' k = Some tc' \<and> tcReserved tc' = tcReserved tc \<and> tcSold tc' = tcSold tc
        \<and> tcID tc' = k \<and> tcEventID tc' = tcEventID tc \<and> tcReserved tc' + tcSold tc' \<le> tcTotal tc'
        \<and> reservation_table db' = reservation_table db \<and> (\<forall>j. j \<noteq> k \<longrightarrow> look db' j = look db j)"
proof (cases "UpdateTicketClass k u db")
  case (Pair db' res)
  show ?thesis
  proof (cases res)
    case (Inl e)
    with Pair update_error_keeps show ?thesis by auto
  next
    case (Inr tc')
    have id: "tcID tc = k" using look_SomeD [OF assms(2)] by simp
    have chk: "tc_check tc" by (rule wf_look_check [OF assms])
    from Pair Inr have "UpdateTicketClass k u db = (db', Inr tc')" by simp
    then show ?thesis
    proof (cases rule: update_cases [OF assms(1), consumes 1, case_names none cols])
      case none
      with Pair Inr id assms(2) chk show ?thesis by (auto simp: tc_check_defs)
    next
      case (cols tc0)
      then have "tc0 = tc" using assms(2) by simp
      with cols Pair Inr id assms(2) show ?thesis by (auto simp: look_set_tc tc_check_defs)
    qed
  qed
qed

definition demo_update :: update_ticket_class_input where
  "demo_update = \<lparr>uiName = Some ''VIP'', uiPriceCents = None, uiCurrency = None, uiTotal = Some 5,
     uiSaleStartAt = None, uiSaleEndAt = None, uiStatus = None\<rparr>"

lemma update_keeps_counters_witness:
  "\<exists>db' tc'. UpdateTicketClass 1 demo_update demo_db = (db', Inr tc') \<and> tcReserved tc' = 3 \<and> tcTotal tc' = 5"
proof -
  have "look demo_db 1 = Some demo_class" by (simp add: demo_defs look_def)
  from update_keeps_counters [OF demo_wf this, of demo_update] show ?thesis
    by (simp add: UpdateTicketClass_def Let_def updateColumns_def if_set_def demo_update_def demo_defs
        look_def below_committed_def name_taken_def update_tc_def update_where_def write_columns_def
        tc_check_defs)
qed

text \<open>
  Deleting a ticket class is refused exactly while a hold or a paid ticket of it is left,
  and then changes nothing. Otherwise the class and its terminal reservations go, and no
  other class and no other reservation is touched.
\<close>

theorem delete_exact:
  assumes "wf_db db" and "look db k = Some tc"
  shows "if \<exists>r \<in> set (reservation_table db). rTicketClassID r = k \<and> live (rStatus r)
     then DeleteTicketClass k db = (db, Inl ErrStateConflict)
     else snd (DeleteTicketClass k db) = Inr ()
        \<and> look (fst (DeleteTicketClass k db)) = (look db)(k := None)
        \<and> reservation_table (fst (DeleteTicketClass k db)) =
            filter (\<lambda>r. rTicketClassID r \<noteq> k) (reservation_table db)"
proof -
  have "row tcID j (filter (\<lambda>r. tcID r \<noteq> k) t) = (if j = k then None else row tcID j t)"
    for j and t :: "ticket_class list"
    by (induction t) auto
  then show ?thesis
    by (auto simp: DeleteTicketClass_def transaction_def delete_ok [OF assms] look_def fun_eq_iff)
qed

lemma delete_exact_witness: "DeleteTicketClass 1 demo_db = (demo_db, Inl ErrStateConflict)"
proof -
  have "look demo_db 1 = Some demo_class" by (simp add: demo_defs look_def)
  from delete_exact [OF demo_wf this] show ?thesis by (simp add: demo_defs live_def)
qed

text \<open>
  The stock of an event: what GetEventStock calls available is the free tickets of exactly
  the classes a Reserve accepts at that time, so it is zero precisely when no class of the
  event would sell one more ticket.
\<close>

theorem event_stock_sells:
  assumes "wf_db db"
  shows "esAvailable (GetEventStock ev now db) =
      sum_where (\<lambda>tc. tcEventID tc = ev \<and> onSale tc now) (\<lambda>tc. tcTotal tc - tcReserved tc - tcSold tc)
        (ticket_class_table db) \<and>
    (esAvailable (GetEventStock ev now db) > 0 \<longleftrightarrow>
      (\<exists>tc \<in> set (ticket_class_table db). tcEventID tc = ev \<and> reserve_guard 1 now tc)) \<and>
    esAvailable (GetEventStock ev now db) + esSold (GetEventStock ev now db)
      \<le> esTotal (GetEventStock ev now db)"
proof -
  let ?t = "ticket_class_table db"
  let ?free = "\<lambda>tc. tcTotal tc - tcReserved tc - tcSold tc"
  let ?p = "\<lambda>tc. tcEventID tc = ev \<and> tcStatus tc = TicketClassStatusActive
      \<and> (case tcSaleEndAt tc of None \<Rightarrow> True | Some t \<Rightarrow> t \<ge> now)"
  let ?q = "\<lambda>tc. tcEventID tc = ev \<and> onSale tc now"
  have chk: "0 \<le> ?free tc \<and> 0 \<le> tcReserved tc" if "tc \<in> set ?t" for tc
    using wf_tc [OF assms that] by (auto simp: tc_check_defs)
  have avail: "esAvailable (GetEventStock ev now db) = sum_where ?q ?free ?t"
    by (auto simp: GetEventStock_def Let_def onSale_def not_less intro!: sum_where_cong split: option.splits)
  have pos: "sum_where ?q ?free ?t > 0 \<longleftrightarrow> (\<exists>tc \<in> set ?t. ?q tc \<and> 0 < ?free tc)"
    by (rule sum_where_pos) (use chk in auto)
  have "sum_where ?q ?free ?t + sum_where ?p tcSold ?t \<le> sum_where ?p tcTotal ?t"
  proof -
    have "sum_where ?q ?free ?t \<le> sum_where ?p ?free ?t"
      by (rule sum_where_mono) (use chk in \<open>auto simp: onSale_def split: option.splits if_splits\<close>)
    also have "\<dots> \<le> sum_where ?p (\<lambda>tc. tcTotal tc - tcSold tc) ?t"
      by (rule sum_where_le) (use chk in auto)
    finally show ?thesis by (simp add: sum_where_diff)
  qed
  moreover have "esSold (GetEventStock ev now db) = sum_where ?p tcSold ?t"
    "esTotal (GetEventStock ev now db) = sum_where ?p tcTotal ?t"
    by (simp_all add: GetEventStock_def Let_def)
  ultimately show ?thesis unfolding avail pos by (auto simp: reserve_guard_onSale)
qed

lemma event_stock_sells_witness: "esAvailable (GetEventStock ''e'' 7 demo_db) = 5"
  using event_stock_sells [OF demo_wf, of "''e''" 7] by (simp add: demo_defs onSale_def)

end
