(* ===== verification/Go_Lib.thy ===== *)
theory Go_Lib
  imports TB_Prelude
begin

text \<open>
  The parts of Go's standard library and of gRPC that the services use: \<open>strconv.ParseInt\<close>
  and \<open>FormatInt\<close> in base 10, conversions to \<open>int32\<close>, \<open>strings.TrimSpace\<close> on ASCII, gRPC status codes, and
  the errors the delivery layers map to them. A time as a string is read and written by
  parameters of the definitions that use it (\<open>time.Parse\<close> and \<open>Format\<close> with the RFC 3339
  layout).
\<close>

section \<open>Integers as strings\<close>

definition digit_val :: "char \<Rightarrow> int option" where
  "digit_val c = (let n = of_char c in if 48 \<le> n \<and> n \<le> 57 then Some (n - 48) else None)"

fun parse_digits :: "string \<Rightarrow> int \<Rightarrow> int option" where
  "parse_digits [] acc = Some acc"
| "parse_digits (c # cs) acc =
     (case digit_val c of None \<Rightarrow> None | Some d \<Rightarrow> parse_digits cs (10 * acc + d))"

definition min_i64 :: int where "min_i64 = - (2 ^ 63)"
definition max_i64 :: int where "max_i64 = 2 ^ 63 - 1"

definition in_i64 :: "int \<Rightarrow> int option" where
  "in_i64 n = (if min_i64 \<le> n \<and> n \<le> max_i64 then Some n else None)"

text \<open>\<open>strconv.ParseInt(s, 10, 64)\<close>: an optional sign, at least one digit, 64-bit range.\<close>

definition parseInt :: "string \<Rightarrow> int option" where
  "parseInt s =
     (let (neg, ds) = (case s of [] \<Rightarrow> (False, [])
                       | c # cs \<Rightarrow> if c = CHR ''-'' then (True, cs)
                                   else if c = CHR ''+'' then (False, cs) else (False, s))
      in if ds = [] then None
         else case parse_digits ds 0 of
                None \<Rightarrow> None
              | Some n \<Rightarrow> in_i64 (if neg then - n else n))"

definition digit_char :: "nat \<Rightarrow> char" where "digit_char d = ''0123456789'' ! d"

fun show_nat :: "nat \<Rightarrow> string" where
  "show_nat n = (if n < 10 then [digit_char n] else show_nat (n div 10) @ [digit_char (n mod 10)])"

declare show_nat.simps [simp del]

definition formatInt :: "int \<Rightarrow> string" where
  "formatInt n = (if n < 0 then CHR ''-'' # show_nat (nat (- n)) else show_nat (nat n))"

lemma lt_10: "(d::nat) < 10 \<Longrightarrow> d = 0 \<or> d = 1 \<or> d = 2 \<or> d = 3 \<or> d = 4 \<or> d = 5 \<or> d = 6 \<or> d = 7 \<or> d = 8 \<or> d = 9"
  by presburger

lemma digit_val_char: "d < 10 \<Longrightarrow> digit_val (digit_char d) = Some (int d)"
  by (drule lt_10) (auto simp: digit_char_def digit_val_def Let_def)

lemma digit_char_sign: "d < 10 \<Longrightarrow> digit_char d \<noteq> CHR ''-'' \<and> digit_char d \<noteq> CHR ''+''"
  by (drule lt_10) (auto simp: digit_char_def)

lemma parse_digits_append:
  "parse_digits (xs @ ys) acc =
     (case parse_digits xs acc of None \<Rightarrow> None | Some n \<Rightarrow> parse_digits ys n)"
  by (induction xs arbitrary: acc) (auto split: option.splits)

lemma parse_show_nat: "parse_digits (show_nat n) 0 = Some (int n)"
proof (induction n rule: show_nat.induct)
  case (1 n)
  show ?case
  proof (cases "n < 10")
    case True
    then show ?thesis by (subst show_nat.simps) (simp add: digit_val_char)
  next
    case False
    then have "parse_digits (show_nat n) 0 = Some (10 * int (n div 10) + int (n mod 10))"
      using 1 by (subst show_nat.simps)
        (simp add: parse_digits_append digit_val_char del: of_nat_mod of_nat_div)
    also have "10 * int (n div 10) + int (n mod 10) = int n"
      by (metis mult_div_mod_eq of_nat_add of_nat_mult of_nat_numeral)
    finally show ?thesis .
  qed
qed

lemma show_nat_head: "\<exists>c cs. show_nat n = c # cs \<and> c \<noteq> CHR ''-'' \<and> c \<noteq> CHR ''+''"
proof (induction n rule: show_nat.induct)
  case (1 n)
  then show ?case
    using digit_char_sign [of n] by (subst show_nat.simps) auto
qed

lemma parse_formatInt:
  assumes "min_i64 \<le> n" and "n \<le> max_i64"
  shows "parseInt (formatInt n) = Some n"
proof -
  obtain c cs where c: "show_nat (nat n) = c # cs" "c \<noteq> CHR ''-''" "c \<noteq> CHR ''+''"
    using show_nat_head by blast
  show ?thesis
  proof (cases "n < 0")
    case True
    obtain d ds where "show_nat (nat (- n)) = d # ds" using show_nat_head by blast
    then show ?thesis using True assms parse_show_nat [of "nat (- n)"]
      by (simp add: parseInt_def formatInt_def in_i64_def)
  next
    case False
    then show ?thesis using c assms parse_show_nat [of "nat n"]
      by (simp add: parseInt_def formatInt_def in_i64_def)
  qed
qed

section \<open>32-bit conversions\<close>

text \<open>\<open>int32(n)\<close> keeps the low 32 bits.\<close>

definition int32 :: "int \<Rightarrow> int" where
  "int32 n = sint (word_of_int n :: 32 word)"

definition in_i32 :: "int \<Rightarrow> bool" where
  "in_i32 n \<longleftrightarrow> - (2 ^ 31) \<le> n \<and> n < 2 ^ 31"

lemma int32_id: "in_i32 n \<Longrightarrow> int32 n = n"
  unfolding int32_def in_i32_def
  by (simp add: signed_take_bit_int_eq_self sint_sbintrunc')

lemma int32_range: "in_i32 (int32 n)"
  using sint_greater_eq [of "word_of_int n :: 32 word"] sint_less [of "word_of_int n :: 32 word"]
  by (simp add: int32_def in_i32_def)

text \<open>\<open>int64\<close> arithmetic keeps the low 64 bits.\<close>

definition int64 :: "int \<Rightarrow> int" where
  "int64 n = sint (word_of_int n :: 64 word)"

lemma int64_id: "- (2 ^ 63) \<le> n \<Longrightarrow> n < 2 ^ 63 \<Longrightarrow> int64 n = n"
  unfolding int64_def by (simp add: signed_take_bit_int_eq_self sint_sbintrunc')

section \<open>White space\<close>

definition is_space :: "char \<Rightarrow> bool" where
  "is_space c \<longleftrightarrow> (let n = (of_char c :: nat) in n = 32 \<or> (9 \<le> n \<and> n \<le> 13))"

definition TrimSpace :: "string \<Rightarrow> string" where
  "TrimSpace s = rev (dropWhile is_space (rev (dropWhile is_space s)))"

section \<open>gRPC status codes and errors\<close>

datatype grpc_code =
  OK | Canceled | Unknown | InvalidArgument | DeadlineExceeded | NotFound | AlreadyExists
  | PermissionDenied | ResourceExhausted | FailedPrecondition | Aborted | OutOfRange
  | Unimplemented | Internal | Unavailable | DataLoss | Unauthenticated

text \<open>An error at a delivery layer: one of the layer's own, which carry a code, or any other.\<close>

datatype delivery_error = GRPCError grpc_code string | PlainError string

type_synonym grpc_status = "grpc_code \<times> string"

definition GrpcError :: "delivery_error \<Rightarrow> grpc_status" where
  "GrpcError e =
     (case e of GRPCError c m \<Rightarrow> (c, m) | PlainError m \<Rightarrow> (Internal, ''Internal server error''))"

end
