(* ===== verification/Inventory_Grpc.thy ===== *)
theory Inventory_Grpc
  imports Inventory_Props Go_Lib
begin

text \<open>
  The inventory service's gRPC layer (\<open>inventory-svc/internal/delivery/grpc\<close>): request
  validation, conversion of messages, error codes, and the handlers over the services. Messages
  carry \<open>int32\<close> and string fields; conversions that can wrap are written out. A handler
  takes the time parser, and the clock where the service reads it. \<open>created_at\<close> and
  \<open>updated_at\<close> are not part of the modelled message; metrics and logs have no state here.
\<close>

section \<open>Messages\<close>

record pb_ticket_class =
  pId :: string
  pEventId :: string
  pName :: string
  pPriceCents :: int
  pCurrency :: string
  pTotal :: int
  pStartSaleAt :: string
  pEndSaleAt :: string

record create_request =
  crEventId :: string
  crName :: string
  crPriceCents :: int
  crCurrency :: string
  crTotal :: int
  crStartSaleAt :: string
  crEndSaleAt :: string

record update_request =
  urId :: string
  urName :: string
  urPriceCents :: int
  urCurrency :: string
  urTotal :: int
  urStartSaleAt :: string
  urEndSaleAt :: string

record find_many_request =
  fmEventId :: string
  fmIds :: "string list"

record pb_item =
  piTicketClassId :: string
  piQuantity :: int

record reserve_request =
  rrOrderCode :: string
  rrItems :: "pb_item list"
  rrExpiresAt :: string

section \<open>Errors\<close>

definition ErrValidationFailed :: delivery_error where
  "ErrValidationFailed = GRPCError InvalidArgument ''validation failed''"

definition mapError :: "inv_error \<Rightarrow> delivery_error" where
  "mapError e =
     (case e of
        ErrNotFound \<Rightarrow> GRPCError NotFound ''resource not found''
      | ErrInsufficientStock \<Rightarrow> GRPCError FailedPrecondition ''insufficient stock''
      | ErrSaleClosed \<Rightarrow> GRPCError FailedPrecondition ''ticket class not on sale''
      | ErrStateConflict \<Rightarrow> GRPCError FailedPrecondition ''reservation state conflict''
      | ErrInventoryDrift \<Rightarrow> GRPCError Internal ''internal server error''
      | _ \<Rightarrow> GRPCError Internal ''internal server error'')"

definition reserveResult :: "inv_error \<Rightarrow> string" where
  "reserveResult e = (if e = ErrInsufficientStock then ''sold_out'' else ''error'')"

section \<open>Validation\<close>

definition bad_time :: "(string \<Rightarrow> time option) \<Rightarrow> string \<Rightarrow> bool" where
  "bad_time parse s \<longleftrightarrow> s \<noteq> [] \<and> parse s = None"

definition validateCreateTicketClassRequest ::
  "(string \<Rightarrow> time option) \<Rightarrow> create_request \<Rightarrow> delivery_error option" where
  "validateCreateTicketClassRequest parse req =
     (if crEventId req = [] then Some ErrValidationFailed
      else if crName req = [] then Some ErrValidationFailed
      else if crPriceCents req < 0 then Some ErrValidationFailed
      else if crCurrency req = [] then Some ErrValidationFailed
      else if crTotal req \<le> 0 then Some ErrValidationFailed
      else if bad_time parse (crStartSaleAt req) then Some ErrValidationFailed
      else if bad_time parse (crEndSaleAt req) then Some ErrValidationFailed
      else None)"

text \<open>Update, find-one, delete, confirm, release, availability and stock only need one id.\<close>

definition validate_id :: "string \<Rightarrow> delivery_error option" where
  "validate_id s = (if s = [] then Some ErrValidationFailed else None)"

definition validateFindManyTicketClassRequest :: "find_many_request \<Rightarrow> delivery_error option" where
  "validateFindManyTicketClassRequest req =
     (if fmEventId req = [] \<and> fmIds req = [] then Some ErrValidationFailed else None)"

definition validateItem :: "pb_item \<Rightarrow> delivery_error option" where
  "validateItem it =
     (if piTicketClassId it = [] then Some ErrValidationFailed
      else if piQuantity it \<le> 0 then Some ErrValidationFailed
      else None)"

fun validateItems :: "pb_item list \<Rightarrow> delivery_error option" where
  "validateItems [] = None"
| "validateItems (it # its) =
     (case validateItem it of Some e \<Rightarrow> Some e | None \<Rightarrow> validateItems its)"

definition validateReserveRequest :: "reserve_request \<Rightarrow> delivery_error option" where
  "validateReserveRequest req =
     (if rrOrderCode req = [] then Some ErrValidationFailed
      else if rrItems req = [] then Some ErrValidationFailed
      else if rrExpiresAt req = [] then Some ErrValidationFailed
      else validateItems (rrItems req))"

definition validateCheckAvailabilityRequest :: "pb_item list \<Rightarrow> delivery_error option" where
  "validateCheckAvailabilityRequest its =
     (if its = [] then Some ErrValidationFailed else validateItems its)"

section \<open>Conversion of messages\<close>

definition newTicketClassResponse :: "(time \<Rightarrow> string) \<Rightarrow> ticket_class \<Rightarrow> pb_ticket_class" where
  "newTicketClassResponse fmt tc =
     \<lparr>pId = formatInt (tcID tc), pEventId = tcEventID tc, pName = tcName tc,
      pPriceCents = tcPriceCents tc, pCurrency = tcCurrency tc, pTotal = int32 (tcTotal tc),
      pStartSaleAt = (case tcSaleStartAt tc of None \<Rightarrow> [] | Some t \<Rightarrow> fmt t),
      pEndSaleAt = (case tcSaleEndAt tc of None \<Rightarrow> [] | Some t \<Rightarrow> fmt t)\<rparr>"

definition parseTime :: "(string \<Rightarrow> time option) \<Rightarrow> string \<Rightarrow> delivery_error + time option" where
  "parseTime parse s =
     (if s = [] then Inr None
      else case parse s of None \<Rightarrow> Inl (PlainError ''parsing time'') | Some t \<Rightarrow> Inr (Some t))"

definition newCreateTicketClassInput ::
  "(string \<Rightarrow> time option) \<Rightarrow> create_request \<Rightarrow> delivery_error + create_ticket_class_input" where
  "newCreateTicketClassInput parse req =
     (case parseTime parse (crStartSaleAt req) of Inl e \<Rightarrow> Inl e | Inr st \<Rightarrow>
        (case parseTime parse (crEndSaleAt req) of Inl e \<Rightarrow> Inl e | Inr en \<Rightarrow>
           Inr \<lparr>ciEventID = crEventId req, ciName = crName req, ciPriceCents = crPriceCents req,
                ciCurrency = crCurrency req, ciTotal = crTotal req,
                ciSaleStartAt = st, ciSaleEndAt = en\<rparr>))"

definition newUpdateTicketClassInput ::
  "(string \<Rightarrow> time option) \<Rightarrow> update_request \<Rightarrow> delivery_error + update_ticket_class_input" where
  "newUpdateTicketClassInput parse req =
     (case parseTime parse (urStartSaleAt req) of Inl e \<Rightarrow> Inl e | Inr st \<Rightarrow>
        (case parseTime parse (urEndSaleAt req) of Inl e \<Rightarrow> Inl e | Inr en \<Rightarrow>
           Inr \<lparr>uiName = (if urName req \<noteq> [] then Some (urName req) else None),
                uiPriceCents = (if urPriceCents req \<noteq> 0 then Some (urPriceCents req) else None),
                uiCurrency = (if urCurrency req \<noteq> [] then Some (urCurrency req) else None),
                uiTotal = (if urTotal req \<noteq> 0 then Some (urTotal req) else None),
                uiSaleStartAt = st, uiSaleEndAt = en, uiStatus = None\<rparr>))"

fun parse_ids :: "string list \<Rightarrow> delivery_error + int list" where
  "parse_ids [] = Inr []"
| "parse_ids (s # ss) =
     (case parseInt s of
        None \<Rightarrow> Inl (PlainError ''parsing id'')
      | Some k \<Rightarrow> (case parse_ids ss of Inl e \<Rightarrow> Inl e | Inr ks \<Rightarrow> Inr (k # ks)))"

definition newGetManyTicketClassInput :: "find_many_request \<Rightarrow> delivery_error + get_many_input" where
  "newGetManyTicketClassInput req =
     (if fmIds req = [] then Inr \<lparr>gmEventID = fmEventId req, gmIDs = []\<rparr>
      else case parse_ids (fmIds req) of
             Inl e \<Rightarrow> Inl e
           | Inr ks \<Rightarrow> Inr \<lparr>gmEventID = fmEventId req, gmIDs = ks\<rparr>)"

fun newItems :: "pb_item list \<Rightarrow> delivery_error + reserve_item list" where
  "newItems [] = Inr []"
| "newItems (it # its) =
     (case parseInt (piTicketClassId it) of
        None \<Rightarrow> Inl (PlainError ''parsing id'')
      | Some k \<Rightarrow>
          (case newItems its of
             Inl e \<Rightarrow> Inl e
           | Inr ris \<Rightarrow> Inr (\<lparr>riTicketClassID = k, riQty = piQuantity it\<rparr> # ris)))"

definition newReserveInput ::
  "(string \<Rightarrow> time option) \<Rightarrow> reserve_request \<Rightarrow> delivery_error + reserve_input" where
  "newReserveInput parse req =
     (case parse (rrExpiresAt req) of
        None \<Rightarrow> Inl (PlainError ''parsing time'')
      | Some t \<Rightarrow>
          (case newItems (rrItems req) of
             Inl e \<Rightarrow> Inl e
           | Inr its \<Rightarrow> Inr \<lparr>inOrderCode = rrOrderCode req, inItems = its, inExpiresAt = t\<rparr>))"

section \<open>Handlers\<close>

definition rpc_CreateTicketClass ::
  "(string \<Rightarrow> time option) \<Rightarrow> (time \<Rightarrow> string) \<Rightarrow> create_request \<Rightarrow> invdb
     \<Rightarrow> invdb \<times> (grpc_status + pb_ticket_class)" where
  "rpc_CreateTicketClass parse fmt req db =
     (case validateCreateTicketClassRequest parse req of
        Some e \<Rightarrow> (db, Inl (GrpcError e))
      | None \<Rightarrow>
          (case newCreateTicketClassInput parse req of
             Inl e \<Rightarrow> (db, Inl (GrpcError e))
           | Inr i \<Rightarrow>
               (case CreateTicketClass i db of
                  (db', Inl e) \<Rightarrow> (db', Inl (GrpcError (mapError e)))
                | (db', Inr tc) \<Rightarrow> (db', Inr (newTicketClassResponse fmt tc)))))"

definition rpc_UpdateTicketClass ::
  "(string \<Rightarrow> time option) \<Rightarrow> (time \<Rightarrow> string) \<Rightarrow> update_request \<Rightarrow> invdb
     \<Rightarrow> invdb \<times> (grpc_status + pb_ticket_class)" where
  "rpc_UpdateTicketClass parse fmt req db =
     (case validate_id (urId req) of
        Some e \<Rightarrow> (db, Inl (GrpcError e))
      | None \<Rightarrow>
          (case parseInt (urId req) of
             None \<Rightarrow> (db, Inl (GrpcError ErrValidationFailed))
           | Some k \<Rightarrow>
               (case newUpdateTicketClassInput parse req of
                  Inl e \<Rightarrow> (db, Inl (GrpcError e))
                | Inr u \<Rightarrow>
                    (case UpdateTicketClass k u db of
                       (db', Inl e) \<Rightarrow> (db', Inl (GrpcError (mapError e)))
                     | (db', Inr tc) \<Rightarrow> (db', Inr (newTicketClassResponse fmt tc))))))"

definition rpc_FindOneTicketClass ::
  "(time \<Rightarrow> string) \<Rightarrow> string \<Rightarrow> invdb \<Rightarrow> grpc_status + pb_ticket_class" where
  "rpc_FindOneTicketClass fmt s db =
     (case validate_id s of
        Some e \<Rightarrow> Inl (GrpcError e)
      | None \<Rightarrow>
          (case parseInt s of
             None \<Rightarrow> Inl (GrpcError ErrValidationFailed)
           | Some k \<Rightarrow>
               (case GetByID k db of
                  Inl e \<Rightarrow> Inl (GrpcError (mapError e))
                | Inr tc \<Rightarrow> Inr (newTicketClassResponse fmt tc))))"

definition rpc_FindManyTicketClass ::
  "(time \<Rightarrow> string) \<Rightarrow> find_many_request \<Rightarrow> invdb \<Rightarrow> grpc_status + pb_ticket_class list" where
  "rpc_FindManyTicketClass fmt req db =
     (case validateFindManyTicketClassRequest req of
        Some e \<Rightarrow> Inl (GrpcError e)
      | None \<Rightarrow>
          (case newGetManyTicketClassInput req of
             Inl e \<Rightarrow> Inl (GrpcError e)
           | Inr i \<Rightarrow> Inr (map (newTicketClassResponse fmt) (GetMany i db))))"

definition rpc_DeleteTicketClass :: "string \<Rightarrow> invdb \<Rightarrow> invdb \<times> (grpc_status + unit)" where
  "rpc_DeleteTicketClass s db =
     (case validate_id s of
        Some e \<Rightarrow> (db, Inl (GrpcError e))
      | None \<Rightarrow>
          (case parseInt s of
             None \<Rightarrow> (db, Inl (GrpcError ErrValidationFailed))
           | Some k \<Rightarrow>
               (case DeleteTicketClass k db of
                  (db', Inl e) \<Rightarrow> (db', Inl (GrpcError (mapError e)))
                | (db', Inr u) \<Rightarrow> (db', Inr ()))))"

definition rpc_CheckAvailability :: "time \<Rightarrow> pb_item list \<Rightarrow> invdb \<Rightarrow> grpc_status + bool" where
  "rpc_CheckAvailability now its db =
     (case validateCheckAvailabilityRequest its of
        Some e \<Rightarrow> Inl (GrpcError e)
      | None \<Rightarrow>
          (case newItems its of
             Inl e \<Rightarrow> Inl (GrpcError e)
           | Inr ins \<Rightarrow> Inr (CheckAvailability ins now db)))"

definition rpc_GetAvailability :: "string \<Rightarrow> invdb \<Rightarrow> grpc_status + int" where
  "rpc_GetAvailability s db =
     (case validate_id s of
        Some e \<Rightarrow> Inl (GrpcError e)
      | None \<Rightarrow>
          (case parseInt s of
             None \<Rightarrow> Inl (GrpcError ErrValidationFailed)
           | Some k \<Rightarrow>
               (case GetAvailableCount k db of
                  Inl e \<Rightarrow> Inl (GrpcError (mapError e))
                | Inr n \<Rightarrow> Inr (int32 n))))"

definition rpc_GetEventStock :: "time \<Rightarrow> string \<Rightarrow> invdb \<Rightarrow> grpc_status + event_stock" where
  "rpc_GetEventStock now ev db =
     (case validate_id ev of
        Some e \<Rightarrow> Inl (GrpcError e)
      | None \<Rightarrow> Inr (GetEventStock ev now db))"

definition rpc_Reserve ::
  "(string \<Rightarrow> time option) \<Rightarrow> time \<Rightarrow> reserve_request \<Rightarrow> invdb \<Rightarrow> invdb \<times> (grpc_status + unit)" where
  "rpc_Reserve parse now req db =
     (case validateReserveRequest req of
        Some e \<Rightarrow> (db, Inl (GrpcError e))
      | None \<Rightarrow>
          (case newReserveInput parse req of
             Inl e \<Rightarrow> (db, Inl (GrpcError e))
           | Inr inp \<Rightarrow>
               (case Reserve inp now db of
                  (db', Inl e) \<Rightarrow> (db', Inl (GrpcError (mapError e)))
                | (db', Inr u) \<Rightarrow> (db', Inr ()))))"

definition rpc_Confirm :: "string \<Rightarrow> invdb \<Rightarrow> invdb \<times> (grpc_status + unit)" where
  "rpc_Confirm oc db =
     (case validate_id oc of
        Some e \<Rightarrow> (db, Inl (GrpcError e))
      | None \<Rightarrow>
          (case Confirm oc db of
             (db', Inl e) \<Rightarrow> (db', Inl (GrpcError (mapError e)))
           | (db', Inr u) \<Rightarrow> (db', Inr ())))"

definition rpc_Release :: "string \<Rightarrow> invdb \<Rightarrow> invdb \<times> (grpc_status + unit)" where
  "rpc_Release oc db =
     (case validate_id oc of
        Some e \<Rightarrow> (db, Inl (GrpcError e))
      | None \<Rightarrow>
          (case Release oc db of
             (db', Inl e) \<Rightarrow> (db', Inl (GrpcError (mapError e)))
           | (db', Inr u) \<Rightarrow> (db', Inr ())))"

section \<open>What the layer lets through\<close>

lemma validateItems_None: "validateItems its = None \<longleftrightarrow> (\<forall>it \<in> set its. piTicketClassId it \<noteq> [] \<and> piQuantity it > 0)"
  by (induction its) (auto simp: validateItem_def)

lemma newItems_qty: "newItems its = Inr ris \<Longrightarrow> map riQty ris = map piQuantity its"
  by (induction its arbitrary: ris) (auto split: option.splits sum.splits)

lemma newItems_valid:
  assumes "newItems its = Inr ris" and "validateItems its = None" and "its \<noteq> []"
  shows "valid_items ris"
proof -
  note q = newItems_qty [OF assms(1)]
  have "riQty ` set ris = piQuantity ` set its" using q by (metis list.set_map)
  then have "\<forall>r \<in> set ris. riQty r > 0"
    using assms(2) unfolding validateItems_None by (metis (no_types, lifting) image_iff)
  moreover have "ris \<noteq> []" using q assms(3) by auto
  ultimately show ?thesis by (simp add: valid_items_def)
qed

lemma newReserveInput_valid:
  assumes "newReserveInput parse req = Inr inp" and "validateReserveRequest req = None"
  shows "valid_items (inItems inp)"
proof -
  obtain ris where "newItems (rrItems req) = Inr ris" "inItems inp = ris"
    using assms(1) by (auto simp: newReserveInput_def split: option.splits sum.splits)
  moreover have "rrItems req \<noteq> []" "validateItems (rrItems req) = None"
    using assms(2) by (auto simp: validateReserveRequest_def split: if_splits)
  ultimately show ?thesis using newItems_valid by blast
qed

text \<open>
  The call of the service that a request asks for: none when it fails validation or does not
  convert. A request is served when that one call is made, or the request is turned down.
\<close>

definition converted :: "delivery_error + 'i \<Rightarrow> 'i option" where
  "converted r = (case r of Inl e \<Rightarrow> None | Inr i \<Rightarrow> Some i)"

definition asks_id :: "string \<Rightarrow> string option" where
  "asks_id s = (if s = [] then None else Some s)"

definition asks_number :: "string \<Rightarrow> int option" where
  "asks_number s = (if s = [] then None else parseInt s)"

definition asks_reserve :: "(string \<Rightarrow> time option) \<Rightarrow> reserve_request \<Rightarrow> reserve_input option" where
  "asks_reserve parse req =
     (if validateReserveRequest req = None then converted (newReserveInput parse req) else None)"

definition asks_create :: "(string \<Rightarrow> time option) \<Rightarrow> create_request \<Rightarrow> create_ticket_class_input option" where
  "asks_create parse req =
     (if validateCreateTicketClassRequest parse req = None
      then converted (newCreateTicketClassInput parse req) else None)"

definition asks_update ::
  "(string \<Rightarrow> time option) \<Rightarrow> update_request \<Rightarrow> (int \<times> update_ticket_class_input) option" where
  "asks_update parse req =
     (case asks_number (urId req) of None \<Rightarrow> None
      | Some k \<Rightarrow> map_option (Pair k) (converted (newUpdateTicketClassInput parse req)))"

definition served ::
  "invdb \<Rightarrow> 'i option \<Rightarrow> ('i \<Rightarrow> invdb \<times> (inv_error + 'a)) \<Rightarrow> ('a \<Rightarrow> 'b)
     \<Rightarrow> invdb \<times> (grpc_status + 'b) \<Rightarrow> bool" where
  "served db asked call out rpc \<longleftrightarrow>
     (case asked of
        None \<Rightarrow> fst rpc = db \<and> isl (snd rpc)
      | Some i \<Rightarrow> inv_step db (fst (call i)) \<and>
          rpc = (fst (call i), map_sum (\<lambda>e. GrpcError (mapError e)) out (snd (call i))) \<and>
          (isl (snd rpc) \<longrightarrow> fst rpc = db))"

lemma service_refused:
  "isl (snd (transaction f db)) \<Longrightarrow> fst (transaction f db) = db"
  "isl (snd (CreateTicketClass i db)) \<Longrightarrow> fst (CreateTicketClass i db) = db"
  "isl (snd (UpdateTicketClass k u db)) \<Longrightarrow> fst (UpdateTicketClass k u db) = db"
  by (auto simp: transaction_def CreateTicketClass_def UpdateTicketClass_def Let_def
      split: sum.splits option.splits if_splits)

lemma served_call:
  "asked = Some i \<Longrightarrow> inv_step db (fst (call i)) \<Longrightarrow> (isl (snd (call i)) \<Longrightarrow> fst (call i) = db) \<Longrightarrow>
   rpc = (fst (call i), map_sum (\<lambda>e. GrpcError (mapError e)) out (snd (call i))) \<Longrightarrow> served db asked call out rpc"
  by (cases "snd (call i)") (auto simp: served_def)

lemma served_none: "asked = None \<Longrightarrow> rpc = (db, Inl st) \<Longrightarrow> served db asked call out rpc"
  by (simp add: served_def)

lemma served_Reserve:
  "served db (asks_reserve parse req) (\<lambda>inp. Reserve inp now db) id (rpc_Reserve parse now req db)"
proof (cases "asks_reserve parse req")
  case None
  then obtain e where "rpc_Reserve parse now req db = (db, Inl (GrpcError e))"
    by (auto simp: asks_reserve_def converted_def rpc_Reserve_def split: if_splits option.splits sum.splits)
  with None show ?thesis by (rule served_none)
next
  case (Some inp)
  then have in': "validateReserveRequest req = None" "newReserveInput parse req = Inr inp"
    by (auto simp: asks_reserve_def converted_def split: if_splits sum.splits)
  show ?thesis
    by (rule served_call [of _ inp]) (auto simp: Some rpc_Reserve_def in' Reserve_def
        intro!: service_refused(1) step_reserve [OF newReserveInput_valid [OF in'(2,1)], unfolded Reserve_def]
        split: prod.splits sum.splits)
qed

lemma served_Confirm: "served db (asks_id oc) (\<lambda>oc. Confirm oc db) id (rpc_Confirm oc db)"
proof (cases "oc = []")
  case False
  then show ?thesis
    by (intro served_call [of _ oc, OF _ step_confirm]) (auto simp: asks_id_def rpc_Confirm_def validate_id_def
        Confirm_def service_refused split: prod.splits sum.splits)
qed (simp add: served_def asks_id_def rpc_Confirm_def validate_id_def)

lemma served_Release: "served db (asks_id oc) (\<lambda>oc. Release oc db) id (rpc_Release oc db)"
proof (cases "oc = []")
  case False
  then show ?thesis
    by (intro served_call [of _ oc, OF _ step_release]) (auto simp: asks_id_def rpc_Release_def validate_id_def
        Release_def service_refused split: prod.splits sum.splits)
qed (simp add: served_def asks_id_def rpc_Release_def validate_id_def)

lemma served_Delete: "served db (asks_number s) (\<lambda>k. DeleteTicketClass k db) id (rpc_DeleteTicketClass s db)"
proof (cases "asks_number s")
  case None
  then obtain e where "rpc_DeleteTicketClass s db = (db, Inl (GrpcError e))"
    by (auto simp: asks_number_def rpc_DeleteTicketClass_def validate_id_def split: if_splits)
  with None show ?thesis by (rule served_none)
next
  case (Some k)
  then have k: "validate_id s = None" "parseInt s = Some k"
    by (auto simp: asks_number_def validate_id_def split: if_splits)
  show ?thesis
    by (rule served_call [of _ k, OF _ step_delete]) (auto simp: Some rpc_DeleteTicketClass_def k
        DeleteTicketClass_def service_refused split: prod.splits sum.splits)
qed

lemma served_Create:
  "served db (asks_create parse req) (\<lambda>i. CreateTicketClass i db) (newTicketClassResponse fmt)
     (rpc_CreateTicketClass parse fmt req db)"
proof (cases "asks_create parse req")
  case None
  then obtain e where "rpc_CreateTicketClass parse fmt req db = (db, Inl (GrpcError e))"
    by (auto simp: asks_create_def converted_def rpc_CreateTicketClass_def split: if_splits option.splits sum.splits)
  with None show ?thesis by (rule served_none)
next
  case (Some i)
  then have i: "validateCreateTicketClassRequest parse req = None" "newCreateTicketClassInput parse req = Inr i"
    by (auto simp: asks_create_def converted_def split: if_splits sum.splits)
  show ?thesis
    by (rule served_call [of _ i]) (auto simp: Some rpc_CreateTicketClass_def i step_create
        service_refused split: prod.splits sum.splits)
qed

lemma served_Update:
  "served db (asks_update parse req) (\<lambda>(k, u). UpdateTicketClass k u db) (newTicketClassResponse fmt)
     (rpc_UpdateTicketClass parse fmt req db)"
proof (cases "asks_update parse req")
  case None
  then obtain e where "rpc_UpdateTicketClass parse fmt req db = (db, Inl (GrpcError e))"
    by (auto simp: asks_update_def asks_number_def converted_def validate_id_def rpc_UpdateTicketClass_def
        split: if_splits option.splits sum.splits)
  with None show ?thesis by (rule served_none)
next
  case (Some ku)
  then obtain k u where ku: "ku = (k, u)" "validate_id (urId req) = None" "parseInt (urId req) = Some k"
    "newUpdateTicketClassInput parse req = Inr u"
    by (auto simp: asks_update_def asks_number_def converted_def validate_id_def
        split: if_splits option.splits sum.splits)
  show ?thesis
    by (rule served_call [of _ "(k, u)"]) (auto simp: Some ku rpc_UpdateTicketClass_def step_update
        service_refused split: prod.splits sum.splits)
qed


lemma rpc_reachable:
  assumes "inv_reachable db"
  shows "inv_reachable (fst (rpc_Reserve parse now req db))"
  using served_Reserve [of db parse req now] assms
  by (auto simp: served_def intro: reach_step split: option.splits)

definition demo_parse :: "string \<Rightarrow> time option" where
  "demo_parse s = (if s = ''t'' then Some 90 else None)"

text \<open>
  What Reserve answers over the wire on a consistent database. InvalidArgument is exactly a
  request that fails validation; Internal is exactly a valid one whose expiry time or a
  ticket class id does not parse; any other refusal is NotFound or FailedPrecondition and
  leaves the database unchanged.
\<close>

theorem rpc_reserve_codes:
  assumes "consistent db" and "snd (rpc_Reserve parse now req db) = Inl (c, m)"
  shows "fst (rpc_Reserve parse now req db) = db \<and>
    (c = InvalidArgument \<longleftrightarrow> validateReserveRequest req \<noteq> None) \<and>
    (c = Internal \<longleftrightarrow> validateReserveRequest req = None \<and> (\<forall>inp. newReserveInput parse req \<noteq> Inr inp)) \<and>
    c \<in> {InvalidArgument, Internal, NotFound, FailedPrecondition}"
proof (cases "validateReserveRequest req")
  case (Some e)
  then have "e = ErrValidationFailed"
  proof -
    have "validateItems its = Some e' \<Longrightarrow> e' = ErrValidationFailed" for its e'
      by (induction its) (auto simp: validateItem_def split: option.splits if_splits)
    with Some show ?thesis by (auto simp: validateReserveRequest_def split: if_splits)
  qed
  with Some assms(2) show ?thesis by (auto simp: rpc_Reserve_def GrpcError_def ErrValidationFailed_def)
next
  case None
  show ?thesis
  proof (cases "newReserveInput parse req")
    case (Inl e)
    then have "\<exists>m. e = PlainError m"
    proof -
      have "newItems its = Inl e' \<Longrightarrow> \<exists>m. e' = PlainError m" for its e'
        by (induction its) (auto split: option.splits sum.splits)
      with Inl show ?thesis by (auto simp: newReserveInput_def split: option.splits sum.splits)
    qed
    with None Inl assms(2) show ?thesis by (auto simp: rpc_Reserve_def GrpcError_def)
  next
    case (Inr inp)
    have ok: "valid_items (inItems inp)" by (rule newReserveInput_valid [OF Inr None])
    obtain db' e where run: "Reserve inp now db = (db', Inl e)" "(c, m) = GrpcError (mapError e)"
      using assms(2) None Inr by (auto simp: rpc_Reserve_def split: prod.splits sum.splits)
    have tx: "reserveTx inp now db = Inl e" "db' = db"
      using run(1) by (auto simp: Reserve_def transaction_Inl)
    have "e = ErrNotFound \<or> e = ErrSaleClosed \<or> e = ErrInsufficientStock \<or> e = ErrStateConflict"
    proof (cases "orderRows db (inOrderCode inp) = []")
      case True
      then show ?thesis
        using reserveTx_fresh(3) [OF _ True ok tx(1)] assms(1)
        by (auto simp: consistent_def explainReserveMiss_def split: option.splits if_splits)
    next
      case False
      with tx(1) show ?thesis by (auto simp: reserveTx_again split: if_splits)
    qed
    with run None Inr tx(2) show ?thesis
      by (auto simp: rpc_Reserve_def GrpcError_def mapError_def)
  qed
qed

lemma rpc_reserve_codes_witness:
  "snd (rpc_Reserve demo_parse 7
     \<lparr>rrOrderCode = ''M'', rrItems = [\<lparr>piTicketClassId = ''x'', piQuantity = 1\<rparr>], rrExpiresAt = ''t''\<rparr> demo_db)
     = Inl (Internal, ''Internal server error'') \<and> Internal \<noteq> InvalidArgument"
proof -
  let ?r = "\<lparr>rrOrderCode = ''M'', rrItems = [\<lparr>piTicketClassId = ''x'', piQuantity = 1\<rparr>], rrExpiresAt = ''t''\<rparr>"
  have e: "snd (rpc_Reserve demo_parse 7 ?r demo_db) = Inl (Internal, ''Internal server error'')"
    by code_simp
  then show ?thesis using rpc_reserve_codes [OF demo_consistent e] by blast
qed

text \<open>
  The messages round trip: the id in a ticket class message leads back to the class, and as
  long as the capacity fits an \<open>int32\<close> the message carries it unchanged.
\<close>

theorem ticket_class_message_roundtrip:
  assumes "look db k = Some tc" and "min_i64 \<le> k" and "k \<le> max_i64"
    and "0 \<le> tcTotal tc" and "tcTotal tc < 2 ^ 31"
  shows "rpc_FindOneTicketClass fmt (pId (newTicketClassResponse fmt tc)) db =
      Inr (newTicketClassResponse fmt tc) \<and> pTotal (newTicketClassResponse fmt tc) = tcTotal tc"
proof -
  have "tcID tc = k" using look_SomeD [OF assms(1)] by simp
  moreover have "formatInt k \<noteq> []" using parse_formatInt [OF assms(2,3)] by (auto simp: parseInt_def)
  ultimately show ?thesis
    using assms parse_formatInt [OF assms(2,3)]
    by (simp add: rpc_FindOneTicketClass_def validate_id_def newTicketClassResponse_def GetByID_def
        int32_id in_i32_def)
qed

lemma ticket_class_message_roundtrip_witness:
  "rpc_FindOneTicketClass (\<lambda>t. []) ''1'' demo_db = Inr (newTicketClassResponse (\<lambda>t. []) demo_class)"
proof -
  have "look demo_db 1 = Some demo_class" by (simp add: demo_defs look_def)
  moreover have "pId (newTicketClassResponse (\<lambda>t. []) demo_class) = ''1''" by code_simp
  ultimately show ?thesis
    using ticket_class_message_roundtrip [of demo_db 1 demo_class "\<lambda>t. []"]
    by (simp add: min_i64_def max_i64_def demo_class_def)
qed

end
