(* ===== verification/Order_Store.thy ===== *)
theory Order_Store
  imports Go_Lib "HOL-Library.Char_ord" "HOL-Library.List_Lexorder"
begin

text \<open>
  The order service's DynamoDB table (\<open>order-svc/internal/order/repository\<close>,
  \<open>internal/models\<close>, \<open>pkg/dynamodb\<close>, \<open>pkg/paginator\<close>). One table holds orders,
  their items and purchase-slot claims under composite keys; here it is an association list
  from (PK, SK) to an item, so that conditional writes and queries compute. The clock is an
  argument, and so is the formatting of a time (\<open>RFC3339Nano\<close>) in the index keys. The
  operations are what the repository does when DynamoDB answers; lost requests and lost
  replies are added where the service and the workflows call them.
\<close>

section \<open>Data\<close>

datatype order_status =
  OrderStatusPending | OrderStatusTimeout | OrderStatusCompleted | OrderStatusCancelled
  | OrderStatusPaymentFailed | OrderStatusRefunded | OrderStatusRefundRequired
  | OrderStatusOther string

record order =
  oPK :: string
  oSK :: string
  oGSI1PK :: string
  oGSI1SK :: string
  oGSI2PK :: string
  oGSI2SK :: string
  oEntityType :: string
  oCode :: string
  oSessionID :: string
  oUserID :: string
  oUserFullName :: string
  oEmail :: string
  oPhone :: string
  oEventID :: string
  oTotalAmount :: int
  oCurrency :: string
  oPaymentMethod :: string
  oStatus :: order_status
  oPaidAt :: "time option"
  oCreatedAt :: time
  oUpdatedAt :: time
  oDeletedAt :: "time option"

record order_item =
  iPK :: string
  iSK :: string
  iEntityType :: string
  iID :: string
  iOrderCode :: string
  iTicketClassID :: string
  iTicketClassName :: string
  iPriceAtPurchase :: int
  iQuantity :: int
  iTotalAmount :: int
  iCreatedAt :: time
  iUpdatedAt :: time
  iDeletedAt :: "time option"

text \<open>A purchase-slot claim: a bare item; its numbers are stored as strings.\<close>

record slot_claim =
  clOrderCode :: string
  clClaimedAt :: string
  clExpiresAt :: string

datatype ditem = DOrder order | DItem order_item | DClaim slot_claim

type_synonym dkey = "string \<times> string"
type_synonym otable = "(dkey \<times> ditem) list"

datatype order_error =
  ErrOrderNotFound | ErrOrderAlreadyExists | ErrInvalidOrderStatus | ErrOrderCreationFailed
  | ErrOrderUpdateFailed | ErrOrderCancellationFailed | ErrOrderNotPending
  | ErrPaymentAmountMismatch | ErrEventNotFound | ErrEventNotReadyForSale
  | ErrTicketClassNotFound | ErrTicketSoldOut | ErrNotEnoughTickets | ErrEventConfigNotFound
  | ErrTooManyTicketsInOrder | ErrInvalidCheckoutToken | ErrPurchaseSlotTaken
  | ErrOrderAlreadyProcessed | ErrPurchaseSlotUnsettled | ErrRequestTimeout
  | ErrInventoryCannotConfirm
  | ErrRepoOrderNotFound              \<comment> \<open>the repository package's own sentinel\<close>
  | ErrPurchaseSlotReleased           \<comment> \<open>\<open>errPurchaseSlotReleased\<close>, internal to the claim loop\<close>
  | ErrStatus grpc_code string        \<comment> \<open>a gRPC status from another service\<close>
  | ErrOther string                   \<comment> \<open>any other error\<close>

section \<open>Keys\<close>

definition OrderPrefix :: string where "OrderPrefix = ''ORDER#''"
definition ItemPrefix :: string where "ItemPrefix = ''ITEM#''"
definition UserPrefix :: string where "UserPrefix = ''USER#''"
definition EventPrefix :: string where "EventPrefix = ''EVENT#''"
definition ClaimPrefix :: string where "ClaimPrefix = ''CLAIM#''"

lemmas prefix_defs = OrderPrefix_def ItemPrefix_def UserPrefix_def EventPrefix_def ClaimPrefix_def

definition BuildOrderPK :: "string \<Rightarrow> string" where "BuildOrderPK code = OrderPrefix @ code"
definition BuildOrderSK :: "string \<Rightarrow> string" where "BuildOrderSK code = OrderPrefix @ code"
definition BuildPurchaseSlotKey :: "string \<Rightarrow> string" where "BuildPurchaseSlotKey k = ClaimPrefix @ k"
definition BuildItemSK :: "string \<Rightarrow> string" where "BuildItemSK i = ItemPrefix @ i"
definition BuildUserGSI1PK :: "string \<Rightarrow> string" where "BuildUserGSI1PK u = UserPrefix @ u"
definition BuildEventGSI2PK :: "string \<Rightarrow> string" where "BuildEventGSI2PK e = EventPrefix @ e"

definition BuildOrderGSI1SK :: "(time \<Rightarrow> string) \<Rightarrow> time \<Rightarrow> string \<Rightarrow> string" where
  "BuildOrderGSI1SK fmt t code = OrderPrefix @ fmt t @ ''#'' @ code"

definition BuildOrderGSI2SK :: "(time \<Rightarrow> string) \<Rightarrow> time \<Rightarrow> string \<Rightarrow> string" where
  "BuildOrderGSI2SK fmt t code = OrderPrefix @ fmt t @ ''#'' @ code"

definition OrderItemID :: "string \<Rightarrow> nat \<Rightarrow> string" where
  "OrderItemID code pos = code @ ''-'' @ show_nat (pos + 1)"

definition PurchaseSlotKey :: "string \<Rightarrow> string \<Rightarrow> string \<Rightarrow> string" where
  "PurchaseSlotKey sessionID userID eventID =
     (if sessionID \<noteq> [] then sessionID else ''user#'' @ userID @ '':event#'' @ eventID)"

definition order_key :: "string \<Rightarrow> dkey" where
  "order_key code = (BuildOrderPK code, BuildOrderSK code)"

definition slot_key :: "string \<Rightarrow> dkey" where
  "slot_key k = (BuildPurchaseSlotKey k, BuildPurchaseSlotKey k)"

definition item_key :: "string \<Rightarrow> string \<Rightarrow> dkey" where
  "item_key code i = (BuildOrderPK code, BuildItemSK i)"

lemma keys_inject [simp]:
  "order_key c = order_key d \<longleftrightarrow> c = d"
  "slot_key k = slot_key j \<longleftrightarrow> k = j"
  "item_key c i = item_key d j \<longleftrightarrow> c = d \<and> i = j"
  by (auto simp: order_key_def slot_key_def item_key_def BuildOrderPK_def BuildOrderSK_def
      BuildPurchaseSlotKey_def BuildItemSK_def)

lemma keys_disjoint [simp]:
  "order_key c \<noteq> slot_key k" "slot_key k \<noteq> order_key c"
  "order_key c \<noteq> item_key d i" "item_key d i \<noteq> order_key c"
  "slot_key k \<noteq> item_key d i" "item_key d i \<noteq> slot_key k"
  by (auto simp: order_key_def slot_key_def item_key_def BuildOrderPK_def BuildOrderSK_def
      BuildPurchaseSlotKey_def BuildItemSK_def prefix_defs)

section \<open>Orders\<close>

record create_order_option =
  coSessionID :: string
  coCode :: string
  coUserID :: string
  coUserFullName :: string
  coEmail :: string
  coPhone :: string
  coEventID :: string
  coTotalAmount :: int
  coCurrency :: string
  coPaymentMethod :: string
  coStatus :: order_status

definition buildOrderModel :: "(time \<Rightarrow> string) \<Rightarrow> time \<Rightarrow> create_order_option \<Rightarrow> order" where
  "buildOrderModel fmt now opt =
     \<lparr>oPK = BuildOrderPK (coCode opt), oSK = BuildOrderSK (coCode opt),
      oGSI1PK = BuildUserGSI1PK (coUserID opt), oGSI1SK = BuildOrderGSI1SK fmt now (coCode opt),
      oGSI2PK = BuildEventGSI2PK (coEventID opt), oGSI2SK = BuildOrderGSI2SK fmt now (coCode opt),
      oEntityType = ''ORDER'', oCode = coCode opt, oSessionID = coSessionID opt,
      oUserID = coUserID opt, oUserFullName = coUserFullName opt, oEmail = coEmail opt,
      oPhone = coPhone opt, oEventID = coEventID opt, oTotalAmount = coTotalAmount opt,
      oCurrency = coCurrency opt, oPaymentMethod = coPaymentMethod opt, oStatus = coStatus opt,
      oPaidAt = None, oCreatedAt = now, oUpdatedAt = now, oDeletedAt = None\<rparr>"

text \<open>\<open>PutItem\<close> with \<open>attribute_not_exists(PK)\<close>.\<close>

definition put_new :: "dkey \<Rightarrow> ditem \<Rightarrow> otable \<Rightarrow> otable option" where
  "put_new k v t = (if map_of t k = None then Some (AList.update k v t) else None)"

definition CreateOrderRow ::
  "(time \<Rightarrow> string) \<Rightarrow> time \<Rightarrow> create_order_option \<Rightarrow> otable \<Rightarrow> otable \<times> (order_error + order)" where
  "CreateOrderRow fmt now opt t =
     (let ord = buildOrderModel fmt now opt
      in case put_new (order_key (coCode opt)) (DOrder ord) t of
           None \<Rightarrow> (t, Inl ErrOrderAlreadyExists)
         | Some t' \<Rightarrow> (t', Inr ord))"

text \<open>An item unmarshalled as an order; one that holds another entity has none of its fields.\<close>

definition as_order :: "ditem \<Rightarrow> order option" where
  "as_order v = (case v of DOrder ord \<Rightarrow> Some ord | _ \<Rightarrow> None)"

text \<open>
  The reads of an order are of the table as it is: the code does not ask DynamoDB for a
  consistent read here, and the moment in which such a read may still be old is left out.
\<close>

definition GetByCode :: "string \<Rightarrow> otable \<Rightarrow> order_error + order" where
  "GetByCode code t =
     (case map_of t (order_key code) of
        None \<Rightarrow> Inl ErrRepoOrderNotFound
      | Some v \<Rightarrow>
          (case as_order v of
             None \<Rightarrow> Inl (ErrOther ''unmarshal'')
           | Some ord \<Rightarrow> if oDeletedAt ord \<noteq> None then Inl ErrRepoOrderNotFound else Inr ord))"

text \<open>
  \<open>UpdateItem\<close> on a missing key creates the item with its key and the attributes it sets.
\<close>

definition blank_order :: "string \<Rightarrow> order" where
  "blank_order code =
     \<lparr>oPK = BuildOrderPK code, oSK = BuildOrderSK code, oGSI1PK = [], oGSI1SK = [], oGSI2PK = [],
      oGSI2SK = [], oEntityType = [], oCode = [], oSessionID = [], oUserID = [], oUserFullName = [],
      oEmail = [], oPhone = [], oEventID = [], oTotalAmount = 0, oCurrency = [],
      oPaymentMethod = [], oStatus = OrderStatusOther [], oPaidAt = None, oCreatedAt = 0,
      oUpdatedAt = 0, oDeletedAt = None\<rparr>"

definition upsert_order :: "string \<Rightarrow> (order \<Rightarrow> order) \<Rightarrow> otable \<Rightarrow> otable \<times> (order_error + order)" where
  "upsert_order code f t =
     (case map_of t (order_key code) of
        None \<Rightarrow> (AList.update (order_key code) (DOrder (f (blank_order code))) t,
                 Inr (f (blank_order code)))
      | Some v \<Rightarrow>
          (case as_order v of
             None \<Rightarrow> (t, Inl (ErrOther ''unmarshal''))
           | Some ord \<Rightarrow> (AList.update (order_key code) (DOrder (f ord)) t, Inr (f ord))))"

definition UpdateOrderRow ::
  "time \<Rightarrow> string \<Rightarrow> order_status \<Rightarrow> time option \<Rightarrow> otable \<Rightarrow> otable \<times> (order_error + order)" where
  "UpdateOrderRow now code st paidAt t =
     upsert_order code
       (\<lambda>ord. (case paidAt of None \<Rightarrow> ord | Some p \<Rightarrow> ord\<lparr>oPaidAt := Some p\<rparr>)
                \<lparr>oStatus := st, oUpdatedAt := now\<rparr>) t"

definition is_pending_row :: "ditem option \<Rightarrow> bool" where
  "is_pending_row v =
     (case v of Some (DOrder ord) \<Rightarrow> oStatus ord = OrderStatusPending | _ \<Rightarrow> False)"

definition leavePending ::
  "time \<Rightarrow> string \<Rightarrow> order_status \<Rightarrow> otable \<Rightarrow> otable \<times> (order_error + order \<times> bool)" where
  "leavePending now code dest t =
     (if is_pending_row (map_of t (order_key code))
      then (case upsert_order code (\<lambda>ord. ord\<lparr>oStatus := dest, oUpdatedAt := now\<rparr>) t of
              (t', Inl e) \<Rightarrow> (t', Inl e)
            | (t', Inr ord) \<Rightarrow> (t', Inr (ord, True)))
      else (case GetByCode code t of
              Inl e \<Rightarrow> (t, Inl e)
            | Inr ord \<Rightarrow> (t, Inr (ord, oStatus ord = dest))))"

definition ExpireIfPending :: "time \<Rightarrow> string \<Rightarrow> otable \<Rightarrow> otable \<times> (order_error + order \<times> bool)" where
  "ExpireIfPending now code = leavePending now code OrderStatusTimeout"

definition CancelIfPending :: "time \<Rightarrow> string \<Rightarrow> otable \<Rightarrow> otable \<times> (order_error + order \<times> bool)" where
  "CancelIfPending now code = leavePending now code OrderStatusCancelled"

definition DeleteOrderRow :: "time \<Rightarrow> string \<Rightarrow> otable \<Rightarrow> otable" where
  "DeleteOrderRow now code t =
     fst (upsert_order code (\<lambda>ord. ord\<lparr>oDeletedAt := Some now, oUpdatedAt := now\<rparr>) t)"

section \<open>The purchase slot\<close>

definition purchaseSlotTTL :: duration where "purchaseSlotTTL = 30 * 24 * hour"

text \<open>Go's zero \<open>time.Time\<close>, the first instant of year 1.\<close>

definition zero_time :: time where "zero_time = - 62135596800 * second"

definition parseClaimedAt :: "slot_claim option \<Rightarrow> time" where
  "parseClaimedAt item =
     (case item of
        None \<Rightarrow> zero_time
      | Some c \<Rightarrow> (case parseInt (clClaimedAt c) of None \<Rightarrow> zero_time | Some s \<Rightarrow> s * second))"

definition as_claim :: "ditem option \<Rightarrow> slot_claim option" where
  "as_claim v = (case v of Some (DClaim c) \<Rightarrow> Some c | _ \<Rightarrow> None)"

datatype claim_result = SlotWon time | SlotTaken string time

text \<open>
  The conditional write, and for a loser the consistent read of the winner. \<open>mid\<close> is what
  other requests write between the two calls.
\<close>

definition ClaimPurchaseSlot ::
  "time \<Rightarrow> string \<Rightarrow> string \<Rightarrow> (otable \<Rightarrow> otable) \<Rightarrow> otable \<Rightarrow> otable \<times> claim_result" where
  "ClaimPurchaseSlot now dedupeKey orderCode mid t =
     (let k = slot_key dedupeKey;
          item = DClaim \<lparr>clOrderCode = orderCode, clClaimedAt = formatInt (unix now),
                         clExpiresAt = formatInt (unix (now + purchaseSlotTTL))\<rparr>
      in case put_new k item t of
           Some t' \<Rightarrow> (t', SlotWon now)
         | None \<Rightarrow>
             let t' = mid t; c = as_claim (map_of t' k)
             in (t', SlotTaken (case c of None \<Rightarrow> [] | Some c \<Rightarrow> clOrderCode c) (parseClaimedAt c)))"

definition ReleasePurchaseSlot :: "string \<Rightarrow> string \<Rightarrow> otable \<Rightarrow> otable" where
  "ReleasePurchaseSlot dedupeKey orderCode t =
     (case as_claim (map_of t (slot_key dedupeKey)) of
        None \<Rightarrow> t
      | Some c \<Rightarrow> if clOrderCode c = orderCode then AList.delete (slot_key dedupeKey) t else t)"

text \<open>
  DynamoDB deletes a claim at some time after the second its TTL attribute names; until it does,
  the claim reads and blocks as before.
\<close>

definition expireClaim :: "time \<Rightarrow> string \<Rightarrow> otable \<Rightarrow> otable" where
  "expireClaim now dedupeKey t =
     (case as_claim (map_of t (slot_key dedupeKey)) of
        None \<Rightarrow> t
      | Some c \<Rightarrow>
          (case parseInt (clExpiresAt c) of
             None \<Rightarrow> t
           | Some s \<Rightarrow> if s < unix now then AList.delete (slot_key dedupeKey) t else t))"

section \<open>Items\<close>

record create_item_option =
  ciTicketClassID :: string
  ciTicketClassName :: string
  ciPriceAtPurchase :: int
  ciQuantity :: int
  ciTotalAmount :: int

definition buildOrderItemModel :: "time \<Rightarrow> string \<Rightarrow> nat \<Rightarrow> create_item_option \<Rightarrow> order_item" where
  "buildOrderItemModel now code pos opt =
     (let itemID = OrderItemID code pos
      in \<lparr>iPK = BuildOrderPK code, iSK = BuildItemSK itemID, iEntityType = ''ORDER_ITEM'',
          iID = itemID, iOrderCode = code, iTicketClassID = ciTicketClassID opt,
          iTicketClassName = ciTicketClassName opt, iPriceAtPurchase = ciPriceAtPurchase opt,
          iQuantity = ciQuantity opt, iTotalAmount = ciTotalAmount opt,
          iCreatedAt = now, iUpdatedAt = now, iDeletedAt = None\<rparr>)"

fun build_items :: "time \<Rightarrow> string \<Rightarrow> nat \<Rightarrow> create_item_option list \<Rightarrow> order_item list" where
  "build_items now code pos [] = []"
| "build_items now code pos (opt # opts) =
     buildOrderItemModel now code pos opt # build_items now code (pos + 1) opts"

text \<open>
  One \<open>BatchWriteItem\<close>: an outcome says for a whole call whether it fails and which of its
  items DynamoDB leaves unprocessed, which the code does not look at.
\<close>

datatype batch_outcome = BatchFailed | BatchWritten "nat list"

fun write_batch :: "nat list \<Rightarrow> nat \<Rightarrow> order_item list \<Rightarrow> otable \<Rightarrow> otable" where
  "write_batch unprocessed j [] t = t"
| "write_batch unprocessed j (it # its) t =
     write_batch unprocessed (j + 1) its
       (if j \<in> set unprocessed then t else AList.update (iPK it, iSK it) (DItem it) t)"

definition batchSize :: nat where "batchSize = 25"

function write_batches ::
  "(nat \<Rightarrow> batch_outcome) \<Rightarrow> nat \<Rightarrow> order_item list \<Rightarrow> otable \<Rightarrow> otable \<times> (order_error + unit)" where
  "write_batches oc i its t =
     (if its = [] then (t, Inr ())
      else case oc i of
             BatchFailed \<Rightarrow> (t, Inl (ErrOther ''BatchWriteItem''))
           | BatchWritten un \<Rightarrow>
               write_batches oc (i + 1) (drop batchSize its)
                 (write_batch un 0 (take batchSize its) t))"
  by pat_completeness auto
termination by (relation "measure (\<lambda>(oc, i, its, t). length its)") (auto simp: batchSize_def)

declare write_batches.simps [simp del]

definition CreateManyItems ::
  "(nat \<Rightarrow> batch_outcome) \<Rightarrow> time \<Rightarrow> string \<Rightarrow> create_item_option list \<Rightarrow> otable
     \<Rightarrow> otable \<times> (order_error + order_item list)" where
  "CreateManyItems oc now code opts t =
     (if opts = [] then (t, Inr [])
      else let items = build_items now code 0 opts
           in case write_batches oc 0 items t of
                (t', Inl e) \<Rightarrow> (t', Inl e)
              | (t', Inr u) \<Rightarrow> (t', Inr items))"

definition is_live_item :: "string \<Rightarrow> dkey \<times> ditem \<Rightarrow> bool" where
  "is_live_item code kv \<longleftrightarrow>
     fst (fst kv) = BuildOrderPK code \<and> take (length ItemPrefix) (snd (fst kv)) = ItemPrefix \<and>
     (case snd kv of DItem it \<Rightarrow> iEntityType it = ''ORDER_ITEM'' \<and> iDeletedAt it = None | _ \<Rightarrow> False)"

definition as_item :: "ditem \<Rightarrow> order_item list" where
  "as_item v = (case v of DItem it \<Rightarrow> [it] | _ \<Rightarrow> [])"

text \<open>A query returns the items of a partition in the order of their sort keys.\<close>

definition ListItemByOrderCode :: "string \<Rightarrow> otable \<Rightarrow> order_item list" where
  "ListItemByOrderCode code t =
     concat (map (as_item \<circ> snd) (sort_key (snd \<circ> fst) (filter (is_live_item code) t)))"

fun delete_items :: "time \<Rightarrow> order_item list \<Rightarrow> otable \<Rightarrow> otable" where
  "delete_items now [] t = t"
| "delete_items now (it # its) t =
     delete_items now its
       (case map_of t (iPK it, iSK it) of
          Some (DItem x) \<Rightarrow>
            AList.update (iPK it, iSK it) (DItem (x\<lparr>iDeletedAt := Some now, iUpdatedAt := now\<rparr>)) t
        | _ \<Rightarrow> t)"

definition DeleteItemByOrderCode :: "time \<Rightarrow> string \<Rightarrow> otable \<Rightarrow> otable" where
  "DeleteItemByOrderCode now code t =
     (let items = ListItemByOrderCode code t
      in if items = [] then t else delete_items now items t)"

section \<open>Queries over orders\<close>

record filter_order =
  fCode :: string
  fUserID :: string
  fEventID :: string
  fSessionID :: string
  fStatus :: "order_status option"

text \<open>A cursor is the last evaluated key; its base64 form is left to the caller.\<close>

record paginator_query =
  pqLimit :: int
  pqCursor :: "dkey option"

record paginator =
  pgCount :: int
  pgPageSize :: int
  pgNextCursor :: "dkey option"
  pgHasMore :: bool

definition Adjust :: "paginator_query \<Rightarrow> paginator_query" where
  "Adjust p = (if pqLimit p < 1 then p\<lparr>pqLimit := 15\<rparr> else p)"

definition after_cursor :: "dkey option \<Rightarrow> (dkey \<times> ditem) list \<Rightarrow> (dkey \<times> ditem) list" where
  "after_cursor c rows =
     (case c of None \<Rightarrow> rows | Some k \<Rightarrow> tl (dropWhile (\<lambda>kv. fst kv \<noteq> k) rows))"

text \<open>
  A page: DynamoDB evaluates up to \<open>Limit\<close> rows, or fewer when their data reaches 1 MB, then
  filters them, and hands back the last key it evaluated when it stopped at either limit. How many
  rows fit into 1 MB, at least one, is \<open>fits\<close>: the size of a row is DynamoDB's business.
\<close>

type_synonym page_cut = "(dkey \<times> ditem) list \<Rightarrow> nat"

definition page ::
  "page_cut \<Rightarrow> paginator_query \<Rightarrow> (order \<Rightarrow> bool) \<Rightarrow> (dkey \<times> ditem) list
     \<Rightarrow> order_error + order list \<times> paginator" where
  "page fits pq keep rows =
     (let limit = int32 (pqLimit pq)
      in if limit < 1 then Inl (ErrOther ''ValidationException'')
         else let rest = after_cursor (pqCursor pq) rows;
                  seen = take (min (nat limit) (fits rest)) rest;
                  orders = filter keep (List.map_filter (as_order \<circ> snd) seen);
                  lastKey = (if length seen = nat limit \<or> length seen < length rest
                             then Some (fst (last seen)) else None)
              in Inr (orders, \<lparr>pgCount = int (length orders), pgPageSize = pqLimit pq,
                               pgNextCursor = lastKey, pgHasMore = (lastKey \<noteq> None)\<rparr>))"

definition live_order :: "order \<Rightarrow> bool" where
  "live_order ord \<longleftrightarrow> oEntityType ord = ''ORDER'' \<and> oDeletedAt ord = None"

definition status_matches :: "filter_order \<Rightarrow> order \<Rightarrow> bool" where
  "status_matches f ord \<longleftrightarrow> (case fStatus f of None \<Rightarrow> True | Some s \<Rightarrow> oStatus ord = s)"

definition session_matches :: "filter_order \<Rightarrow> order \<Rightarrow> bool" where
  "session_matches f ord \<longleftrightarrow> (fSessionID f = [] \<or> oSessionID ord = fSessionID f)"

definition index_rows ::
  "(order \<Rightarrow> string) \<Rightarrow> (order \<Rightarrow> string) \<Rightarrow> string \<Rightarrow> otable \<Rightarrow> (dkey \<times> ditem) list" where
  "index_rows pk sk v t =
     rev (sort_key (\<lambda>kv. case as_order (snd kv) of None \<Rightarrow> [] | Some ord \<Rightarrow> sk ord)
       (filter (\<lambda>kv. case as_order (snd kv) of None \<Rightarrow> False | Some ord \<Rightarrow> pk ord = v) t))"

definition scanOrders ::
  "page_cut \<Rightarrow> filter_order \<Rightarrow> paginator_query \<Rightarrow> otable \<Rightarrow> order_error + order list \<times> paginator" where
  "scanOrders fits f pq t =
     page fits pq (\<lambda>ord. live_order ord \<and> status_matches f ord \<and> session_matches f ord
                     \<and> (fCode f = [] \<or> oCode ord = fCode f)) t"

definition GetManyOrders ::
  "page_cut \<Rightarrow> filter_order \<Rightarrow> paginator_query \<Rightarrow> otable \<Rightarrow> order_error + order list \<times> paginator" where
  "GetManyOrders fits f pq0 t =
     (let pq = Adjust pq0;
          keep = (\<lambda>ord. live_order ord \<and> status_matches f ord \<and> session_matches f ord)
      in if fUserID f \<noteq> []
         then page fits pq keep (index_rows oGSI1PK oGSI1SK (BuildUserGSI1PK (fUserID f)) t)
         else if fEventID f \<noteq> []
         then page fits pq keep (index_rows oGSI2PK oGSI2SK (BuildEventGSI2PK (fEventID f)) t)
         else scanOrders fits f pq t)"

definition ListOrders :: "page_cut \<Rightarrow> filter_order \<Rightarrow> otable \<Rightarrow> order_error + order list" where
  "ListOrders fits f t =
     (case GetManyOrders fits f \<lparr>pqLimit = 1000, pqCursor = None\<rparr> t of
        Inl e \<Rightarrow> Inl e | Inr (orders, _) \<Rightarrow> Inr orders)"

text \<open>Without a code, the first order of a page; the size of that page is not looked at here.\<close>

definition GetOne :: "filter_order \<Rightarrow> otable \<Rightarrow> order_error + order" where
  "GetOne f t =
     (if fCode f \<noteq> [] then GetByCode (fCode f) t
      else case ListOrders length f t of
             Inl e \<Rightarrow> Inl e
           | Inr [] \<Rightarrow> Inl ErrRepoOrderNotFound
           | Inr (ord # _) \<Rightarrow> Inr ord)"

end
