(* ===== verification/Order_Workflows.thy ===== *)
theory Order_Workflows
  imports Order_Store Inventory_Grpc
begin

text \<open>
  The order service's activities and Temporal workflows (\<open>order-svc/internal/activities\<close>,
  \<open>internal/workflows\<close>). A world is the order table, the inventory database behind its
  RPCs, what was published to Kafka, the clock, a list of what happens to the next remote
  calls: each one is delivered, lost on the way, or executed with its answer lost, and the delayed
  workflow runs Temporal holds: the run's id, the order it is for and when it is due. An
  activity is retried by the workflow up to its policy's maximum, unless its error is an
  application error marked non-retryable.

  Workflow cancellation, the workflow ids of runs that are not delayed, and metrics are not modelled. Code outside
  the repository is a record of functions: reading and writing times, the payment service, and
  the outcome of each DynamoDB batch write.
\<close>

section \<open>The world\<close>

datatype fault = Delivered | LostRequest | LostReply

datatype publication =
  CheckoutCompleted string string string
  | CheckoutFailed string string string
  | CheckoutExpired string string string
  | RefundRequired string string string string

record world =
  wTable :: otable
  wInv :: invdb
  wPub :: "publication list"
  wNow :: time
  wEnv :: "(time \<times> fault) list"
  wClocks :: "(string \<times> string \<times> time) list"

text \<open>An error of an activity: an application error by its type, or a retryable fault.\<close>

datatype act_error = AppError string | Retryable string

type_synonym 'a step = "world \<Rightarrow> world \<times> (act_error + 'a)"

record payment_input =
  pyOrderCode :: string
  pyTotalAmount :: int
  pyCurrency :: string
  pyProvider :: string
  pyRedirectUrl :: string
  pyIdempotencyKey :: string
  pyTimeoutSeconds :: int

record ext =
  eParse :: "string \<Rightarrow> time option"
  eFmt :: "time \<Rightarrow> string"
  eFmtNano :: "time \<Rightarrow> string"
  ePay :: "payment_input \<Rightarrow> act_error + string"
  eBatch :: "time \<Rightarrow> nat \<Rightarrow> batch_outcome"

definition remote :: "'a step \<Rightarrow> 'a step" where
  "remote f w =
     (case wEnv w of
        [] \<Rightarrow> f w
      | (t, Delivered) # es \<Rightarrow> f (w\<lparr>wNow := t, wEnv := es\<rparr>)
      | (t, LostRequest) # es \<Rightarrow> (w\<lparr>wNow := t, wEnv := es\<rparr>, Inl (Retryable ''lost request''))
      | (t, LostReply) # es \<Rightarrow>
          (fst (f (w\<lparr>wNow := t, wEnv := es\<rparr>)), Inl (Retryable ''lost reply'')))"

text \<open>\<open>attempts n f\<close>: the activity \<open>f\<close> under a retry policy of \<open>n\<close> attempts.\<close>

fun attempts :: "nat \<Rightarrow> 'a step \<Rightarrow> 'a step" where
  "attempts 0 f w = f w"
| "attempts (Suc n) f w =
     (case f w of
        (w', Inl (Retryable e)) \<Rightarrow> if n = 0 then (w', Inl (Retryable e)) else attempts n f w'
      | (w', r) \<Rightarrow> (w', r))"

section \<open>Activities\<close>

definition on_table :: "(time \<Rightarrow> otable \<Rightarrow> otable \<times> (order_error + 'a)) \<Rightarrow> world \<Rightarrow> world \<times> (order_error + 'a)" where
  "on_table f w = (case f (wNow w) (wTable w) of (t, r) \<Rightarrow> (w\<lparr>wTable := t\<rparr>, r))"

definition repo_error :: "order_error \<Rightarrow> act_error" where
  "repo_error e = (case e of ErrRepoOrderNotFound \<Rightarrow> AppError ''OrderNotFound'' | _ \<Rightarrow> Retryable ''repository'')"

definition act_GetOrder :: "string \<Rightarrow> order step" where
  "act_GetOrder code = remote (\<lambda>w.
     case GetOne \<lparr>fCode = code, fUserID = [], fEventID = [], fSessionID = [], fStatus = None\<rparr> (wTable w) of
       Inl e \<Rightarrow> (w, Inl (repo_error e))
     | Inr ord \<Rightarrow> (w, Inr ord))"

definition read_back :: "create_order_option \<Rightarrow> order step" where
  "read_back opt = remote (\<lambda>w.
     case GetByCode (coCode opt) (wTable w) of
       Inl e \<Rightarrow> (w, Inl (Retryable ''read back''))
     | Inr ord \<Rightarrow>
         if oUserID ord \<noteq> coUserID opt \<or> oEventID ord \<noteq> coEventID opt
         then (w, Inl (AppError ''OrderCodeCollision''))
         else (w, Inr ord))"

text \<open>The first call's outcome: the row written, or the sentinel that the code is taken.\<close>

definition put_order :: "ext \<Rightarrow> create_order_option \<Rightarrow> order option step" where
  "put_order x opt = remote (\<lambda>w.
     case on_table (\<lambda>now. CreateOrderRow (eFmtNano x) now opt) w of
       (w', Inr ord) \<Rightarrow> (w', Inr (Some ord))
     | (w', Inl ErrOrderAlreadyExists) \<Rightarrow> (w', Inr None)
     | (w', Inl e) \<Rightarrow> (w', Inl (Retryable ''repository'')))"

definition act_CreateOrder :: "ext \<Rightarrow> create_order_option \<Rightarrow> order step" where
  "act_CreateOrder x opt w =
     (case put_order x opt w of
        (w', Inl e) \<Rightarrow> (w', Inl e)
      | (w', Inr (Some ord)) \<Rightarrow> (w', Inr ord)
      | (w', Inr None) \<Rightarrow> read_back opt w')"

definition act_CreateOrderItems :: "ext \<Rightarrow> string \<Rightarrow> create_item_option list \<Rightarrow> order_item list step" where
  "act_CreateOrderItems x code opts = remote (\<lambda>w.
     case on_table (\<lambda>now. CreateManyItems (eBatch x now) now code opts) w of
       (w', Inl e) \<Rightarrow> (w', Inl (Retryable ''repository''))
     | (w', Inr its) \<Rightarrow> (w', Inr its))"

definition act_UpdateOrderStatus :: "string \<Rightarrow> order_status \<Rightarrow> unit step" where
  "act_UpdateOrderStatus code st = remote (\<lambda>w.
     case on_table (\<lambda>now. UpdateOrderRow now code st None) w of
       (w', Inl e) \<Rightarrow> (w', Inl (Retryable ''repository''))
     | (w', Inr ord) \<Rightarrow> (w', Inr ()))"

definition act_ExpireOrder :: "string \<Rightarrow> (order \<times> bool) step" where
  "act_ExpireOrder code = remote (\<lambda>w.
     case on_table (\<lambda>now. ExpireIfPending now code) w of
       (w', Inl e) \<Rightarrow> (w', Inl (repo_error e))
     | (w', Inr r) \<Rightarrow> (w', Inr r))"

definition act_ReleasePurchaseSlot :: "string \<Rightarrow> string \<Rightarrow> unit step" where
  "act_ReleasePurchaseSlot k code = remote (\<lambda>w.
     (w\<lparr>wTable := ReleasePurchaseSlot k code (wTable w)\<rparr>, Inr ()))"

definition act_DeleteOrder :: "string \<Rightarrow> unit step" where
  "act_DeleteOrder code = remote (\<lambda>w.
     (w\<lparr>wTable := DeleteOrderRow (wNow w) code (wTable w)\<rparr>, Inr ()))"

definition act_DeleteOrderItems :: "string \<Rightarrow> unit step" where
  "act_DeleteOrderItems code = remote (\<lambda>w.
     (w\<lparr>wTable := DeleteItemByOrderCode (wNow w) code (wTable w)\<rparr>, Inr ()))"

text \<open>Inventory's RPCs over its database, with the world's clock.\<close>

definition on_inv :: "(time \<Rightarrow> invdb \<Rightarrow> invdb \<times> (grpc_status + unit)) \<Rightarrow> world \<Rightarrow> world \<times> (grpc_status + unit)" where
  "on_inv f w = (case f (wNow w) (wInv w) of (db, r) \<Rightarrow> (w\<lparr>wInv := db\<rparr>, r))"

definition act_ReserveInventory :: "ext \<Rightarrow> string \<Rightarrow> string \<Rightarrow> pb_item list \<Rightarrow> unit step" where
  "act_ReserveInventory x code expAt its = remote (\<lambda>w.
     case on_inv (\<lambda>now. rpc_Reserve (eParse x) now
                    \<lparr>rrOrderCode = code, rrItems = its, rrExpiresAt = expAt\<rparr>) w of
       (w', Inl (c, m)) \<Rightarrow>
         (w', Inl (if c = FailedPrecondition then AppError ''InsufficientInventory'' else Retryable m))
     | (w', Inr u) \<Rightarrow> (w', Inr ()))"

definition act_ReleaseInventory :: "string \<Rightarrow> unit step" where
  "act_ReleaseInventory code = remote (\<lambda>w.
     case on_inv (\<lambda>now. rpc_Release code) w of
       (w', Inl (c, m)) \<Rightarrow> (w', Inl (Retryable m))
     | (w', Inr u) \<Rightarrow> (w', Inr ()))"

definition act_ConfirmInventory :: "string \<Rightarrow> unit step" where
  "act_ConfirmInventory code = remote (\<lambda>w.
     case on_inv (\<lambda>now. rpc_Confirm code) w of
       (w', Inl (c, m)) \<Rightarrow>
         (w', Inl (if c = FailedPrecondition \<or> c = NotFound
                   then AppError ''InventoryCannotConfirm'' else Retryable m))
     | (w', Inr u) \<Rightarrow> (w', Inr ()))"

definition publish :: "publication \<Rightarrow> unit step" where
  "publish p = remote (\<lambda>w. (w\<lparr>wPub := wPub w @ [p]\<rparr>, Inr ()))"

definition act_PublishCheckoutCompleted :: "string \<Rightarrow> string \<Rightarrow> string \<Rightarrow> unit step" where
  "act_PublishCheckoutCompleted ss u e w =
     (if ss = [] then (w, Inr ()) else publish (CheckoutCompleted ss u e) w)"

definition act_PublishCheckoutExpired :: "string \<Rightarrow> string \<Rightarrow> string \<Rightarrow> unit step" where
  "act_PublishCheckoutExpired ss u e w =
     (if ss = [] then (w, Inr ()) else publish (CheckoutExpired ss u e) w)"

definition act_PublishRefundRequired :: "string \<Rightarrow> string \<Rightarrow> string \<Rightarrow> string \<Rightarrow> unit step" where
  "act_PublishRefundRequired code u e reason = publish (RefundRequired code u e reason)"

definition act_CreatePaymentIntent :: "ext \<Rightarrow> payment_input \<Rightarrow> string step" where
  "act_CreatePaymentIntent x pin = remote (\<lambda>w. (w, ePay x pin))"

section \<open>Retry policies and budgets\<close>

record activity_options =
  aoStartToCloseTimeout :: duration
  aoInitialInterval :: duration
  aoBackoffCoefficient :: int
  aoMaximumInterval :: duration
  aoMaximumAttempts :: nat

definition getCreateOrderActivityOptions :: activity_options where
  "getCreateOrderActivityOptions =
     \<lparr>aoStartToCloseTimeout = 2 * minute, aoInitialInterval = second, aoBackoffCoefficient = 2,
      aoMaximumInterval = minute, aoMaximumAttempts = 5\<rparr>"

definition getConfirmOrderActivityOptions :: activity_options where
  "getConfirmOrderActivityOptions =
     \<lparr>aoStartToCloseTimeout = 5 * minute, aoInitialInterval = 2 * second, aoBackoffCoefficient = 2,
      aoMaximumInterval = 2 * minute, aoMaximumAttempts = 10\<rparr>"

definition getCompensationActivityOptions :: activity_options where
  "getCompensationActivityOptions =
     \<lparr>aoStartToCloseTimeout = 2 * minute, aoInitialInterval = second, aoBackoffCoefficient = 2,
      aoMaximumInterval = minute, aoMaximumAttempts = 5\<rparr>"

fun backoff_loop :: "activity_options \<Rightarrow> nat \<Rightarrow> duration \<Rightarrow> duration \<Rightarrow> duration" where
  "backoff_loop o' 0 interval acc = acc"
| "backoff_loop o' (Suc n) interval acc =
     backoff_loop o' n (min (interval * aoBackoffCoefficient o') (aoMaximumInterval o')) (acc + interval)"

definition activityRetryBudget :: "activity_options \<Rightarrow> duration" where
  "activityRetryBudget o' =
     backoff_loop o' (aoMaximumAttempts o' - 1) (aoInitialInterval o')
       (aoStartToCloseTimeout o' * int (aoMaximumAttempts o'))"

definition CreateOrderSlotBudget :: duration where
  "CreateOrderSlotBudget = 2 * activityRetryBudget getCreateOrderActivityOptions"

definition PaymentTimeout :: duration where "PaymentTimeout = 6 * minute"
definition ReservationHoldGrace :: duration where "ReservationHoldGrace = 3 * minute"
definition CheckoutLifetime :: duration where "CheckoutLifetime = PaymentTimeout + ReservationHoldGrace"

definition reservationExpiry :: "time \<Rightarrow> time" where
  "reservationExpiry now = now + CheckoutLifetime"

definition create_attempts :: nat where
  "create_attempts = aoMaximumAttempts getCreateOrderActivityOptions"
definition confirm_attempts :: nat where
  "confirm_attempts = aoMaximumAttempts getConfirmOrderActivityOptions"
definition compensation_attempts :: nat where
  "compensation_attempts = aoMaximumAttempts getCompensationActivityOptions"

section \<open>CreateOrder\<close>

record create_item_input =
  wiTicketClassID :: string
  wiTicketClassName :: string
  wiPriceAtPurchase :: int
  wiQuantity :: int
  wiTotalAmount :: int

record create_workflow_input =
  wfOrderCode :: string
  wfSessionID :: string
  wfUserID :: string
  wfEmail :: string
  wfPhone :: string
  wfUserFullName :: string
  wfEventID :: string
  wfEventName :: string
  wfCurrency :: string
  wfTotalAmount :: int
  wfItems :: "create_item_input list"
  wfPaymentProvider :: string
  wfRedirectUrl :: string
  wfIdempotencyKey :: string

record create_workflow_result =
  wrPaymentUrl :: string
  wrOrder :: order
  wrOrderItems :: "order_item list"

definition order_option :: "create_workflow_input \<Rightarrow> create_order_option" where
  "order_option i =
     \<lparr>coSessionID = wfSessionID i, coCode = wfOrderCode i, coUserID = wfUserID i,
      coUserFullName = wfUserFullName i, coEmail = wfEmail i, coPhone = wfPhone i,
      coEventID = wfEventID i, coTotalAmount = wfTotalAmount i, coCurrency = wfCurrency i,
      coPaymentMethod = wfPaymentProvider i, coStatus = OrderStatusPending\<rparr>"

definition item_option :: "create_item_input \<Rightarrow> create_item_option" where
  "item_option it =
     \<lparr>ciTicketClassID = wiTicketClassID it, ciTicketClassName = wiTicketClassName it,
      ciPriceAtPurchase = wiPriceAtPurchase it, ciQuantity = wiQuantity it,
      ciTotalAmount = wiTotalAmount it\<rparr>"

definition reserve_item_of :: "create_item_input \<Rightarrow> pb_item" where
  "reserve_item_of it = \<lparr>piTicketClassId = wiTicketClassID it, piQuantity = wiQuantity it\<rparr>"

definition payment_of :: "create_workflow_input \<Rightarrow> payment_input" where
  "payment_of i =
     \<lparr>pyOrderCode = wfOrderCode i, pyTotalAmount = wfTotalAmount i, pyCurrency = wfCurrency i,
      pyProvider = wfPaymentProvider i, pyRedirectUrl = wfRedirectUrl i,
      pyIdempotencyKey = wfIdempotencyKey i, pyTimeoutSeconds = PaymentTimeout div second\<rparr>"

text \<open>Compensations run newest first, each under its own policy; a failed one is logged only.\<close>

fun run_compensations :: "unit step list \<Rightarrow> world \<Rightarrow> world" where
  "run_compensations [] w = w"
| "run_compensations (c # cs) w = run_compensations cs (fst (attempts compensation_attempts c w))"

definition Compensate :: "unit step list \<Rightarrow> world \<Rightarrow> world" where
  "Compensate added w = run_compensations (rev added) w"

definition CreateOrder :: "ext \<Rightarrow> create_workflow_input \<Rightarrow> create_workflow_result step" where
  "CreateOrder x i w =
     (let code = wfOrderCode i;
          expAt = eFmt x (reservationExpiry (wNow w));
          release = act_ReleaseInventory code;
          delete = act_DeleteOrder code;
          delete_its = act_DeleteOrderItems code
      in case attempts create_attempts
                (act_ReserveInventory x code expAt (map reserve_item_of (wfItems i))) w of
           (w1, Inl e) \<Rightarrow> (Compensate [] w1, Inl e)
         | (w1, Inr u) \<Rightarrow>
         (case attempts create_attempts (act_CreateOrder x (order_option i)) w1 of
            (w2, Inl e) \<Rightarrow> (Compensate [release] w2, Inl e)
          | (w2, Inr ord) \<Rightarrow>
          (case attempts create_attempts
                  (act_CreateOrderItems x (oCode ord) (map item_option (wfItems i))) w2 of
             (w3, Inl e) \<Rightarrow> (Compensate [release, delete] w3, Inl e)
           | (w3, Inr its) \<Rightarrow>
           (case attempts create_attempts (act_CreatePaymentIntent x (payment_of i)) w3 of
              (w4, Inl e) \<Rightarrow> (Compensate [release, delete, delete_its] w4, Inl e)
            | (w4, Inr url) \<Rightarrow>
                (w4, Inr \<lparr>wrPaymentUrl = url, wrOrder = ord, wrOrderItems = its\<rparr>)))))"

section \<open>ConfirmOrder\<close>

definition freePurchaseSlot :: "nat \<Rightarrow> order \<Rightarrow> world \<Rightarrow> world" where
  "freePurchaseSlot n ord w =
     fst (attempts n (act_ReleasePurchaseSlot
            (PurchaseSlotKey (oSessionID ord) (oUserID ord) (oEventID ord)) (oCode ord)) w)"

definition status_string :: "order_status \<Rightarrow> string" where
  "status_string st =
     (case st of
        OrderStatusPending \<Rightarrow> ''PENDING'' | OrderStatusTimeout \<Rightarrow> ''TIMEOUT''
      | OrderStatusCompleted \<Rightarrow> ''COMPLETED'' | OrderStatusCancelled \<Rightarrow> ''CANCELLED''
      | OrderStatusPaymentFailed \<Rightarrow> ''PAYMENT_FAILED'' | OrderStatusRefunded \<Rightarrow> ''REFUNDED''
      | OrderStatusRefundRequired \<Rightarrow> ''REFUND_REQUIRED'' | OrderStatusOther s \<Rightarrow> s)"

definition settled_reason :: "order \<Rightarrow> string" where
  "settled_reason ord = ''payment settled on an order in status '' @ status_string (oStatus ord)"

text \<open>The text of the inventory error, which the code appends, is left out of the reason.\<close>

definition cannot_confirm_reason :: string where
  "cannot_confirm_reason = ''inventory could not be confirmed: ''"

definition markForRefund :: "order \<Rightarrow> string \<Rightarrow> world \<Rightarrow> world" where
  "markForRefund ord reason w =
     (let w1 = fst (attempts confirm_attempts (act_UpdateOrderStatus (oCode ord) OrderStatusRefundRequired) w);
          w2 = fst (attempts confirm_attempts
                 (act_PublishRefundRequired (oCode ord) (oUserID ord) (oEventID ord) reason) w1)
      in freePurchaseSlot confirm_attempts ord w2)"

definition ConfirmOrder :: "string \<Rightarrow> unit step" where
  "ConfirmOrder code w =
     (case attempts confirm_attempts (act_GetOrder code) w of
        (w1, Inl e) \<Rightarrow> (w1, Inl e)
      | (w1, Inr ord) \<Rightarrow>
          if oStatus ord \<noteq> OrderStatusPending \<and> oStatus ord \<noteq> OrderStatusTimeout
          then (case oStatus ord of
                  OrderStatusCompleted \<Rightarrow> (w1, Inr ())
                | OrderStatusCancelled \<Rightarrow>
                    (markForRefund ord (settled_reason ord) w1, Inl (AppError ''OrderAlreadyProcessed''))
                | OrderStatusPaymentFailed \<Rightarrow>
                    (markForRefund ord (settled_reason ord) w1, Inl (AppError ''OrderAlreadyProcessed''))
                | _ \<Rightarrow> (w1, Inl (AppError ''OrderAlreadyProcessed'')))
          else (case attempts confirm_attempts (act_ConfirmInventory code) w1 of
                  (w2, Inl e) \<Rightarrow>
                    (if e = AppError ''InventoryCannotConfirm''
                     then markForRefund ord cannot_confirm_reason w2 else w2, Inl e)
                | (w2, Inr u) \<Rightarrow>
                    (case attempts confirm_attempts (act_UpdateOrderStatus (oCode ord) OrderStatusCompleted) w2 of
                       (w3, Inl e) \<Rightarrow> (w3, Inl e)
                     | (w3, Inr u) \<Rightarrow>
                         let w4 = freePurchaseSlot confirm_attempts ord w3
                         in (if oSessionID ord = [] then w4
                             else fst (attempts confirm_attempts (act_PublishCheckoutCompleted
                                    (oSessionID ord) (oUserID ord) (oEventID ord)) w4), Inr ()))))"

section \<open>ExpireOrder\<close>

definition ExpireOrder :: "string \<Rightarrow> unit step" where
  "ExpireOrder code w =
     (case attempts compensation_attempts (act_ExpireOrder code) w of
        (w1, Inl e) \<Rightarrow> (w1, Inl e)
      | (w1, Inr (ord, expired)) \<Rightarrow>
          if \<not> expired then (w1, Inr ())
          else let w2 = fst (attempts compensation_attempts (act_ReleaseInventory (oCode ord)) w1);
                   w3 = freePurchaseSlot compensation_attempts ord w2
               in (if oSessionID ord = [] then w3
                   else fst (attempts compensation_attempts (act_PublishCheckoutExpired
                          (oSessionID ord) (oUserID ord) (oEventID ord)) w3), Inr ()))"

end
