(* ===== verification/Order_Workflow_Props.thy ===== *)
theory Order_Workflow_Props
  imports Order_Workflows
begin

text \<open>
  What the workflows guarantee whatever happens to the calls they make. An activity's
  contract is the locale \<open>activity\<close>: from a state where \<open>I\<close> holds, a success establishes
  \<open>Q\<close>, a refusal \<open>E\<close>, and a fault keeps \<open>I\<close>, so that the retry policy can call it
  again. The workflows' proofs use the contracts of their activities and the frame lemmas.
\<close>

section \<open>Frames\<close>

text \<open>An observation of a world that does not look at the clock or the coming faults.\<close>

definition env_free :: "(world \<Rightarrow> 'o) \<Rightarrow> bool" where
  "env_free g \<longleftrightarrow> (\<forall>w t es. g (w\<lparr>wNow := t, wEnv := es\<rparr>) = g w)"

lemma env_free_fields [simp]: "env_free wTable" "env_free wInv" "env_free wPub"
  by (simp_all add: env_free_def)

lemma remote_frame:
  assumes "env_free g" and "\<And>w. g (fst (f w)) = g w"
  shows "g (fst (remote f w)) = g w"
  using assms by (auto simp: remote_def env_free_def split: list.splits fault.splits)

lemma attempts_frame:
  assumes "\<And>w. g (fst (f w)) = g w"
  shows "g (fst (attempts n f w)) = g w"
proof (induction n arbitrary: w)
  case 0
  then show ?case by (simp add: assms)
next
  case (Suc n)
  have "g (fst (f w)) = g w" by (rule assms)
  with Suc show ?case by (auto split: prod.splits sum.splits act_error.splits)
qed

lemma on_table_frame [simp]:
  "wInv (fst (on_table f w)) = wInv w" "wPub (fst (on_table f w)) = wPub w"
  by (auto simp: on_table_def split: prod.splits)

lemma on_inv_frame [simp]:
  "wTable (fst (on_inv f w)) = wTable w" "wPub (fst (on_inv f w)) = wPub w"
  by (auto simp: on_inv_def split: prod.splits)

lemma on_table_world: "on_table f w = (w', r) \<Longrightarrow> wInv w' = wInv w \<and> wPub w' = wPub w"
  using on_table_frame [of f w] by simp

lemma on_inv_world: "on_inv f w = (w', r) \<Longrightarrow> wTable w' = wTable w \<and> wPub w' = wPub w"
  using on_inv_frame [of f w] by simp

named_theorems act_defs \<open>the activities\<close>

lemmas [act_defs] =
  act_GetOrder_def read_back_def put_order_def act_CreateOrderItems_def act_UpdateOrderStatus_def
  act_ExpireOrder_def act_ReleasePurchaseSlot_def act_DeleteOrder_def act_DeleteOrderItems_def
  act_ReserveInventory_def act_ReleaseInventory_def act_ConfirmInventory_def publish_def
  act_PublishRefundRequired_def act_CreatePaymentIntent_def

lemma table_acts_inv [simp]:
  "wInv (fst (act_GetOrder c w)) = wInv w" "wInv (fst (act_UpdateOrderStatus c st w)) = wInv w"
  "wInv (fst (act_ExpireOrder c w)) = wInv w" "wInv (fst (act_ReleasePurchaseSlot k c w)) = wInv w"
  "wInv (fst (act_DeleteOrder c w)) = wInv w" "wInv (fst (act_DeleteOrderItems c w)) = wInv w"
  "wInv (fst (act_CreateOrderItems x c os w)) = wInv w" "wInv (fst (publish p w)) = wInv w"
  "wInv (fst (act_CreatePaymentIntent x pin w)) = wInv w"
  by (auto simp: act_defs intro!: remote_frame split: sum.splits prod.splits dest: on_table_world)

lemma inv_acts_table [simp]:
  "wTable (fst (act_GetOrder c w)) = wTable w"
  "wTable (fst (act_ReserveInventory x c e its w)) = wTable w"
  "wTable (fst (act_ReleaseInventory c w)) = wTable w" "wTable (fst (act_ConfirmInventory c w)) = wTable w"
  "wTable (fst (publish p w)) = wTable w" "wTable (fst (act_CreatePaymentIntent x pin w)) = wTable w"
  by (auto simp: act_defs intro!: remote_frame split: sum.splits prod.splits dest: on_inv_world)

section \<open>The contract of an activity\<close>

locale activity =
  fixes f :: "'a step"
    and I :: "world \<Rightarrow> bool"
    and Q :: "'a \<Rightarrow> world \<Rightarrow> bool"
    and E :: "string \<Rightarrow> world \<Rightarrow> bool"
  assumes success: "\<lbrakk>I w; f w = (w', Inr a)\<rbrakk> \<Longrightarrow> Q a w'"
    and refusal: "\<lbrakk>I w; f w = (w', Inl (AppError s))\<rbrakk> \<Longrightarrow> E s w'"
    and fault: "\<lbrakk>I w; f w = (w', Inl (Retryable s))\<rbrakk> \<Longrightarrow> I w'"
begin

lemma retried:
  assumes "I w" and "attempts n f w = (w', r)"
  shows "case r of Inr a \<Rightarrow> Q a w' | Inl (AppError s) \<Rightarrow> E s w' | Inl (Retryable s) \<Rightarrow> I w'"
  using assms
proof (induction n arbitrary: w)
  case 0
  then show ?case by (auto split: sum.splits act_error.splits intro: success refusal fault)
next
  case (Suc n)
  show ?case
  proof (cases "f w")
    case (Pair v q)
    then show ?thesis
      using Suc.prems Suc.IH [of v] success [OF Suc.prems(1)] refusal [OF Suc.prems(1)] fault [OF Suc.prems(1)]
      by (auto split: sum.splits act_error.splits if_splits)
  qed
qed

lemma retried_ok: "I w \<Longrightarrow> attempts n f w = (w', Inr a) \<Longrightarrow> Q a w'"
  using retried by fastforce

lemma retried_refused: "I w \<Longrightarrow> attempts n f w = (w', Inl (AppError s)) \<Longrightarrow> E s w'"
  using retried by fastforce

lemma retried_fault: "I w \<Longrightarrow> attempts n f w = (w', Inl (Retryable s)) \<Longrightarrow> I w'"
  using retried by fastforce

end

lemma remote_cases:
  assumes "remote f w = (w', r)"
  shows "\<exists>v. wTable v = wTable w \<and> wInv v = wInv w \<and> wPub v = wPub w \<and>
     (f v = (w', r) \<or> (w' = v \<or> w' = fst (f v)) \<and> (\<exists>s. r = Inl (Retryable s)))"
proof (cases "wEnv w")
  case Nil
  with assms show ?thesis by (intro exI [of _ w]) (simp add: remote_def)
next
  case (Cons te es)
  then show ?thesis using assms
    by (intro exI [of _ "w\<lparr>wNow := fst te, wEnv := es\<rparr>"])
      (auto simp: remote_def split: prod.splits fault.splits)
qed

text \<open>A remote call of a body whose outcome the contract describes, whatever the clock.\<close>

locale remote_activity =
  fixes g :: "'a step"
    and I :: "world \<Rightarrow> bool"
    and Q :: "'a \<Rightarrow> world \<Rightarrow> bool"
    and E :: "string \<Rightarrow> world \<Rightarrow> bool"
  assumes parts: "\<lbrakk>I w; wTable v = wTable w; wInv v = wInv w; wPub v = wPub w\<rbrakk> \<Longrightarrow> I v"
    and ok: "\<lbrakk>I w; g w = (w', Inr a)\<rbrakk> \<Longrightarrow> Q a w' \<and> I w'"
    and refused: "\<lbrakk>I w; g w = (w', Inl (AppError s))\<rbrakk> \<Longrightarrow> E s w' \<and> I w'"
    and retry: "\<lbrakk>I w; g w = (w', Inl (Retryable s))\<rbrakk> \<Longrightarrow> I w'"
begin

lemma keeps_I:
  assumes "I w"
  shows "I (fst (g w))"
proof -
  obtain w' r where step: "g w = (w', r)" by (cases "g w")
  have "I w'"
  proof (cases r)
    case (Inr a)
    with step ok [OF assms] show ?thesis by simp
  next
    case (Inl e)
    show ?thesis
    proof (cases e)
      case (AppError s)
      with step Inl refused [OF assms] show ?thesis by simp
    next
      case (Retryable s)
      with step Inl retry [OF assms] show ?thesis by simp
    qed
  qed
  with step show ?thesis by simp
qed

end

sublocale remote_activity \<subseteq> activity "remote g" I Q E
proof (unfold_locales, goal_cases)
  case (1 w w' a)
  obtain v where v: "wTable v = wTable w" "wInv v = wInv w" "wPub v = wPub w"
    "g v = (w', Inr a) \<or> (w' = v \<or> w' = fst (g v)) \<and> (\<exists>s. Inr a = Inl (Retryable s))"
    using remote_cases [OF 1(2)] by blast
  have "I v" by (rule parts [OF 1(1) v(1-3)])
  with v(4) show ?case using ok by simp
next
  case (2 w w' s)
  obtain v where v: "wTable v = wTable w" "wInv v = wInv w" "wPub v = wPub w"
    "g v = (w', Inl (AppError s)) \<or>
     (w' = v \<or> w' = fst (g v)) \<and> (\<exists>q. Inl (AppError s) = (Inl (Retryable q) :: act_error + 'a))"
    using remote_cases [OF 2(2)] by blast
  have "I v" by (rule parts [OF 2(1) v(1-3)])
  with v(4) show ?case using refused by simp
next
  case (3 w w' s)
  obtain v where v: "wTable v = wTable w" "wInv v = wInv w" "wPub v = wPub w"
    "g v = (w', Inl (Retryable s)) \<or> w' = v \<or> w' = fst (g v)"
    using remote_cases [OF 3(2)] by blast
  have "I v" by (rule parts [OF 3(1) v(1-3)])
  with v(4) show ?case using retry keeps_I by auto
qed

section \<open>The activities keep their contracts\<close>

definition confirmed_order :: "invdb \<Rightarrow> string \<Rightarrow> bool" where
  "confirmed_order db oc \<longleftrightarrow>
     orderRows db oc \<noteq> [] \<and> list_all (\<lambda>r. rStatus r = ReservationStatusConfirmed) (orderRows db oc)"

lemma confirmTx_confirmed:
  assumes "wf_db db" and "confirmReservationTx oc db = Inr db'"
  shows "confirmed_order db' oc"
proof (cases "list_all (\<lambda>r. rStatus r = ReservationStatusConfirmed) (orderRows db oc)")
  case True
  with assms(2) show ?thesis
    by (auto simp: confirmed_order_def confirmReservationTx_def Let_def split: if_splits)
next
  case False
  have con: "list_all confirmable (orderRows db oc)"
  proof (rule ccontr)
    assume "\<not> list_all confirmable (orderRows db oc)"
    from assms(2) False collectDeltas_error [OF this, of "[]" "[]"] show False
      by (auto simp: confirmReservationTx_def Let_def split: if_splits)
  qed
  have "orderRows db oc \<noteq> []" using assms(2) by (auto simp: confirmReservationTx_def Let_def)
  with confirmTx_pending(2) [OF assms(1) False con assms(2)] confirm_rows [of db' oc ReservationStatusConfirmed db]
  show ?thesis by (auto simp: confirmed_order_def list_all_iff)
qed

lemma rpc_Confirm_outcome:
  assumes "consistent db" and "rpc_Confirm oc db = (db', r)"
  shows "consistent db' \<and> (case r of Inr u \<Rightarrow> confirmed_order db' oc | Inl e \<Rightarrow> db' = db)"
proof -
  have "db' = db \<or> inv_step db db'"
    using assms(2) step_confirm [of db oc]
    by (auto simp: rpc_Confirm_def split: option.splits prod.splits sum.splits)
  then have "consistent db'" using assms(1) step_consistent by blast
  moreover have "case r of Inr u \<Rightarrow> confirmed_order db' oc | Inl e \<Rightarrow> db' = db"
    using assms confirmTx_confirmed [of db oc db']
    by (auto simp: rpc_Confirm_def Confirm_def consistent_def transaction_Inr transaction_Inl
        split: option.splits prod.splits sum.splits)
  ultimately show ?thesis by simp
qed

interpretation confirm_inventory:
  remote_activity
    "\<lambda>w. case on_inv (\<lambda>now. rpc_Confirm code) w of
       (w', Inl (c, m)) \<Rightarrow>
         (w', Inl (if c = FailedPrecondition \<or> c = NotFound
                   then AppError ''InventoryCannotConfirm'' else Retryable m))
     | (w', Inr u) \<Rightarrow> (w', Inr ())"
    "\<lambda>w. consistent (wInv w) \<and> wTable w = t" "\<lambda>_ w. confirmed_order (wInv w) code \<and> consistent (wInv w)"
    "\<lambda>_ w. consistent (wInv w)"
  for code t
  by unfold_locales
    (auto simp: on_inv_def dest: rpc_Confirm_outcome split: prod.splits sum.splits if_splits)

text \<open>The order stored under a code.\<close>

definition order_at :: "string \<Rightarrow> otable \<Rightarrow> order option" where
  "order_at code t = (case map_of t (order_key code) of None \<Rightarrow> None | Some v \<Rightarrow> as_order v)"

lemma map_of_AList_delete: "map_of (AList.delete k t) = (map_of t)(k := None)"
  by (rule ext) (simp add: delete_conv)

lemma order_at_release [simp]: "order_at c (ReleasePurchaseSlot k d t) = order_at c t"
  by (simp add: order_at_def ReleasePurchaseSlot_def map_of_AList_delete split: option.splits)

lemma order_at_update [simp]:
  "order_at c (AList.update (order_key d) (DOrder ord) t) = (if c = d then Some ord else order_at c t)"
  by (simp add: order_at_def update_conv as_order_def)

lemma upsert_at:
  assumes "order_at code t = Some ord"
  shows "upsert_order code f t = (AList.update (order_key code) (DOrder (f ord)) t, Inr (f ord))"
  using assms by (auto simp: order_at_def upsert_order_def split: option.splits)

lemma get_at:
  assumes "order_at code t = Some ord"
  shows "GetByCode code t = (if oDeletedAt ord \<noteq> None then Inl ErrRepoOrderNotFound else Inr ord)"
  using assms by (auto simp: order_at_def GetByCode_def split: option.splits)

lemma update_at:
  assumes "order_at code t = Some ord"
  shows "\<exists>t' ord'. UpdateOrderRow now code st p t = (t', Inr ord') \<and> order_at code t' = Some ord' \<and>
     oStatus ord' = st \<and> oDeletedAt ord' = oDeletedAt ord \<and> oCode ord' = oCode ord"
  using upsert_at [OF assms] by (auto simp: UpdateOrderRow_def split: option.splits)

interpretation get_order:
  remote_activity
    "\<lambda>w. case GetOne \<lparr>fCode = code, fUserID = [], fEventID = [], fSessionID = [], fStatus = None\<rparr> (wTable w) of
       Inl e \<Rightarrow> (w, Inl (repo_error e))
     | Inr ord \<Rightarrow> (w, Inr ord)"
    "\<lambda>w. wTable w = t \<and> wInv w = db \<and> wPub w = pub"
    "\<lambda>ord w. GetOne \<lparr>fCode = code, fUserID = [], fEventID = [], fSessionID = [], fStatus = None\<rparr> t = Inr ord"
    "\<lambda>_ w. wTable w = t \<and> wInv w = db \<and> wPub w = pub"
  for code t db pub
  by unfold_locales (auto split: sum.splits)

text \<open>The status write: from a status in \<open>S\<close> to \<open>st\<close>, nothing else than the order moves.\<close>

definition status_in :: "invdb \<Rightarrow> publication list \<Rightarrow> string \<Rightarrow> order_status set \<Rightarrow> world \<Rightarrow> bool" where
  "status_in db pub code S w \<longleftrightarrow> wInv w = db \<and> wPub w = pub \<and>
     (\<exists>ord. order_at code (wTable w) = Some ord \<and> oStatus ord \<in> S \<and> oDeletedAt ord = None)"

interpretation update_status:
  remote_activity
    "\<lambda>w. case on_table (\<lambda>now. UpdateOrderRow now code st None) w of
       (w', Inl e) \<Rightarrow> (w', Inl (Retryable ''repository''))
     | (w', Inr ord) \<Rightarrow> (w', Inr ())"
    "status_in db pub code (insert st S)" "\<lambda>_. status_in db pub code {st}" "\<lambda>_ _. False"
  for code st db pub S
proof (unfold_locales, goal_cases)
  case (1 w v)
  then show ?case by (simp add: status_in_def)
next
  case (2 w w' a)
  then obtain ord where "order_at code (wTable w) = Some ord" "oDeletedAt ord = None"
    by (auto simp: status_in_def)
  with 2 update_at [of code "wTable w" ord "wNow w" st None] show ?case
    by (auto simp: status_in_def on_table_def)
next
  case (3 w w' s)
  then show ?case by (auto split: prod.splits sum.splits)
next
  case (4 w w' s)
  then obtain ord where "order_at code (wTable w) = Some ord" by (auto simp: status_in_def)
  with 4 update_at [of code "wTable w" ord "wNow w" st None] show ?case
    by (auto simp: on_table_def)
qed

lemmas contract_folds =
  act_GetOrder_def [symmetric] act_UpdateOrderStatus_def [symmetric] act_ConfirmInventory_def [symmetric]

lemmas get_order_ok = get_order.retried_ok [unfolded contract_folds]
lemmas update_status_retried = update_status.retried [unfolded contract_folds]
lemmas confirm_inventory_retried = confirm_inventory.retried [unfolded contract_folds]

text \<open>Frames of the whole steps.\<close>

lemma attempts_wInv:
  "(\<And>w. wInv (fst (f w)) = wInv w) \<Longrightarrow> attempts n f w = (w', r) \<Longrightarrow> wInv w' = wInv w"
  using attempts_frame [of wInv f n w] by simp

lemma attempts_order_at:
  "(\<And>w. order_at c (wTable (fst (f w))) = order_at c (wTable w)) \<Longrightarrow>
   order_at c (wTable (fst (attempts n f w))) = order_at c (wTable w)"
  using attempts_frame [of "\<lambda>w. order_at c (wTable w)" f n w] by simp

lemma release_slot_order_at [simp]:
  "order_at c (wTable (fst (act_ReleasePurchaseSlot k d w))) = order_at c (wTable w)"
  unfolding act_ReleasePurchaseSlot_def by (rule remote_frame) (auto simp: env_free_def)

lemma freePurchaseSlot_frame [simp]:
  "wInv (freePurchaseSlot n ord w) = wInv w"
  "order_at c (wTable (freePurchaseSlot n ord w)) = order_at c (wTable w)"
  unfolding freePurchaseSlot_def by (rule attempts_frame, simp)+

lemma publish_table [simp]:
  "wTable (fst (attempts n (act_PublishRefundRequired c u e r) w)) = wTable w"
  "wTable (fst (attempts n (act_PublishCheckoutCompleted ss u e) w)) = wTable w"
  "wTable (fst (attempts n (act_PublishCheckoutExpired ss u e) w)) = wTable w"
  by (rule attempts_frame, simp add: act_PublishRefundRequired_def act_PublishCheckoutCompleted_def
      act_PublishCheckoutExpired_def)+

lemma publish_inv [simp]:
  "wInv (fst (attempts n (act_PublishRefundRequired c u e r) w)) = wInv w"
  "wInv (fst (attempts n (act_PublishCheckoutCompleted ss u e) w)) = wInv w"
  "wInv (fst (attempts n (act_PublishCheckoutExpired ss u e) w)) = wInv w"
  by (rule attempts_frame, simp add: act_PublishRefundRequired_def act_PublishCheckoutCompleted_def
      act_PublishCheckoutExpired_def)+

section \<open>ConfirmOrder\<close>

definition order_status_in :: "string \<Rightarrow> order_status set \<Rightarrow> world \<Rightarrow> bool" where
  "order_status_in code S w \<longleftrightarrow>
     (\<exists>ord. order_at code (wTable w) = Some ord \<and> oStatus ord \<in> S \<and> oDeletedAt ord = None)"

lemma status_update_run:
  assumes "order_status_in code S w" and "attempts n (act_UpdateOrderStatus code st) w = (w', r)"
  shows "wInv w' = wInv w \<and> (case r of Inr u \<Rightarrow> order_status_in code {st} w'
     | Inl e \<Rightarrow> order_status_in code (insert st S) w')"
proof -
  have "status_in (wInv w) (wPub w) code (insert st S) w"
    using assms(1) by (auto simp: status_in_def order_status_in_def)
  from update_status_retried [OF this assms(2)] show ?thesis
    by (auto simp: status_in_def order_status_in_def split: sum.splits act_error.splits)
qed

lemma markForRefund_run:
  assumes "order_status_in (oCode ord) S w"
  shows "wInv (markForRefund ord reason w) = wInv w"
    and "order_status_in (oCode ord) (insert OrderStatusRefundRequired S) (markForRefund ord reason w)"
proof -
  obtain w1 r where u: "attempts confirm_attempts
      (act_UpdateOrderStatus (oCode ord) OrderStatusRefundRequired) w = (w1, r)"
    by (cases "attempts confirm_attempts (act_UpdateOrderStatus (oCode ord) OrderStatusRefundRequired) w")
  from status_update_run [OF assms u]
  have "wInv w1 = wInv w" "order_status_in (oCode ord) (insert OrderStatusRefundRequired S) w1"
    by (auto simp: order_status_in_def split: sum.splits)
  then show "wInv (markForRefund ord reason w) = wInv w"
    "order_status_in (oCode ord) (insert OrderStatusRefundRequired S) (markForRefund ord reason w)"
    by (simp_all add: markForRefund_def Let_def u order_status_in_def)
qed

lemma confirm_inventory_run:
  assumes "consistent (wInv w)" and "attempts n (act_ConfirmInventory code) w = (w', r)"
  shows "wTable w' = wTable w \<and> consistent (wInv w') \<and>
     (case r of Inr u \<Rightarrow> confirmed_order (wInv w') code | Inl e \<Rightarrow> True)"
proof -
  have "wTable w' = wTable w"
    using attempts_frame [of wTable "act_ConfirmInventory code" n w] assms(2) by simp
  moreover have "consistent (wInv w) \<and> wTable w = wTable w" using assms(1) by simp
  from confirm_inventory_retried [OF this assms(2)]
  have "consistent (wInv w') \<and> (case r of Inr u \<Rightarrow> confirmed_order (wInv w') code | Inl e \<Rightarrow> True)"
    by (auto split: sum.splits act_error.splits)
  ultimately show ?thesis by simp
qed

lemma get_order_run:
  assumes "attempts n (act_GetOrder code) w = (w', r)" and "code \<noteq> []"
    and "order_at code (wTable w) = Some ord" and "oDeletedAt ord = None"
  shows "wTable w' = wTable w \<and> wInv w' = wInv w \<and> (case r of Inr a \<Rightarrow> a = ord | Inl e \<Rightarrow> True)"
proof -
  have "wTable w' = wTable w" "wInv w' = wInv w"
    using attempts_frame [of wTable "act_GetOrder code" n w]
      attempts_frame [of wInv "act_GetOrder code" n w] assms(1) by simp_all
  moreover have "case r of Inr a \<Rightarrow> a = ord | Inl e \<Rightarrow> True"
  proof (cases r)
    case (Inr a)
    have "wTable w = wTable w \<and> wInv w = wInv w \<and> wPub w = wPub w" by simp
    from get_order_ok [OF this assms(1) [unfolded Inr]] Inr assms(2-4) show ?thesis
      by (simp add: GetOne_def get_at)
  qed simp
  ultimately show ?thesis by simp
qed

text \<open>
  The outcome of ConfirmOrder, by how far it got: \<open>paid_for\<close> says what a completed order means.
\<close>

definition completed_at :: "string \<Rightarrow> world \<Rightarrow> bool" where
  "completed_at code w \<longleftrightarrow>
     (\<exists>ord. order_at code (wTable w) = Some ord \<and> oStatus ord = OrderStatusCompleted)"

lemma status_in_completed:
  "order_status_in code S w \<Longrightarrow> OrderStatusCompleted \<notin> S \<Longrightarrow> \<not> completed_at code w"
  by (auto simp: order_status_in_def completed_at_def)

lemma confirm_order_outcome:
  assumes cons: "consistent (wInv w)" and at: "order_at code (wTable w) = Some ord"
    and live: "oDeletedAt ord = None" "oCode ord = code" "code \<noteq> []"
    and run: "ConfirmOrder code w = (w', r)"
  shows "consistent (wInv w') \<and> (r = Inr () \<longrightarrow> completed_at code w') \<and>
     (completed_at code w' \<longrightarrow> oStatus ord = OrderStatusCompleted \<or> confirmed_order (wInv w') code)"
proof -
  have st0: "order_status_in code {oStatus ord} v" if "wTable v = wTable w" for v
    using at live that by (simp add: order_status_in_def)
  obtain w1 r1 where g: "attempts confirm_attempts (act_GetOrder code) w = (w1, r1)"
    by (cases "attempts confirm_attempts (act_GetOrder code) w")
  note g' = get_order_run [OF g live(3) at live(1)]
  then have c1: "consistent (wInv w1)" and t1: "wTable w1 = wTable w" using cons by simp_all
  show ?thesis
  proof (cases r1)
    case (Inl e)
    with run g c1 st0 [OF t1] show ?thesis
      by (auto simp: ConfirmOrder_def completed_at_def order_status_in_def)
  next
    case (Inr a)
    with g' have a: "a = ord" by simp
    show ?thesis
    proof (cases "oStatus ord = OrderStatusPending \<or> oStatus ord = OrderStatusTimeout")
      case False
      then show ?thesis
        using run g Inr a c1 st0 [OF t1] live(2) markForRefund_run [of ord "{oStatus ord}" w1 "settled_reason ord"]
        by (cases "oStatus ord")
          (auto simp: ConfirmOrder_def completed_at_def order_status_in_def)
    next
      case True
      obtain w2 r2 where c: "attempts confirm_attempts (act_ConfirmInventory code) w1 = (w2, r2)"
        by (cases "attempts confirm_attempts (act_ConfirmInventory code) w1")
      note c' = confirm_inventory_run [OF c1 c]
      have st2: "order_status_in code {oStatus ord} w2" using c' t1 st0 by simp
      show ?thesis
      proof (cases r2)
        case (Inl e)
        have "w' = (if e = AppError ''InventoryCannotConfirm''
            then markForRefund ord cannot_confirm_reason w2 else w2)" "r = Inl e"
          using run g Inr a True c Inl by (auto simp: ConfirmOrder_def)
        moreover have "\<not> completed_at code w2"
          using status_in_completed [OF st2] True by auto
        moreover have "\<not> completed_at code (markForRefund ord reason w2)"
          "wInv (markForRefund ord reason w2) = wInv w2" for reason
          using markForRefund_run [of ord "{oStatus ord}" w2 reason] st2 live(2) True
            status_in_completed [of code "{OrderStatusRefundRequired, oStatus ord}"] by auto
        ultimately show ?thesis using c' by auto
      next
        case (Inr u)
        note ok2 = Inr
        obtain w3 r3 where s: "attempts confirm_attempts (act_UpdateOrderStatus code OrderStatusCompleted) w2 = (w3, r3)"
          by (cases "attempts confirm_attempts (act_UpdateOrderStatus code OrderStatusCompleted) w2")
        note s' = status_update_run [OF st2 s]
        then have inv3: "consistent (wInv w3)" "confirmed_order (wInv w3) code" using c' ok2 by auto
        let ?w4 = "freePurchaseSlot confirm_attempts ord w3"
        have w': "w' = w3 \<and> r = r3 \<and> (\<exists>e. r3 = Inl e) \<or>
            wInv w' = wInv w3 \<and> order_at code (wTable w') = order_at code (wTable w3) \<and> r = Inr () \<and> r3 = Inr ()"
          using run g \<open>r1 = Inr a\<close> a True c ok2 s live(2)
          by (cases r3) (auto simp: ConfirmOrder_def Let_def split: if_splits)
        then show ?thesis
          using inv3 s' by (auto simp: completed_at_def order_status_in_def)
      qed
    qed
  qed
qed

text \<open>
  C4. A completed order is a sold order. Whatever requests and replies ConfirmOrder loses on
  the way: if it reports success the order is COMPLETED, and if the order ends up
  COMPLETED (also when the workflow itself fails) then it was so before or every one of its
  reservations is CONFIRMED, and inventory's counters stay consistent.
\<close>

theorem confirm_order_sound:
  assumes "consistent (wInv w)" and "order_at code (wTable w) = Some ord"
    and "oDeletedAt ord = None" and "oCode ord = code" and "code \<noteq> []"
    and "ConfirmOrder code w = (w', r)"
  shows "consistent (wInv w') \<and> (r = Inr () \<longrightarrow> completed_at code w') \<and>
     (completed_at code w' \<longrightarrow> oStatus ord = OrderStatusCompleted \<or> confirmed_order (wInv w') code)"
  using assms by (rule confirm_order_outcome)

definition demo_option :: create_order_option where
  "demo_option = \<lparr>coSessionID = ''s1'', coCode = ''A'', coUserID = ''u'', coUserFullName = ''U'',
     coEmail = ''m'', coPhone = ''p'', coEventID = ''e'', coTotalAmount = 1500, coCurrency = ''VND'',
     coPaymentMethod = ''PAYOS'', coStatus = OrderStatusPending\<rparr>"

definition demo_table :: otable where
  "demo_table = fst (CreateOrderRow (\<lambda>t. []) 5 demo_option
     (fst (ClaimPurchaseSlot 5 ''s1'' ''A'' (\<lambda>t. t) [])))"

definition demo_order :: order where "demo_order = buildOrderModel (\<lambda>t. []) 5 demo_option"

definition demo_world :: world where
  "demo_world = \<lparr>wTable = demo_table, wInv = demo_db, wPub = [], wNow = 7,
     wEnv = [(8, LostReply)], wClocks = []\<rparr>"

lemma CreateOrderRow_fresh:
  "map_of t (order_key (coCode opt)) = None \<Longrightarrow>
   CreateOrderRow fmt now opt t =
     (AList.update (order_key (coCode opt)) (DOrder (buildOrderModel fmt now opt)) t,
      Inr (buildOrderModel fmt now opt))"
  by (simp add: CreateOrderRow_def put_new_def Let_def)

lemma demo_order_at: "order_at ''A'' demo_table = Some demo_order"
proof -
  have "map_of (fst (ClaimPurchaseSlot 5 ''s1'' ''A'' (\<lambda>t. t) [])) (order_key (coCode demo_option)) = None"
    by (simp add: ClaimPurchaseSlot_def put_new_def Let_def)
  from CreateOrderRow_fresh [OF this] show ?thesis
    by (simp add: demo_table_def demo_order_def demo_option_def)
qed

lemma demo_order_fields: "oDeletedAt demo_order = None" "oCode demo_order = ''A''"
    "oStatus demo_order = OrderStatusPending" "oUserID demo_order = ''u''"
  by (simp_all add: demo_order_def buildOrderModel_def demo_option_def)

section \<open>Without faults\<close>

lemma remote_calm [simp]: "wEnv w = [] \<Longrightarrow> remote f w = f w"
  by (simp add: remote_def)

lemma attempts_settled:
  assumes "f w = (w', r)" and "\<And>s. r \<noteq> Inl (Retryable s)"
  shows "attempts n f w = (w', r)"
  using assms by (cases n) (auto split: sum.splits act_error.splits)

lemma remote_settled:
  assumes "wEnv w = []" and "f w = (w', r)" and "\<And>s. r \<noteq> Inl (Retryable s)"
  shows "attempts n (remote f) w = (w', r)"
  using assms by (intro attempts_settled) simp_all

lemma calm_GetOrder:
  assumes "wEnv w = []" and "order_at code (wTable w) = Some ord" and "oDeletedAt ord = None" and "code \<noteq> []"
  shows "attempts n (act_GetOrder code) w = (w, Inr ord)"
  unfolding act_GetOrder_def using assms by (intro remote_settled) (simp_all add: GetOne_def get_at)

lemma calm_UpdateOrderStatus:
  assumes "wEnv w = []" and "order_at code (wTable w) = Some ord"
  shows "attempts n (act_UpdateOrderStatus code st) w =
    (w\<lparr>wTable := AList.update (order_key code) (DOrder (ord\<lparr>oStatus := st, oUpdatedAt := wNow w\<rparr>)) (wTable w)\<rparr>,
     Inr ())"
  unfolding act_UpdateOrderStatus_def using assms
  by (intro remote_settled) (simp_all add: on_table_def UpdateOrderRow_def upsert_at)

lemma calm_ConfirmInventory:
  assumes "wEnv w = []" and "rpc_Confirm code (wInv w) = (db, Inr ())"
  shows "attempts n (act_ConfirmInventory code) w = (w\<lparr>wInv := db\<rparr>, Inr ())"
  unfolding act_ConfirmInventory_def using assms by (intro remote_settled) (simp_all add: on_inv_def)

lemma calm_ConfirmInventory_refused:
  assumes "wEnv w = []" and "rpc_Confirm code (wInv w) = (db, Inl (FailedPrecondition, m))"
  shows "attempts n (act_ConfirmInventory code) w =
    (w\<lparr>wInv := db\<rparr>, Inl (AppError ''InventoryCannotConfirm''))"
  unfolding act_ConfirmInventory_def using assms by (intro remote_settled) (simp_all add: on_inv_def)

lemma calm_ReleaseInventory:
  assumes "wEnv w = []" and "rpc_Release code (wInv w) = (db, Inr ())"
  shows "attempts n (act_ReleaseInventory code) w = (w\<lparr>wInv := db\<rparr>, Inr ())"
  unfolding act_ReleaseInventory_def using assms by (intro remote_settled) (simp_all add: on_inv_def)

lemma calm_ReleasePurchaseSlot:
  assumes "wEnv w = []"
  shows "freePurchaseSlot n ord w = w\<lparr>wTable := ReleasePurchaseSlot
     (PurchaseSlotKey (oSessionID ord) (oUserID ord) (oEventID ord)) (oCode ord) (wTable w)\<rparr>"
  using assms unfolding freePurchaseSlot_def act_ReleasePurchaseSlot_def
  by (subst remote_settled [OF _ refl]) simp_all

lemma calm_publish:
  assumes "wEnv w = []"
  shows "attempts n (publish p) w = (w\<lparr>wPub := wPub w @ [p]\<rparr>, Inr ())"
  unfolding publish_def using assms by (intro remote_settled) simp_all

lemma calm_publish_checkout:
  assumes "wEnv w = []" and "ss \<noteq> []"
  shows "attempts n (act_PublishCheckoutCompleted ss u e) w =
      (w\<lparr>wPub := wPub w @ [CheckoutCompleted ss u e]\<rparr>, Inr ())"
    and "attempts n (act_PublishCheckoutExpired ss u e) w =
      (w\<lparr>wPub := wPub w @ [CheckoutExpired ss u e]\<rparr>, Inr ())"
proof -
  have "act_PublishCheckoutCompleted ss u e = publish (CheckoutCompleted ss u e)"
    "act_PublishCheckoutExpired ss u e = publish (CheckoutExpired ss u e)"
    using assms(2) by (simp_all add: act_PublishCheckoutCompleted_def act_PublishCheckoutExpired_def fun_eq_iff)
  then show "attempts n (act_PublishCheckoutCompleted ss u e) w =
      (w\<lparr>wPub := wPub w @ [CheckoutCompleted ss u e]\<rparr>, Inr ())"
    "attempts n (act_PublishCheckoutExpired ss u e) w =
      (w\<lparr>wPub := wPub w @ [CheckoutExpired ss u e]\<rparr>, Inr ())"
    by (simp_all add: calm_publish [OF assms(1)])
qed

lemma calm_markForRefund:
  assumes "wEnv w = []" and "order_at (oCode ord) (wTable w) = Some ord"
  shows "markForRefund ord reason w =
    w\<lparr>wTable := ReleasePurchaseSlot (PurchaseSlotKey (oSessionID ord) (oUserID ord) (oEventID ord)) (oCode ord)
        (AList.update (order_key (oCode ord))
           (DOrder (ord\<lparr>oStatus := OrderStatusRefundRequired, oUpdatedAt := wNow w\<rparr>)) (wTable w)),
      wPub := wPub w @ [RefundRequired (oCode ord) (oUserID ord) (oEventID ord) reason]\<rparr>"
  by (simp add: markForRefund_def Let_def calm_UpdateOrderStatus [OF assms] act_PublishRefundRequired_def
      calm_publish calm_ReleasePurchaseSlot assms(1))

lemma demo_confirm: "\<exists>db. rpc_Confirm ''A'' demo_db = (db, Inr ())"
proof -
  have "snd (rpc_Confirm ''A'' demo_db) = Inr ()" by code_simp
  then show ?thesis by (metis prod.collapse)
qed

lemma confirm_order_sound_witness:
  "completed_at ''A'' (fst (ConfirmOrder ''A'' demo_world))
   \<and> confirmed_order (wInv (fst (ConfirmOrder ''A'' demo_world))) ''A''"
proof -
  obtain db where db: "rpc_Confirm ''A'' demo_db = (db, Inr ())" using demo_confirm by blast
  have n: "confirm_attempts = Suc 9" by (simp add: confirm_attempts_def getConfirmOrderActivityOptions_def)
  let ?w = "demo_world\<lparr>wNow := 8, wEnv := []\<rparr>"
  have "act_GetOrder ''A'' demo_world = (?w, Inl (Retryable ''lost reply''))"
    using demo_order_at demo_order_fields(1)
    by (simp add: act_GetOrder_def remote_def demo_world_def GetOne_def get_at)
  then have "attempts confirm_attempts (act_GetOrder ''A'') demo_world = attempts 9 (act_GetOrder ''A'') ?w"
    unfolding n by (subst attempts.simps(2)) simp
  also have "\<dots> = (?w, Inr demo_order)"
    using demo_order_at demo_order_fields(1) by (intro calm_GetOrder) (simp_all add: demo_world_def)
  finally have "attempts confirm_attempts (act_GetOrder ''A'') demo_world = (?w, Inr demo_order)" .
  then have "snd (ConfirmOrder ''A'' demo_world) = Inr ()"
    using demo_order_at demo_order_fields db
    by (simp add: ConfirmOrder_def Let_def calm_ConfirmInventory calm_UpdateOrderStatus demo_world_def)
  then have run: "ConfirmOrder ''A'' demo_world = (fst (ConfirmOrder ''A'' demo_world), Inr ())"
    by (metis prod.collapse)
  have "consistent (wInv demo_world)" "order_at ''A'' (wTable demo_world) = Some demo_order"
    using demo_consistent demo_order_at by (simp_all add: demo_world_def)
  from confirm_order_sound [OF this demo_order_fields(1,2) _ run] demo_order_fields(3)
  show ?thesis by simp
qed

lemma rpc_Confirm_cancelled:
  assumes "r \<in> set (orderRows db oc)" and "rStatus r = ReservationStatusCancelled" and "oc \<noteq> []"
  shows "rpc_Confirm oc db = (db, Inl (FailedPrecondition, ''reservation state conflict''))"
proof -
  have "\<not> list_all confirmable (orderRows db oc)"
    and some: "\<not> list_all (\<lambda>r. rStatus r = ReservationStatusConfirmed) (orderRows db oc)"
    using assms(1,2) by (auto simp: list_all_iff confirmable_def intro!: bexI [of _ r])
  from collectDeltas_error [OF this(1), of "[]" "[]"] some assms(1)
  have "confirmReservationTx oc db = Inl ErrStateConflict"
    by (auto simp: confirmReservationTx_def Let_def)
  then show ?thesis
    using assms(3) by (simp add: rpc_Confirm_def validate_id_def Confirm_def transaction_def
        GrpcError_def mapError_def)
qed

definition given_back :: "reservation \<Rightarrow> reservation" where
  "given_back r = (if rStatus r = ReservationStatusActive then r\<lparr>rStatus := ReservationStatusCancelled\<rparr> else r)"

lemma rpc_Release_rows:
  assumes "consistent db" and "\<not> has_confirmed db oc" and "oc \<noteq> []"
  obtains db' where "rpc_Release oc db = (db', Inr ())" and "consistent db'" and "paid db' = paid db"
    and "orderRows db' oc = map given_back (orderRows db oc)"
proof -
  have wf: "wf_db db" using assms(1) by (simp add: consistent_def)
  obtain db' where tx: "cancelReservationTx oc db = Inr db'"
    using release_no_drift [OF assms(1,2)] by blast
  note eff = releaseTx_step(2) [OF wf assms(2) tx]
  then have tab: "reservation_table db' = reservation_table
      (update_reservations (active_of oc) ReservationStatusCancelled db)" by simp
  have "rpc_Release oc db = (db', Inr ())"
    using tx assms(3) by (simp add: rpc_Release_def validate_id_def Release_def transaction_def)
  moreover have "consistent db'"
    using consistentI_gap [OF assms(1) releaseTx_keeps [OF wf tx]] .
  moreover have "paid db' = paid db" using active_of_sums(2) [OF tab] by auto
  moreover have "filter (\<lambda>r. rOrderCode r = oc) (map (\<lambda>r. if active_of oc r
      then r\<lparr>rStatus := ReservationStatusCancelled\<rparr> else r) rs) =
      map given_back (filter (\<lambda>r. rOrderCode r = oc) rs)" for rs
    by (induction rs) (simp_all add: active_of_def given_back_def)
  then have "orderRows db' oc = map given_back (orderRows db oc)"
    by (simp add: orderRows_def tab update_reservations_def update_where_def)
  ultimately show thesis by (rule that)
qed

end
