(* ===== verification/Order_Expiry.thy ===== *)
theory Order_Expiry
  imports Order_Workflow_Props
begin

text \<open>
  Order expiry against the other transitions out of PENDING: what a conditional transition
  does on every branch, that ExpireOrder never disturbs an order that has left PENDING, and
  what an expiry without faults leaves.
\<close>

section \<open>Leaving PENDING\<close>

lemma leavePending_pending:
  assumes "order_at code t = Some ord" and "oStatus ord = OrderStatusPending"
  shows "leavePending now code dest t =
    (AList.update (order_key code) (DOrder (ord\<lparr>oStatus := dest, oUpdatedAt := now\<rparr>)) t,
     Inr (ord\<lparr>oStatus := dest, oUpdatedAt := now\<rparr>, True))"
proof -
  have "is_pending_row (map_of t (order_key code))"
    using assms by (auto simp: order_at_def is_pending_row_def as_order_def split: option.splits ditem.splits)
  then show ?thesis by (simp add: leavePending_def upsert_at [OF assms(1)])
qed

lemma leavePending_left:
  assumes "order_at code t = Some ord" and "oStatus ord \<noteq> OrderStatusPending" and "oDeletedAt ord = None"
  shows "leavePending now code dest t = (t, Inr (ord, oStatus ord = dest))"
proof -
  have "\<not> is_pending_row (map_of t (order_key code))"
    using assms(1,2) by (auto simp: order_at_def is_pending_row_def as_order_def split: option.splits ditem.splits)
  then show ?thesis using get_at [OF assms(1)] assms(3) by (simp add: leavePending_def)
qed

lemma calm_ExpireOrder:
  assumes "wEnv w = []" and "order_at code (wTable w) = Some ord" and "oStatus ord = OrderStatusPending"
  shows "attempts n (act_ExpireOrder code) w =
    (w\<lparr>wTable := AList.update (order_key code)
        (DOrder (ord\<lparr>oStatus := OrderStatusTimeout, oUpdatedAt := wNow w\<rparr>)) (wTable w)\<rparr>,
     Inr (ord\<lparr>oStatus := OrderStatusTimeout, oUpdatedAt := wNow w\<rparr>, True))"
  unfolding act_ExpireOrder_def using assms
  by (intro remote_settled) (simp_all add: on_table_def ExpireIfPending_def leavePending_pending)

interpretation settled_expiry:
  remote_activity
    "\<lambda>w. case on_table (\<lambda>now. ExpireIfPending now code) w of
       (w', Inl e) \<Rightarrow> (w', Inl (repo_error e))
     | (w', Inr r) \<Rightarrow> (w', Inr r)"
    "\<lambda>w. (wTable w, wInv w, wPub w) = s \<and>
       (\<exists>ord. order_at code (wTable w) = Some ord \<and> oDeletedAt ord = None \<and>
          oStatus ord \<notin> {OrderStatusPending, OrderStatusTimeout})"
    "\<lambda>r w. (wTable w, wInv w, wPub w) = s \<and> \<not> snd r" "\<lambda>_ _. False"
  for code s
  by unfold_locales
    (auto simp: on_table_def ExpireIfPending_def leavePending_left split: prod.splits)

lemmas settled_expiry_retried = settled_expiry.retried [unfolded act_ExpireOrder_def [symmetric]]

lemma attempts_success_frame:
  assumes "attempts n f w = (w', r)" and "\<And>w. g (fst (f w)) = g w"
  shows "g w' = g w"
  using attempts_frame [of g f n w] assms by simp

text \<open>
  C28. ExpireOrder leaves an order alone once it has left PENDING. Whatever calls are lost,
  on an order that is neither PENDING nor TIMEOUT the workflow changes no order row, item or
  purchase slot, releases no inventory and publishes nothing.
\<close>

theorem expire_leaves_settled:
  assumes "order_at code (wTable w) = Some ord" and "oDeletedAt ord = None"
    and "oStatus ord \<notin> {OrderStatusPending, OrderStatusTimeout}"
    and "ExpireOrder code w = (w', r)"
  shows "wTable w' = wTable w \<and> wInv w' = wInv w \<and> wPub w' = wPub w"
proof -
  obtain w1 r1 where a: "attempts compensation_attempts (act_ExpireOrder code) w = (w1, r1)"
    by (cases "attempts compensation_attempts (act_ExpireOrder code) w")
  have "(wTable w, wInv w, wPub w) = (wTable w, wInv w, wPub w) \<and>
       (\<exists>ord. order_at code (wTable w) = Some ord \<and> oDeletedAt ord = None \<and>
          oStatus ord \<notin> {OrderStatusPending, OrderStatusTimeout})"
    using assms(1-3) by simp
  from settled_expiry_retried [OF this a]
  have k: "(wTable w1, wInv w1, wPub w1) = (wTable w, wInv w, wPub w)" "\<forall>q. r1 = Inr q \<longrightarrow> \<not> snd q"
    by (auto split: sum.splits act_error.splits)
  have "w' = w1"
    using assms(4) a k(2) by (auto simp: ExpireOrder_def split: sum.splits prod.splits if_splits)
  with k(1) show ?thesis by simp
qed

definition cancelled_order :: order where
  "cancelled_order = demo_order\<lparr>oStatus := OrderStatusCancelled\<rparr>"

definition cancelled_world :: world where
  "cancelled_world = demo_world\<lparr>wTable := AList.update (order_key ''A'') (DOrder cancelled_order) demo_table\<rparr>"

lemma expire_leaves_settled_witness:
  "wTable (fst (ExpireOrder ''A'' cancelled_world)) = wTable cancelled_world \<and>
   wInv (fst (ExpireOrder ''A'' cancelled_world)) = demo_db \<and>
   wPub (fst (ExpireOrder ''A'' cancelled_world)) = []"
proof -
  have "order_at ''A'' (wTable cancelled_world) = Some cancelled_order" "oDeletedAt cancelled_order = None"
    "oStatus cancelled_order \<notin> {OrderStatusPending, OrderStatusTimeout}"
    using demo_order_fields(1) by (simp_all add: cancelled_world_def cancelled_order_def)
  from expire_leaves_settled [OF this surjective_pairing] show ?thesis
    by (simp add: cancelled_world_def demo_world_def)
qed

section \<open>An expiry without faults\<close>

definition expired_order :: "time \<Rightarrow> order \<Rightarrow> order" where
  "expired_order now ord = ord\<lparr>oStatus := OrderStatusTimeout, oUpdatedAt := now\<rparr>"

lemma expired_order_fields [simp]:
  "oCode (expired_order now ord) = oCode ord" "oDeletedAt (expired_order now ord) = oDeletedAt ord"
  "oStatus (expired_order now ord) = OrderStatusTimeout" "oUserID (expired_order now ord) = oUserID ord"
  "oEventID (expired_order now ord) = oEventID ord" "oSessionID (expired_order now ord) = oSessionID ord"
  by (simp_all add: expired_order_def)

definition announce_expired :: "order \<Rightarrow> publication list \<Rightarrow> publication list" where
  "announce_expired ord pub =
     (if oSessionID ord = [] then pub
      else pub @ [CheckoutExpired (oSessionID ord) (oUserID ord) (oEventID ord)])"

lemma calm_expire_pending:
  assumes "wEnv w = []" and "order_at code (wTable w) = Some ord" and "oCode ord = code"
    and "oStatus ord = OrderStatusPending" and "rpc_Release code (wInv w) = (db, Inr ())"
  shows "ExpireOrder code w =
     (w\<lparr>wTable := ReleasePurchaseSlot (PurchaseSlotKey (oSessionID ord) (oUserID ord) (oEventID ord)) code
          (AList.update (order_key code) (DOrder (expired_order (wNow w) ord)) (wTable w)),
        wInv := db, wPub := announce_expired ord (wPub w)\<rparr>, Inr ())"
proof -
  let ?w1 = "w\<lparr>wTable := AList.update (order_key code) (DOrder (expired_order (wNow w) ord)) (wTable w)\<rparr>"
  let ?w3 = "?w1\<lparr>wInv := db, wTable := ReleasePurchaseSlot
       (PurchaseSlotKey (oSessionID ord) (oUserID ord) (oEventID ord)) code (wTable ?w1)\<rparr>"
  have e: "wEnv ?w3 = []" using assms(1) by simp
  have a: "attempts compensation_attempts (act_ExpireOrder code) w = (?w1, Inr (expired_order (wNow w) ord, True))"
    using calm_ExpireOrder [OF assms(1,2,4)] by (simp add: expired_order_def)
  have b: "attempts compensation_attempts (act_ReleaseInventory code) ?w1 = (?w1\<lparr>wInv := db\<rparr>, Inr ())"
    using assms(1,5) by (intro calm_ReleaseInventory) simp_all
  have c: "freePurchaseSlot compensation_attempts (expired_order (wNow w) ord) (?w1\<lparr>wInv := db\<rparr>) = ?w3"
    using assms(1,3) by (simp add: calm_ReleasePurchaseSlot)
  show ?thesis
    unfolding ExpireOrder_def a
    using assms(3) calm_publish_checkout(2) [OF e, of "oSessionID ord" compensation_attempts "oUserID ord" "oEventID ord"]
    by (simp add: b c Let_def announce_expired_def)
qed

end
