(* ===== verification/Order_Items.thy ===== *)
theory Order_Items
  imports Order_Store
begin

text \<open>
  What the order table promises its users: an order's items are stored once however often the
  writing activity is retried, they are all gone after a delete, and the purchase slot belongs
  to the first order that claimed it until that order gives it up.
\<close>

section \<open>Items by key\<close>

definition key_of :: "order_item \<Rightarrow> dkey" where
  "key_of it = (iPK it, iSK it)"

definition item_row :: "order_item \<Rightarrow> dkey \<times> ditem" where
  "item_row it = (key_of it, DItem it)"

lemma show_nat_inj:
  assumes "show_nat m = show_nat n"
  shows "m = n"
proof -
  have "Some (int m) = Some (int n)" by (metis assms parse_show_nat)
  then show ?thesis by simp
qed

lemma OrderItemID_inject [simp]: "OrderItemID c m = OrderItemID c n \<longleftrightarrow> m = n"
  by (auto simp: OrderItemID_def dest: show_nat_inj)

lemma build_items_nth:
  "build_items now code pos opts =
     map (\<lambda>j. buildOrderItemModel now code (pos + j) (opts ! j)) [0..<length opts]"
proof (induction opts arbitrary: pos)
  case Nil
  then show ?case by simp
next
  case (Cons opt opts)
  have "[0..<length (opt # opts)] = 0 # map Suc [0..<length opts]"
    by (simp add: map_Suc_upt upt_conv_Cons del: upt_Suc)
  with Cons show ?case by simp
qed

lemma length_build_items [simp]: "length (build_items now code pos opts) = length opts"
  by (simp add: build_items_nth)

lemma item_row_built:
  "item_row (buildOrderItemModel now code pos opt) =
     (item_key code (OrderItemID code pos), DItem (buildOrderItemModel now code pos opt))"
  by (simp add: item_row_def key_of_def buildOrderItemModel_def item_key_def Let_def)

lemma key_of_built: "key_of (buildOrderItemModel now code pos opt) = item_key code (OrderItemID code pos)"
  by (simp add: key_of_def buildOrderItemModel_def item_key_def Let_def)

lemma build_items_keys:
  "map key_of (build_items now code pos opts) =
     map (\<lambda>j. item_key code (OrderItemID code (pos + j))) [0..<length opts]"
  by (simp add: build_items_nth key_of_built)

lemma build_items_distinct:
  "distinct (map key_of (build_items now code pos opts))"
  by (simp add: build_items_keys distinct_map inj_on_def)

lemma map_of_item_row [simp]: "map_of (item_row it # t) = (map_of t)(key_of it \<mapsto> DItem it)"
  by (simp add: item_row_def)

lemma dom_item_rows: "dom (map_of (map item_row its)) = set (map key_of its)"
  by (induction its)
    (simp_all only: list.map item_row_def fst_conv snd_conv dom_fun_upd option.distinct if_False list.set map_of.simps dom_empty)

text \<open>Only the part of a batch that DynamoDB processes is written.\<close>

fun processed :: "nat list \<Rightarrow> nat \<Rightarrow> order_item list \<Rightarrow> order_item list" where
  "processed un j [] = []"
| "processed un j (it # its) =
     (if j \<in> set un then processed un (j + 1) its else it # processed un (j + 1) its)"

lemma processed_all [simp]: "processed [] j its = its"
  by (induction its arbitrary: j) auto

lemma processed_subset: "set (processed un j its) \<subseteq> set its"
  by (induction its arbitrary: j) auto

lemma map_of_write_batch:
  assumes "distinct (map key_of its)"
  shows "map_of (write_batch un j its t) = map_of t ++ map_of (map item_row (processed un j its))"
  using assms
proof (induction its arbitrary: j t)
  case Nil
  then show ?case by simp
next
  case (Cons it its)
  let ?m = "map_of (map item_row (processed un (j + 1) its))"
  have "key_of it \<notin> dom ?m"
    unfolding dom_item_rows using Cons.prems processed_subset [of un "j + 1" its] by auto
  then have upd: "(map_of t)(key_of it \<mapsto> DItem it) ++ ?m = map_of t ++ (?m(key_of it \<mapsto> DItem it))"
    by (auto simp: map_add_def fun_eq_iff split: option.splits)
  have IH: "map_of (write_batch un (j + 1) its u) = map_of u ++ ?m" for u
    by (rule Cons.IH) (use Cons.prems in simp)
  show ?case
  proof (cases "j \<in> set un")
    case True
    then show ?thesis using IH by simp
  next
    case False
    then have "map_of (write_batch un j (it # its) t) =
        map_of (AList.update (key_of it) (DItem it) t) ++ ?m"
      using IH by (simp add: key_of_def)
    also have "\<dots> = map_of t ++ (?m(key_of it \<mapsto> DItem it))"
      using upd by (simp only: update_conv')
    also have "\<dots> = map_of t ++ map_of (map item_row (processed un j (it # its)))"
      using False by (simp only: processed.simps if_False list.map map_of_item_row)
    finally show ?thesis .
  qed
qed

lemma distinct_write_batch:
  "distinct (map fst t) \<Longrightarrow> distinct (map fst (write_batch un j its t))"
  by (induction its arbitrary: j t) (auto simp: distinct_update)

lemma write_batches_all:
  assumes "\<forall>j. oc j = BatchWritten []" and "distinct (map key_of its)"
  shows "\<exists>t'. write_batches oc i its t = (t', Inr ()) \<and>
     map_of t' = map_of t ++ map_of (map item_row its) \<and> (distinct (map fst t) \<longrightarrow> distinct (map fst t'))"
  using assms
proof (induction oc i its t rule: write_batches.induct)
  case (1 oc i its t)
  show ?case
  proof (cases "its = []")
    case True
    then show ?thesis by (simp add: write_batches.simps)
  next
    case False
    let ?a = "take batchSize its" and ?b = "drop batchSize its"
    let ?t = "write_batch [] 0 ?a t"
    have d: "distinct (map key_of ?a)" "distinct (map key_of ?b)"
      using 1(3) by (metis distinct_take take_map, metis distinct_drop drop_map)
    have w: "oc i = BatchWritten []" using 1(2) by simp
    obtain t' where t': "write_batches oc (i + 1) ?b ?t = (t', Inr ())"
      "map_of t' = map_of ?t ++ map_of (map item_row ?b)"
      "distinct (map fst ?t) \<longrightarrow> distinct (map fst t')"
      using 1(1) [OF False w 1(2) d(2)] by blast
    have disj: "dom (map_of (map item_row ?a)) \<inter> dom (map_of (map item_row ?b)) = {}"
    proof -
      have "distinct (map key_of (?a @ ?b))" using 1(3) by simp
      then show ?thesis
        unfolding map_append distinct_append dom_item_rows by blast
    qed
    have "map_of t' = map_of t ++ (map_of (map item_row ?a) ++ map_of (map item_row ?b))"
      using t'(2) map_of_write_batch [OF d(1)] by simp
    also have "\<dots> = map_of t ++ map_of (map item_row ?b @ map item_row ?a)"
      by (simp add: map_add_comm [OF disj])
    finally have "map_of t' = map_of t ++ (map_of (map item_row ?a) ++ map_of (map item_row ?b))"
      by (simp add: map_add_comm [OF disj])
    also have "map_of (map item_row ?a) ++ map_of (map item_row ?b) = map_of (map item_row its)"
      by (metis append_take_drop_id disj map_add_comm map_append map_of_append)
    finally show ?thesis
      using t'(1,3) False w distinct_write_batch by (auto simp: write_batches.simps [of oc i its t])
  qed
qed

text \<open>A query sees the rows by their keys, when no key is stored twice.\<close>

lemma distinct_rows_mset:
  assumes "distinct (map fst t)" and "distinct rows" and "\<And>kv. kv \<in> set rows \<longleftrightarrow> kv \<in> set t \<and> p kv"
  shows "mset (filter p t) = mset rows"
proof -
  have "distinct (filter p t)" using assms(1) by (simp add: distinct_map)
  moreover have "set (filter p t) = set rows" using assms(3) by auto
  ultimately show ?thesis using assms(2) set_eq_iff_mset_eq_distinct by metis
qed

lemma mset_ListItem:
  "mset (ListItemByOrderCode code t) = mset (concat (map (as_item \<circ> snd) (filter (is_live_item code) t)))"
proof -
  have "mset (concat (map f (sort_key g xs))) = mset (concat (map f xs))" for f g xs
    by (simp add: mset_concat flip: sum_mset_sum_list)
  then show ?thesis by (simp add: ListItemByOrderCode_def)
qed

lemma buildOrderItemModel_live:
  "is_live_item code (item_row (buildOrderItemModel now code pos opt))"
  by (simp only: item_row_built)
    (simp add: is_live_item_def item_key_def buildOrderItemModel_def Let_def BuildItemSK_def)

lemma built_live:
  "it \<in> set (build_items now code pos opts) \<Longrightarrow> is_live_item code (item_row it)"
  by (auto simp: build_items_nth buildOrderItemModel_live)

text \<open>The state of an order's partition before its items are written.\<close>

definition no_items :: "string \<Rightarrow> otable \<Rightarrow> bool" where
  "no_items code t \<longleftrightarrow> list_all (\<lambda>kv. \<not> is_live_item code kv) t"

lemma live_rows_written:
  assumes "distinct (map fst t')" and "no_items code t"
    and "map_of t' = map_of t ++ map_of (map item_row its)"
    and "distinct (map key_of its)" and "\<And>it. it \<in> set its \<Longrightarrow> is_live_item code (item_row it)"
    and "distinct (map fst t)"
  shows "mset (ListItemByOrderCode code t') = mset its"
proof -
  have dk: "distinct (map fst (map item_row its))"
    using assms(4) by (simp add: comp_def item_row_def)
  then have dr: "distinct (map item_row its)" by (metis distinct_map)
  have "kv \<in> set (map item_row its) \<longleftrightarrow> kv \<in> set t' \<and> is_live_item code kv" for kv
  proof -
    obtain k v where kv: "kv = (k, v)" by (cases kv)
    have "kv \<in> set t' \<longleftrightarrow> map_of t' k = Some v" using assms(1) kv by simp
    also have "\<dots> \<longleftrightarrow> kv \<in> set (map item_row its) \<or>
        (k \<notin> fst ` set (map item_row its) \<and> kv \<in> set t)"
      using dk assms(6) kv by (auto simp: assms(3) map_add_Some_iff map_of_eq_None_iff)
    finally show ?thesis
      using assms(2,5) by (auto simp: no_items_def list_all_iff)
  qed
  from distinct_rows_mset [OF assms(1) dr this]
  have "mset (filter (is_live_item code) t') = mset (map item_row its)" .
  moreover have "mset (concat (map f xs)) = mset (concat (map f ys))" if "mset xs = mset ys"
    for f :: "dkey \<times> ditem \<Rightarrow> order_item list" and xs ys
    using that by (metis (no_types) mset_concat mset_map sum_mset_sum_list)
  ultimately have "mset (concat (map (as_item \<circ> snd) (filter (is_live_item code) t'))) =
      mset (concat (map (as_item \<circ> snd) (map item_row its)))" by blast
  moreover have "concat (map (as_item \<circ> snd) (map item_row its)) = its"
    by (induction its) (simp_all add: item_row_def as_item_def)
  ultimately show ?thesis by (simp only: mset_ListItem)
qed

lemma CreateManyItems_all:
  assumes "\<forall>j. oc j = BatchWritten []"
  shows "\<exists>t'. CreateManyItems oc now code opts t = (t', Inr (build_items now code 0 opts)) \<and>
     map_of t' = map_of t ++ map_of (map item_row (build_items now code 0 opts)) \<and>
     (distinct (map fst t) \<longrightarrow> distinct (map fst t'))"
proof (cases "opts = []")
  case True
  then show ?thesis by (simp add: CreateManyItems_def)
next
  case False
  then show ?thesis
    using write_batches_all [OF assms build_items_distinct, of 0 now code 0 opts t]
    by (auto simp: CreateManyItems_def Let_def)
qed

lemma rows_replaced:
  "m ++ map_of (map item_row (build_items now code 0 opts)) ++
     map_of (map item_row (build_items later code 0 opts)) =
   m ++ map_of (map item_row (build_items later code 0 opts))"
proof -
  have "map key_of (build_items now code 0 opts) = map key_of (build_items later code 0 opts)"
    by (simp only: build_items_keys)
  then have "dom (map_of (map item_row (build_items now code 0 opts))) =
      dom (map_of (map item_row (build_items later code 0 opts)))"
    by (simp only: dom_item_rows)
  then have "map_of (map item_row (build_items now code 0 opts)) k = None \<longleftrightarrow>
      map_of (map item_row (build_items later code 0 opts)) k = None" for k
    by (metis domIff)
  then show ?thesis
    unfolding map_add_def fun_eq_iff by (metis (no_types, lifting) option.case_eq_if)
qed

text \<open>
  Writing an order's items is idempotent. When DynamoDB processes every batch, the
  first write of a fresh order's items and any later repetition of it both succeed, and the
  order then has exactly one row per requested item, those of the last write, however the
  first write's answer was lost.
\<close>

theorem items_written_once:
  assumes "\<forall>j. oc j = BatchWritten []" and "\<forall>j. oc' j = BatchWritten []"
    and "distinct (map fst t)" and "no_items code t"
    and "CreateManyItems oc now code opts t = (t1, r1)"
    and "CreateManyItems oc' later code opts t1 = (t2, r2)"
  shows "r1 = Inr (build_items now code 0 opts) \<and> r2 = Inr (build_items later code 0 opts) \<and>
     mset (ListItemByOrderCode code t1) = mset (build_items now code 0 opts) \<and>
     mset (ListItemByOrderCode code t2) = mset (build_items later code 0 opts)"
proof -
  let ?a = "build_items now code 0 opts" and ?b = "build_items later code 0 opts"
  have one: "r1 = Inr ?a" "map_of t1 = map_of t ++ map_of (map item_row ?a)" "distinct (map fst t1)"
    using CreateManyItems_all [OF assms(1), of now code opts t] assms(3,5) by auto
  have two: "r2 = Inr ?b" "map_of t2 = map_of t1 ++ map_of (map item_row ?b)" "distinct (map fst t2)"
    using CreateManyItems_all [OF assms(2), of later code opts t1] one(3) assms(6) by auto
  have two': "map_of t2 = map_of t ++ map_of (map item_row ?b)"
    unfolding two(2) one(2) by (rule rows_replaced)
  have "mset (ListItemByOrderCode code t1) = mset ?a"
    by (rule live_rows_written [OF one(3) assms(4) one(2) build_items_distinct _ assms(3)]) (rule built_live)
  moreover have "mset (ListItemByOrderCode code t2) = mset ?b"
    by (rule live_rows_written [OF two(3) assms(4) two' build_items_distinct _ assms(3)]) (rule built_live)
  ultimately show ?thesis using one(1) two(1) by blast
qed

definition demo_items :: "create_item_option list" where
  "demo_items = [\<lparr>ciTicketClassID = ''1'', ciTicketClassName = ''A'', ciPriceAtPurchase = 100,
      ciQuantity = 2, ciTotalAmount = 200\<rparr>,
    \<lparr>ciTicketClassID = ''2'', ciTicketClassName = ''B'', ciPriceAtPurchase = 50,
      ciQuantity = 1, ciTotalAmount = 50\<rparr>]"

lemma items_written_once_witness:
  "mset (ListItemByOrderCode ''A'' (fst (CreateManyItems (\<lambda>_. BatchWritten []) 9 ''A'' demo_items
      (fst (CreateManyItems (\<lambda>_. BatchWritten []) 5 ''A'' demo_items []))))) =
   mset (build_items 9 ''A'' 0 demo_items)"
proof -
  have "\<forall>j. (\<lambda>_::nat. BatchWritten []) j = BatchWritten []" "distinct (map fst ([]::otable))"
    "no_items ''A'' []" by (simp_all add: no_items_def)
  from items_written_once [OF this(1,1-3) surjective_pairing surjective_pairing] show ?thesis by blast
qed

section \<open>What a batch leaves out\<close>

lemma distinct_processed: "distinct (map key_of its) \<Longrightarrow> distinct (map key_of (processed un j its))"
  by (induction its arbitrary: j) (use processed_subset in fastforce)+

lemma processed_nth:
  "distinct its \<Longrightarrow> i < length its \<Longrightarrow> its ! i \<in> set (processed un j its) \<longleftrightarrow> j + i \<notin> set un"
proof (induction its arbitrary: i j)
  case Nil
  then show ?case by simp
next
  case (Cons it its)
  show ?case
  proof (cases i)
    case 0
    then show ?thesis using Cons.prems processed_subset [of un "j + 1" its] by auto
  next
    case (Suc m)
    then have "its ! m \<in> set (processed un (j + 1) its) \<longleftrightarrow> j + 1 + m \<notin> set un"
      using Cons by auto
    moreover have "its ! m \<noteq> it" using Cons.prems Suc by auto
    ultimately show ?thesis using Suc by auto
  qed
qed

text \<open>
  Items that DynamoDB leaves unprocessed are lost in silence. When the single batch of
  a new order's items is answered with unprocessed indices, \<open>CreateMany\<close> still reports
  every item as created, and an item is found by a later listing exactly when it was not among
  the unprocessed ones.
\<close>

theorem unprocessed_items_lost:
  assumes "oc 0 = BatchWritten un" and "opts \<noteq> []" and "length opts \<le> batchSize"
    and "distinct (map fst t)" and "no_items code t" and "i < length opts"
    and "CreateManyItems oc now code opts t = (t', r)"
  shows "r = Inr (build_items now code 0 opts) \<and>
     (build_items now code 0 opts ! i \<in> set (ListItemByOrderCode code t') \<longleftrightarrow> i \<notin> set un)"
proof -
  let ?its = "build_items now code 0 opts" and ?new = "processed un 0 (build_items now code 0 opts)"
  note dk = build_items_distinct [of now code 0 opts]
  have dits: "distinct ?its" using dk by (metis distinct_map)
  have "?its \<noteq> []" using assms(2) by (metis length_build_items length_0_conv)
  then have "write_batches oc 0 ?its t = (write_batch un 0 ?its t, Inr ())"
    using assms(1,3) by (simp add: write_batches.simps [of oc 0] write_batches.simps [of oc "Suc 0"])
  then have t': "t' = write_batch un 0 ?its t" and r: "r = Inr ?its"
    using assms(2,7) by (auto simp: CreateManyItems_def Let_def)
  have dt: "distinct (map fst t')" unfolding t' by (rule distinct_write_batch [OF assms(4)])
  have m: "map_of t' = map_of t ++ map_of (map item_row ?new)"
    unfolding t' by (rule map_of_write_batch [OF dk])
  have live: "is_live_item code (item_row it)" if "it \<in> set ?new" for it
    using that processed_subset [of un 0 ?its] built_live by blast
  have "mset (ListItemByOrderCode code t') = mset ?new"
    by (rule live_rows_written [OF dt assms(5) m distinct_processed [OF dk] live assms(4)])
  then have "set (ListItemByOrderCode code t') = set ?new" by (metis set_mset_mset)
  then show ?thesis using r processed_nth [OF dits, of i un 0] assms(6) by simp
qed

lemma unprocessed_items_lost_witness:
  "build_items 5 ''A'' 0 demo_items ! 1 \<notin>
     set (ListItemByOrderCode ''A'' (fst (CreateManyItems (\<lambda>_. BatchWritten [1]) 5 ''A'' demo_items [])))"
proof -
  have "distinct (map fst ([]::otable))" "no_items ''A'' []" "demo_items \<noteq> []"
    "length demo_items \<le> batchSize" "1 < length demo_items"
    "(\<lambda>_::nat. BatchWritten [1]) 0 = BatchWritten [1]"
    by (simp_all add: no_items_def demo_items_def batchSize_def)
  from unprocessed_items_lost [OF this(6,3,4,1,2,5) surjective_pairing] show ?thesis by simp
qed

section \<open>The purchase slot\<close>

definition slot_of :: "string \<Rightarrow> otable \<Rightarrow> slot_claim option" where
  "slot_of k t = as_claim (map_of t (slot_key k))"

lemma slot_of_SomeD: "slot_of k t = Some c \<Longrightarrow> map_of t (slot_key k) = Some (DClaim c)"
  by (auto simp: slot_of_def as_claim_def split: option.splits ditem.splits)

definition claim_item :: "time \<Rightarrow> string \<Rightarrow> slot_claim" where
  "claim_item now code = \<lparr>clOrderCode = code, clClaimedAt = formatInt (unix now),
     clExpiresAt = formatInt (unix (now + purchaseSlotTTL))\<rparr>"

lemma ClaimPurchaseSlot_eq:
  "ClaimPurchaseSlot now k code mid t =
     (if map_of t (slot_key k) = None
      then (AList.update (slot_key k) (DClaim (claim_item now code)) t, SlotWon now)
      else (mid t, SlotTaken (case slot_of k (mid t) of None \<Rightarrow> [] | Some c \<Rightarrow> clOrderCode c)
              (parseClaimedAt (slot_of k (mid t)))))"
  by (simp add: ClaimPurchaseSlot_def put_new_def Let_def claim_item_def slot_of_def)

lemma slot_of_update [simp]:
  "slot_of k (AList.update (order_key c) v t) = slot_of k t"
  "slot_of k (AList.update (slot_key j) (DClaim c') t) = (if k = j then Some c' else slot_of k t)"
  by (simp_all add: slot_of_def update_conv as_claim_def)

lemma slot_of_upsert [simp]: "slot_of k (fst (upsert_order code f t)) = slot_of k t"
  by (simp add: upsert_order_def split: option.splits)

lemma slot_of_release:
  "slot_of k (ReleasePurchaseSlot j code t) =
     (if k = j \<and> (\<exists>c. slot_of k t = Some c \<and> clOrderCode c = code) then None else slot_of k t)"
  by (simp add: ReleasePurchaseSlot_def slot_of_def delete_conv as_claim_def split: option.splits)

lemma map_of_write_batch_other:
  "k \<notin> key_of ` set its \<Longrightarrow> map_of (write_batch un j its t) k = map_of t k"
  by (induction its arbitrary: j t) (auto simp: update_conv key_of_def)

lemma map_of_write_batches_other:
  "k \<notin> key_of ` set its \<Longrightarrow> map_of (fst (write_batches oc i its t)) k = map_of t k"
proof (induction oc i its t rule: write_batches.induct)
  case (1 oc i its t)
  have "k \<notin> key_of ` set (take batchSize its)" "k \<notin> key_of ` set (drop batchSize its)"
    using 1(2) by (auto dest: in_set_takeD in_set_dropD)
  with 1(1) show ?case
    by (auto simp: write_batches.simps [of oc i its t] map_of_write_batch_other split: batch_outcome.splits)
qed

text \<open>Writing items touches no order row and no purchase slot.\<close>

lemma map_of_CreateMany_other:
  assumes "\<And>i. k \<noteq> item_key code i"
  shows "map_of (fst (CreateManyItems oc now code opts t)) k = map_of t k"
proof -
  have "k \<notin> key_of ` set (build_items now code 0 opts)"
  proof
    assume "k \<in> key_of ` set (build_items now code 0 opts)"
    then obtain j where "k = item_key code (OrderItemID code j)"
      by (auto simp: build_items_nth key_of_built)
    with assms show False by blast
  qed
  from map_of_write_batches_other [OF this, of oc 0 t] show ?thesis
    by (cases "write_batches oc 0 (build_items now code 0 opts) t")
      (simp add: CreateManyItems_def Let_def split: sum.splits)
qed

lemma slot_of_CreateMany [simp]: "slot_of k (fst (CreateManyItems oc now code opts t)) = slot_of k t"
  by (simp add: slot_of_def map_of_CreateMany_other)

lemma slot_of_delete_items [simp]: "slot_of k (delete_items now its t) = slot_of k t"
proof (induction its arbitrary: t)
  case Nil
  then show ?case by simp
next
  case (Cons it its)
  have "slot_of k (AList.update (iPK it, iSK it) (DItem y) t) = slot_of k t"
    if "map_of t (iPK it, iSK it) = Some (DItem x)" for x y
    using that by (auto simp: slot_of_def update_conv as_claim_def)
  with Cons show ?case by (simp split: option.splits ditem.splits)
qed

text \<open>
  What happens to the table up to the second \<open>T\<close> without a release of the slot \<open>k\<close> that names
  the order \<open>code\<close>: requests write orders and items, claim any slot, release other slots, or this
  one under another code, and DynamoDB deletes claims whose time to live is over.
\<close>

inductive other_step :: "string \<Rightarrow> string \<Rightarrow> int \<Rightarrow> otable \<Rightarrow> otable \<Rightarrow> bool" for k code T where
  other_claim: "other_step k code T t (fst (ClaimPurchaseSlot now j c (\<lambda>t. t) t))"
| other_release: "j \<noteq> k \<or> c \<noteq> code \<Longrightarrow> other_step k code T t (ReleasePurchaseSlot j c t)"
| other_create: "other_step k code T t (fst (CreateOrderRow fmt now opt t))"
| other_update: "other_step k code T t (fst (UpdateOrderRow now c st p t))"
| other_leave: "other_step k code T t (fst (leavePending now c st t))"
| other_delete: "other_step k code T t (DeleteOrderRow now c t)"
| other_items: "other_step k code T t (fst (CreateManyItems oc now c opts t))"
| other_delete_items: "other_step k code T t (DeleteItemByOrderCode now c t)"
| other_expiry: "unix now \<le> T \<Longrightarrow> other_step k code T t (expireClaim now j t)"

lemma slot_of_expireClaim:
  "slot_of k (expireClaim now j t) =
     (if k = j \<and> (\<exists>c s. slot_of k t = Some c \<and> parseInt (clExpiresAt c) = Some s \<and> s < unix now)
      then None else slot_of k t)"
  by (auto simp: expireClaim_def slot_of_def delete_conv as_claim_def split: option.splits)

lemma other_step_keeps:
  assumes "other_step k code T t t'" and "slot_of k t = Some c" and "clOrderCode c = code"
    and "parseInt (clExpiresAt c) = Some T"
  shows "slot_of k t' = Some c"
  using assms
proof (cases rule: other_step.cases)
  case (other_claim now j c')
  have "map_of t (slot_key k) \<noteq> None" using slot_of_SomeD [OF assms(2)] by simp
  with other_claim assms(2) show ?thesis by (auto simp: ClaimPurchaseSlot_eq)
next
  case (other_release j c')
  with assms show ?thesis by (auto simp: slot_of_release)
next
  case (other_create fmt now opt)
  with assms(2) show ?thesis
    by (simp add: CreateOrderRow_def put_new_def Let_def split: if_splits)
next
  case (other_leave now c' st)
  have "fst (leavePending now c' st t) = (if is_pending_row (map_of t (order_key c'))
      then fst (upsert_order c' (\<lambda>ord. ord\<lparr>oStatus := st, oUpdatedAt := now\<rparr>) t) else t)"
    by (simp add: leavePending_def split: prod.splits sum.splits)
  with other_leave assms(2) show ?thesis by simp
next
  case (other_delete_items now c')
  with assms(2) show ?thesis by (simp add: DeleteItemByOrderCode_def Let_def)
next
  case (other_expiry now j)
  with assms show ?thesis by (auto simp: slot_of_expireClaim)
qed (use assms(2) in \<open>simp_all add: UpdateOrderRow_def DeleteOrderRow_def\<close>)

lemma other_steps_keep:
  assumes "(other_step k code T)\<^sup>*\<^sup>* t t'" and "slot_of k t = Some c" and "clOrderCode c = code"
    and "parseInt (clExpiresAt c) = Some T"
  shows "slot_of k t' = Some c"
  using assms by (induction rule: rtranclp_induct) (auto dest: other_step_keeps)

text \<open>
  C6. The purchase slot has one owner. Once an order has won the slot of a session, then
  whatever requests write to the table but a release that names that order's code, and
  whatever claims DynamoDB expires, up to the second in which this claim's thirty days end, a
  later claim by any order loses and is told the owner's code and the second of its claim, also when
  it reads the winner only after further writes. A release under the owner's code, which the
  owner sends and every request that finds the owner's order ended or never written, frees the
  slot for the next claim, and so does the expiry after that second.
\<close>

theorem slot_exclusive:
  assumes "min_i64 \<le> unix now" and "unix (now + purchaseSlotTTL) \<le> max_i64"
    and "ClaimPurchaseSlot now k code mid t = (t1, SlotWon at)" and "T = unix (now + purchaseSlotTTL)"
    and "(other_step k code T)\<^sup>*\<^sup>* t1 t2" and "(other_step k code T)\<^sup>*\<^sup>* t2 (mid2 t2)" and "T < unix late"
  shows "ClaimPurchaseSlot now2 k code2 mid2 t2 = (mid2 t2, SlotTaken code (unix now * second)) \<and>
     snd (ClaimPurchaseSlot now2 k code2 mid2 (ReleasePurchaseSlot k code t2)) = SlotWon now2 \<and>
     snd (ClaimPurchaseSlot now2 k code2 mid2 (expireClaim late k t2)) = SlotWon now2"
proof -
  let ?c = "claim_item now code"
  have le: "unix now \<le> T"
    using assms(4) by (simp add: unix_def zdiv_mono1 purchaseSlotTTL_def hour_def minute_def second_def)
  have range: "min_i64 \<le> T" "T \<le> max_i64" "unix now \<le> max_i64" using le assms(1,2,4) by simp_all
  have code: "clOrderCode ?c = code" "parseInt (clExpiresAt ?c) = Some T"
    using parse_formatInt [OF range(1,2)] assms(4) by (simp_all add: claim_item_def)
  have "slot_of k t1 = Some ?c" using assms(3) by (auto simp: ClaimPurchaseSlot_eq split: if_splits)
  then have c2: "slot_of k t2 = Some ?c" using other_steps_keep [OF assms(5) _ code] by simp
  then have c3: "slot_of k (mid2 t2) = Some ?c" using other_steps_keep [OF assms(6) _ code] by simp
  have "map_of t2 (slot_key k) \<noteq> None" using slot_of_SomeD [OF c2] by simp
  moreover have "parseClaimedAt (Some ?c) = unix now * second"
    using parse_formatInt [OF assms(1) range(3)] by (simp add: parseClaimedAt_def claim_item_def)
  moreover have "map_of (ReleasePurchaseSlot k code t2) (slot_key k) = None"
    using c2 by (auto simp: ReleasePurchaseSlot_def slot_of_def delete_conv claim_item_def)
  moreover have "map_of (expireClaim late k t2) (slot_key k) = None"
    using c2 code(2) assms(7) by (simp add: expireClaim_def slot_of_def delete_conv)
  ultimately show ?thesis using c3 by (simp add: ClaimPurchaseSlot_eq) (simp add: claim_item_def)
qed

lemma slot_exclusive_witness:
  "snd (ClaimPurchaseSlot 8 ''s'' ''B'' (\<lambda>t. t) (fst (ClaimPurchaseSlot (5 * second) ''s'' ''A'' (\<lambda>t. t) []))) =
     SlotTaken ''A'' (5 * second)"
proof -
  let ?t = "fst (ClaimPurchaseSlot (5 * second) ''s'' ''A'' (\<lambda>t. t) [])"
  have u: "unix (5 * second) = 5" "unix (5 * second + purchaseSlotTTL) = 2592005" "unix (2592006 * second) = 2592006"
    by (simp_all add: unix_def second_def purchaseSlotTTL_def hour_def minute_def)
  have "ClaimPurchaseSlot (5 * second) ''s'' ''A'' (\<lambda>t. t) [] = (?t, SlotWon (5 * second))"
    by (simp add: ClaimPurchaseSlot_eq)
  from slot_exclusive [OF _ _ this refl, of ?t "\<lambda>t. t" "2592006 * second" 8 "''B''"] u show ?thesis
    by (simp add: min_i64_def max_i64_def)
qed

section \<open>Writing and deleting the items of an order\<close>

text \<open>
  The table while the items of a new order are being written: \<open>t0\<close>, or the items over it.
\<close>

definition items_over :: "otable \<Rightarrow> string \<Rightarrow> create_item_option list \<Rightarrow> time \<Rightarrow> otable \<Rightarrow> bool" where
  "items_over t0 code opts now t \<longleftrightarrow> distinct (map fst t) \<and>
     map_of t = map_of t0 ++ map_of (map item_row (build_items now code 0 opts))"

lemma items_over_again:
  assumes "map_of t = map_of t0 \<or> (\<exists>past. items_over t0 code opts past t)"
    and "map_of t' = map_of t ++ map_of (map item_row (build_items now code 0 opts))"
  shows "map_of t' = map_of t0 ++ map_of (map item_row (build_items now code 0 opts))"
  using assms by (auto simp: items_over_def rows_replaced)

lemma items_over_list:
  assumes "items_over t0 code opts now t" and "no_items code t0" and "distinct (map fst t0)"
  shows "mset (ListItemByOrderCode code t) = mset (build_items now code 0 opts)"
  by (rule live_rows_written [OF _ assms(2) _ build_items_distinct built_live assms(3)])
    (use assms(1) in \<open>auto simp: items_over_def\<close>)

text \<open>Every live item of the order is stored under its own key.\<close>

definition self_keyed :: "string \<Rightarrow> otable \<Rightarrow> bool" where
  "self_keyed code t \<longleftrightarrow>
     (\<forall>k it. map_of t k = Some (DItem it) \<longrightarrow> is_live_item code (k, DItem it) \<longrightarrow> k = key_of it)"

lemma no_items_map: "no_items code t \<Longrightarrow> map_of t k = Some v \<Longrightarrow> \<not> is_live_item code (k, v)"
  by (auto simp: no_items_def list_all_iff dest: map_of_SomeD)

lemma no_items_self_keyed: "no_items code t \<Longrightarrow> self_keyed code t"
  using no_items_map by (auto simp: self_keyed_def)

lemma items_over_self_keyed:
  assumes "items_over t0 code opts now t" and "no_items code t0"
  shows "self_keyed code t"
  unfolding self_keyed_def
proof (intro allI impI)
  fix k it
  assume "map_of t k = Some (DItem it)" and live: "is_live_item code (k, DItem it)"
  then consider "map_of (map item_row (build_items now code 0 opts)) k = Some (DItem it)"
    | "map_of t0 k = Some (DItem it)"
    using assms(1) by (auto simp: items_over_def map_add_Some_iff)
  then show "k = key_of it"
  proof cases
    case 1
    then show ?thesis by (auto dest!: map_of_SomeD simp: item_row_def)
  next
    case 2
    with no_items_map [OF assms(2) 2] live show ?thesis by simp
  qed
qed

definition mark_deleted :: "time \<Rightarrow> ditem option \<Rightarrow> ditem option" where
  "mark_deleted now v = (case v of
     Some (DItem x) \<Rightarrow> Some (DItem (x\<lparr>iDeletedAt := Some now, iUpdatedAt := now\<rparr>)) | _ \<Rightarrow> v)"

lemma mark_deleted_twice [simp]: "mark_deleted now (mark_deleted now v) = mark_deleted now v"
  by (auto simp: mark_deleted_def split: option.splits ditem.splits)

lemma map_of_delete_items:
  "map_of (delete_items now its t) k =
     (if k \<in> key_of ` set its then mark_deleted now (map_of t k) else map_of t k)"
proof (induction its arbitrary: t)
  case Nil
  then show ?case by simp
next
  case (Cons it its)
  let ?t = "case map_of t (iPK it, iSK it) of
          Some (DItem x) \<Rightarrow>
            AList.update (iPK it, iSK it) (DItem (x\<lparr>iDeletedAt := Some now, iUpdatedAt := now\<rparr>)) t
        | _ \<Rightarrow> t"
  have "map_of ?t k = (if k = key_of it then mark_deleted now (map_of t k) else map_of t k)"
    by (auto simp: mark_deleted_def key_of_def update_conv split: option.splits ditem.splits)
  with Cons [of ?t] show ?case by auto
qed

lemma distinct_delete_items: "distinct (map fst t) \<Longrightarrow> distinct (map fst (delete_items now its t))"
  by (induction its arbitrary: t) (auto simp: distinct_update split: option.splits ditem.splits)

lemma ListItem_member:
  assumes "distinct (map fst t)"
  shows "it \<in> set (ListItemByOrderCode code t) \<longleftrightarrow>
     (\<exists>k. map_of t k = Some (DItem it) \<and> is_live_item code (k, DItem it))"
proof -
  have "it \<in> set (ListItemByOrderCode code t) \<longleftrightarrow>
      it \<in> set (concat (map (as_item \<circ> snd) (filter (is_live_item code) t)))"
    by (metis mset_ListItem set_mset_mset)
  also have "\<dots> \<longleftrightarrow> (\<exists>k. (k, DItem it) \<in> set t \<and> is_live_item code (k, DItem it))"
    by (auto simp: as_item_def split: ditem.splits)
  finally show ?thesis using assms by simp
qed

lemma DeleteItem_none:
  assumes "distinct (map fst t)" and "self_keyed code t"
  shows "ListItemByOrderCode code (DeleteItemByOrderCode now code t) = []"
proof -
  let ?its = "ListItemByOrderCode code t" and ?t = "DeleteItemByOrderCode now code t"
  have t': "?t = delete_items now ?its t" by (simp add: DeleteItemByOrderCode_def Let_def)
  have "it \<notin> set (ListItemByOrderCode code ?t)" for it
  proof
    assume "it \<in> set (ListItemByOrderCode code ?t)"
    then obtain k where k: "map_of ?t k = Some (DItem it)" "is_live_item code (k, DItem it)"
      using ListItem_member [of ?t it code] distinct_delete_items [OF assms(1)] t' by auto
    show False
    proof (cases "k \<in> key_of ` set ?its")
      case True
      with k have "mark_deleted now (map_of t k) = Some (DItem it)"
        by (simp add: t' map_of_delete_items)
      with k(2) show False
        by (auto simp: mark_deleted_def is_live_item_def split: option.splits ditem.splits)
    next
      case False
      then have m: "map_of t k = Some (DItem it)" using k(1) by (simp add: t' map_of_delete_items)
      then have "it \<in> set ?its" using k(2) ListItem_member [OF assms(1)] by blast
      moreover have "k = key_of it" using m k(2) assms(2) unfolding self_keyed_def by blast
      ultimately have "k \<in> key_of ` set ?its" by blast
      with False show False by blast
    qed
  qed
  then show ?thesis by (metis all_not_in_conv set_empty)
qed

lemma map_of_DeleteItem_order [simp]:
  "map_of (DeleteItemByOrderCode now code t) (order_key c) = Some (DOrder ord) \<longleftrightarrow>
   map_of t (order_key c) = Some (DOrder ord)"
  by (auto simp: DeleteItemByOrderCode_def Let_def map_of_delete_items mark_deleted_def
      split: option.splits ditem.splits)

lemma self_keyed_put [simp]:
  "self_keyed code t \<Longrightarrow> self_keyed code (AList.update (iPK it, iSK it) (DItem it) t)"
  by (auto simp: self_keyed_def update_conv key_of_def)

lemma self_keyed_write_batch: "self_keyed code t \<Longrightarrow> self_keyed code (write_batch un j its t)"
  by (induction its arbitrary: j t) auto

lemma write_batches_wf:
  assumes "distinct (map fst t)" and "self_keyed code t"
  shows "distinct (map fst (fst (write_batches oc i its t))) \<and> self_keyed code (fst (write_batches oc i its t))"
  using assms
proof (induction oc i its t rule: write_batches.induct)
  case (1 oc i its t)
  then show ?case
    using distinct_write_batch self_keyed_write_batch
    by (auto simp: write_batches.simps [of oc i its t] split: batch_outcome.splits)
qed

lemma CreateManyItems_wf:
  assumes "distinct (map fst t)" and "self_keyed code t"
  shows "distinct (map fst (fst (CreateManyItems oc now c opts t))) \<and>
     self_keyed code (fst (CreateManyItems oc now c opts t))"
  using write_batches_wf [OF assms, of oc 0 "build_items now c 0 opts"] assms
  by (auto simp: CreateManyItems_def Let_def split: prod.splits sum.splits)

lemma CreateManyItems_failed:
  assumes "length opts \<le> batchSize" and "CreateManyItems oc now code opts t = (t', Inl e)"
  shows "t' = t"
proof -
  have "opts \<noteq> []" using assms(2) by (auto simp: CreateManyItems_def split: if_splits)
  then have "build_items now code 0 opts \<noteq> []" by (cases opts) simp_all
  then have "write_batches oc 0 (build_items now code 0 opts) t =
      (case oc 0 of BatchFailed \<Rightarrow> (t, Inl (ErrOther ''BatchWriteItem''))
       | BatchWritten un \<Rightarrow> (write_batch un 0 (build_items now code 0 opts) t, Inr ()))"
    using assms(1)
    by (simp add: write_batches.simps [of oc 0] write_batches.simps [of oc "Suc 0"] split: batch_outcome.splits)
  with assms(2) \<open>opts \<noteq> []\<close> show ?thesis
    by (auto simp: CreateManyItems_def Let_def split: batch_outcome.splits)
qed

lemma order_key_not_live: "\<not> is_live_item code (order_key c, v)"
  by (simp add: is_live_item_def order_key_def BuildOrderSK_def prefix_defs)

lemma ListItem_update_order:
  assumes "distinct (map fst t)"
  shows "set (ListItemByOrderCode code (AList.update (order_key c) (DOrder ord) t)) =
     set (ListItemByOrderCode code t)"
proof -
  have "distinct (map fst (AList.update (order_key c) (DOrder ord) t))" by (rule distinct_update [OF assms])
  note new = ListItem_member [OF this]
  have "(map_of (AList.update (order_key c) (DOrder ord) t) k = Some (DItem it) \<and> is_live_item code (k, DItem it))
      = (map_of t k = Some (DItem it) \<and> is_live_item code (k, DItem it))" for k it
    by (cases "k = order_key c") (simp_all add: update_conv order_key_not_live)
  then show ?thesis by (simp only: set_eq_iff new ListItem_member [OF assms] simp_thms)
qed

lemma self_keyed_update_order:
  "self_keyed code t \<Longrightarrow> self_keyed code (AList.update (order_key c) (DOrder ord) t)"
  by (auto simp: self_keyed_def update_conv)

lemma distinct_DeleteItem: "distinct (map fst t) \<Longrightarrow> distinct (map fst (DeleteItemByOrderCode now code t))"
  by (simp add: DeleteItemByOrderCode_def Let_def distinct_delete_items)

end
