(* ===== verification/Order_Saga.thy ===== *)
theory Order_Saga
  imports Order_Expiry Order_Items
begin

text \<open>
  The CreateOrder saga: what is true when it succeeds, whatever requests and replies were
  lost on the way, and what its compensations restore when it fails.
\<close>

section \<open>The reservation step\<close>

text \<open>\<open>db'\<close> is \<open>db\<close> with the request's order reserved, at some time.\<close>

definition taken :: "(string \<Rightarrow> time option) \<Rightarrow> reserve_request \<Rightarrow> invdb \<Rightarrow> invdb \<Rightarrow> bool" where
  "taken parse req db db' \<longleftrightarrow> validateReserveRequest req = None \<and>
     (\<exists>inp now. newReserveInput parse req = Inr inp \<and> reserveTx inp now db = Inr db')"

lemma newReserveInput_code: "newReserveInput parse req = Inr inp \<Longrightarrow> inOrderCode inp = rrOrderCode req"
  by (auto simp: newReserveInput_def split: option.splits sum.splits)

lemma taken_rows:
  assumes "wf_db db" and "orderRows db (rrOrderCode req) = []" and "newReserveInput parse req = Inr inp"
    and "validateReserveRequest req = None" and "reserveTx inp now db = Inr db'"
  shows "orderRows db' (rrOrderCode req) = number_rows (r_seq db) (reserve_rows inp)"
    and "orderRows db' (rrOrderCode req) \<noteq> []"
    and "\<And>r. r \<in> set (orderRows db' (rrOrderCode req)) \<Longrightarrow> rStatus r = ReservationStatusActive"
proof -
  note code = newReserveInput_code [OF assms(3)] and ok = newReserveInput_valid [OF assms(3,4)]
  obtain ids m where agg: "aggregateDemand (inItems inp) = (ids, m)" by (cases "aggregateDemand (inItems inp)")
  have "orderRows db (inOrderCode inp) = []" using assms(2) code by simp
  note eff = reserveTx_fresh(2) [OF assms(1) this ok assms(5)]
  then show rows: "orderRows db' (rrOrderCode req) = number_rows (r_seq db) (reserve_rows inp)"
    using assms(2) reserved_code [OF agg, of _ "r_seq db"] code by (simp add: orderRows_def)
  have "ids \<noteq> []" using aggregateDemand_spec(3) [OF agg] ok by (auto simp: valid_items_def)
  then have "reserve_rows inp \<noteq> []" using reserve_rows_props(1) [OF agg] by auto
  then show "orderRows db' (rrOrderCode req) \<noteq> []"
    unfolding rows using number_rows_props(4) [of "r_seq db" "reserve_rows inp"] by auto
  show "rStatus r = ReservationStatusActive" if "r \<in> set (orderRows db' (rrOrderCode req))" for r
  proof -
    have "rStatus r \<in> rStatus ` set (reserve_rows inp)"
      using that number_rows_props(4) [of "r_seq db" "reserve_rows inp"] unfolding rows
      by (metis image_eqI list.set_map)
    then show ?thesis using reserve_rows_props(3) [OF agg] by auto
  qed
qed

lemma rpc_Reserve_fresh:
  assumes "rpc_Reserve parse now req db = (db', r)"
  shows "case r of Inr u \<Rightarrow> taken parse req db db' | Inl e \<Rightarrow> db' = db"
  using assms
  by (auto simp: rpc_Reserve_def taken_def Reserve_def transaction_def
      split: option.splits sum.splits prod.splits)

lemma rpc_Reserve_again:
  assumes "wf_db db0" and "orderRows db0 (rrOrderCode req) = []" and "taken parse req db0 db"
  shows "rpc_Reserve parse now req db = (db, Inr ())"
proof -
  obtain inp t where t: "validateReserveRequest req = None" "newReserveInput parse req = Inr inp"
    "reserveTx inp t db0 = Inr db" using assms(3) by (auto simp: taken_def)
  note rows = taken_rows [OF assms(1,2) t(2,1,3)]
  obtain r where "r \<in> set (orderRows db (rrOrderCode req))" using rows(2) by (cases "orderRows db (rrOrderCode req)") auto
  then have "\<exists>r \<in> set (orderRows db (inOrderCode inp)). live (rStatus r)"
    using rows(3) newReserveInput_code [OF t(2)] by (auto simp: live_def intro!: bexI [of _ r])
  then have "reserveTx inp now db = Inr db"
    using reserveTx_again [of db inp now] rows(2) newReserveInput_code [OF t(2)] by simp
  then show ?thesis by (simp add: rpc_Reserve_def t Reserve_def transaction_def)
qed

text \<open>The world's inventory while an order is being reserved: before, or reserved once.\<close>

definition reserving :: "ext \<Rightarrow> reserve_request \<Rightarrow> otable \<Rightarrow> invdb \<Rightarrow> world \<Rightarrow> bool" where
  "reserving x req t db w \<longleftrightarrow> wTable w = t \<and> wf_db db \<and> orderRows db (rrOrderCode req) = [] \<and>
     (wInv w = db \<or> taken (eParse x) req db (wInv w))"

interpretation reserve_inventory:
  remote_activity
    "\<lambda>w. case on_inv (\<lambda>now. rpc_Reserve (eParse x) now
                    \<lparr>rrOrderCode = code, rrItems = its, rrExpiresAt = expAt\<rparr>) w of
       (w', Inl (c, m)) \<Rightarrow>
         (w', Inl (if c = FailedPrecondition then AppError ''InsufficientInventory'' else Retryable m))
     | (w', Inr u) \<Rightarrow> (w', Inr ())"
    "reserving x \<lparr>rrOrderCode = code, rrItems = its, rrExpiresAt = expAt\<rparr> t db"
    "\<lambda>_ w. wTable w = t \<and> taken (eParse x) \<lparr>rrOrderCode = code, rrItems = its, rrExpiresAt = expAt\<rparr> db (wInv w)"
    "\<lambda>_ w. wTable w = t \<and> wInv w = db"
  for x code its expAt t db
proof (unfold_locales, goal_cases)
  case (1 w v)
  then show ?case by (simp add: reserving_def)
next
  case (2 w w' a)
  let ?req = "\<lparr>rrOrderCode = code, rrItems = its, rrExpiresAt = expAt\<rparr>"
  obtain db' where r: "rpc_Reserve (eParse x) (wNow w) ?req (wInv w) = (db', Inr ())" "w' = w\<lparr>wInv := db'\<rparr>"
    using 2(2) by (auto simp: on_inv_def split: prod.splits sum.splits)
  have "taken (eParse x) ?req db db'"
  proof (cases "wInv w = db")
    case True
    with rpc_Reserve_fresh [OF r(1)] show ?thesis by simp
  next
    case False
    then have "taken (eParse x) ?req db (wInv w)" "wf_db db" "orderRows db (rrOrderCode ?req) = []"
      using 2(1) by (auto simp: reserving_def)
    with rpc_Reserve_again r(1) show ?thesis by fastforce
  qed
  with 2(1) r(2) show ?case by (simp add: reserving_def)
next
  case (3 w w' s)
  let ?req = "\<lparr>rrOrderCode = code, rrItems = its, rrExpiresAt = expAt\<rparr>"
  obtain db' e where r: "rpc_Reserve (eParse x) (wNow w) ?req (wInv w) = (db', Inl e)" "w' = w\<lparr>wInv := db'\<rparr>"
    using 3(2) by (auto simp: on_inv_def split: prod.splits sum.splits if_splits)
  have "wInv w = db"
  proof (rule ccontr)
    assume "wInv w \<noteq> db"
    then have "taken (eParse x) ?req db (wInv w)" "wf_db db" "orderRows db (rrOrderCode ?req) = []"
      using 3(1) by (auto simp: reserving_def)
    with rpc_Reserve_again r(1) show False by fastforce
  qed
  with 3(1) r rpc_Reserve_fresh [OF r(1)] show ?case by (simp add: reserving_def)
next
  case (4 w w' s)
  let ?req = "\<lparr>rrOrderCode = code, rrItems = its, rrExpiresAt = expAt\<rparr>"
  obtain db' e where r: "rpc_Reserve (eParse x) (wNow w) ?req (wInv w) = (db', Inl e)" "w' = w\<lparr>wInv := db'\<rparr>"
    using 4(2) by (auto simp: on_inv_def split: prod.splits sum.splits if_splits)
  with rpc_Reserve_fresh [OF r(1)] 4(1) show ?case by (simp add: reserving_def)
qed

lemmas reserve_retried = reserve_inventory.retried [unfolded act_ReserveInventory_def [symmetric]]

section \<open>The order row and its items\<close>

text \<open>No key twice, and no live item of the order yet.\<close>

definition fresh_items :: "string \<Rightarrow> otable \<Rightarrow> bool" where
  "fresh_items code t \<longleftrightarrow> distinct (map fst t) \<and> no_items code t"

lemma fresh_items_update [simp]:
  "fresh_items code t \<Longrightarrow> fresh_items code (AList.update (order_key d) (DOrder ord) t)"
proof -
  have "no_items code (AList.update (order_key d) (DOrder ord) t)" if "no_items code t"
    using that by (induction t) (auto simp: no_items_def is_live_item_def)
  then show "fresh_items code t \<Longrightarrow> ?thesis" by (simp add: fresh_items_def distinct_update)
qed

definition writing_row :: "ext \<Rightarrow> create_order_option \<Rightarrow> invdb \<Rightarrow> world \<Rightarrow> bool" where
  "writing_row x opt db w \<longleftrightarrow> wInv w = db \<and> fresh_items (coCode opt) (wTable w) \<and> (map_of (wTable w) (order_key (coCode opt)) = None \<or>
     (\<exists>now. order_at (coCode opt) (wTable w) = Some (buildOrderModel (eFmtNano x) now opt)))"

definition row_written :: "ext \<Rightarrow> create_order_option \<Rightarrow> invdb \<Rightarrow> order \<Rightarrow> world \<Rightarrow> bool" where
  "row_written x opt db ord w \<longleftrightarrow> wInv w = db \<and> fresh_items (coCode opt) (wTable w) \<and> order_at (coCode opt) (wTable w) = Some ord \<and>
     (\<exists>now. ord = buildOrderModel (eFmtNano x) now opt)"

lemma row_written_writing: "row_written x opt db ord w \<Longrightarrow> writing_row x opt db w"
  by (auto simp: row_written_def writing_row_def)

lemma built_fields [simp]:
  "oCode (buildOrderModel fmt now opt) = coCode opt" "oUserID (buildOrderModel fmt now opt) = coUserID opt"
  "oEventID (buildOrderModel fmt now opt) = coEventID opt" "oDeletedAt (buildOrderModel fmt now opt) = None"
  "oStatus (buildOrderModel fmt now opt) = coStatus opt" "oSessionID (buildOrderModel fmt now opt) = coSessionID opt"
  "oTotalAmount (buildOrderModel fmt now opt) = coTotalAmount opt"
  "oEntityType (buildOrderModel fmt now opt) = ''ORDER''"
  by (simp_all add: buildOrderModel_def)

interpretation put_row:
  remote_activity
    "\<lambda>w. case on_table (\<lambda>now. CreateOrderRow (eFmtNano x) now opt) w of
       (w', Inr ord) \<Rightarrow> (w', Inr (Some ord))
     | (w', Inl ErrOrderAlreadyExists) \<Rightarrow> (w', Inr None)
     | (w', Inl e) \<Rightarrow> (w', Inl (Retryable ''repository''))"
    "writing_row x opt db"
    "\<lambda>r w. case r of Some ord \<Rightarrow> row_written x opt db ord w | None \<Rightarrow> \<exists>ord. row_written x opt db ord w"
    "\<lambda>_ _. False"
  for x opt db
proof (unfold_locales, goal_cases)
  case (1 w v)
  then show ?case by (simp add: writing_row_def)
next
  case (2 w w' a)
  let ?ord = "buildOrderModel (eFmtNano x) (wNow w) opt"
  show ?case
  proof (cases "map_of (wTable w) (order_key (coCode opt))")
    case None
    then have "w' = w\<lparr>wTable := AList.update (order_key (coCode opt)) (DOrder ?ord) (wTable w)\<rparr>" "a = Some ?ord"
      using 2(2) by (auto simp: on_table_def CreateOrderRow_fresh)
    moreover from this have "row_written x opt db ?ord w'" using 2(1) by (auto simp: row_written_def writing_row_def)
    ultimately show ?thesis using row_written_writing by auto
  next
    case (Some v)
    then have "w' = w" "a = None"
      using 2(2) by (auto simp: on_table_def CreateOrderRow_def put_new_def Let_def)
    then show ?thesis using 2(1) Some by (auto simp: row_written_def writing_row_def)
  qed
next
  case (3 w w' s)
  then show ?case by (auto split: prod.splits sum.splits order_error.splits)
next
  case (4 w w' s)
  then show ?case
    by (auto simp: on_table_def CreateOrderRow_def put_new_def Let_def split: if_splits)
qed

interpretation read_row:
  remote_activity
    "\<lambda>w. case GetByCode (coCode opt) (wTable w) of
       Inl e \<Rightarrow> (w, Inl (Retryable ''read back''))
     | Inr ord \<Rightarrow>
         if oUserID ord \<noteq> coUserID opt \<or> oEventID ord \<noteq> coEventID opt
         then (w, Inl (AppError ''OrderCodeCollision''))
         else (w, Inr ord)"
    "\<lambda>w. \<exists>ord. row_written x opt db ord w" "\<lambda>ord w. row_written x opt db ord w" "\<lambda>_ _. False"
  for x opt db
proof (unfold_locales, goal_cases)
  case (1 w v)
  then show ?case by (simp add: row_written_def)
next
  case (2 w w' a)
  then obtain ord where "row_written x opt db ord w" by blast
  with 2(2) get_at [of "coCode opt" "wTable w" ord] show ?case by (auto simp: row_written_def)
next
  case (3 w w' s)
  then obtain ord where "row_written x opt db ord w" by blast
  with 3(2) get_at [of "coCode opt" "wTable w" ord] show ?case by (auto simp: row_written_def)
next
  case (4 w w' s)
  then show ?case by (auto split: sum.splits if_splits)
qed

text \<open>The activity is the two calls in a row, so its contract is that of the two.\<close>

interpretation create_row:
  activity "act_CreateOrder x opt" "writing_row x opt db" "row_written x opt db" "\<lambda>_ _. False"
  for x opt db
proof (unfold_locales, goal_cases)
  case (1 w w' a)
  obtain w1 r1 where p: "put_order x opt w = (w1, r1)" by (cases "put_order x opt w")
  show ?case
  proof (cases r1)
    case (Inl e)
    with 1(2) p show ?thesis by (simp add: act_CreateOrder_def)
  next
    case (Inr q)
    have "case q of Some ord \<Rightarrow> row_written x opt db ord w1 | None \<Rightarrow> \<exists>ord. row_written x opt db ord w1"
      using put_row.success [OF 1(1)] p Inr by (simp add: put_order_def)
    then show ?thesis using 1(2) p Inr read_row.success [of x opt db w1 w' a]
      by (auto simp: act_CreateOrder_def read_back_def split: option.splits)
  qed
next
  case (2 w w' s)
  obtain w1 r1 where p: "put_order x opt w = (w1, r1)" by (cases "put_order x opt w")
  show ?case
  proof (cases r1)
    case (Inl e)
    with 2(2) p have "put_order x opt w = (w', Inl (AppError s))" by (simp add: act_CreateOrder_def)
    with put_row.refusal [OF 2(1)] show ?thesis by (simp add: put_order_def)
  next
    case (Inr q)
    have "case q of Some ord \<Rightarrow> row_written x opt db ord w1 | None \<Rightarrow> \<exists>ord. row_written x opt db ord w1"
      using put_row.success [OF 2(1)] p Inr by (simp add: put_order_def)
    then show ?thesis using 2(2) p Inr read_row.refusal [of x opt db w1 w' s]
      by (auto simp: act_CreateOrder_def read_back_def split: option.splits)
  qed
next
  case (3 w w' s)
  obtain w1 r1 where p: "put_order x opt w = (w1, r1)" by (cases "put_order x opt w")
  show ?case
  proof (cases r1)
    case (Inl e)
    with 3(2) p have "put_order x opt w = (w', Inl (Retryable s))" by (simp add: act_CreateOrder_def)
    with put_row.fault [OF 3(1)] show ?thesis by (simp add: put_order_def)
  next
    case (Inr q)
    have "case q of Some ord \<Rightarrow> row_written x opt db ord w1 | None \<Rightarrow> \<exists>ord. row_written x opt db ord w1"
      using put_row.success [OF 3(1)] p Inr by (simp add: put_order_def)
    then show ?thesis using 3(2) p Inr read_row.fault [of x opt db w1 w' s] row_written_writing
      by (auto simp: act_CreateOrder_def read_back_def split: option.splits)
  qed
qed

definition writing_items ::
  "ext \<Rightarrow> otable \<Rightarrow> string \<Rightarrow> create_item_option list \<Rightarrow> invdb \<Rightarrow> order option \<Rightarrow> world \<Rightarrow> bool" where
  "writing_items x t0 code opts db ord w \<longleftrightarrow> wInv w = db \<and> order_at code (wTable w) = ord \<and>
     (\<forall>t j. eBatch x t j = BatchWritten []) \<and> distinct (map fst (wTable w)) \<and>
     (map_of (wTable w) = map_of t0 \<or> (\<exists>past. items_over t0 code opts past (wTable w)))"

definition items_written ::
  "otable \<Rightarrow> string \<Rightarrow> create_item_option list \<Rightarrow> invdb \<Rightarrow> order option \<Rightarrow> order_item list \<Rightarrow> world \<Rightarrow> bool" where
  "items_written t0 code opts db ord its w \<longleftrightarrow> wInv w = db \<and> order_at code (wTable w) = ord \<and>
     (\<exists>now. items_over t0 code opts now (wTable w) \<and> its = build_items now code 0 opts)"

lemma order_at_items:
  assumes "map_of t' = map_of t ++ map_of (map item_row (build_items now code 0 opts))"
  shows "order_at c t' = order_at c t"
proof -
  have "order_key c \<notin> dom (map_of (map item_row (build_items now code 0 opts)))"
    unfolding dom_item_rows build_items_keys by auto
  then have "map_of t' (order_key c) = map_of t (order_key c)"
    unfolding assms by (auto simp: map_add_def split: option.splits)
  then show ?thesis by (simp add: order_at_def)
qed

interpretation create_items:
  remote_activity
    "\<lambda>w. case on_table (\<lambda>now. CreateManyItems (eBatch x now) now code opts) w of
       (w', Inl e) \<Rightarrow> (w', Inl (Retryable ''repository''))
     | (w', Inr its) \<Rightarrow> (w', Inr its)"
    "writing_items x t0 code opts db ord" "items_written t0 code opts db ord" "\<lambda>_ _. False"
  for x t0 code opts db ord
proof (unfold_locales, goal_cases)
  case (1 w v)
  then show ?case by (simp add: writing_items_def)
next
  case (2 w w' a)
  then have w: "\<forall>j. eBatch x (wNow w) j = BatchWritten []" by (simp add: writing_items_def)
  obtain t' where t': "CreateManyItems (eBatch x (wNow w)) (wNow w) code opts (wTable w) =
      (t', Inr (build_items (wNow w) code 0 opts))"
    "map_of t' = map_of (wTable w) ++ map_of (map item_row (build_items (wNow w) code 0 opts))"
    "distinct (map fst (wTable w)) \<longrightarrow> distinct (map fst t')"
    using CreateManyItems_all [OF w, of "wNow w" code opts "wTable w"] by blast
  then have s: "w' = w\<lparr>wTable := t'\<rparr>" "a = build_items (wNow w) code 0 opts"
    using 2(2) by (simp_all add: on_table_def)
  have "map_of (wTable w) = map_of t0 \<or> (\<exists>past. items_over t0 code opts past (wTable w))"
    using 2(1) by (simp add: writing_items_def)
  from items_over_again [OF this t'(2)] have "items_over t0 code opts (wNow w) t'"
    using t'(3) 2(1) by (simp add: items_over_def writing_items_def)
  moreover have "order_at code t' = ord"
    using order_at_items [OF t'(2)] 2(1) by (simp add: writing_items_def)
  ultimately show ?case
    using 2(1) s by (auto simp: items_written_def writing_items_def items_over_def)
next
  case (3 w w' s)
  then show ?case by (auto split: prod.splits sum.splits)
next
  case (4 w w' s)
  then have w: "\<forall>j. eBatch x (wNow w) j = BatchWritten []" by (simp add: writing_items_def)
  from 4(2) CreateManyItems_all [OF w, of "wNow w" code opts "wTable w"] show ?case
    by (auto simp: on_table_def)
qed

lemmas create_row_ok = create_row.retried_ok
lemmas create_items_ok = create_items.retried_ok [unfolded act_CreateOrderItems_def [symmetric]]

section \<open>Success\<close>

definition reserve_request_of :: "ext \<Rightarrow> create_workflow_input \<Rightarrow> time \<Rightarrow> reserve_request" where
  "reserve_request_of x i now = \<lparr>rrOrderCode = wfOrderCode i, rrItems = map reserve_item_of (wfItems i),
     rrExpiresAt = eFmt x (reservationExpiry now)\<rparr>"

lemma CreateOrder_cases:
  assumes "CreateOrder x i w = (w', r)"
  obtains (reserve) w1 e where "attempts create_attempts (act_ReserveInventory x (wfOrderCode i)
        (eFmt x (reservationExpiry (wNow w))) (map reserve_item_of (wfItems i))) w = (w1, Inl e)"
      "r = Inl e" "w' = Compensate [] w1"
  | (row) w1 w2 e where "attempts create_attempts (act_ReserveInventory x (wfOrderCode i)
        (eFmt x (reservationExpiry (wNow w))) (map reserve_item_of (wfItems i))) w = (w1, Inr ())"
      "attempts create_attempts (act_CreateOrder x (order_option i)) w1 = (w2, Inl e)"
      "r = Inl e" "w' = Compensate [act_ReleaseInventory (wfOrderCode i)] w2"
  | (items) w1 w2 w3 e ord where "attempts create_attempts (act_ReserveInventory x (wfOrderCode i)
        (eFmt x (reservationExpiry (wNow w))) (map reserve_item_of (wfItems i))) w = (w1, Inr ())"
      "attempts create_attempts (act_CreateOrder x (order_option i)) w1 = (w2, Inr ord)"
      "attempts create_attempts (act_CreateOrderItems x (oCode ord) (map item_option (wfItems i))) w2 = (w3, Inl e)"
      "r = Inl e" "w' = Compensate [act_ReleaseInventory (wfOrderCode i), act_DeleteOrder (wfOrderCode i)] w3"
  | (pay) w1 w2 w3 w4 e ord its where "attempts create_attempts (act_ReserveInventory x (wfOrderCode i)
        (eFmt x (reservationExpiry (wNow w))) (map reserve_item_of (wfItems i))) w = (w1, Inr ())"
      "attempts create_attempts (act_CreateOrder x (order_option i)) w1 = (w2, Inr ord)"
      "attempts create_attempts (act_CreateOrderItems x (oCode ord) (map item_option (wfItems i))) w2 = (w3, Inr its)"
      "attempts create_attempts (act_CreatePaymentIntent x (payment_of i)) w3 = (w4, Inl e)"
      "r = Inl e" "w' = Compensate [act_ReleaseInventory (wfOrderCode i), act_DeleteOrder (wfOrderCode i),
          act_DeleteOrderItems (wfOrderCode i)] w4"
  | (success) w1 w2 w3 url ord its where "attempts create_attempts (act_ReserveInventory x (wfOrderCode i)
        (eFmt x (reservationExpiry (wNow w))) (map reserve_item_of (wfItems i))) w = (w1, Inr ())"
      "attempts create_attempts (act_CreateOrder x (order_option i)) w1 = (w2, Inr ord)"
      "attempts create_attempts (act_CreateOrderItems x (oCode ord) (map item_option (wfItems i))) w2 = (w3, Inr its)"
      "attempts create_attempts (act_CreatePaymentIntent x (payment_of i)) w3 = (w', Inr url)"
      "r = Inr \<lparr>wrPaymentUrl = url, wrOrder = ord, wrOrderItems = its\<rparr>"
  using assms
  by (auto simp: CreateOrder_def Let_def split: prod.splits sum.splits)

lemma payment_outcome:
  assumes "attempts n (act_CreatePaymentIntent x pin) w = (w', Inr url)"
  shows "ePay x pin = Inr url"
  using assms
proof (induction n arbitrary: w)
  case 0
  then show ?case by (auto simp: act_CreatePaymentIntent_def dest!: remote_cases)
next
  case (Suc n)
  then show ?case
    by (auto simp: act_CreatePaymentIntent_def dest!: remote_cases
        split: prod.splits sum.splits act_error.splits if_splits)
qed

lemma CreateOrder_success:
  assumes "consistent (wInv w)" and "orderRows (wInv w) (wfOrderCode i) = []"
    and "fresh_items (wfOrderCode i) (wTable w)" and "map_of (wTable w) (order_key (wfOrderCode i)) = None"
    and "\<forall>t j. eBatch x t j = BatchWritten []" and "CreateOrder x i w = (w', Inr res)"
  shows "consistent (wInv w') \<and>
     (\<exists>ris. newItems (map reserve_item_of (wfItems i)) = Inr ris \<and>
        (\<forall>k. look (wInv w') k = map_option (addReserved (demand ris k)) (look (wInv w) k) \<and>
             held (wInv w') k = held (wInv w) k + demand ris k \<and> paid (wInv w') k = paid (wInv w) k)) \<and>
     order_at (wfOrderCode i) (wTable w') = Some (wrOrder res) \<and> oStatus (wrOrder res) = OrderStatusPending \<and>
     (\<exists>now. wrOrder res = buildOrderModel (eFmtNano x) now (order_option i)) \<and>
     mset (ListItemByOrderCode (wfOrderCode i) (wTable w')) = mset (wrOrderItems res) \<and>
     (\<exists>now. wrOrderItems res = build_items now (wfOrderCode i) 0 (map item_option (wfItems i))) \<and>
     ePay x (payment_of i) = Inr (wrPaymentUrl res)"
proof -
  let ?code = "wfOrderCode i" and ?req = "reserve_request_of x i (wNow w)"
  have cc: "coCode (order_option i) = ?code" and cs: "coStatus (order_option i) = OrderStatusPending"
    by (simp_all add: order_option_def)
  have wf: "wf_db (wInv w)" using assms(1) by (simp add: consistent_def)
  from assms(6) show ?thesis
  proof (cases rule: CreateOrder_cases)
    case (success w1 w2 w3 url ord its)
    have "reserving x ?req (wTable w) (wInv w) w"
      using wf assms(2) by (simp add: reserving_def reserve_request_of_def)
    from reserve_retried [OF this [unfolded reserve_request_of_def] success(1)]
    have w1: "wTable w1 = wTable w" "taken (eParse x) ?req (wInv w) (wInv w1)"
      by (simp_all add: reserve_request_of_def)
    have "writing_row x (order_option i) (wInv w1) w1"
      using assms(3,4) w1(1) by (simp add: writing_row_def cc)
    from create_row_ok [OF this success(2)]
    have w2: "wInv w2 = wInv w1" "fresh_items ?code (wTable w2)" "order_at ?code (wTable w2) = Some ord"
      "\<exists>now. ord = buildOrderModel (eFmtNano x) now (order_option i)"
      by (simp_all add: row_written_def cc)
    then have oc: "oCode ord = ?code" using cc by auto
    let ?opts = "map item_option (wfItems i)"
    have "writing_items x (wTable w2) ?code ?opts (wInv w1) (Some ord) w2"
      using w2 assms(5) by (simp add: writing_items_def fresh_items_def)
    from create_items_ok [OF this success(3) [unfolded oc]]
    obtain now where w3: "wInv w3 = wInv w1" "order_at ?code (wTable w3) = Some ord"
      "items_over (wTable w2) ?code ?opts now (wTable w3)" "its = build_items now ?code 0 ?opts"
      by (auto simp: items_written_def)
    have w4: "wInv w' = wInv w3" "wTable w' = wTable w3"
      using attempts_success_frame [OF success(4), of wInv] attempts_success_frame [OF success(4), of wTable]
      by simp_all
    have lst: "mset (ListItemByOrderCode ?code (wTable w')) = mset its"
      using items_over_list [OF w3(3)] w2(2) w4(2) w3(4) by (simp add: fresh_items_def)
    obtain inp t where t: "validateReserveRequest ?req = None" "newReserveInput (eParse x) ?req = Inr inp"
      "reserveTx inp t (wInv w) = Inr (wInv w1)" using w1(2) by (auto simp: taken_def)
    have ris: "newItems (map reserve_item_of (wfItems i)) = Inr (inItems inp)" "inOrderCode inp = ?code"
      using t(2) by (auto simp: newReserveInput_def reserve_request_of_def split: option.splits sum.splits)
    note ok = newReserveInput_valid [OF t(2,1)]
    obtain ids m where agg: "aggregateDemand (inItems inp) = (ids, m)" by (cases "aggregateDemand (inItems inp)")
    have none: "orderRows (wInv w) (inOrderCode inp) = []" using assms(2) ris(2) by simp
    note eff = reserveTx_fresh(2) [OF wf none ok t(3)]
    have tab: "reservation_table (wInv w1) = reservation_table (wInv w) @ number_rows (r_seq (wInv w)) (reserve_rows inp)"
      using eff by simp
    have "consistent (wInv w1)" using release_after_reserve [OF assms(1) none ok t(3)] by blast
    moreover have "oStatus ord = OrderStatusPending" using w2(4) cs by auto
    ultimately show ?thesis
      using success(5) payment_outcome [OF success(4)] w2(4) w3 w4 lst ris(1) eff reserve_sums [OF tab agg]
      by auto
  qed simp_all
qed

text \<open>
  C13. A successful checkout exists exactly once. Under a code that was not used before, and with
  a DynamoDB that writes every batch in full, leaving no item of it unprocessed: whatever requests
  and replies CreateOrder loses, when it succeeds inventory holds the items' demand once, not once per attempt, and
  stays consistent; there is one PENDING order, the one returned, made from the input; and its
  items are the requested ones, each stored once.
\<close>

theorem create_order_exact:
  assumes "consistent (wInv w)" and "orderRows (wInv w) (wfOrderCode i) = []"
    and "fresh_items (wfOrderCode i) (wTable w)" and "map_of (wTable w) (order_key (wfOrderCode i)) = None"
    and "\<forall>t j. eBatch x t j = BatchWritten []" and "CreateOrder x i w = (w', Inr res)"
  shows "consistent (wInv w') \<and>
     (\<exists>ris. newItems (map reserve_item_of (wfItems i)) = Inr ris \<and>
        (\<forall>k. look (wInv w') k = map_option (addReserved (demand ris k)) (look (wInv w) k) \<and>
             held (wInv w') k = held (wInv w) k + demand ris k \<and> paid (wInv w') k = paid (wInv w) k)) \<and>
     order_at (wfOrderCode i) (wTable w') = Some (wrOrder res) \<and> oStatus (wrOrder res) = OrderStatusPending \<and>
     (\<exists>now. wrOrder res = buildOrderModel (eFmtNano x) now (order_option i)) \<and>
     mset (ListItemByOrderCode (wfOrderCode i) (wTable w')) = mset (wrOrderItems res) \<and>
     (\<exists>now. wrOrderItems res = build_items now (wfOrderCode i) 0 (map item_option (wfItems i))) \<and>
     ePay x (payment_of i) = Inr (wrPaymentUrl res)"
  using assms by (rule CreateOrder_success)

section \<open>The saga without faults\<close>

lemma calm_ReserveInventory:
  assumes "wEnv w = []"
    and "rpc_Reserve (eParse x) (wNow w) \<lparr>rrOrderCode = code, rrItems = its, rrExpiresAt = e\<rparr> (wInv w) = (db, Inr ())"
  shows "attempts n (act_ReserveInventory x code e its) w = (w\<lparr>wInv := db\<rparr>, Inr ())"
  unfolding act_ReserveInventory_def using assms by (intro remote_settled) (simp_all add: on_inv_def)

lemma calm_CreateOrderRow:
  assumes "wEnv w = []" and "map_of (wTable w) (order_key (coCode opt)) = None"
  shows "attempts n (act_CreateOrder x opt) w =
    (w\<lparr>wTable := AList.update (order_key (coCode opt)) (DOrder (buildOrderModel (eFmtNano x) (wNow w) opt)) (wTable w)\<rparr>,
     Inr (buildOrderModel (eFmtNano x) (wNow w) opt))"
  using assms by (intro attempts_settled)
    (simp_all add: act_CreateOrder_def put_order_def on_table_def CreateOrderRow_fresh)

lemma calm_CreateOrderItems:
  assumes "wEnv w = []" and "\<forall>j. eBatch x (wNow w) j = BatchWritten []"
  shows "\<exists>t. attempts n (act_CreateOrderItems x code opts) w =
     (w\<lparr>wTable := t\<rparr>, Inr (build_items (wNow w) code 0 opts)) \<and>
     map_of t = map_of (wTable w) ++ map_of (map item_row (build_items (wNow w) code 0 opts)) \<and>
     (distinct (map fst (wTable w)) \<longrightarrow> distinct (map fst t))"
proof -
  obtain t where t: "CreateManyItems (eBatch x (wNow w)) (wNow w) code opts (wTable w) =
      (t, Inr (build_items (wNow w) code 0 opts))"
    "map_of t = map_of (wTable w) ++ map_of (map item_row (build_items (wNow w) code 0 opts))"
    "distinct (map fst (wTable w)) \<longrightarrow> distinct (map fst t)"
    using CreateManyItems_all [OF assms(2), of "wNow w" code opts "wTable w"] by blast
  have "attempts n (act_CreateOrderItems x code opts) w = (w\<lparr>wTable := t\<rparr>, Inr (build_items (wNow w) code 0 opts))"
    unfolding act_CreateOrderItems_def using t(1) assms(1)
    by (intro remote_settled) (simp_all add: on_table_def)
  with t(2,3) show ?thesis by blast
qed

definition demo_ext :: ext where
  "demo_ext = \<lparr>eParse = demo_parse, eFmt = (\<lambda>t. ''t''), eFmtNano = (\<lambda>t. ''n''),
     ePay = (\<lambda>p. Inr ''url''), eBatch = (\<lambda>t j. BatchWritten [])\<rparr>"

definition demo_input :: create_workflow_input where
  "demo_input = \<lparr>wfOrderCode = ''N'', wfSessionID = ''s2'', wfUserID = ''u'', wfEmail = ''m'', wfPhone = ''p'',
     wfUserFullName = ''U'', wfEventID = ''e'', wfEventName = ''E'', wfCurrency = ''USD'', wfTotalAmount = 1000,
     wfItems = [\<lparr>wiTicketClassID = ''1'', wiTicketClassName = ''GA'', wiPriceAtPurchase = 500,
       wiQuantity = 2, wiTotalAmount = 1000\<rparr>],
     wfPaymentProvider = ''PAYOS'', wfRedirectUrl = ''r'', wfIdempotencyKey = ''k''\<rparr>"

definition calm_world :: world where
  "calm_world = \<lparr>wTable = [], wInv = demo_db, wPub = [], wNow = 7, wEnv = [], wClocks = []\<rparr>"

lemma demo_rpc_Reserve:
  "\<exists>db. rpc_Reserve demo_parse 7 \<lparr>rrOrderCode = ''N'',
     rrItems = [\<lparr>piTicketClassId = ''1'', piQuantity = 2\<rparr>], rrExpiresAt = ''t''\<rparr> demo_db = (db, Inr ())"
proof -
  have "snd (rpc_Reserve demo_parse 7 \<lparr>rrOrderCode = ''N'',
     rrItems = [\<lparr>piTicketClassId = ''1'', piQuantity = 2\<rparr>], rrExpiresAt = ''t''\<rparr> demo_db) = Inr ()"
    by code_simp
  then show ?thesis by (metis prod.collapse)
qed

lemma demo_fresh:
  "orderRows demo_db ''N'' = []" "fresh_items c []" "no_items c []"
  by (simp_all add: orderRows_def demo_defs fresh_items_def no_items_def)

lemma demo_reserved:
  "\<exists>db. attempts n (act_ReserveInventory (demo_ext\<lparr>ePay := pay\<rparr>) ''N'' ''t''
     [\<lparr>piTicketClassId = ''1'', piQuantity = 2\<rparr>]) calm_world = (calm_world\<lparr>wInv := db\<rparr>, Inr ())"
  using demo_rpc_Reserve calm_ReserveInventory [of calm_world "demo_ext\<lparr>ePay := pay\<rparr>"]
  by (auto simp: calm_world_def demo_ext_def)

text \<open>Up to the payment, the demonstration's checkout runs through.\<close>

lemma demo_create_run:
  "\<exists>w3 ord its. wEnv w3 = [] \<and> CreateOrder (demo_ext\<lparr>ePay := pay\<rparr>) demo_input calm_world =
     (case attempts create_attempts (act_CreatePaymentIntent (demo_ext\<lparr>ePay := pay\<rparr>) (payment_of demo_input)) w3 of
        (w4, Inl e) \<Rightarrow> (Compensate [act_ReleaseInventory ''N'', act_DeleteOrder ''N'', act_DeleteOrderItems ''N''] w4, Inl e)
      | (w4, Inr url) \<Rightarrow> (w4, Inr \<lparr>wrPaymentUrl = url, wrOrder = ord, wrOrderItems = its\<rparr>))"
proof -
  let ?x = "demo_ext\<lparr>ePay := pay\<rparr>"
  obtain db where a: "attempts create_attempts (act_ReserveInventory ?x ''N'' ''t''
     [\<lparr>piTicketClassId = ''1'', piQuantity = 2\<rparr>]) calm_world = (calm_world\<lparr>wInv := db\<rparr>, Inr ())"
    using demo_reserved by blast
  have e: "wEnv (calm_world\<lparr>wInv := db\<rparr>) = []"
    "map_of (wTable (calm_world\<lparr>wInv := db\<rparr>)) (order_key (coCode (order_option demo_input))) = None"
    by (simp_all add: calm_world_def)
  have "\<exists>w2 ord. attempts create_attempts (act_CreateOrder ?x (order_option demo_input))
      (calm_world\<lparr>wInv := db\<rparr>) = (w2, Inr ord) \<and> wEnv w2 = []"
    by (intro exI conjI, rule calm_CreateOrderRow [OF e]) (simp add: calm_world_def)
  then obtain w2 ord where b: "attempts create_attempts (act_CreateOrder ?x (order_option demo_input))
      (calm_world\<lparr>wInv := db\<rparr>) = (w2, Inr ord)" "wEnv w2 = []" by blast
  have "\<forall>j. eBatch ?x (wNow w2) j = BatchWritten []" by (simp add: demo_ext_def)
  from calm_CreateOrderItems [OF b(2) this, of create_attempts "oCode ord" "map item_option (wfItems demo_input)"]
  obtain t its where c: "attempts create_attempts (act_CreateOrderItems ?x (oCode ord)
      (map item_option (wfItems demo_input))) w2 = (w2\<lparr>wTable := t\<rparr>, Inr its)" by blast
  have r: "wfOrderCode demo_input = ''N''" "eFmt ?x n = ''t''"
    "map reserve_item_of (wfItems demo_input) = [\<lparr>piTicketClassId = ''1'', piQuantity = 2\<rparr>]" for n
    by (simp_all add: demo_input_def demo_ext_def reserve_item_of_def)
  have "wEnv (w2\<lparr>wTable := t\<rparr>) = []" using b(2) by simp
  moreover have "CreateOrder ?x demo_input calm_world =
     (case attempts create_attempts (act_CreatePaymentIntent ?x (payment_of demo_input)) (w2\<lparr>wTable := t\<rparr>) of
        (w4, Inl e) \<Rightarrow> (Compensate [act_ReleaseInventory ''N'', act_DeleteOrder ''N'', act_DeleteOrderItems ''N''] w4, Inl e)
      | (w4, Inr url) \<Rightarrow> (w4, Inr \<lparr>wrPaymentUrl = url, wrOrder = ord, wrOrderItems = its\<rparr>))"
    by (simp only: CreateOrder_def Let_def r a b(1) c prod.case sum.case)
  ultimately show ?thesis by blast
qed

lemma create_order_exact_witness:
  "\<exists>w' res. CreateOrder demo_ext demo_input calm_world = (w', Inr res) \<and> consistent (wInv w') \<and>
     order_at ''N'' (wTable w') = Some (wrOrder res) \<and> wrPaymentUrl res = ''url''"
proof -
  have x: "demo_ext\<lparr>ePay := \<lambda>p. Inr ''url''\<rparr> = demo_ext" by (simp add: demo_ext_def)
  obtain w3 ord its where w3: "wEnv w3 = []" "CreateOrder demo_ext demo_input calm_world =
     (case attempts create_attempts (act_CreatePaymentIntent demo_ext (payment_of demo_input)) w3 of
        (w4, Inl e) \<Rightarrow> (Compensate [act_ReleaseInventory ''N'', act_DeleteOrder ''N'', act_DeleteOrderItems ''N''] w4, Inl e)
      | (w4, Inr url) \<Rightarrow> (w4, Inr \<lparr>wrPaymentUrl = url, wrOrder = ord, wrOrderItems = its\<rparr>))"
    using demo_create_run [of "\<lambda>p. Inr ''url''"] unfolding x by blast
  have "attempts create_attempts (act_CreatePaymentIntent demo_ext (payment_of demo_input)) w3 = (w3, Inr ''url'')"
    unfolding act_CreatePaymentIntent_def using w3(1) by (intro remote_settled) (simp_all add: demo_ext_def)
  with w3(2) obtain res where run: "CreateOrder demo_ext demo_input calm_world = (w3, Inr res)" by simp
  have "consistent (wInv calm_world)" "orderRows (wInv calm_world) (wfOrderCode demo_input) = []"
    "fresh_items (wfOrderCode demo_input) (wTable calm_world)"
    "map_of (wTable calm_world) (order_key (wfOrderCode demo_input)) = None"
    "\<forall>t j. eBatch demo_ext t j = BatchWritten []" "wfOrderCode demo_input = ''N''"
    "ePay demo_ext (payment_of demo_input) = Inr ''url''"
    using demo_consistent demo_fresh by (simp_all add: calm_world_def demo_input_def demo_ext_def)
  with create_order_exact [OF this(1-5) run] run show ?thesis by auto
qed

section \<open>Compensation\<close>

lemma attempts_stuck:
  assumes "attempts n f w = (w', Inl e)" and "\<And>v e. f w = (v, Inl e) \<Longrightarrow> v = w"
  shows "w' = w"
  using assms(1)
proof (induction n)
  case 0
  with assms(2) show ?case by simp
next
  case (Suc n)
  obtain v r where f: "f w = (v, r)" by (cases "f w")
  with Suc assms(2) [of v] show ?case
    by (cases r) (auto split: act_error.splits if_splits)
qed

lemma calm_Reserve_failed:
  assumes "wEnv w = []" and "attempts n (act_ReserveInventory x code e its) w = (w', Inl err)"
  shows "w' = w"
proof (rule attempts_stuck [OF assms(2)])
  fix v e'
  assume "act_ReserveInventory x code e its w = (v, Inl e')"
  then obtain db c where r: "rpc_Reserve (eParse x) (wNow w) \<lparr>rrOrderCode = code, rrItems = its, rrExpiresAt = e\<rparr> (wInv w) =
      (db, Inl c)" "v = w\<lparr>wInv := db\<rparr>"
    using assms(1) by (auto simp: act_ReserveInventory_def on_inv_def split: prod.splits sum.splits)
  with rpc_Reserve_fresh [OF r(1)] show "v = w" by simp
qed

lemma calm_Items_failed:
  assumes "wEnv w = []" and "length opts \<le> batchSize"
    and "attempts n (act_CreateOrderItems x code opts) w = (w', Inl err)"
  shows "w' = w"
proof (rule attempts_stuck [OF assms(3)])
  fix v e'
  assume "act_CreateOrderItems x code opts w = (v, Inl e')"
  then obtain t c where r: "CreateManyItems (eBatch x (wNow w)) (wNow w) code opts (wTable w) = (t, Inl c)"
    "v = w\<lparr>wTable := t\<rparr>"
    using assms(1) by (auto simp: act_CreateOrderItems_def on_table_def split: prod.splits sum.splits)
  with CreateManyItems_failed [OF assms(2) r(1)] show "v = w" by simp
qed

lemma calm_Items_ok:
  assumes "wEnv w = []" and "distinct (map fst (wTable w))" and "self_keyed code (wTable w)"
    and "attempts n (act_CreateOrderItems x c opts) w = (w', r)"
  shows "wEnv w' = [] \<and> distinct (map fst (wTable w')) \<and> self_keyed code (wTable w')"
proof -
  have "activity (act_CreateOrderItems x c opts)
      (\<lambda>w. wEnv w = [] \<and> distinct (map fst (wTable w)) \<and> self_keyed code (wTable w))
      (\<lambda>_ w. wEnv w = [] \<and> distinct (map fst (wTable w)) \<and> self_keyed code (wTable w))
      (\<lambda>_ w. wEnv w = [] \<and> distinct (map fst (wTable w)) \<and> self_keyed code (wTable w))"
  proof -
    have "wEnv w' = [] \<and> distinct (map fst (wTable w')) \<and> self_keyed code (wTable w')"
      if "wEnv w = [] \<and> distinct (map fst (wTable w)) \<and> self_keyed code (wTable w)"
        "act_CreateOrderItems x c opts w = (w', q)" for w w' q
      using that CreateManyItems_wf [of "wTable w" code "eBatch x (wNow w)" "wNow w" c opts]
      by (auto simp: act_CreateOrderItems_def on_table_def split: prod.splits sum.splits)
    then show ?thesis by unfold_locales
  qed
  from activity.retried [OF this _ assms(4)] assms(1-3) show ?thesis
    by (auto split: sum.splits act_error.splits)
qed

lemma create_items_order_at [simp]:
  "order_at c (wTable (fst (act_CreateOrderItems x code opts w))) = order_at c (wTable w)"
  unfolding act_CreateOrderItems_def
proof (rule remote_frame)
  show "env_free (\<lambda>w. order_at c (wTable w))" by (simp add: env_free_def)
  fix w
  have "order_at c (fst (CreateManyItems oc now code opts t)) = order_at c t" for oc now t
    by (simp add: order_at_def map_of_CreateMany_other)
  then show "order_at c (wTable (fst (case on_table (\<lambda>now. CreateManyItems (eBatch x now) now code opts) w of
       (w', Inl e) \<Rightarrow> (w', Inl (Retryable ''repository'')) | (w', Inr its) \<Rightarrow> (w', Inr its)))) = order_at c (wTable w)"
    by (auto simp: on_table_def split: prod.splits sum.splits) (metis fst_conv)+
qed

lemma calm_DeleteOrder:
  assumes "wEnv w = []"
  shows "attempts n (act_DeleteOrder code) w = (w\<lparr>wTable := DeleteOrderRow (wNow w) code (wTable w)\<rparr>, Inr ())"
  unfolding act_DeleteOrder_def using assms by (intro remote_settled) simp_all

lemma calm_DeleteOrderItems:
  assumes "wEnv w = []"
  shows "attempts n (act_DeleteOrderItems code) w =
    (w\<lparr>wTable := DeleteItemByOrderCode (wNow w) code (wTable w)\<rparr>, Inr ())"
  unfolding act_DeleteOrderItems_def using assms by (intro remote_settled) simp_all

text \<open>The compensations of an order whose row exists, with the inventory they give back.\<close>

definition undone :: "string \<Rightarrow> invdb \<Rightarrow> world \<Rightarrow> bool" where
  "undone code db w \<longleftrightarrow> consistent (wInv w) \<and> look (wInv w) = look db \<and> paid (wInv w) = paid db \<and>
     GetByCode code (wTable w) = Inl ErrRepoOrderNotFound \<and> ListItemByOrderCode code (wTable w) = []"

lemma DeleteOrderRow_gone:
  assumes "order_at code t = Some ord" and "distinct (map fst t)"
  shows "GetByCode code (DeleteOrderRow now code t) = Inl ErrRepoOrderNotFound"
    and "set (ListItemByOrderCode c (DeleteOrderRow now code t)) = set (ListItemByOrderCode c t)"
proof -
  let ?o = "ord\<lparr>oDeletedAt := Some now, oUpdatedAt := now\<rparr>"
  have d: "DeleteOrderRow now code t = AList.update (order_key code) (DOrder ?o) t"
    by (simp add: DeleteOrderRow_def upsert_at [OF assms(1)])
  have "order_at code (DeleteOrderRow now code t) = Some ?o" by (simp add: d)
  from get_at [OF this] show "GetByCode code (DeleteOrderRow now code t) = Inl ErrRepoOrderNotFound" by simp
  show "set (ListItemByOrderCode c (DeleteOrderRow now code t)) = set (ListItemByOrderCode c t)"
    unfolding d by (rule ListItem_update_order [OF assms(2)])
qed

lemma order_at_DeleteItem [simp]: "order_at c (DeleteItemByOrderCode now code t) = order_at c t"
proof -
  have "map_of (DeleteItemByOrderCode now code t) (order_key c) = map_of t (order_key c) \<or>
    (as_order (the (map_of (DeleteItemByOrderCode now code t) (order_key c))) = None \<and>
     as_order (the (map_of t (order_key c))) = None \<and> map_of t (order_key c) \<noteq> None \<and>
     map_of (DeleteItemByOrderCode now code t) (order_key c) \<noteq> None)"
    by (auto simp: DeleteItemByOrderCode_def Let_def map_of_delete_items mark_deleted_def as_order_def
        split: option.splits ditem.splits)
  then show ?thesis by (auto simp: order_at_def)
qed

lemma calm_release_after_reserve:
  assumes "wEnv w = []" and "consistent db" and "orderRows db (rrOrderCode req) = []"
    and "taken parse req db (wInv w)"
  shows "\<exists>db2. attempts n (act_ReleaseInventory (rrOrderCode req)) w = (w\<lparr>wInv := db2\<rparr>, Inr ()) \<and>
     consistent db2 \<and> look db2 = look db \<and> paid db2 = paid db"
proof -
  obtain inp t where t: "validateReserveRequest req = None" "newReserveInput parse req = Inr inp"
    "reserveTx inp t db = Inr (wInv w)" using assms(4) by (auto simp: taken_def)
  have none: "orderRows db (inOrderCode inp) = []" using assms(3) newReserveInput_code [OF t(2)] by simp
  have code: "rrOrderCode req \<noteq> []" using t(1) by (auto simp: validateReserveRequest_def)
  obtain db2 where db2: "cancelReservationTx (rrOrderCode req) (wInv w) = Inr db2" "consistent db2"
    "look db2 = look db" "paid db2 = paid db"
    using release_after_reserve [OF assms(2) none newReserveInput_valid [OF t(2,1)] t(3)]
      newReserveInput_code [OF t(2)] by auto
  have "rpc_Release (rrOrderCode req) (wInv w) = (db2, Inr ())"
    using db2(1) code by (simp add: rpc_Release_def validate_id_def Release_def transaction_def)
  from calm_ReleaseInventory [OF assms(1) this] db2 show ?thesis by blast
qed

lemma no_items_list: "distinct (map fst t) \<Longrightarrow> no_items code t \<Longrightarrow> ListItemByOrderCode code t = []"
  using ListItem_member [of t _ code] no_items_map [of code t] by (metis all_not_in_conv set_empty)

lemma Compensate_simps [simp]:
  "Compensate [] w = w"
  "Compensate [a] w = fst (attempts compensation_attempts a w)"
  "Compensate [a, b] w = fst (attempts compensation_attempts a (fst (attempts compensation_attempts b w)))"
  "Compensate [a, b, c] w = fst (attempts compensation_attempts a (fst (attempts compensation_attempts b
     (fst (attempts compensation_attempts c w)))))"
  by (simp_all add: Compensate_def)

text \<open>A relation between the worlds before and after that every step of CreateOrder obeys, CreateOrder obeys.\<close>

locale saga_steps =
  fixes R :: "world \<Rightarrow> world \<Rightarrow> bool"
  assumes refl: "R v v"
    and trans: "R u v \<Longrightarrow> R v w \<Longrightarrow> R u w"
    and k_reserve: "R v (fst (act_ReserveInventory x c e its v))"
    and k_release: "R v (fst (act_ReleaseInventory c v))"
    and k_put: "R v (fst (act_CreateOrder x opt v))"
    and k_delete: "R v (fst (act_DeleteOrder c v))"
    and k_put_items: "R v (fst (act_CreateOrderItems x c os v))"
    and k_delete_items: "R v (fst (act_DeleteOrderItems c v))"
    and k_pay: "R v (fst (act_CreatePaymentIntent x pin v))"
begin

lemma retried:
  assumes "\<And>v. R v (fst (f v))"
  shows "R v (fst (attempts n f v))"
proof (induction n arbitrary: v)
  case 0
  then show ?case by (simp add: assms)
next
  case (Suc n)
  show ?case
  proof (cases "f v")
    case (Pair u q)
    then have "R v u" using assms [of v] by simp
    with Pair Suc.IH [of u] show ?thesis by (auto intro: trans split: sum.splits act_error.splits)
  qed
qed

lemma ran: "attempts n f v = (v', r) \<Longrightarrow> (\<And>v. R v (fst (f v))) \<Longrightarrow> R v v'"
  using retried [of f v n] by simp

lemmas undo1 = retried [OF k_release] retried [OF k_delete] retried [OF k_delete_items]

lemma undo:
  "R v (Compensate [] v)" "R v (Compensate [act_ReleaseInventory c] v)"
  "R v (Compensate [act_ReleaseInventory c, act_DeleteOrder c] v)"
  "R v (Compensate [act_ReleaseInventory c, act_DeleteOrder c, act_DeleteOrderItems c] v)"
  unfolding Compensate_simps by (rule refl undo1 trans [OF undo1(2) undo1(1)]
      trans [OF trans [OF undo1(3) undo1(2)] undo1(1)])+

lemma saga:
  assumes "CreateOrder x i w = (w', r)"
  shows "R w w'"
  using assms
proof (cases rule: CreateOrder_cases)
  case (reserve w1 e')
  from ran [OF reserve(1) k_reserve] show ?thesis unfolding reserve(3) by (rule trans [OF _ undo(1)])
next
  case (row w1 w2 e')
  from trans [OF ran [OF row(1) k_reserve] ran [OF row(2) k_put]] show ?thesis
    unfolding row(4) by (rule trans [OF _ undo(2)])
next
  case (items w1 w2 w3 e' ord)
  from trans [OF trans [OF ran [OF items(1) k_reserve] ran [OF items(2) k_put]] ran [OF items(3) k_put_items]]
  show ?thesis unfolding items(5) by (rule trans [OF _ undo(3)])
next
  case (pay w1 w2 w3 w4 e' ord its)
  from trans [OF trans [OF trans [OF ran [OF pay(1) k_reserve] ran [OF pay(2) k_put]]
        ran [OF pay(3) k_put_items]] ran [OF pay(4) k_pay]]
  show ?thesis unfolding pay(6) by (rule trans [OF _ undo(4)])
next
  case (success w1 w2 w3 url ord its)
  from trans [OF trans [OF trans [OF ran [OF success(1) k_reserve] ran [OF success(2) k_put]]
        ran [OF success(3) k_put_items]] ran [OF success(4) k_pay]]
  show ?thesis .
qed

end

text \<open>The row step of a fresh order in a world without faults, and what it leaves.\<close>

lemma calm_row_step:
  assumes "wEnv w = []" and "map_of (wTable w) (order_key (wfOrderCode i)) = None"
    and "fresh_items (wfOrderCode i) (wTable w)"
    and "attempts n (act_CreateOrder x (order_option i)) w = (w', r)"
  shows "\<exists>ord. r = Inr ord \<and> oCode ord = wfOrderCode i \<and> wEnv w' = [] \<and> wInv w' = wInv w \<and>
     order_at (wfOrderCode i) (wTable w') = Some ord \<and> distinct (map fst (wTable w')) \<and>
     no_items (wfOrderCode i) (wTable w')"
proof -
  have cc: "coCode (order_option i) = wfOrderCode i" by (simp add: order_option_def)
  have "map_of (wTable w) (order_key (coCode (order_option i))) = None" using assms(2) cc by simp
  from calm_CreateOrderRow [OF assms(1) this, of n x] assms(1,4) fresh_items_update [OF assms(3)] cc
  show ?thesis by (auto simp: fresh_items_def)
qed

lemma undone_by_release:
  assumes "wEnv w = []" and "consistent db" and "orderRows db code = []"
    and "taken parse \<lparr>rrOrderCode = code, rrItems = its, rrExpiresAt = e\<rparr> db (wInv w)"
    and "GetByCode code (wTable w) = Inl ErrRepoOrderNotFound" and "ListItemByOrderCode code (wTable w) = []"
  shows "undone code db (fst (attempts n (act_ReleaseInventory code) w))"
proof -
  let ?req = "\<lparr>rrOrderCode = code, rrItems = its, rrExpiresAt = e\<rparr>"
  have "orderRows db (rrOrderCode ?req) = []" using assms(3) by simp
  from calm_release_after_reserve [OF assms(1,2) this assms(4), of n]
  show ?thesis using assms(5,6) by (auto simp: undone_def)
qed

lemma undone_by_delete:
  assumes "wEnv w = []" and "consistent db" and "orderRows db code = []"
    and "taken parse \<lparr>rrOrderCode = code, rrItems = its, rrExpiresAt = e\<rparr> db (wInv w)"
    and "order_at code (wTable w) = Some ord" and "distinct (map fst (wTable w))"
    and "ListItemByOrderCode code (wTable w) = []"
  shows "undone code db (fst (attempts n (act_ReleaseInventory code) (fst (attempts m (act_DeleteOrder code) w))))"
proof -
  let ?w = "w\<lparr>wTable := DeleteOrderRow (wNow w) code (wTable w)\<rparr>"
  have "GetByCode code (wTable ?w) = Inl ErrRepoOrderNotFound" "ListItemByOrderCode code (wTable ?w) = []"
    using DeleteOrderRow_gone(1) [OF assms(5,6)] DeleteOrderRow_gone(2) [OF assms(5,6), of code] assms(7)
    by auto
  then have "undone code db (fst (attempts n (act_ReleaseInventory code) ?w))"
    using assms(1,4) by (intro undone_by_release [OF _ assms(2,3)]) simp_all
  then show ?thesis by (simp add: calm_DeleteOrder [OF assms(1)])
qed

lemma CreateOrder_failure:
  assumes "consistent (wInv w)" and "orderRows (wInv w) (wfOrderCode i) = []"
    and "fresh_items (wfOrderCode i) (wTable w)" and "map_of (wTable w) (order_key (wfOrderCode i)) = None"
    and "wEnv w = []" and "length (wfItems i) \<le> batchSize" and "CreateOrder x i w = (w', Inl e)"
  shows "consistent (wInv w') \<and> look (wInv w') = look (wInv w) \<and> paid (wInv w') = paid (wInv w) \<and>
     GetByCode (wfOrderCode i) (wTable w') = Inl ErrRepoOrderNotFound \<and>
     ListItemByOrderCode (wfOrderCode i) (wTable w') = []"
proof -
  let ?code = "wfOrderCode i" and ?req = "reserve_request_of x i (wNow w)"
  have reserved: "wEnv w1 = [] \<and> wTable w1 = wTable w \<and> taken (eParse x) ?req (wInv w) (wInv w1)"
    if "attempts create_attempts (act_ReserveInventory x ?code
        (eFmt x (reservationExpiry (wNow w))) (map reserve_item_of (wfItems i))) w = (w1, Inr ())" for w1
  proof -
    have "reserving x ?req (wTable w) (wInv w) w"
      using assms(1,2) by (simp add: reserving_def reserve_request_of_def consistent_def)
    from reserve_retried [OF this [unfolded reserve_request_of_def] that]
    have "wTable w1 = wTable w" "taken (eParse x) ?req (wInv w) (wInv w1)"
      by (simp_all add: reserve_request_of_def)
    moreover have "wEnv w1 = []"
    proof -
      have "activity (act_ReserveInventory x c ex its) (\<lambda>w. wEnv w = []) (\<lambda>_ w. wEnv w = []) (\<lambda>_ w. wEnv w = [])"
        for c ex its
        by unfold_locales (auto simp: act_ReserveInventory_def on_inv_def split: prod.splits sum.splits)
      from activity.retried_ok [OF this assms(5) that] show ?thesis .
    qed
    ultimately show ?thesis by blast
  qed
  have "undone ?code (wInv w) w'"
    using assms(7)
  proof (cases rule: CreateOrder_cases)
    case (reserve w1 e')
    then have "w' = w" using calm_Reserve_failed [OF assms(5) reserve(1)] by simp
    moreover have "GetByCode ?code (wTable w) = Inl ErrRepoOrderNotFound" using assms(4) by (simp add: GetByCode_def)
    ultimately show ?thesis using no_items_list assms(1,3) by (simp add: undone_def fresh_items_def)
  next
    case (row w1 w2 e')
    have "map_of (wTable w1) (order_key ?code) = None" "fresh_items ?code (wTable w1)" "wEnv w1 = []"
      using reserved [OF row(1)] assms(3,4) by simp_all
    from calm_row_step [OF this(3,1,2) row(2)] show ?thesis by simp
  next
    case (items w1 w2 w3 e' ord)
    note r = reserved [OF items(1)]
    have "map_of (wTable w1) (order_key ?code) = None" "fresh_items ?code (wTable w1)" "wEnv w1 = []"
      using r assms(3,4) by simp_all
    note w2 = calm_row_step [OF this(3,1,2) items(2)]
    have len: "length (map item_option (wfItems i)) \<le> batchSize" using assms(6) by simp
    have "w3 = w2" using calm_Items_failed [OF _ len items(3)] w2 by simp
    then show ?thesis
      using undone_by_delete [of w2 "wInv w" ?code "eParse x" "rrItems ?req" "rrExpiresAt ?req" ord] w2 r
        assms(1,2) no_items_list [of "wTable w2" ?code] items(5)
      by (auto simp: reserve_request_of_def)
  next
    case (pay w1 w2 w3 w4 e' ord its)
    note r = reserved [OF pay(1)]
    have "map_of (wTable w1) (order_key ?code) = None" "fresh_items ?code (wTable w1)" "wEnv w1 = []"
      using r assms(3,4) by simp_all
    note w2 = calm_row_step [OF this(3,1,2) pay(2)]
    then have "wEnv w2 = []" "distinct (map fst (wTable w2))" "self_keyed ?code (wTable w2)"
      using no_items_self_keyed by auto
    note w3 = calm_Items_ok [OF this pay(3)]
    have "wInv w3 = wInv w2" using attempts_success_frame [OF pay(3), of wInv] by simp
    moreover have "order_at ?code (wTable w3) = order_at ?code (wTable w2)"
      using attempts_success_frame [OF pay(3), of "\<lambda>w. order_at ?code (wTable w)"] by simp
    ultimately have w3': "wInv w3 = wInv w2" "order_at ?code (wTable w3) = Some ord" using w2 by simp_all
    have "w4 = w3"
      by (rule attempts_stuck [OF pay(4)]) (use w3 in \<open>auto simp: act_CreatePaymentIntent_def\<close>)
    let ?v = "w3\<lparr>wTable := DeleteItemByOrderCode (wNow w3) ?code (wTable w3)\<rparr>"
    have v: "wEnv ?v = []" "order_at ?code (wTable ?v) = Some ord" "distinct (map fst (wTable ?v))"
      "ListItemByOrderCode ?code (wTable ?v) = []"
      "taken (eParse x) \<lparr>rrOrderCode = ?code, rrItems = rrItems ?req, rrExpiresAt = rrExpiresAt ?req\<rparr> (wInv w) (wInv ?v)"
      using w3 w3' w2 r distinct_DeleteItem DeleteItem_none by (simp_all add: reserve_request_of_def)
    from undone_by_delete [OF v(1) assms(1,2) v(5,2,3,4)] show ?thesis
      using pay(6) \<open>w4 = w3\<close> w3 by (simp add: calm_DeleteOrderItems)
  qed simp
  then show ?thesis by (simp add: undone_def)
qed

text \<open>
  C3. A failed checkout leaves nothing behind. Under a code that was not used before, for an order
  of at most 25 items, which are written as one batch, and without lost calls: whichever step of
  CreateOrder fails, the reservation, the row, the items or the payment intent, its compensations
  give back all stock, and neither the order nor any of its items can be found any more; inventory
  stays consistent and nothing counts as sold. Of a longer order whose second batch fails, the
  items of the first batch would stay, since the step that fails registers no compensation.
\<close>

theorem create_order_rollback:
  assumes "consistent (wInv w)" and "orderRows (wInv w) (wfOrderCode i) = []"
    and "fresh_items (wfOrderCode i) (wTable w)" and "map_of (wTable w) (order_key (wfOrderCode i)) = None"
    and "wEnv w = []" and "length (wfItems i) \<le> batchSize" and "CreateOrder x i w = (w', Inl e)"
  shows "consistent (wInv w') \<and> look (wInv w') = look (wInv w) \<and> paid (wInv w') = paid (wInv w) \<and>
     GetByCode (wfOrderCode i) (wTable w') = Inl ErrRepoOrderNotFound \<and>
     ListItemByOrderCode (wfOrderCode i) (wTable w') = []"
  using assms by (rule CreateOrder_failure)

lemma create_order_rollback_witness:
  "\<exists>w' e. CreateOrder (demo_ext\<lparr>ePay := \<lambda>p. Inl (AppError ''declined'')\<rparr>) demo_input calm_world = (w', Inl e) \<and>
     look (wInv w') = look demo_db \<and> GetByCode ''N'' (wTable w') = Inl ErrRepoOrderNotFound"
proof -
  let ?x = "demo_ext\<lparr>ePay := \<lambda>p. Inl (AppError ''declined'')\<rparr>"
  obtain w3 ord its where w3: "wEnv w3 = []" "CreateOrder ?x demo_input calm_world =
     (case attempts create_attempts (act_CreatePaymentIntent ?x (payment_of demo_input)) w3 of
        (w4, Inl e) \<Rightarrow> (Compensate [act_ReleaseInventory ''N'', act_DeleteOrder ''N'', act_DeleteOrderItems ''N''] w4, Inl e)
      | (w4, Inr url) \<Rightarrow> (w4, Inr \<lparr>wrPaymentUrl = url, wrOrder = ord, wrOrderItems = its\<rparr>))"
    using demo_create_run by blast
  have "attempts create_attempts (act_CreatePaymentIntent ?x (payment_of demo_input)) w3 =
      (w3, Inl (AppError ''declined''))"
    unfolding act_CreatePaymentIntent_def using w3(1) by (intro remote_settled) (simp_all add: demo_ext_def)
  with w3(2) obtain w' where run: "CreateOrder ?x demo_input calm_world = (w', Inl (AppError ''declined''))" by simp
  have "consistent (wInv calm_world)" "orderRows (wInv calm_world) (wfOrderCode demo_input) = []"
    "fresh_items (wfOrderCode demo_input) (wTable calm_world)"
    "map_of (wTable calm_world) (order_key (wfOrderCode demo_input)) = None" "wEnv calm_world = []"
    "length (wfItems demo_input) \<le> batchSize" "wfOrderCode demo_input = ''N''" "wInv calm_world = demo_db"
    using demo_consistent demo_fresh by (simp_all add: calm_world_def demo_input_def batchSize_def)
  with create_order_rollback [OF this(1-6) run] run show ?thesis by auto
qed

section \<open>A reservation whose answers are lost\<close>

lemma lost_reserve_again:
  assumes "wf_db db0" and "orderRows db0 code = []"
    and "taken (eParse x) \<lparr>rrOrderCode = code, rrItems = its, rrExpiresAt = e\<rparr> db0 (wInv w)"
    and "map snd (wEnv w) = replicate (Suc n) LostReply @ fs"
  shows "\<exists>w'. attempts (Suc n) (act_ReserveInventory x code e its) w = (w', Inl (Retryable ''lost reply'')) \<and>
     wInv w' = wInv w \<and> wTable w' = wTable w"
  using assms(3,4)
proof (induction n arbitrary: w)
  case (0 w)
  have again: "rpc_Reserve (eParse x) now \<lparr>rrOrderCode = code, rrItems = its, rrExpiresAt = e\<rparr> (wInv w) = (wInv w, Inr ())" for now
    by (rule rpc_Reserve_again [OF assms(1) _ 0(1)]) (simp add: assms(2))
  from 0(2) obtain t es where "wEnv w = (t, LostReply) # es" by (cases "wEnv w") auto
  then show ?case by (simp add: act_ReserveInventory_def remote_def on_inv_def again)
next
  case (Suc n w)
  have again: "rpc_Reserve (eParse x) now \<lparr>rrOrderCode = code, rrItems = its, rrExpiresAt = e\<rparr> (wInv w) = (wInv w, Inr ())" for now
    by (rule rpc_Reserve_again [OF assms(1) _ Suc.prems(1)]) (simp add: assms(2))
  from Suc.prems(2) obtain t es where env: "wEnv w = (t, LostReply) # es"
    "map snd es = replicate (Suc n) LostReply @ fs" by (cases "wEnv w") auto
  let ?v = "w\<lparr>wNow := t, wEnv := es\<rparr>"
  have "act_ReserveInventory x code e its w = (?v, Inl (Retryable ''lost reply''))"
    using env(1) by (simp add: act_ReserveInventory_def remote_def on_inv_def again)
  then have "attempts (Suc (Suc n)) (act_ReserveInventory x code e its) w =
      attempts (Suc n) (act_ReserveInventory x code e its) ?v"
    by (subst attempts.simps(2)) simp
  with Suc.IH [of ?v] Suc.prems(1) env(2) show ?case by simp
qed

text \<open>
  A step that fails is not undone even if it took effect. When inventory reserves the
  items but all five answers are lost, CreateOrder fails, creates no order and runs no
  compensation, and the stock stays held under its code: only the expiry of the reservation
  gives it back.
\<close>

theorem lost_reservation_stays_held:
  assumes "consistent (wInv w)" and "orderRows (wInv w) (wfOrderCode i) = []"
    and "wEnv w = (t, LostReply) # es" and "map snd es = replicate 4 LostReply @ fs"
    and "rpc_Reserve (eParse x) t (reserve_request_of x i (wNow w)) (wInv w) = (db, Inr ())"
    and "CreateOrder x i w = (w', r)"
  shows "r = Inl (Retryable ''lost reply'') \<and> wTable w' = wTable w \<and> wInv w' = db \<and>
     orderRows db (wfOrderCode i) \<noteq> [] \<and>
     (\<forall>k. held db k = held (wInv w) k + order_qty db (wfOrderCode i) k ReservationStatusActive)"
proof -
  let ?code = "wfOrderCode i" and ?its = "map reserve_item_of (wfItems i)" and ?e = "eFmt x (reservationExpiry (wNow w))"
  let ?f = "act_ReserveInventory x ?code ?e ?its" and ?v = "w\<lparr>wInv := db, wNow := t, wEnv := es\<rparr>"
  have wf: "wf_db (wInv w)" using assms(1) by (simp add: consistent_def)
  note rpc = assms(5) [unfolded reserve_request_of_def]
  have "taken (eParse x) \<lparr>rrOrderCode = ?code, rrItems = ?its, rrExpiresAt = ?e\<rparr> (wInv w) db"
    using rpc_Reserve_fresh [OF rpc] by simp
  note tk = this
  have "?f w = (?v, Inl (Retryable ''lost reply''))"
    using assms(3) rpc by (simp add: act_ReserveInventory_def remote_def on_inv_def)
  then have one: "attempts (Suc (Suc 3)) ?f w = attempts (Suc 3) ?f ?v" by (subst attempts.simps(2)) simp
  have n: "create_attempts = Suc (Suc 3)" by (simp add: create_attempts_def getCreateOrderActivityOptions_def)
  have "\<exists>w'. attempts (Suc 3) ?f ?v = (w', Inl (Retryable ''lost reply'')) \<and> wInv w' = wInv ?v \<and> wTable w' = wTable ?v"
    by (rule lost_reserve_again [OF wf assms(2)]) (use tk assms(4) in simp_all)
  then obtain u where u: "attempts create_attempts ?f w = (u, Inl (Retryable ''lost reply''))"
    "wInv u = db" "wTable u = wTable w" unfolding n one by auto
  have run: "w' = u \<and> r = Inl (Retryable ''lost reply'')"
    using assms(6) by (simp add: CreateOrder_def Let_def u(1))
  obtain inp s where s: "validateReserveRequest \<lparr>rrOrderCode = ?code, rrItems = ?its, rrExpiresAt = ?e\<rparr> = None"
    "newReserveInput (eParse x) \<lparr>rrOrderCode = ?code, rrItems = ?its, rrExpiresAt = ?e\<rparr> = Inr inp"
    "reserveTx inp s (wInv w) = Inr db" using tk by (auto simp: taken_def)
  have "orderRows db ?code \<noteq> []" using taken_rows(2) [OF wf _ s(2,1,3)] assms(2) by simp
  moreover have "orderRows (wInv w) (inOrderCode inp) = []" "inOrderCode inp = ?code"
    using assms(2) newReserveInput_code [OF s(2)] by simp_all
  with release_after_reserve [OF assms(1) this(1) newReserveInput_valid [OF s(2,1)] s(3)]
  have "\<forall>k. held db k = held (wInv w) k + order_qty db ?code k ReservationStatusActive" by simp
  ultimately show ?thesis using run u by blast
qed

lemma lost_reservation_stays_held_witness:
  "\<exists>db. snd (CreateOrder demo_ext demo_input (calm_world\<lparr>wEnv := replicate 5 (7, LostReply)\<rparr>)) =
      Inl (Retryable ''lost reply'') \<and>
    wInv (fst (CreateOrder demo_ext demo_input (calm_world\<lparr>wEnv := replicate 5 (7, LostReply)\<rparr>))) = db \<and>
    orderRows db ''N'' \<noteq> []"
proof -
  let ?w = "calm_world\<lparr>wEnv := replicate 5 (7, LostReply)\<rparr>"
  obtain db where db: "rpc_Reserve demo_parse 7 \<lparr>rrOrderCode = ''N'',
     rrItems = [\<lparr>piTicketClassId = ''1'', piQuantity = 2\<rparr>], rrExpiresAt = ''t''\<rparr> demo_db = (db, Inr ())"
    using demo_rpc_Reserve by blast
  then have rpc: "rpc_Reserve (eParse demo_ext) 7 (reserve_request_of demo_ext demo_input (wNow ?w)) (wInv ?w) = (db, Inr ())"
    by (simp add: demo_ext_def demo_input_def reserve_request_of_def reserve_item_of_def calm_world_def)
  have "consistent (wInv ?w)" "orderRows (wInv ?w) (wfOrderCode demo_input) = []"
    "wEnv ?w = (7, LostReply) # replicate 4 (7, LostReply)"
    "map snd (replicate 4 (7::time, LostReply)) = replicate 4 LostReply @ []" "wfOrderCode demo_input = ''N''"
    using demo_consistent demo_fresh by (simp_all add: calm_world_def demo_input_def eval_nat_numeral)
  with lost_reservation_stays_held [OF this(1-4) rpc surjective_pairing] show ?thesis by simp
qed

end
