(* ===== verification/Order_Budget.thy ===== *)
theory Order_Budget
  imports Order_Workflows
begin

text \<open>
  The time an activity may take under its retry policy, against the budget the service
  computes for it (\<open>activityRetryBudget\<close>, \<open>CreateOrderSlotBudget\<close> in
  \<open>order-svc/internal/workflows/options.go\<close>).
\<close>

text \<open>Temporal's wait after the \<open>k\<close>-th failed attempt, from 0.\<close>

definition retry_interval :: "activity_options \<Rightarrow> nat \<Rightarrow> duration" where
  "retry_interval o' k = min (aoInitialInterval o' * aoBackoffCoefficient o' ^ k) (aoMaximumInterval o')"

text \<open>The time of a schedule: the attempts, and the waits between them.\<close>

fun elapsed :: "activity_options \<Rightarrow> nat \<Rightarrow> duration list \<Rightarrow> duration" where
  "elapsed o' k [] = 0"
| "elapsed o' k [d] = d"
| "elapsed o' k (d # e # ds) = d + retry_interval o' k + elapsed o' (Suc k) (e # ds)"

definition allowed_schedule :: "activity_options \<Rightarrow> duration list \<Rightarrow> bool" where
  "allowed_schedule o' ds \<longleftrightarrow> ds \<noteq> [] \<and> length ds \<le> aoMaximumAttempts o' \<and>
     list_all (\<lambda>d. 0 \<le> d \<and> d \<le> aoStartToCloseTimeout o') ds"

definition sane_policy :: "activity_options \<Rightarrow> bool" where
  "sane_policy o' \<longleftrightarrow> 0 \<le> aoInitialInterval o' \<and> aoInitialInterval o' \<le> aoMaximumInterval o' \<and>
     1 \<le> aoBackoffCoefficient o' \<and> 0 \<le> aoStartToCloseTimeout o'"

lemma retry_interval_0: "sane_policy o' \<Longrightarrow> retry_interval o' 0 = aoInitialInterval o'"
  by (simp add: retry_interval_def sane_policy_def)

lemma retry_interval_nonneg: "sane_policy o' \<Longrightarrow> 0 \<le> retry_interval o' k"
  by (simp add: retry_interval_def sane_policy_def)

lemma retry_interval_Suc:
  assumes "sane_policy o'"
  shows "retry_interval o' (Suc k) = min (retry_interval o' k * aoBackoffCoefficient o') (aoMaximumInterval o')"
proof -
  let ?a = "aoInitialInterval o' * aoBackoffCoefficient o' ^ k" and ?c = "aoBackoffCoefficient o'"
    and ?m = "aoMaximumInterval o'"
  have c: "1 \<le> ?c" and m: "0 \<le> ?m" using assms by (auto simp: sane_policy_def)
  then have "?m \<le> ?m * ?c" using mult_left_mono [OF c m] by simp
  moreover have "?m * ?c \<le> ?a * ?c" if "?m \<le> ?a" using that c by (intro mult_right_mono) simp_all
  ultimately show ?thesis
    by (cases "?a \<le> ?m") (auto simp: retry_interval_def algebra_simps min_def)
qed

text \<open>The code's loop adds up exactly those waits.\<close>

lemma backoff_loop_sum:
  assumes "sane_policy o'"
  shows "backoff_loop o' n (retry_interval o' k) acc = acc + (\<Sum>j<n. retry_interval o' (k + j))"
proof (induction n arbitrary: k acc)
  case 0
  then show ?case by simp
next
  case (Suc n)
  have "backoff_loop o' (Suc n) (retry_interval o' k) acc =
      backoff_loop o' n (retry_interval o' (Suc k)) (acc + retry_interval o' k)"
    using retry_interval_Suc [OF assms] by simp
  also have "\<dots> = acc + retry_interval o' k + (\<Sum>j<n. retry_interval o' (Suc k + j))"
    by (rule Suc.IH)
  finally show ?case by (simp add: sum.lessThan_Suc_shift del: sum.lessThan_Suc)
qed

lemma elapsed_bound:
  assumes "sane_policy o'" and "ds \<noteq> []" and "list_all (\<lambda>d. 0 \<le> d \<and> d \<le> aoStartToCloseTimeout o') ds"
  shows "elapsed o' k ds \<le>
     aoStartToCloseTimeout o' * int (length ds) + (\<Sum>j<length ds - 1. retry_interval o' (k + j))"
  using assms(2,3)
proof (induction o' k ds rule: elapsed.induct)
  case (3 p k d e ds)
  then have "elapsed p (Suc k) (e # ds) \<le>
      aoStartToCloseTimeout p * int (length (e # ds)) + (\<Sum>j<length ds. retry_interval p (Suc k + j))"
    by simp
  moreover have "(\<Sum>j<Suc (length ds). retry_interval p (k + j)) =
      retry_interval p k + (\<Sum>j<length ds. retry_interval p (Suc k + j))"
    by (simp add: sum.lessThan_Suc_shift del: sum.lessThan_Suc)
  ultimately show ?case using 3(3) by (simp add: algebra_simps del: sum.lessThan_Suc)
qed simp_all

lemma budget_bound:
  assumes "sane_policy o'" and "allowed_schedule o' ds"
  shows "elapsed o' 0 ds \<le> activityRetryBudget o'"
proof -
  have ds: "ds \<noteq> []" "length ds \<le> aoMaximumAttempts o'"
    "list_all (\<lambda>d. 0 \<le> d \<and> d \<le> aoStartToCloseTimeout o') ds"
    using assms(2) by (auto simp: allowed_schedule_def)
  let ?n = "aoMaximumAttempts o'"
  have "elapsed o' 0 ds \<le> aoStartToCloseTimeout o' * int (length ds) + (\<Sum>j<length ds - 1. retry_interval o' j)"
    using elapsed_bound [OF assms(1) ds(1,3), of 0] by simp
  also have "\<dots> \<le> aoStartToCloseTimeout o' * int ?n + (\<Sum>j<?n - 1. retry_interval o' j)"
  proof (rule add_mono)
    show "aoStartToCloseTimeout o' * int (length ds) \<le> aoStartToCloseTimeout o' * int ?n"
      using ds(2) assms(1) by (intro mult_left_mono) (auto simp: sane_policy_def)
    show "(\<Sum>j<length ds - 1. retry_interval o' j) \<le> (\<Sum>j<?n - 1. retry_interval o' j)"
      using ds(2) retry_interval_nonneg [OF assms(1)] by (intro sum_mono2) auto
  qed
  also have "\<dots> = activityRetryBudget o'"
    using backoff_loop_sum [OF assms(1), of "?n - 1" 0 "aoStartToCloseTimeout o' * int ?n"]
      retry_interval_0 [OF assms(1)] by (simp add: activityRetryBudget_def)
  finally show ?thesis .
qed

lemma policies_sane:
  "sane_policy getCreateOrderActivityOptions" "sane_policy getConfirmOrderActivityOptions"
  "sane_policy getCompensationActivityOptions"
  by (simp_all add: sane_policy_def getCreateOrderActivityOptions_def getConfirmOrderActivityOptions_def
      getCompensationActivityOptions_def second_def minute_def)

lemma create_budget: "activityRetryBudget getCreateOrderActivityOptions = 615 * second"
  by (simp add: activityRetryBudget_def getCreateOrderActivityOptions_def second_def minute_def eval_nat_numeral)

text \<open>
  C40. The slot budget covers the saga up to the order row. However the attempts of the
  reservation and then of the row are spread, each within its timeout, with Temporal's
  exponential waits between them, both are over within \<open>CreateOrderSlotBudget\<close>, which
  is 20 minutes and 30 seconds.
\<close>

theorem slot_budget_covers:
  assumes "allowed_schedule getCreateOrderActivityOptions holds"
    and "allowed_schedule getCreateOrderActivityOptions writes"
  shows "elapsed getCreateOrderActivityOptions 0 holds + elapsed getCreateOrderActivityOptions 0 writes
       \<le> CreateOrderSlotBudget \<and> CreateOrderSlotBudget = 1230 * second"
  using budget_bound [OF policies_sane(1) assms(1)] budget_bound [OF policies_sane(1) assms(2)]
  by (simp add: CreateOrderSlotBudget_def create_budget)

lemma slot_budget_covers_witness:
  "elapsed getCreateOrderActivityOptions 0 (replicate 5 (2 * minute)) \<le> 1230 * second"
proof -
  have a: "allowed_schedule getCreateOrderActivityOptions (replicate 5 (2 * minute))"
    "allowed_schedule getCreateOrderActivityOptions [0]"
    by (simp_all add: allowed_schedule_def getCreateOrderActivityOptions_def minute_def second_def list_all_iff)
  have "elapsed getCreateOrderActivityOptions 0 [0] = 0" by simp
  with slot_budget_covers [OF a] show ?thesis by linarith
qed

end
