(* ===== verification/Order_Code.thy ===== *)
theory Order_Code
  imports Go_Lib
begin

text \<open>
  Order codes (\<open>order-svc/pkg/util/code.go\<close>): \<open>TB-PREFIX-YYYYMMDD-XXXXXXXX\<close>, the
  prefix made from the event's name. The random characters are given by their indices in the
  character set, the date by its year, month and day. Names are ASCII: Go's case mapping and
  white space beyond ASCII are not modelled.
\<close>

section \<open>Strings\<close>

definition is_digit :: "char \<Rightarrow> bool" where
  "is_digit c \<longleftrightarrow> (let n = (of_char c :: nat) in 48 \<le> n \<and> n \<le> 57)"

definition is_upper :: "char \<Rightarrow> bool" where
  "is_upper c \<longleftrightarrow> (let n = (of_char c :: nat) in 65 \<le> n \<and> n \<le> 90)"

definition to_upper :: "char \<Rightarrow> char" where
  "to_upper c = (let n = (of_char c :: nat) in if 97 \<le> n \<and> n \<le> 122 then char_of (n - 32) else c)"

definition to_lower :: "char \<Rightarrow> char" where
  "to_lower c = (let n = (of_char c :: nat) in if 65 \<le> n \<and> n \<le> 90 then char_of (n + 32) else c)"

definition ToUpper :: "string \<Rightarrow> string" where "ToUpper s = map to_upper s"
definition ToLower :: "string \<Rightarrow> string" where "ToLower s = map to_lower s"

text \<open>\<open>strings.Fields\<close>; \<open>acc\<close> is the word being read.\<close>

fun fields_loop :: "string \<Rightarrow> string \<Rightarrow> string list" where
  "fields_loop acc [] = (if acc = [] then [] else [acc])"
| "fields_loop acc (c # cs) =
     (if is_space c then (if acc = [] then [] else [acc]) @ fields_loop [] cs
      else fields_loop (acc @ [c]) cs)"

definition Fields :: "string \<Rightarrow> string list" where "Fields s = fields_loop [] s"

text \<open>\<open>strings.Split\<close> on a one-byte separator.\<close>

fun split_loop :: "char \<Rightarrow> string \<Rightarrow> string \<Rightarrow> string list" where
  "split_loop sep acc [] = [acc]"
| "split_loop sep acc (c # cs) =
     (if c = sep then acc # split_loop sep [] cs else split_loop sep (acc @ [c]) cs)"

definition Split :: "char \<Rightarrow> string \<Rightarrow> string list" where "Split sep s = split_loop sep [] s"

section \<open>The event prefix\<close>

definition commonWords :: "string list" where
  "commonWords = [''the'', ''a'', ''an'', ''and'', ''or'', ''but'', ''in'', ''on'', ''at'', ''to'', ''for'',
     ''of'', ''with'', ''by'', ''concert'', ''show'', ''event'', ''festival'', ''tour'']"

definition meaningful :: "string list \<Rightarrow> string list" where
  "meaningful ws = filter (\<lambda>w. w \<notin> set commonWords \<and> length w > 1) ws"

fun initials :: "string list \<Rightarrow> string \<Rightarrow> string" where
  "initials [] p = p"
| "initials (w # ws) p =
     (if w = [] then initials ws p
      else let p' = p @ (if list_ex is_digit w then take 4 (filter is_digit w) else [to_upper (hd w)])
           in if length p' \<ge> 6 then p' else initials ws p')"

fun fill_word :: "string \<Rightarrow> string \<Rightarrow> string" where
  "fill_word [] r = r"
| "fill_word (c # cs) r =
     (if length r \<ge> 6 then r
      else fill_word cs (if (is_upper c \<or> is_digit c) \<and> c \<notin> set r then r @ [c] else r))"

fun fill_words :: "string list \<Rightarrow> string \<Rightarrow> string" where
  "fill_words [] r = r"
| "fill_words (w # ws) r = (if length r \<ge> 6 then r else fill_words ws (fill_word (ToUpper w) r))"

definition generateEventPrefix :: "string \<Rightarrow> string" where
  "generateEventPrefix eventName0 =
     (let eventName = ToLower (TrimSpace eventName0);
          ws = meaningful (Fields eventName)
      in if ws = [] then take 6 (filter (\<lambda>c. c \<noteq> CHR '' '') (ToUpper eventName))
         else if length ws = 1 then take 6 (ToUpper (hd ws))
         else let result = initials ws []
              in if length result > 6 then take 6 result
                 else let r = (if length result < 4 then fill_words ws result else result)
                      in if length r < 3 then ''EVT'' @ r else r)"

section \<open>Codes\<close>

definition charset :: string where "charset = ''ABCDEFGHJKMNPQRSTUVWXYZ23456789''"

definition random_part :: "nat list \<Rightarrow> string" where "random_part rnd = map (\<lambda>n. charset ! n) rnd"

definition two_digits :: "nat \<Rightarrow> string" where
  "two_digits n = [digit_char (n div 10), digit_char (n mod 10)]"

text \<open>\<open>Format("20060102")\<close>.\<close>

definition format_date :: "nat \<times> nat \<times> nat \<Rightarrow> string" where
  "format_date date = (case date of (y, m, d) \<Rightarrow>
     two_digits (y div 100) @ two_digits (y mod 100) @ two_digits m @ two_digits d)"

definition GenerateOrderCode :: "nat \<times> nat \<times> nat \<Rightarrow> nat list \<Rightarrow> string" where
  "GenerateOrderCode date rnd = ''TB-'' @ format_date date @ ''-'' @ random_part rnd"

definition GenerateOrderCodeWithEventPrefix :: "nat \<times> nat \<times> nat \<Rightarrow> nat list \<Rightarrow> string \<Rightarrow> string" where
  "GenerateOrderCodeWithEventPrefix date rnd eventName =
     ''TB-'' @ generateEventPrefix eventName @ ''-'' @ format_date date @ ''-'' @ random_part rnd"

definition GenerateShortOrderCode :: "nat list \<Rightarrow> string" where
  "GenerateShortOrderCode rnd = ''TB-'' @ random_part rnd"

section \<open>Validation\<close>

definition isValidCharset :: "string \<Rightarrow> bool" where
  "isValidCharset s \<longleftrightarrow> list_all (\<lambda>c. c \<in> set charset) s"

definition leap :: "int \<Rightarrow> bool" where
  "leap y \<longleftrightarrow> y mod 4 = 0 \<and> (y mod 100 \<noteq> 0 \<or> y mod 400 = 0)"

definition days_in :: "int \<Rightarrow> int \<Rightarrow> int" where
  "days_in m y = (if m = 2 then (if leap y then 29 else 28)
                  else if m = 4 \<or> m = 6 \<or> m = 9 \<or> m = 11 then 30 else 31)"

definition valid_date :: "int \<Rightarrow> int \<Rightarrow> int \<Rightarrow> bool" where
  "valid_date y m d \<longleftrightarrow> 1 \<le> m \<and> m \<le> 12 \<and> 1 \<le> d \<and> d \<le> days_in m y"

text \<open>\<open>time.Parse\<close> with the layout \<open>20060102\<close>.\<close>

definition isValidDate :: "string \<Rightarrow> bool" where
  "isValidDate s \<longleftrightarrow> length s = 8 \<and>
     (case (parse_digits (take 4 s) 0, parse_digits (take 2 (drop 4 s)) 0, parse_digits (drop 6 s) 0) of
        (Some y, Some m, Some d) \<Rightarrow> valid_date y m d
      | _ \<Rightarrow> False)"

definition ValidateOrderCode :: "string \<Rightarrow> bool" where
  "ValidateOrderCode code =
     (if take 3 code \<noteq> ''TB-'' then False
      else case Split (CHR ''-'') (drop 3 code) of
             [a] \<Rightarrow> length a = 8 \<and> isValidCharset a
           | [a, b] \<Rightarrow> length a = 8 \<and> isValidDate a \<and> length b = 8 \<and> isValidCharset b
           | [a, b, c] \<Rightarrow> length a \<le> 8 \<and> length b = 8 \<and> isValidDate b \<and> length c = 8 \<and> isValidCharset c
           | _ \<Rightarrow> False)"

section \<open>What the codes look like\<close>

lemma split_loop_append:
  "sep \<notin> set s \<Longrightarrow> split_loop sep acc (s @ sep # t) = (acc @ s) # split_loop sep [] t"
  by (induction s arbitrary: acc) auto

lemma split_loop_none: "sep \<notin> set s \<Longrightarrow> split_loop sep acc s = [acc @ s]"
  by (induction s arbitrary: acc) auto

lemma charset_facts: "length charset = 31" "distinct charset" "CHR ''-'' \<notin> set charset"
  by (simp_all add: charset_def)

lemma random_part_facts:
  assumes "list_all (\<lambda>n. n < 31) rnd"
  shows "isValidCharset (random_part rnd)" and "CHR ''-'' \<notin> set (random_part rnd)"
    and "length (random_part rnd) = length rnd"
proof -
  have "charset ! n \<in> set charset" if "n \<in> set rnd" for n
    using that assms charset_facts(1) by (simp add: list_all_iff)
  then show "isValidCharset (random_part rnd)" "CHR ''-'' \<notin> set (random_part rnd)"
    using charset_facts(3) by (auto simp: isValidCharset_def random_part_def list_all_iff)
qed (simp add: random_part_def)

lemma random_part_inject:
  assumes "list_all (\<lambda>n. n < 31) rnd" and "list_all (\<lambda>n. n < 31) rnd'" and "random_part rnd = random_part rnd'"
  shows "rnd = rnd'"
proof (rule nth_equalityI)
  show len: "length rnd = length rnd'" using arg_cong [OF assms(3), of length] by (simp add: random_part_def)
  fix i assume i: "i < length rnd"
  then have "charset ! (rnd ! i) = charset ! (rnd' ! i)"
    using arg_cong [OF assms(3), of "\<lambda>s. s ! i"] len by (simp add: random_part_def)
  moreover have "rnd ! i < length charset" "rnd' ! i < length charset"
    using assms(1,2) i len charset_facts(1) by (simp_all add: list_all_length)
  ultimately show "rnd ! i = rnd' ! i" using charset_facts(2) nth_eq_iff_index_eq by blast
qed

lemma parse_two: "a < 10 \<Longrightarrow> b < 10 \<Longrightarrow> parse_digits [digit_char a, digit_char b] acc = Some (100 * acc + int (10 * a + b))"
  by (simp add: digit_val_char)

lemma format_date_valid:
  assumes "y < 10000" and "valid_date (int y) (int m) (int d)"
  shows "isValidDate (format_date (y, m, d))" and "length (format_date (y, m, d)) = 8"
    and "CHR ''-'' \<notin> set (format_date (y, m, d))"
proof -
  have small: "m < 100" "d < 100" "y div 100 < 100" "y mod 100 < 100"
    using assms by (auto simp: valid_date_def days_in_def split: if_splits)
  have two: "parse_digits (two_digits n @ s) acc = parse_digits s (100 * acc + int n)" if "n < 100" for n acc s
  proof -
    have "n div 10 < 10" using that by simp
    then have "parse_digits (two_digits n @ s) acc =
        parse_digits s (10 * (10 * acc + int (n div 10)) + int (n mod 10))"
      by (simp add: two_digits_def digit_val_char del: of_nat_mod of_nat_div)
    also have "10 * (10 * acc + int (n div 10)) + int (n mod 10) = 100 * acc + int n"
    proof -
      have "10 * b + c = k \<Longrightarrow> 10 * (10 * acc + b) + c = 100 * acc + k" for b c k :: int by simp
      moreover have "10 * int (n div 10) + int (n mod 10) = int n"
        by (metis mult_div_mod_eq of_nat_add of_nat_mult of_nat_numeral)
      ultimately show ?thesis .
    qed
    finally show ?thesis .
  qed
  have len: "length (two_digits n) = 2" for n by (simp add: two_digits_def)
  have "parse_digits (take 4 (format_date (y, m, d))) 0 = Some (int y)"
    using two [OF small(3)] two [OF small(4), where s = "[]"]
    by (simp add: format_date_def len) (metis mult_div_mod_eq of_nat_add of_nat_mult of_nat_numeral)
  moreover have "parse_digits (take 2 (drop 4 (format_date (y, m, d)))) 0 = Some (int m)"
    "parse_digits (drop 6 (format_date (y, m, d))) 0 = Some (int d)"
    using two [OF small(1), where s = "[]"] two [OF small(2), where s = "[]"]
    by (simp_all add: format_date_def len)
  ultimately show "isValidDate (format_date (y, m, d))" "length (format_date (y, m, d)) = 8"
    using assms(2) by (simp_all add: isValidDate_def format_date_def len)
  have "CHR ''-'' \<notin> set (two_digits n)" if "n < 100" for n
  proof -
    have "n div 10 < 10" "n mod 10 < 10" using that by simp_all
    from this [THEN digit_char_sign] show ?thesis by (auto simp: two_digits_def)
  qed
  then show "CHR ''-'' \<notin> set (format_date (y, m, d))" using small by (auto simp: format_date_def)
qed

text \<open>No step of the prefix makes a separator out of other characters.\<close>

lemma case_dash: "to_upper c = CHR ''-'' \<longleftrightarrow> c = CHR ''-''" "to_lower c = CHR ''-'' \<longleftrightarrow> c = CHR ''-''"
proof -
  have "(char_of n :: char) \<noteq> CHR ''-''" if "46 \<le> n" "n < 256" for n :: nat
  proof
    assume "(char_of n :: char) = CHR ''-''"
    then have "of_char (char_of n :: char) = (of_char (CHR ''-'') :: nat)" by simp
    with that show False by (simp add: of_char_of take_bit_eq_mod)
  qed
  then show "to_upper c = CHR ''-'' \<longleftrightarrow> c = CHR ''-''" "to_lower c = CHR ''-'' \<longleftrightarrow> c = CHR ''-''"
    by (auto simp: to_upper_def to_lower_def Let_def)
qed

lemma case_dash_set [simp]:
  "CHR ''-'' \<in> set (ToUpper s) \<longleftrightarrow> CHR ''-'' \<in> set s" "CHR ''-'' \<in> set (ToLower s) \<longleftrightarrow> CHR ''-'' \<in> set s"
  unfolding ToUpper_def ToLower_def set_map image_iff by (metis case_dash)+

lemma not_in_take: "c \<notin> set s \<Longrightarrow> c \<notin> set (take n s)"
  by (meson in_set_takeD)

lemma fields_chars: "w \<in> set (fields_loop acc s) \<Longrightarrow> set w \<subseteq> set acc \<union> set s"
  by (induction acc s rule: fields_loop.induct) (auto split: if_splits)

lemma initials_chars:
  "CHR ''-'' \<notin> set p \<Longrightarrow> \<forall>w \<in> set ws. CHR ''-'' \<notin> set w \<Longrightarrow> CHR ''-'' \<notin> set (initials ws p)"
proof (induction ws p rule: initials.induct)
  case (2 w ws p)
  have "CHR ''-'' \<notin> set (take 4 (filter is_digit w))" using 2(4) by (auto dest: in_set_takeD)
  moreover have "w \<noteq> [] \<Longrightarrow> to_upper (hd w) \<noteq> CHR ''-''" using 2(4) case_dash(1) [of "hd w"] by (cases w) auto
  ultimately show ?case using 2 by (auto simp: Let_def)
qed simp

lemma fill_word_chars: "CHR ''-'' \<notin> set r \<Longrightarrow> CHR ''-'' \<notin> set (fill_word cs r)"
proof (induction cs r rule: fill_word.induct)
  case (2 c cs r)
  have "\<not> is_upper (CHR ''-'')" "\<not> is_digit (CHR ''-'')" by (simp_all add: is_upper_def is_digit_def)
  with 2 show ?case by (cases "c = CHR ''-''") auto
qed simp

lemma fill_words_chars: "CHR ''-'' \<notin> set r \<Longrightarrow> CHR ''-'' \<notin> set (fill_words ws r)"
  by (induction ws r rule: fill_words.induct) (auto simp: fill_word_chars)

lemma fill_word_length: "length r \<le> 6 \<Longrightarrow> length (fill_word cs r) \<le> 6"
  by (induction cs r rule: fill_word.induct) auto

lemma fill_words_length: "length r \<le> 6 \<Longrightarrow> length (fill_words ws r) \<le> 6"
  by (induction ws r rule: fill_words.induct) (auto simp: fill_word_length)

lemma prefix_length: "length (generateEventPrefix s) \<le> 6"
proof -
  have "length (fill_words ws r) \<le> 6" if "\<not> length r > 6" for ws r
    using that fill_words_length by simp
  then show ?thesis by (auto simp: generateEventPrefix_def Let_def)
qed

lemma prefix_no_dash:
  assumes "CHR ''-'' \<notin> set s"
  shows "CHR ''-'' \<notin> set (generateEventPrefix s)"
proof -
  have "set (TrimSpace s) \<subseteq> set s"
    unfolding TrimSpace_def by (auto dest!: set_dropWhileD)
  then have e: "CHR ''-'' \<notin> set (ToLower (TrimSpace s))"
    using assms by auto
  have u: "CHR ''-'' \<notin> set (take 6 (ToUpper t))" if "CHR ''-'' \<notin> set t" for t
    using that by (intro not_in_take) simp
  let ?ws = "meaningful (Fields (ToLower (TrimSpace s)))"
  have w: "\<forall>w \<in> set ?ws. CHR ''-'' \<notin> set w"
  proof
    fix w assume "w \<in> set ?ws"
    then have "w \<in> set (fields_loop [] (ToLower (TrimSpace s)))" by (simp add: meaningful_def Fields_def)
    from fields_chars [OF this] e show "CHR ''-'' \<notin> set w" by auto
  qed
  have i: "CHR ''-'' \<notin> set (initials ?ws [])" using initials_chars [of "[]" ?ws] w by simp
  have h: "?ws \<noteq> [] \<Longrightarrow> CHR ''-'' \<notin> set (hd ?ws)" using w by (cases ?ws) auto
  have f: "CHR ''-'' \<notin> set (take 6 (filter (\<lambda>c. c \<noteq> CHR '' '') (ToUpper t)))" if "CHR ''-'' \<notin> set t" for t
    using that by (intro not_in_take) simp
  show ?thesis
    using u [OF h] not_in_take [OF i] i fill_words_chars [OF i, of ?ws] f [OF e]
    by (simp add: generateEventPrefix_def Let_def)
qed

text \<open>
  Generated order codes are valid and tell orders apart. For an event name without a
  dash, a date and eight random characters, the code passes \<open>ValidateOrderCode\<close>, its
  prefix has at most six characters, and two codes of one event and day are equal only if their
  random parts are, all 31 to the eighth of them.
\<close>

theorem order_code_valid:
  assumes "CHR ''-'' \<notin> set eventName" and "y < 10000" and "valid_date (int y) (int m) (int d)"
    and "length rnd = 8" and "list_all (\<lambda>n. n < 31) rnd" and "list_all (\<lambda>n. n < 31) rnd'"
  shows "ValidateOrderCode (GenerateOrderCodeWithEventPrefix (y, m, d) rnd eventName) \<and>
     length (generateEventPrefix eventName) \<le> 6 \<and>
     (GenerateOrderCodeWithEventPrefix (y, m, d) rnd eventName =
      GenerateOrderCodeWithEventPrefix (y, m, d) rnd' eventName \<longleftrightarrow> rnd = rnd')"
proof -
  note dt = format_date_valid [OF assms(2,3)] and rp = random_part_facts [OF assms(5)]
  note p = prefix_no_dash [OF assms(1)]
  let ?d = "format_date (y, m, d)" and ?p = "generateEventPrefix eventName"
  have "Split (CHR ''-'') (?p @ CHR ''-'' # ?d @ CHR ''-'' # random_part rnd) = [?p, ?d, random_part rnd]"
    using split_loop_append [OF p] split_loop_append [OF dt(3)] split_loop_none [OF rp(2)]
    by (simp add: Split_def)
  then have "ValidateOrderCode (GenerateOrderCodeWithEventPrefix (y, m, d) rnd eventName)"
    using prefix_length [of eventName] dt(1,2) rp(1,3) assms(4)
    by (simp add: ValidateOrderCode_def GenerateOrderCodeWithEventPrefix_def)
  moreover have "GenerateOrderCodeWithEventPrefix (y, m, d) rnd eventName =
      GenerateOrderCodeWithEventPrefix (y, m, d) rnd' eventName \<longleftrightarrow> rnd = rnd'"
    using random_part_inject [OF assms(5,6)] by (auto simp: GenerateOrderCodeWithEventPrefix_def)
  ultimately show ?thesis using prefix_length by blast
qed

lemma order_code_valid_witness:
  "ValidateOrderCode ''TB-TSE202-20251008-A3B7K9M2'' \<and> generateEventPrefix ''Taylor Swift Eras Tour 2024'' = ''TSE202''"
proof -
  have g: "generateEventPrefix ''Taylor Swift Eras Tour 2024'' = ''TSE202''" by code_simp
  have c: "GenerateOrderCodeWithEventPrefix (2025, 10, 8) [0, 24, 1, 28, 9, 30, 10, 23] ''Taylor Swift Eras Tour 2024'' =
      ''TB-TSE202-20251008-A3B7K9M2''"
    by (simp add: GenerateOrderCodeWithEventPrefix_def g format_date_def two_digits_def digit_char_def
        random_part_def charset_def)
  have "ValidateOrderCode (GenerateOrderCodeWithEventPrefix (2025, 10, 8) [0, 24, 1, 28, 9, 30, 10, 23]
      ''Taylor Swift Eras Tour 2024'')"
    using order_code_valid [of "''Taylor Swift Eras Tour 2024''" 2025 10 8 "[0, 24, 1, 28, 9, 30, 10, 23]"
        "[0, 24, 1, 28, 9, 30, 10, 23]"] by (simp add: valid_date_def days_in_def)
  then show ?thesis using g c by simp
qed

end
