(* ===== verification/Order_Service.thy ===== *)
theory Order_Service
  imports Order_Saga Order_Budget Order_Code
begin

text \<open>
  The order service (\<open>order-svc/internal/order/service\<close>): creating an order behind the
  buyer's purchase slot, resuming the order a slot names, cancelling, payment results and
  reads. A request runs over the world of the workflows; its calls may be lost like an activity's,
  but are not retried. Other services are functions of \<open>svc_ext\<close>; so are the random
  part of a code, what other requests write between a lost claim and the read of its
  winner, and how far the saga's run got before the caller's deadline. A nil dereference, which
  ends the process, is the outcome \<open>Panicked\<close>.
\<close>

section \<open>Data\<close>

record event_info =
  evName :: string
  evStatus :: int

record event_config =
  ecMaxTicketsPerOrder :: int
  ecAllowWaitRoom :: bool

record checkout_token_claim =
  ctSessionID :: string
  ctUserID :: string
  ctEventID :: string

record order_item_input =
  oiTicketClassID :: string
  oiQuantity :: int

record create_order_input =
  ordCheckoutToken :: string
  ordUserID :: string
  ordUserFullName :: string
  ordEmail :: string
  ordPhone :: string
  ordEventID :: string
  ordCurrency :: string
  ordRedirectUrl :: string
  ordPaymentMethod :: string
  ordItems :: "order_item_input list"

record create_order_output =
  outOrder :: order
  outOrderItems :: "order_item list"
  outPaymentUrl :: string

text \<open>How the saga's run ends for the caller: \<open>Abandoned\<close> says whether the cancel got through.\<close>

datatype saga_run = NotStarted | Ran | Abandoned bool

datatype 'a outcome = Returned 'a | Panicked

record svc_ext = ext +
  sFindEvent :: "string \<Rightarrow> grpc_status + event_info option"
  sGetConfig :: "string \<Rightarrow> grpc_status + event_config option"
  sConfigLast :: bool
  sVerify :: "string \<Rightarrow> checkout_token_claim option"
  sPaymentUrl :: "string \<Rightarrow> grpc_status + string"
  sDate :: "time \<Rightarrow> nat \<times> nat \<times> nat"
  sRandom :: "nat list"
  sOthers :: "nat \<Rightarrow> otable \<Rightarrow> otable"
  sRun :: saga_run
  sLate :: "world \<Rightarrow> world"
  sCreateTimeout :: duration

type_synonym 'a svc = "world \<Rightarrow> world \<times> (order_error + 'a)"

text \<open>One call to another process.\<close>

definition svc_call :: "'a svc \<Rightarrow> 'a svc" where
  "svc_call f w =
     (case wEnv w of
        [] \<Rightarrow> f w
      | (t, Delivered) # es \<Rightarrow> f (w\<lparr>wNow := t, wEnv := es\<rparr>)
      | (t, LostRequest) # es \<Rightarrow> (w\<lparr>wNow := t, wEnv := es\<rparr>, Inl (ErrStatus Unavailable ''lost request''))
      | (t, LostReply) # es \<Rightarrow>
          (fst (f (w\<lparr>wNow := t, wEnv := es\<rparr>)), Inl (ErrStatus Unavailable ''lost reply'')))"

text \<open>The error of a call to another service is a gRPC status.\<close>

definition status_error :: "grpc_status + 'a \<Rightarrow> order_error + 'a" where
  "status_error r = (case r of Inl (c, m) \<Rightarrow> Inl (ErrStatus c m) | Inr a \<Rightarrow> Inr a)"

section \<open>Helpers\<close>

definition EVENT_STATUS_PUBLISHED :: int where "EVENT_STATUS_PUBLISHED = 2"

definition generatePaymentIdempotencyKey :: "string \<Rightarrow> string \<Rightarrow> string" where
  "generatePaymentIdempotencyKey orderCode provider = orderCode @ '':'' @ provider"

definition validateCheckoutToken :: "svc_ext \<Rightarrow> create_order_input \<Rightarrow> order_error + checkout_token_claim" where
  "validateCheckoutToken x i =
     (if ordCheckoutToken i = [] then Inl ErrInvalidCheckoutToken
      else case sVerify x (ordCheckoutToken i) of
             None \<Rightarrow> Inl ErrInvalidCheckoutToken
           | Some p \<Rightarrow> if ctUserID p \<noteq> ordUserID i \<or> ctEventID p \<noteq> ordEventID i
                       then Inl ErrInvalidCheckoutToken else Inr p)"

fun tickets_loop :: "order_item_input list \<Rightarrow> int \<Rightarrow> int" where
  "tickets_loop [] n = n"
| "tickets_loop (it # its) n = tickets_loop its (int32 (n + oiQuantity it))"

definition ticketsInOrder :: "order_item_input list \<Rightarrow> int" where
  "ticketsInOrder its = tickets_loop its 0"

definition mapWorkflowError :: "act_error \<Rightarrow> order_error" where
  "mapWorkflowError e =
     (case e of
        AppError s \<Rightarrow>
          if s = ''InsufficientInventory'' then ErrNotEnoughTickets
          else if s = ''OrderCodeCollision'' then ErrOrderCreationFailed
          else if s = ''OrderAlreadyProcessed'' then ErrOrderAlreadyProcessed
          else if s = ''OrderNotFound'' then ErrOrderNotFound
          else ErrOther s
      | Retryable s \<Rightarrow> ErrOther s)"

definition isPaymentRecordMissing :: "order_error \<Rightarrow> bool" where
  "isPaymentRecordMissing e \<longleftrightarrow>
     (case e of ErrStatus c m \<Rightarrow> c = PermissionDenied \<or> c = NotFound | _ \<Rightarrow> False)"

section \<open>The purchase slot\<close>

definition claimAttempts :: nat where "claimAttempts = 3"
definition purchaseSlotSettleMargin :: duration where "purchaseSlotSettleMargin = 30 * second"

definition purchaseSlotSettleWindow :: "svc_ext \<Rightarrow> duration" where
  "purchaseSlotSettleWindow x = sCreateTimeout x + CreateOrderSlotBudget + purchaseSlotSettleMargin"

definition svc_GetByCode :: "string \<Rightarrow> order svc" where
  "svc_GetByCode code = svc_call (\<lambda>w. (w, GetByCode code (wTable w)))"

definition svc_ListItems :: "string \<Rightarrow> order_item list svc" where
  "svc_ListItems code = svc_call (\<lambda>w. (w, Inr (ListItemByOrderCode code (wTable w))))"

definition releasePurchaseSlot :: "string \<Rightarrow> string \<Rightarrow> world \<Rightarrow> world" where
  "releasePurchaseSlot dedupeKey code w =
     fst (svc_call (\<lambda>w. (w\<lparr>wTable := ReleasePurchaseSlot dedupeKey code (wTable w)\<rparr>, Inr ())) w)"

definition svc_payment_url :: "svc_ext \<Rightarrow> string \<Rightarrow> string \<Rightarrow> string svc" where
  "svc_payment_url x code method = svc_call (\<lambda>w.
     (w, status_error (sPaymentUrl x (generatePaymentIdempotencyKey code method))))"

definition resumeExistingOrder ::
  "svc_ext \<Rightarrow> string \<Rightarrow> string \<Rightarrow> time \<Rightarrow> string \<Rightarrow> create_order_output svc" where
  "resumeExistingOrder x dedupeKey code claimedAt method w =
     (case svc_GetByCode code w of
        (w1, Inl ErrRepoOrderNotFound) \<Rightarrow>
          if wNow w1 - claimedAt < purchaseSlotSettleWindow x
          then (w1, Inl ErrPurchaseSlotUnsettled)
          else (releasePurchaseSlot dedupeKey code w1, Inl ErrPurchaseSlotUnsettled)
      | (w1, Inl e) \<Rightarrow> (w1, Inl e)
      | (w1, Inr ord) \<Rightarrow>
          if oStatus ord \<in> {OrderStatusCancelled, OrderStatusPaymentFailed, OrderStatusTimeout,
                           OrderStatusRefundRequired, OrderStatusRefunded}
          then (releasePurchaseSlot dedupeKey code w1, Inl ErrPurchaseSlotReleased)
          else if oStatus ord \<noteq> OrderStatusPending \<and> oStatus ord \<noteq> OrderStatusCompleted
          then (w1, Inl ErrOrderAlreadyProcessed)
          else case svc_ListItems (oCode ord) w1 of
                 (w2, Inl e) \<Rightarrow> (w2, Inl e)
               | (w2, Inr its) \<Rightarrow>
                   (case svc_payment_url x (oCode ord) method w2 of
                      (w3, Inl e) \<Rightarrow>
                        (w3, Inl (if oStatus ord = OrderStatusPending \<and> isPaymentRecordMissing e
                                  then ErrPurchaseSlotUnsettled else e))
                    | (w3, Inr url) \<Rightarrow>
                        (w3, Inr \<lparr>outOrder = ord, outOrderItems = its, outPaymentUrl = url\<rparr>)))"

definition svc_Claim :: "svc_ext \<Rightarrow> nat \<Rightarrow> string \<Rightarrow> string \<Rightarrow> claim_result svc" where
  "svc_Claim x n dedupeKey code = svc_call (\<lambda>w.
     case ClaimPurchaseSlot (wNow w) dedupeKey code (sOthers x n) (wTable w) of
       (t, r) \<Rightarrow> (w\<lparr>wTable := t\<rparr>, Inr r))"

fun claim_loop :: "svc_ext \<Rightarrow> string \<Rightarrow> string \<Rightarrow> string \<Rightarrow> nat \<Rightarrow> create_order_output option svc" where
  "claim_loop x dedupeKey code method 0 w = (w, Inl ErrPurchaseSlotUnsettled)"
| "claim_loop x dedupeKey code method (Suc n) w =
     (case svc_Claim x n dedupeKey code w of
        (w1, Inl e) \<Rightarrow> (w1, Inl e)
      | (w1, Inr (SlotWon t)) \<Rightarrow> (w1, Inr None)
      | (w1, Inr (SlotTaken heldBy claimedAt)) \<Rightarrow>
          (case resumeExistingOrder x dedupeKey heldBy claimedAt method w1 of
             (w2, Inr out) \<Rightarrow> (w2, Inr (Some out))
           | (w2, Inl e) \<Rightarrow> if e = ErrPurchaseSlotReleased
                            then claim_loop x dedupeKey code method n w2 else (w2, Inl e)))"

definition claimPurchaseSlot :: "svc_ext \<Rightarrow> string \<Rightarrow> string \<Rightarrow> string \<Rightarrow> create_order_output option svc" where
  "claimPurchaseSlot x dedupeKey code method = claim_loop x dedupeKey code method claimAttempts"

section \<open>Create\<close>

text \<open>The two lookups run side by side; when both fail, the later one's error is reported.\<close>

definition lookup_event :: "svc_ext \<Rightarrow> string \<Rightarrow> order_error + event_info \<times> event_config" where
  "lookup_event x eventID =
     (let ev = (case status_error (sFindEvent x eventID) of
                  Inl e \<Rightarrow> Inl e | Inr None \<Rightarrow> Inl ErrEventNotFound | Inr (Some e) \<Rightarrow> Inr e);
          cfg = (case status_error (sGetConfig x eventID) of
                  Inl e \<Rightarrow> Inl e | Inr None \<Rightarrow> Inl ErrEventConfigNotFound | Inr (Some c) \<Rightarrow> Inr c)
      in case (ev, cfg) of
           (Inl e, Inl e') \<Rightarrow> Inl (if sConfigLast x then e' else e)
         | (Inl e, Inr _) \<Rightarrow> Inl e
         | (Inr _, Inl e') \<Rightarrow> Inl e'
         | (Inr e, Inr c) \<Rightarrow> Inr (e, c))"

definition svc_FindMany :: "svc_ext \<Rightarrow> string \<Rightarrow> string list \<Rightarrow> pb_ticket_class list svc" where
  "svc_FindMany x eventID ids = svc_call (\<lambda>w.
     (w, status_error (rpc_FindManyTicketClass (eFmt x) \<lparr>fmEventId = eventID, fmIds = ids\<rparr> (wInv w))))"

text \<open>The order's lines and amount; \<open>None\<close> is an item whose class the reply does not hold.\<close>

fun order_lines ::
  "(string \<times> pb_ticket_class) list \<Rightarrow> order_item_input list \<Rightarrow> int \<Rightarrow> (create_item_input list \<times> int) option" where
  "order_lines m [] amt = Some ([], amt)"
| "order_lines m (it # its) amt =
     (case map_of m (oiTicketClassID it) of
        None \<Rightarrow> None
      | Some tc \<Rightarrow>
          let tt = int64 (pPriceCents tc * oiQuantity it)
          in (case order_lines m its (int64 (amt + tt)) of
                None \<Rightarrow> None
              | Some (ls, amt2) \<Rightarrow>
                  Some (\<lparr>wiTicketClassID = oiTicketClassID it, wiTicketClassName = pName tc,
                         wiPriceAtPurchase = pPriceCents tc, wiQuantity = oiQuantity it,
                         wiTotalAmount = tt\<rparr> # ls, amt2)))"

definition workflow_input ::
  "create_order_input \<Rightarrow> event_info \<Rightarrow> string \<Rightarrow> string \<Rightarrow> create_item_input list \<Rightarrow> int \<Rightarrow> create_workflow_input" where
  "workflow_input i ev ssID code ls amt =
     \<lparr>wfOrderCode = code, wfSessionID = ssID, wfUserID = ordUserID i, wfEmail = ordEmail i,
      wfPhone = ordPhone i, wfUserFullName = ordUserFullName i, wfEventID = ordEventID i,
      wfEventName = evName ev, wfCurrency = ''VND'', wfTotalAmount = amt, wfItems = ls,
      wfPaymentProvider = ordPaymentMethod i, wfRedirectUrl = ordRedirectUrl i,
      wfIdempotencyKey = generatePaymentIdempotencyKey code (ordPaymentMethod i)\<rparr>"

text \<open>
  The delayed run of ExpireOrder. Temporal keeps one run under a workflow id: starting an id that
  runs already changes nothing.
\<close>

definition GetExpireOrderWorkflowID :: "string \<Rightarrow> string" where
  "GetExpireOrderWorkflowID code = ''ExpireOrder:'' @ code"

definition start_delayed ::
  "string \<Rightarrow> string \<Rightarrow> time \<Rightarrow> (string \<times> string \<times> time) list \<Rightarrow> (string \<times> string \<times> time) list" where
  "start_delayed wid code due cs =
     (if map_of cs wid = None then (wid, code, due) # cs else cs)"

definition startCheckoutClock :: "string \<Rightarrow> world \<Rightarrow> world" where
  "startCheckoutClock code w =
     fst (svc_call (\<lambda>w. (w\<lparr>wClocks := start_delayed (GetExpireOrderWorkflowID code) code
       (wNow w + CheckoutLifetime) (wClocks w)\<rparr>, Inr ())) w)"

text \<open>From the ticket classes on, once the slot is won.\<close>

definition create_under_slot ::
  "svc_ext \<Rightarrow> create_order_input \<Rightarrow> event_info \<Rightarrow> string \<Rightarrow> string \<Rightarrow> string \<Rightarrow> world
     \<Rightarrow> world \<times> (order_error + create_order_output) outcome" where
  "create_under_slot x i ev ssID dedupeKey code w =
     (case svc_FindMany x (ordEventID i) (map oiTicketClassID (ordItems i)) w of
        (w1, Inl e) \<Rightarrow> (releasePurchaseSlot dedupeKey code w1, Returned (Inl e))
      | (w1, Inr tcs) \<Rightarrow>
          if tcs = [] then (releasePurchaseSlot dedupeKey code w1, Returned (Inl ErrTicketClassNotFound))
          else case order_lines (rev (map (\<lambda>tc. (pId tc, tc)) tcs)) (ordItems i) 0 of
                 None \<Rightarrow> (w1, Panicked)
               | Some (ls, amt) \<Rightarrow>
                   (case sRun x of
                      NotStarted \<Rightarrow>
                        (releasePurchaseSlot dedupeKey code w1, Returned (Inl (ErrOther ''start workflow'')))
                    | Abandoned cancelled \<Rightarrow>
                        (let w2 = sLate x w1
                         in (if cancelled then releasePurchaseSlot dedupeKey code w2 else w2,
                             Returned (Inl ErrRequestTimeout)))
                    | Ran \<Rightarrow>
                        (case CreateOrder (ext.truncate x) (workflow_input i ev ssID code ls amt) w1 of
                           (w2, Inl e) \<Rightarrow>
                             (releasePurchaseSlot dedupeKey code w2, Returned (Inl (mapWorkflowError e)))
                         | (w2, Inr res) \<Rightarrow>
                             (startCheckoutClock code w2,
                              Returned (Inr \<lparr>outOrder = wrOrder res, outOrderItems = wrOrderItems res,
                                                 outPaymentUrl = wrPaymentUrl res\<rparr>)))))"

definition Create :: "svc_ext \<Rightarrow> create_order_input \<Rightarrow> world \<Rightarrow> world \<times> (order_error + create_order_output) outcome" where
  "Create x i w =
     (case lookup_event x (ordEventID i) of
        Inl e \<Rightarrow> (w, Returned (Inl e))
      | Inr (ev, cfg) \<Rightarrow>
          if evStatus ev \<noteq> EVENT_STATUS_PUBLISHED then (w, Returned (Inl ErrEventNotReadyForSale))
          else if ecMaxTicketsPerOrder cfg > 0 \<and> ticketsInOrder (ordItems i) > ecMaxTicketsPerOrder cfg
          then (w, Returned (Inl ErrTooManyTicketsInOrder))
          else
            let code = GenerateOrderCodeWithEventPrefix (sDate x (wNow w)) (sRandom x) (evName ev)
            in case (if ecAllowWaitRoom cfg
                     then (case validateCheckoutToken x i of Inl e \<Rightarrow> Inl e | Inr c \<Rightarrow> Inr (ctSessionID c))
                     else Inr []) of
                 Inl e \<Rightarrow> (w, Returned (Inl e))
               | Inr ssID \<Rightarrow>
                   let dedupeKey = PurchaseSlotKey ssID (ordUserID i) (ordEventID i)
                   in (case claimPurchaseSlot x dedupeKey code (ordPaymentMethod i) w of
                         (w1, Inl e) \<Rightarrow> (w1, Returned (Inl e))
                       | (w1, Inr (Some existing)) \<Rightarrow> (w1, Returned (Inr existing))
                       | (w1, Inr None) \<Rightarrow> create_under_slot x i ev ssID dedupeKey code w1))"

section \<open>Payment results, cancelling, reading\<close>

definition releaseTickets :: "string \<Rightarrow> unit svc" where
  "releaseTickets code = svc_call (\<lambda>w.
     case on_inv (\<lambda>now. rpc_Release code) w of
       (w', Inl (c, m)) \<Rightarrow> (w', Inl (ErrStatus c m))
     | (w', Inr u) \<Rightarrow> (w', Inr ()))"

definition publishCheckoutFailedEvent :: "string \<Rightarrow> string \<Rightarrow> string \<Rightarrow> unit svc" where
  "publishCheckoutFailedEvent ss u e = svc_call (\<lambda>w. (w\<lparr>wPub := wPub w @ [CheckoutFailed ss u e]\<rparr>, Inr ()))"

definition by_code :: "string \<Rightarrow> filter_order" where
  "by_code code = \<lparr>fCode = code, fUserID = [], fEventID = [], fSessionID = [], fStatus = None\<rparr>"

definition not_found :: "order_error \<Rightarrow> order_error" where
  "not_found e = (if e = ErrRepoOrderNotFound then ErrOrderNotFound else e)"

definition svc_GetOne :: "filter_order \<Rightarrow> order svc" where
  "svc_GetOne f = svc_call (\<lambda>w. (w, GetOne f (wTable w)))"

definition handlePaymentFailure :: "string \<Rightarrow> unit svc" where
  "handlePaymentFailure code w =
     (let w1 = fst (releaseTickets code w)
      in case svc_GetOne (by_code code) w1 of
           (w2, Inl e) \<Rightarrow> (w2, Inl (not_found e))
         | (w2, Inr ord) \<Rightarrow>
             (case svc_call (on_table (\<lambda>now. UpdateOrderRow now (oCode ord) OrderStatusPaymentFailed None)) w2 of
                (w3, Inl e) \<Rightarrow> (w3, Inl e)
              | (w3, Inr _) \<Rightarrow>
                  (fst (publishCheckoutFailedEvent (oSessionID ord) (oUserID ord) (oEventID ord) w3), Inr ())))"

definition HandlePaymentFailed :: "string \<Rightarrow> unit svc" where
  "HandlePaymentFailed code = handlePaymentFailure code"

text \<open>The workflow is awaited without a deadline of the service's own.\<close>

definition HandlePaymentCompleted :: "string \<Rightarrow> unit svc" where
  "HandlePaymentCompleted code w =
     (case ConfirmOrder code w of
        (w', Inl e) \<Rightarrow> (w', Inl (mapWorkflowError e))
      | (w', Inr u) \<Rightarrow> (w', Inr ()))"

definition ownedOrder :: "string \<Rightarrow> string \<Rightarrow> order svc" where
  "ownedOrder code userID w =
     (case svc_GetByCode code w of
        (w1, Inl e) \<Rightarrow> (w1, Inl (not_found e))
      | (w1, Inr ord) \<Rightarrow> (w1, if oUserID ord \<noteq> userID then Inl ErrOrderNotFound else Inr ord))"

definition Cancel :: "string \<Rightarrow> string \<Rightarrow> unit svc" where
  "Cancel code userID w =
     (case ownedOrder code userID w of
        (w1, Inl e) \<Rightarrow> (w1, Inl e)
      | (w1, Inr ord) \<Rightarrow>
          if oStatus ord \<noteq> OrderStatusPending then (w1, Inl ErrOrderNotPending)
          else case svc_call (on_table (\<lambda>now. CancelIfPending now (oCode ord))) w1 of
                 (w2, Inl e) \<Rightarrow> (w2, Inl ErrOrderCancellationFailed)
               | (w2, Inr (_, cancelled)) \<Rightarrow>
                   if \<not> cancelled then (w2, Inl ErrOrderNotPending)
                   else let w3 = fst (releaseTickets (oCode ord) w2)
                        in (if oSessionID ord \<noteq> []
                            then fst (publishCheckoutFailedEvent (oSessionID ord) (oUserID ord) (oEventID ord) w3)
                            else w3, Inr ()))"

definition GetByID :: "string \<Rightarrow> string \<Rightarrow> (order \<times> order_item list) svc" where
  "GetByID code userID w =
     (case ownedOrder code userID w of
        (w1, Inl e) \<Rightarrow> (w1, Inl e)
      | (w1, Inr ord) \<Rightarrow>
          (case svc_ListItems code w1 of
             (w2, Inl e) \<Rightarrow> (w2, Inl e)
           | (w2, Inr its) \<Rightarrow> (w2, Inr (ord, its))))"

definition svc_GetOneOrder :: "filter_order \<Rightarrow> order svc" where
  "svc_GetOneOrder f w =
     (case svc_GetOne f w of
        (w1, Inl e) \<Rightarrow> (w1, Inl (not_found e))
      | (w1, Inr ord) \<Rightarrow> (w1, Inr ord))"

definition svc_GetMany :: "page_cut \<Rightarrow> filter_order \<Rightarrow> paginator_query \<Rightarrow> (order list \<times> paginator) svc" where
  "svc_GetMany fits f pq = svc_call (\<lambda>w. (w, GetManyOrders fits f pq (wTable w)))"

definition svc_List :: "page_cut \<Rightarrow> filter_order \<Rightarrow> order list svc" where
  "svc_List fits f = svc_call (\<lambda>w. (w, ListOrders fits f (wTable w)))"

end
