(* ===== verification/Order_Service_Props.thy ===== *)
theory Order_Service_Props
  imports Order_Service
begin

text \<open>
  What the order service guarantees. A request that finds the buyer's purchase slot taken never
  takes it from a live order, nor from a create that may still write one; a create leaves the
  slot with its order or gives it back, except where it panics; a cancel moves stock only once
  the order has left PENDING; and what a late payment failure does to a paid order.
\<close>

section \<open>Calls\<close>

lemma svc_call_frame:
  assumes "env_free g" and "\<And>w. g (fst (f w)) = g w"
  shows "g (fst (svc_call f w)) = g w"
  using assms by (auto simp: svc_call_def env_free_def split: list.splits fault.splits)

lemma svc_call_calm [simp]: "wEnv w = [] \<Longrightarrow> svc_call f w = f w"
  by (simp add: svc_call_def)

text \<open>Every reading of the clock, now and at the coming calls, is before \<open>T\<close>.\<close>

definition before :: "time \<Rightarrow> world \<Rightarrow> bool" where
  "before T w \<longleftrightarrow> wNow w < T \<and> list_all (\<lambda>(t, f). t < T) (wEnv w)"

text \<open>A call starts, if it starts, on the same data with a later clock; its answer may get lost.\<close>

lemma svc_call_cases:
  assumes "svc_call f w = (w', r)"
  obtains v where "wTable v = wTable w" "wInv v = wInv w" "wPub v = wPub w"
    "\<And>T. before T w \<Longrightarrow> before T v" "wEnv w = [] \<Longrightarrow> v = w"
    "f v = (w', r) \<or> (w' = v \<or> w' = fst (f v)) \<and> (\<exists>m. r = Inl (ErrStatus Unavailable m))"
proof (cases "wEnv w")
  case Nil
  with assms show ?thesis by (intro that [of w]) (simp_all add: svc_call_def)
next
  case (Cons te es)
  with assms show ?thesis
    by (intro that [of "w\<lparr>wNow := fst te, wEnv := es\<rparr>"])
      (auto simp: svc_call_def before_def split: prod.splits fault.splits)
qed

text \<open>A read.\<close>

lemma svc_read_cases:
  assumes "svc_call (\<lambda>w. (w, g w)) w = (w', r)"
  shows "wTable w' = wTable w \<and> wInv w' = wInv w \<and> (\<forall>T. before T w \<longrightarrow> before T w') \<and>
     (r = g w' \<or> (\<exists>m. r = Inl (ErrStatus Unavailable m)))"
  using assms by (rule svc_call_cases) auto

section \<open>A taken slot\<close>

definition live_at :: "string \<Rightarrow> otable \<Rightarrow> bool" where
  "live_at code t \<longleftrightarrow> (\<exists>ord. order_at code t = Some ord \<and> oDeletedAt ord = None \<and>
     oStatus ord \<in> {OrderStatusPending, OrderStatusCompleted})"

definition unwritten_at :: "string \<Rightarrow> otable \<Rightarrow> bool" where
  "unwritten_at code t \<longleftrightarrow> GetByCode code t = Inl ErrRepoOrderNotFound"

text \<open>
  The slot \<open>k\<close> is owed to the claim \<open>c\<close>: its order is live, or is not written yet while
  the claim is younger than the settle window.
\<close>

definition slot_owed :: "svc_ext \<Rightarrow> string \<Rightarrow> slot_claim \<Rightarrow> world \<Rightarrow> bool" where
  "slot_owed x k c w \<longleftrightarrow> slot_of k (wTable w) = Some c \<and>
     (live_at (clOrderCode c) (wTable w) \<or>
      unwritten_at (clOrderCode c) (wTable w) \<and>
        before (parseClaimedAt (Some c) + purchaseSlotSettleWindow x) w)"

text \<open>What other requests write between a lost claim and the read of its winner leaves it owed.\<close>

definition others_keep :: "svc_ext \<Rightarrow> string \<Rightarrow> slot_claim \<Rightarrow> bool" where
  "others_keep x k c \<longleftrightarrow> (\<forall>n t. slot_of k t = Some c \<longrightarrow>
     slot_of k (sOthers x n t) = Some c \<and>
     (live_at (clOrderCode c) t \<longrightarrow> live_at (clOrderCode c) (sOthers x n t)) \<and>
     (unwritten_at (clOrderCode c) t \<longrightarrow>
        unwritten_at (clOrderCode c) (sOthers x n t) \<or> live_at (clOrderCode c) (sOthers x n t)))"

lemma slot_owed_read:
  assumes "slot_owed x k c w" and "wTable w' = wTable w" and "\<forall>T. before T w \<longrightarrow> before T w'"
  shows "slot_owed x k c w'"
  using assms by (auto simp: slot_owed_def)

lemma live_GetByCode:
  "live_at code t \<Longrightarrow> \<exists>ord. GetByCode code t = Inr ord \<and> oStatus ord \<in> {OrderStatusPending, OrderStatusCompleted}"
  by (auto simp: live_at_def get_at)

lemma status_error_code [simp]:
  "status_error r \<noteq> Inl ErrPurchaseSlotReleased" "Inl ErrPurchaseSlotReleased \<noteq> status_error r"
  by (auto simp: status_error_def split: sum.splits prod.splits)

lemma resume_missing:
  assumes "svc_GetByCode code w = (w1, Inl e)" and "e = ErrRepoOrderNotFound \<Longrightarrow> wNow w1 - at < purchaseSlotSettleWindow x"
    and "e \<noteq> ErrPurchaseSlotReleased"
  shows "\<exists>d. resumeExistingOrder x k code at method w = (w1, Inl d) \<and> d \<noteq> ErrPurchaseSlotReleased"
  using assms by (cases e) (simp_all add: resumeExistingOrder_def)

lemma resume_live:
  assumes "svc_GetByCode code w = (w1, Inr ord)" and "oStatus ord = OrderStatusPending \<or> oStatus ord = OrderStatusCompleted"
  shows "resumeExistingOrder x k code at method w =
     (case svc_ListItems (oCode ord) w1 of
        (w2, Inl e) \<Rightarrow> (w2, Inl e)
      | (w2, Inr its) \<Rightarrow>
          (case svc_payment_url x (oCode ord) method w2 of
             (w3, Inl e) \<Rightarrow>
               (w3, Inl (if oStatus ord = OrderStatusPending \<and> isPaymentRecordMissing e
                         then ErrPurchaseSlotUnsettled else e))
           | (w3, Inr url) \<Rightarrow> (w3, Inr \<lparr>outOrder = ord, outOrderItems = its, outPaymentUrl = url\<rparr>)))"
  using assms by (auto simp: resumeExistingOrder_def)

lemma GetByCode_error: "GetByCode code t = Inl e \<Longrightarrow> e = ErrRepoOrderNotFound \<or> e = ErrOther ''unmarshal''"
  by (auto simp: GetByCode_def split: option.splits if_splits)

lemma resume_keeps_owed:
  assumes "slot_owed x k c w"
    and "resumeExistingOrder x k (clOrderCode c) (parseClaimedAt (Some c)) method w = (w', r)"
  shows "slot_owed x k c w' \<and> r \<noteq> Inl ErrPurchaseSlotReleased \<and>
     (\<forall>out. r = Inr out \<longrightarrow> GetByCode (clOrderCode c) (wTable w') = Inr (outOrder out))"
proof -
  let ?code = "clOrderCode c"
  obtain w1 r1 where g: "svc_GetByCode ?code w = (w1, r1)" by (cases "svc_GetByCode ?code w")
  note g' = svc_read_cases [OF g [unfolded svc_GetByCode_def]]
  have o1: "slot_owed x k c w1" using g' by (intro slot_owed_read [OF assms(1)]) auto
  show ?thesis
  proof (cases r1)
    case (Inl e)
    have "wNow w1 - parseClaimedAt (Some c) < purchaseSlotSettleWindow x" if "e = ErrRepoOrderNotFound"
    proof -
      have "GetByCode ?code (wTable w1) = Inl ErrRepoOrderNotFound" using g' Inl that by auto
      then have "\<not> live_at ?code (wTable w1)" using live_GetByCode by fastforce
      then have "before (parseClaimedAt (Some c) + purchaseSlotSettleWindow x) w1"
        using o1 by (simp add: slot_owed_def)
      then show ?thesis by (simp add: before_def)
    qed
    moreover have "e \<noteq> ErrPurchaseSlotReleased" using g' Inl GetByCode_error [of ?code "wTable w1" e] by auto
    ultimately obtain d where "resumeExistingOrder x k ?code (parseClaimedAt (Some c)) method w = (w1, Inl d)"
      "d \<noteq> ErrPurchaseSlotReleased"
      using resume_missing [OF g [unfolded Inl]] by blast
    with assms(2) o1 show ?thesis by auto
  next
    case (Inr ord)
    then have at: "GetByCode ?code (wTable w1) = Inr ord" using g' by auto
    then have st: "oStatus ord = OrderStatusPending \<or> oStatus ord = OrderStatusCompleted"
      using o1 live_GetByCode [of ?code "wTable w1"] by (auto simp: slot_owed_def unwritten_at_def)
    note run = assms(2) [unfolded resume_live [OF g [unfolded Inr] st]]
    obtain w2 r2 where l: "svc_ListItems (oCode ord) w1 = (w2, r2)" by (cases "svc_ListItems (oCode ord) w1")
    note l' = svc_read_cases [OF l [unfolded svc_ListItems_def]]
    have o2: "slot_owed x k c w2" using l' by (intro slot_owed_read [OF o1]) auto
    obtain w3 r3 where p: "svc_payment_url x (oCode ord) method w2 = (w3, r3)"
      by (cases "svc_payment_url x (oCode ord) method w2")
    note p' = svc_read_cases [OF p [unfolded svc_payment_url_def]]
    have o3: "slot_owed x k c w3" using p' by (intro slot_owed_read [OF o2]) auto
    have e2: "r2 \<noteq> Inl ErrPurchaseSlotReleased" using l' by auto
    have e3: "r3 \<noteq> Inl ErrPurchaseSlotReleased" using p' by auto
    show ?thesis
    proof (cases r2)
      case Left: (Inl e)
      with run l o2 e2 show ?thesis by auto
    next
      case Right: (Inr its)
      show ?thesis
        by (cases r3) (use run l Right p o3 e3 at l' p' in \<open>auto split: if_splits\<close>)
    qed
  qed
qed

lemma claim_keeps_owed:
  assumes "slot_owed x k c w" and "others_keep x k c" and "svc_Claim x n k code w = (w', r)"
  shows "slot_owed x k c w' \<and>
     (r = Inr (SlotTaken (clOrderCode c) (parseClaimedAt (Some c))) \<or> (\<exists>m. r = Inl (ErrStatus Unavailable m)))"
proof -
  let ?f = "\<lambda>w. case ClaimPurchaseSlot (wNow w) k code (sOthers x n) (wTable w) of (t, q) \<Rightarrow> (w\<lparr>wTable := t\<rparr>, (Inr q :: order_error + claim_result))"
  obtain v where v: "wTable v = wTable w" "\<And>T. before T w \<Longrightarrow> before T v"
    "?f v = (w', r) \<or> (w' = v \<or> w' = fst (?f v)) \<and> (\<exists>m. r = Inl (ErrStatus Unavailable m))"
    using assms(3) unfolding svc_Claim_def by (rule svc_call_cases) (rule that, blast+)
  have ov: "slot_owed x k c v" using v(1,2) by (intro slot_owed_read [OF assms(1)]) auto
  then have s: "slot_of k (wTable v) = Some c" by (simp add: slot_owed_def)
  then have s': "slot_of k (sOthers x n (wTable v)) = Some c" using assms(2) by (simp add: others_keep_def)
  have "map_of (wTable v) (slot_key k) \<noteq> None" using slot_of_SomeD [OF s] by simp
  then have cl: "ClaimPurchaseSlot (wNow v) k code (sOthers x n) (wTable v) =
      (sOthers x n (wTable v), SlotTaken (clOrderCode c) (parseClaimedAt (Some c)))"
    using s' by (simp add: ClaimPurchaseSlot_eq)
  have "slot_owed x k c (v\<lparr>wTable := sOthers x n (wTable v)\<rparr>)"
    using ov assms(2) s s' by (auto simp: slot_owed_def others_keep_def before_def)
  with ov v(3) show ?thesis by (auto simp: cl)
qed

lemma claim_loop_keeps_owed:
  assumes "slot_owed x k c w" and "others_keep x k c" and "claim_loop x k code method n w = (w', r)"
  shows "slot_owed x k c w' \<and> r \<noteq> Inr None \<and>
     (\<forall>out. r = Inr (Some out) \<longrightarrow> GetByCode (clOrderCode c) (wTable w') = Inr (outOrder out))"
  using assms(3)
proof (cases n)
  case 0
  with assms show ?thesis by auto
next
  case (Suc m)
  obtain w1 r1 where cl: "svc_Claim x m k code w = (w1, r1)" by (cases "svc_Claim x m k code w")
  note o1 = claim_keeps_owed [OF assms(1,2) cl]
  obtain w2 r2 where re: "resumeExistingOrder x k (clOrderCode c) (parseClaimedAt (Some c)) method w1 = (w2, r2)"
    by (cases "resumeExistingOrder x k (clOrderCode c) (parseClaimedAt (Some c)) method w1")
  note o2 = resume_keeps_owed [OF conjunct1 [OF o1] re]
  from assms(3) Suc cl re o1 o2 show ?thesis by (auto split: sum.splits if_splits)
qed

text \<open>
  C7. A duplicate checkout never takes the slot from an order that may still sell. While the
  order that holds a purchase slot is PENDING or COMPLETED, or is not written yet and every clock
  reading falls within the settle window of its claim, another create on that slot, whatever calls
  it loses, neither wins the slot nor removes the claim; if it succeeds it answers with the very
  order the slot names.
\<close>

theorem slot_not_stolen:
  assumes "slot_owed x k c w" and "others_keep x k c"
    and "claimPurchaseSlot x k code method w = (w', r)"
  shows "slot_owed x k c w' \<and> r \<noteq> Inr None \<and>
     (\<forall>out. r = Inr (Some out) \<longrightarrow> GetByCode (clOrderCode c) (wTable w') = Inr (outOrder out))"
  using assms unfolding claimPurchaseSlot_def by (rule claim_loop_keeps_owed)

section \<open>Creating an order\<close>

text \<open>The workflow's own steps leave every purchase slot alone.\<close>

lemma slot_frame_simps [simp]:
  "slot_of k (wTable (fst (act_CreateOrderItems x c os w))) = slot_of k (wTable w)"
  "slot_of k (wTable (fst (act_DeleteOrder c w))) = slot_of k (wTable w)"
  "slot_of k (wTable (fst (act_DeleteOrderItems c w))) = slot_of k (wTable w)"
  "slot_of k (wTable (fst (put_order x opt w))) = slot_of k (wTable w)"
  "slot_of k (wTable (fst (read_back opt w))) = slot_of k (wTable w)"
proof -
  have ef: "env_free (\<lambda>w. slot_of k (wTable w))" by (simp add: env_free_def)
  have items: "slot_of k t' = slot_of k t" if "CreateManyItems oc now c os t = (t', r)" for oc now t t' r
    using that slot_of_CreateMany [of k oc now c os t] by simp
  show "slot_of k (wTable (fst (act_CreateOrderItems x c os w))) = slot_of k (wTable w)"
    unfolding act_CreateOrderItems_def
    by (rule remote_frame [OF ef]) (auto simp: on_table_def dest: items split: prod.splits sum.splits)
  show "slot_of k (wTable (fst (act_DeleteOrder c w))) = slot_of k (wTable w)"
    unfolding act_DeleteOrder_def by (rule remote_frame [OF ef]) (simp add: DeleteOrderRow_def)
  show "slot_of k (wTable (fst (act_DeleteOrderItems c w))) = slot_of k (wTable w)"
    unfolding act_DeleteOrderItems_def
    by (rule remote_frame [OF ef]) (simp add: DeleteItemByOrderCode_def Let_def)
  show "slot_of k (wTable (fst (put_order x opt w))) = slot_of k (wTable w)"
    unfolding put_order_def
    by (rule remote_frame [OF ef])
      (auto simp: on_table_def CreateOrderRow_def put_new_def Let_def split: prod.splits sum.splits order_error.splits if_splits)
  show "slot_of k (wTable (fst (read_back opt w))) = slot_of k (wTable w)"
    unfolding read_back_def by (rule remote_frame [OF ef]) (auto split: sum.splits)
qed

lemma slot_frame_CreateOrder_act [simp]:
  "slot_of k (wTable (fst (act_CreateOrder x opt w))) = slot_of k (wTable w)"
proof (cases "put_order x opt w")
  case (Pair v r)
  have "slot_of k (wTable v) = slot_of k (wTable w)"
    using slot_frame_simps(4) [of k x opt w] Pair by simp
  then show ?thesis by (simp add: act_CreateOrder_def Pair split: sum.splits option.splits)
qed

interpretation saga_slot: saga_steps "\<lambda>v v'. slot_of k (wTable v') = slot_of k (wTable v)" for k
  by unfold_locales simp_all

lemmas slot_frame_CreateOrder = saga_slot.saga

text \<open>
  What no step of the saga changes: the delayed runs and the publications, and in a world without faults also that there
  are none and what time it is.
\<close>

definition still :: "world \<Rightarrow> world \<Rightarrow> bool" where
  "still v v' \<longleftrightarrow> wClocks v' = wClocks v \<and> wPub v' = wPub v \<and> (wEnv v = [] \<longrightarrow> wEnv v' = [] \<and> wNow v' = wNow v)"

abbreviation "same_env v v' \<equiv> wClocks v' = wClocks v \<and> wPub v' = wPub v \<and> wEnv v' = wEnv v \<and> wNow v' = wNow v"

lemma still_trans: "still u v \<Longrightarrow> still v w \<Longrightarrow> still u w"
  by (simp add: still_def)

lemma remote_still: "(\<And>v. same_env v (fst (f v))) \<Longrightarrow> still w (fst (remote f w))"
  by (auto simp: still_def remote_def split: list.splits prod.splits fault.splits)

lemma on_table_env: "on_table f w = (w', r) \<Longrightarrow> same_env w w'"
  by (auto simp: on_table_def split: prod.splits)

lemma on_inv_env: "on_inv f w = (w', r) \<Longrightarrow> same_env w w'"
  by (auto simp: on_inv_def split: prod.splits)

lemma acts_still:
  "still w (fst (act_ReserveInventory x c e its w))" "still w (fst (act_ReleaseInventory c w))"
  "still w (fst (put_order x opt w))" "still w (fst (read_back opt w))"
  "still w (fst (act_CreateOrderItems x c os w))" "still w (fst (act_DeleteOrder c w))"
  "still w (fst (act_DeleteOrderItems c w))" "still w (fst (act_CreatePaymentIntent x pin w))"
  unfolding act_defs
  by (rule remote_still, force dest: on_table_env on_inv_env split: prod.splits sum.splits order_error.splits)+

lemma act_CreateOrder_still: "still w (fst (act_CreateOrder x opt w))"
  using acts_still(3) [of w x opt] acts_still(4) [of "fst (put_order x opt w)" opt]
  by (auto simp: act_CreateOrder_def intro: still_trans split: prod.splits sum.splits option.splits)

interpretation saga_still: saga_steps still
  by unfold_locales (auto simp: acts_still act_CreateOrder_still intro: still_trans, simp add: still_def)

lemma fresh_items_claim [simp]:
  "fresh_items c t \<Longrightarrow> fresh_items c (AList.update (slot_key k) (DClaim cl) t)"
proof -
  have "no_items c (AList.update (slot_key k) (DClaim cl) t)" if "no_items c t"
    using that by (induction t) (auto simp: no_items_def is_live_item_def)
  then show "fresh_items c t \<Longrightarrow> ?thesis" by (simp add: fresh_items_def distinct_update)
qed

lemma GetByCode_slot [simp]:
  "GetByCode c (AList.update (slot_key k) v t) = GetByCode c t"
  "GetByCode c (ReleasePurchaseSlot k d t) = GetByCode c t"
  by (simp_all add: GetByCode_def update_conv ReleasePurchaseSlot_def delete_conv split: option.splits)

lemma calm_releasePurchaseSlot:
  "wEnv w = [] \<Longrightarrow> releasePurchaseSlot k code w = w\<lparr>wTable := ReleasePurchaseSlot k code (wTable w)\<rparr>"
  by (simp add: releasePurchaseSlot_def)

lemma startCheckoutClock_frame [simp]:
  "wTable (startCheckoutClock code w) = wTable w" "wInv (startCheckoutClock code w) = wInv w"
  "wPub (startCheckoutClock code w) = wPub w"
  by (simp_all add: startCheckoutClock_def svc_call_def split: list.splits prod.splits fault.splits)

lemma calm_startCheckoutClock:
  "wEnv w = [] \<Longrightarrow> startCheckoutClock code w = w\<lparr>wClocks := start_delayed (GetExpireOrderWorkflowID code) code
     (wNow w + CheckoutLifetime) (wClocks w)\<rparr>"
  by (simp add: startCheckoutClock_def)

lemma claimAttempts_Suc: "claimAttempts = Suc 2" by (simp add: claimAttempts_def)

text \<open>Without lost calls the first claim of a free slot wins it.\<close>

lemma calm_claim_won:
  assumes "wEnv w = []" and "map_of (wTable w) (slot_key k) = None"
  shows "claimPurchaseSlot x k code method w =
     (w\<lparr>wTable := AList.update (slot_key k) (DClaim (claim_item (wNow w) code)) (wTable w)\<rparr>, Inr None)"
  unfolding claimPurchaseSlot_def claimAttempts_Suc
  by (subst claim_loop.simps(2)) (use assms in \<open>simp add: svc_Claim_def ClaimPurchaseSlot_eq\<close>)

lemma calm_svc_FindMany:
  "wEnv w = [] \<Longrightarrow> svc_FindMany x e ids w =
     (w, status_error (rpc_FindManyTicketClass (eFmt x) \<lparr>fmEventId = e, fmIds = ids\<rparr> (wInv w)))"
  by (simp add: svc_FindMany_def)

lemma order_lines_length: "order_lines m its amt = Some (ls, tot) \<Longrightarrow> length ls = length its"
  by (induction its arbitrary: amt ls tot) (auto simp: Let_def split: option.splits prod.splits)

text \<open>What a create that ends without faults leaves: \<open>w\<close> before, the slot \<open>k\<close> claimed at its start.\<close>

definition create_settled ::
  "string \<Rightarrow> string \<Rightarrow> world \<Rightarrow> world \<Rightarrow> (order_error + create_order_output) outcome \<Rightarrow> bool" where
  "create_settled k code w w' oc \<longleftrightarrow> consistent (wInv w') \<and>
     (case oc of
        Panicked \<Rightarrow> slot_of k (wTable w') = Some (claim_item (wNow w) code) \<and> wInv w' = wInv w \<and>
          unwritten_at code (wTable w')
      | Returned (Inl e) \<Rightarrow> slot_of k (wTable w') = None \<and> look (wInv w') = look (wInv w) \<and>
          paid (wInv w') = paid (wInv w) \<and> unwritten_at code (wTable w')
      | Returned (Inr out) \<Rightarrow> slot_of k (wTable w') = Some (claim_item (wNow w) code) \<and>
          order_at code (wTable w') = Some (outOrder out) \<and> live_at code (wTable w') \<and>
          mset (ListItemByOrderCode code (wTable w')) = mset (outOrderItems out))"

lemma create_under_slot_settled:
  fixes i k code w t1
  defines "w1 \<equiv> w\<lparr>wTable := AList.update (slot_key k) (DClaim (claim_item (wNow w) code)) (wTable w)\<rparr>"
  assumes "consistent (wInv w)" and "orderRows (wInv w) code = []" and "fresh_items code (wTable w)"
    and "map_of (wTable w) (order_key code) = None" and "wEnv w = []"
    and "\<forall>t j. eBatch x t j = BatchWritten []" and "length (ordItems i) \<le> batchSize"
    and "sRun x = Ran" and "create_under_slot x i ev ss k code w1 = (w', oc)"
  shows "create_settled k code w w' oc"
proof -
  have un: "unwritten_at code (wTable w1)" using assms(5) by (simp add: unwritten_at_def w1_def GetByCode_def update_conv)
  have s1: "slot_of k (wTable w1) = Some (claim_item (wNow w) code)" by (simp add: w1_def)
  have i1: "wInv w1 = wInv w" "wEnv w1 = []" using assms(6) by (simp_all add: w1_def)
  have freed: "create_settled k code w (releasePurchaseSlot k code v) (Returned (Inl e))"
    if "wEnv v = []" "slot_of k (wTable v) = slot_of k (wTable w1)" "consistent (wInv v)"
      "look (wInv v) = look (wInv w)" "paid (wInv v) = paid (wInv w)" "unwritten_at code (wTable v)" for v e
    using that s1 by (simp add: create_settled_def calm_releasePurchaseSlot slot_of_release unwritten_at_def claim_item_def)
  note early = freed [OF i1(2) refl]
  let ?reply = "status_error (rpc_FindManyTicketClass (eFmt x) \<lparr>fmEventId = ordEventID i, fmIds = map oiTicketClassID (ordItems i)\<rparr> (wInv w))"
  note run = assms(10) [unfolded create_under_slot_def calm_svc_FindMany [OF i1(2)] i1(1) prod.case]
  show ?thesis
  proof (cases ?reply)
    case (Inl e)
    have "w' = releasePurchaseSlot k code w1" "oc = Returned (Inl e)" using run Inl by auto
    then show ?thesis using early assms(2) un i1 by simp
  next
    case tcs: (Inr tcs)
    show ?thesis
    proof (cases "tcs = []")
      case True
      have "w' = releasePurchaseSlot k code w1" "oc = Returned (Inl ErrTicketClassNotFound)"
        using run tcs True by auto
      then show ?thesis using early assms(2) un i1 by simp
    next
      case False
      show ?thesis
      proof (cases "order_lines (rev (map (\<lambda>tc. (pId tc, tc)) tcs)) (ordItems i) 0")
        case None
        have "w' = w1" "oc = Panicked" using run tcs False None by auto
        then show ?thesis using un s1 i1 assms(2) by (simp add: create_settled_def)
      next
        case (Some lsamt)
        obtain ls amt where la: "lsamt = (ls, amt)" by (cases lsamt)
        let ?in = "workflow_input i ev ss code ls amt"
        obtain w2 r where co: "CreateOrder (ext.truncate x) ?in w1 = (w2, r)"
          by (cases "CreateOrder (ext.truncate x) ?in w1")
        have code: "wfOrderCode ?in = code" by (simp add: workflow_input_def)
        have "length ls = length (ordItems i)" using order_lines_length [OF Some [unfolded la]] .
        then have len: "length (wfItems ?in) \<le> batchSize" using assms(8) by (simp add: workflow_input_def)
        have pre: "consistent (wInv w1)" "orderRows (wInv w1) (wfOrderCode ?in) = []"
          "fresh_items (wfOrderCode ?in) (wTable w1)" "map_of (wTable w1) (order_key (wfOrderCode ?in)) = None"
          "\<forall>t j. eBatch (ext.truncate x) t j = BatchWritten []"
          using assms(2-5,7) i1 code by (simp_all add: w1_def update_conv ext.defs)
        have w2: "wEnv w2 = []" "slot_of k (wTable w2) = slot_of k (wTable w1)"
          using saga_still.saga [OF co] i1(2) slot_frame_CreateOrder [OF co] by (auto simp: still_def)
        show ?thesis
        proof (cases r)
          case (Inl e)
          note fail = CreateOrder_failure [OF pre(1-4) i1(2) len co [unfolded Inl]]
          have out: "w' = releasePurchaseSlot k code w2" "oc = Returned (Inl (mapWorkflowError e))"
            using run tcs False Some la assms(9) co Inl by auto
          show ?thesis unfolding out
            by (rule freed [OF w2]) (use fail code i1 in \<open>simp_all add: unwritten_at_def\<close>)
        next
          case (Inr res)
          note ok = CreateOrder_success [OF pre co [unfolded Inr]]
          have "w' = startCheckoutClock code w2" "oc = Returned (Inr \<lparr>outOrder = wrOrder res, outOrderItems = wrOrderItems res,
              outPaymentUrl = wrPaymentUrl res\<rparr>)"
            using run tcs False Some la assms(9) co Inr by auto
          then show ?thesis
            using ok w2 s1 code by (auto simp: create_settled_def live_at_def buildOrderModel_def)
        qed
      qed
    qed
  qed
qed

lemma consistent_untouched:
  "slot_of k (wTable w) = None \<Longrightarrow> consistent (wInv w) \<Longrightarrow> map_of (wTable w) (order_key code) = None \<Longrightarrow>
   create_settled k code w w (Returned (Inl e))"
  by (simp add: create_settled_def unwritten_at_def GetByCode_def)

text \<open>The session that a create's purchase slot is keyed by.\<close>

definition slot_session :: "svc_ext \<Rightarrow> create_order_input \<Rightarrow> event_config \<Rightarrow> string" where
  "slot_session x i cfg =
     (if ecAllowWaitRoom cfg then (case validateCheckoutToken x i of Inl e \<Rightarrow> [] | Inr c \<Rightarrow> ctSessionID c) else [])"

text \<open>How a create without faults on a free slot runs: it ends early, or works under the slot.\<close>

lemma calm_Create:
  assumes "lookup_event x (ordEventID i) = Inr (ev, cfg)" and "wEnv w = []"
    and "map_of (wTable w) (slot_key (PurchaseSlotKey (slot_session x i cfg) (ordUserID i) (ordEventID i))) = None"
  shows "(\<exists>e. Create x i w = (w, Returned (Inl e))) \<or>
     Create x i w = (let code = GenerateOrderCodeWithEventPrefix (sDate x (wNow w)) (sRandom x) (evName ev);
         k = PurchaseSlotKey (slot_session x i cfg) (ordUserID i) (ordEventID i)
       in create_under_slot x i ev (slot_session x i cfg) k code
            (w\<lparr>wTable := AList.update (slot_key k) (DClaim (claim_item (wNow w) code)) (wTable w)\<rparr>))"
  using assms(3)
  by (auto simp: Create_def assms(1) Let_def slot_session_def calm_claim_won [OF assms(2)] split: sum.splits)

lemma calm_Create_passed:
  assumes "lookup_event x (ordEventID i) = Inr (ev, cfg)"
    and "code = GenerateOrderCodeWithEventPrefix (sDate x (wNow w)) (sRandom x) (evName ev)"
    and "k = PurchaseSlotKey (slot_session x i cfg) (ordUserID i) (ordEventID i)"
    and "map_of (wTable w) (slot_key k) = None" and "wEnv w = []" and "evStatus ev = EVENT_STATUS_PUBLISHED"
    and "ecMaxTicketsPerOrder cfg \<le> 0 \<or> ticketsInOrder (ordItems i) \<le> ecMaxTicketsPerOrder cfg"
    and "ecAllowWaitRoom cfg \<longrightarrow> (\<exists>c. validateCheckoutToken x i = Inr c)"
  shows "Create x i w = create_under_slot x i ev (slot_session x i cfg) k code
    (w\<lparr>wTable := AList.update (slot_key k) (DClaim (claim_item (wNow w) code)) (wTable w)\<rparr>)"
  using assms(4,6-8) unfolding assms(2,3)
  by (auto simp: Create_def assms(1) Let_def slot_session_def calm_claim_won [OF assms(5)] split: sum.splits)

text \<open>
  C12. A create gives its purchase slot back or leaves an order in it. On a free slot, with no call
  lost, for an order of at most 25 items under an unused code, whose saga ran to its end and whose
  items DynamoDB writes in full: a success leaves the claim naming the one live order it answers
  with, and exactly its items; any error leaves the slot free, no order to be found under its code,
  though the rows a rollback marked as deleted may stay in the table, and every class's stock as it
  was. The only other end is a panic, which leaves the claim behind with no order.
\<close>

theorem create_settles_slot:
  assumes "lookup_event x (ordEventID i) = Inr (ev, cfg)"
    and "code = GenerateOrderCodeWithEventPrefix (sDate x (wNow w)) (sRandom x) (evName ev)"
    and "k = PurchaseSlotKey (slot_session x i cfg) (ordUserID i) (ordEventID i)"
    and "map_of (wTable w) (slot_key k) = None" and "map_of (wTable w) (order_key code) = None"
    and "fresh_items code (wTable w)" and "consistent (wInv w)" and "orderRows (wInv w) code = []"
    and "wEnv w = []" and "\<forall>t j. eBatch x t j = BatchWritten []" and "length (ordItems i) \<le> batchSize"
    and "sRun x = Ran" and "Create x i w = (w', oc)"
  shows "create_settled k code w w' oc"
  using calm_Create [OF assms(1,9) assms(4) [unfolded assms(3)]]
proof (elim disjE exE)
  fix e
  assume "Create x i w = (w, Returned (Inl e))"
  moreover have "slot_of k (wTable w) = None" using assms(4) by (simp add: slot_of_def as_claim_def)
  ultimately show ?thesis using assms(5,7,13) consistent_untouched by simp
next
  assume "Create x i w = (let code = GenerateOrderCodeWithEventPrefix (sDate x (wNow w)) (sRandom x) (evName ev);
         k = PurchaseSlotKey (slot_session x i cfg) (ordUserID i) (ordEventID i)
       in create_under_slot x i ev (slot_session x i cfg) k code
            (w\<lparr>wTable := AList.update (slot_key k) (DClaim (claim_item (wNow w) code)) (wTable w)\<rparr>))"
  with assms(2,3,13) have "create_under_slot x i ev (slot_session x i cfg) k code
      (w\<lparr>wTable := AList.update (slot_key k) (DClaim (claim_item (wNow w) code)) (wTable w)\<rparr>) = (w', oc)"
    by (simp add: Let_def)
  from create_under_slot_settled [OF assms(7,8,6,5,9,10,11,12) this] show ?thesis .
qed

lemma order_lines_None:
  "order_lines m its amt = None \<longleftrightarrow> (\<exists>it \<in> set its. map_of m (oiTicketClassID it) = None)"
proof (induction its arbitrary: amt)
  case (Cons it its)
  show ?case
  proof (cases "map_of m (oiTicketClassID it)")
    case (Some tc)
    let ?amt = "int64 (amt + int64 (pPriceCents tc * oiQuantity it))"
    show ?thesis using Some Cons.IH [of ?amt] by (cases "order_lines m its ?amt") (auto simp: Let_def)
  qed simp
qed simp

lemma pb_map_None: "map_of (rev (map (\<lambda>tc. (pId tc, tc)) tcs)) c = None \<longleftrightarrow> (\<forall>tc \<in> set tcs. pId tc \<noteq> c)"
proof -
  have "fst ` set (rev (map (\<lambda>tc. (pId tc, tc)) tcs)) = pId ` set tcs" by (simp add: image_image)
  then show ?thesis unfolding map_of_eq_None_iff by auto
qed

text \<open>
  C11. An order for a ticket class the event does not have ends the process. A create on a free
  slot, with no call lost, that passes the checks of the event, of its ticket limit and of the
  checkout token, and whose list of classes inventory answers with some but not all of them, panics
  on a missing one; nothing is reserved and no order is written, but the claim stays: for the whole
  settle window, with the table as the panic left it, every further create that loses no call is
  refused the slot.
\<close>

theorem missing_class_panics:
  assumes "lookup_event x (ordEventID i) = Inr (ev, cfg)"
    and "code = GenerateOrderCodeWithEventPrefix (sDate x (wNow w)) (sRandom x) (evName ev)"
    and "k = PurchaseSlotKey (slot_session x i cfg) (ordUserID i) (ordEventID i)"
    and "map_of (wTable w) (slot_key k) = None" and "map_of (wTable w) (order_key code) = None"
    and "wEnv w = []" and "evStatus ev = EVENT_STATUS_PUBLISHED"
    and "ecMaxTicketsPerOrder cfg \<le> 0 \<or> ticketsInOrder (ordItems i) \<le> ecMaxTicketsPerOrder cfg"
    and "ecAllowWaitRoom cfg \<longrightarrow> (\<exists>c. validateCheckoutToken x i = Inr c)"
    and "rpc_FindManyTicketClass (eFmt x) \<lparr>fmEventId = ordEventID i, fmIds = map oiTicketClassID (ordItems i)\<rparr>
           (wInv w) = Inr tcs"
    and "tcs \<noteq> []" and "it \<in> set (ordItems i)" and "\<forall>tc \<in> set tcs. pId tc \<noteq> oiTicketClassID it"
    and "min_i64 \<le> unix (wNow w)" and "unix (wNow w) \<le> max_i64"
    and "Create x i w = (w', oc)"
  shows "oc = Panicked \<and> wInv w' = wInv w \<and> unwritten_at code (wTable w') \<and>
     (\<forall>y v code2 method. sOthers y = (\<lambda>n t. t) \<longrightarrow> wTable v = wTable w' \<longrightarrow> wEnv v = [] \<longrightarrow>
        wNow v < unix (wNow w) * second + purchaseSlotSettleWindow y \<longrightarrow>
        claimPurchaseSlot y k code2 method v = (v, Inl ErrPurchaseSlotUnsettled))"
proof -
  let ?w1 = "w\<lparr>wTable := AList.update (slot_key k) (DClaim (claim_item (wNow w) code)) (wTable w)\<rparr>"
  have none: "order_lines (rev (map (\<lambda>tc. (pId tc, tc)) tcs)) (ordItems i) 0 = None"
    using assms(12,13) by (auto simp: order_lines_None pb_map_None)
  have "Create x i w = create_under_slot x i ev (slot_session x i cfg) k code ?w1"
    by (rule calm_Create_passed [OF assms(1-4,6-9)])
  also have "\<dots> = (?w1, Panicked)"
    using assms(6,10,11) none by (simp add: create_under_slot_def svc_FindMany_def status_error_def)
  finally have w': "w' = ?w1" "oc = Panicked" using assms(16) by simp_all
  have un: "GetByCode code (wTable w') = Inl ErrRepoOrderNotFound"
    using assms(5) by (simp add: w' GetByCode_def update_conv)
  have at: "parseClaimedAt (Some (claim_item (wNow w) code)) = unix (wNow w) * second"
    using parse_formatInt [OF assms(14,15)] by (simp add: parseClaimedAt_def claim_item_def)
  have "claimPurchaseSlot y k code2 meth v = (v, Inl ErrPurchaseSlotUnsettled)"
    if y: "sOthers y = (\<lambda>n t. t)" and v: "wTable v = wTable w'" "wEnv v = []"
      "wNow v < unix (wNow w) * second + purchaseSlotSettleWindow y" for y v code2 meth
  proof -
    have taken: "svc_Claim y 2 k code2 v = (v, Inr (SlotTaken code (unix (wNow w) * second)))"
      using v(1,2) at by (simp add: svc_Claim_def ClaimPurchaseSlot_eq y w' claim_item_def update_conv)
    have "resumeExistingOrder y k code (unix (wNow w) * second) meth v = (v, Inl ErrPurchaseSlotUnsettled)"
      using v un by (simp add: resumeExistingOrder_def svc_GetByCode_def)
    then show ?thesis
      unfolding claimPurchaseSlot_def claimAttempts_Suc by (subst claim_loop.simps(2)) (simp add: taken)
  qed
  with un show ?thesis by (auto simp: w' unwritten_at_def)
qed

section \<open>Cancelling\<close>

definition status_at :: "string \<Rightarrow> otable \<Rightarrow> order_status option" where
  "status_at code t = map_option oStatus (order_at code t)"

lemma svc_call_parts:
  assumes "svc_call f w = (w', r)" and "\<And>v. wInv (fst (f v)) = wInv v" "\<And>v. wPub (fst (f v)) = wPub v"
  shows "wInv w' = wInv w \<and> wPub w' = wPub w"
  using svc_call_frame [of wInv f w] svc_call_frame [of wPub f w] assms by simp

lemma releaseTickets_table [simp]: "wTable (fst (releaseTickets code w)) = wTable w"
  unfolding releaseTickets_def
  by (rule svc_call_frame) (auto dest: on_inv_world split: prod.splits sum.splits)

lemma publishFailed_frame [simp]:
  "wTable (fst (publishCheckoutFailedEvent ss u e w)) = wTable w"
  "wInv (fst (publishCheckoutFailedEvent ss u e w)) = wInv w"
  unfolding publishCheckoutFailedEvent_def by (rule svc_call_frame; simp)+

lemma CancelIfPending_at:
  assumes "order_at code t = Some ord" and "oDeletedAt ord = None"
  shows "CancelIfPending now code t =
     (if oStatus ord = OrderStatusPending
      then (AList.update (order_key code) (DOrder (ord\<lparr>oStatus := OrderStatusCancelled, oUpdatedAt := now\<rparr>)) t,
            Inr (ord\<lparr>oStatus := OrderStatusCancelled, oUpdatedAt := now\<rparr>, True))
      else (t, Inr (ord, oStatus ord = OrderStatusCancelled)))"
proof -
  have "map_of t (order_key code) = Some (DOrder ord)"
    using assms(1) by (auto simp: order_at_def as_order_def split: option.splits ditem.splits)
  then show ?thesis using upsert_at [OF assms(1)] get_at [OF assms(1)] assms(2)
    by (simp add: CancelIfPending_def leavePending_def is_pending_row_def)
qed

lemma ownedOrder_cases:
  assumes "ownedOrder code u w = (w1, r)" and "order_at code (wTable w) = Some ord" and "oDeletedAt ord = None"
  shows "wTable w1 = wTable w \<and> wInv w1 = wInv w \<and> wPub w1 = wPub w \<and>
     (\<forall>a. r = Inr a \<longrightarrow> a = ord \<and> oUserID ord = u) \<and>
     (oUserID ord \<noteq> u \<longrightarrow> r = Inl ErrOrderNotFound \<or> (\<exists>m. r = Inl (ErrStatus Unavailable m)))"
proof -
  obtain w2 q where g: "svc_GetByCode code w = (w2, q)" by (cases "svc_GetByCode code w")
  have p: "wInv w2 = wInv w \<and> wPub w2 = wPub w"
    by (rule svc_call_parts [OF g [unfolded svc_GetByCode_def]]) simp_all
  from svc_read_cases [OF g [unfolded svc_GetByCode_def]] get_at [OF assms(2)] assms(3)
  have "wTable w2 = wTable w" "q = Inr ord \<or> (\<exists>m. q = Inl (ErrStatus Unavailable m))" by auto
  then show ?thesis using assms(1) g p by (auto simp: ownedOrder_def not_found_def split: if_splits)
qed

text \<open>
  C21. A cancel moves stock only after the order has left PENDING for CANCELLED. Whatever calls
  it loses, a cancel of a stored order: touches nothing if the caller is not the owner or the
  order is not PENDING; releases tickets only with the order already CANCELLED; and reports
  success only if it is CANCELLED. A stranger is told that the order does not exist.
\<close>

theorem cancel_sound:
  assumes "order_at code (wTable w) = Some ord" and "oDeletedAt ord = None" and "oCode ord = code"
    and "Cancel code u w = (w', r)"
  shows "(oUserID ord \<noteq> u \<or> oStatus ord \<noteq> OrderStatusPending \<longrightarrow>
        wTable w' = wTable w \<and> wInv w' = wInv w \<and> wPub w' = wPub w \<and> r \<noteq> Inr ()) \<and>
     (oUserID ord \<noteq> u \<longrightarrow> r = Inl ErrOrderNotFound \<or> (\<exists>m. r = Inl (ErrStatus Unavailable m))) \<and>
     (wInv w' \<noteq> wInv w \<or> wPub w' \<noteq> wPub w \<or> r = Inr () \<longrightarrow>
        status_at code (wTable w') = Some OrderStatusCancelled)"
proof -
  obtain w1 r1 where own: "ownedOrder code u w = (w1, r1)" by (cases "ownedOrder code u w")
  note o1 = ownedOrder_cases [OF own assms(1,2)]
  show ?thesis
  proof (cases "\<exists>a. r1 = Inr a \<and> oStatus a = OrderStatusPending")
    case False
    then have "w' = w1" "r \<noteq> Inr ()" "(\<exists>e. r1 = Inl e \<and> r = Inl e) \<or> (\<exists>a. r1 = Inr a)"
      using assms(4) own by (auto simp: Cancel_def split: sum.splits if_splits)
    then show ?thesis using o1 by auto
  next
    case True
    then have a: "r1 = Inr ord" "oUserID ord = u" "oStatus ord = OrderStatusPending" using o1 by auto
    let ?f = "on_table (\<lambda>now. CancelIfPending now (oCode ord))"
    obtain w2 r2 where c: "svc_call ?f w1 = (w2, r2)" by (cases "svc_call ?f w1")
    have inv2: "wInv w2 = wInv w" "wPub w2 = wPub w"
      using svc_call_parts [OF c] o1 by simp_all
    show ?thesis
    proof (cases "\<exists>q. r2 = Inr q")
      case False
      then have "w' = w2" "r \<noteq> Inr ()" using assms(4) own a c by (auto simp: Cancel_def split: sum.splits)
      then show ?thesis using inv2 a by simp
    next
      case True
      then obtain q where q: "r2 = Inr q" by blast
      obtain v where v: "wTable v = wTable w1" "?f v = (w2, Inr q)"
        using c [unfolded q] by (rule svc_call_cases) auto
      have at: "order_at code (wTable v) = Some ord" using v(1) o1 assms(1) by simp
      have "status_at code (wTable w2) = Some OrderStatusCancelled" and "snd q"
        using v(2) CancelIfPending_at [OF at assms(2)] a(3) assms(3)
        by (auto simp: on_table_def status_at_def)
      moreover have "wTable w' = wTable w2"
        using assms(4) own a c q \<open>snd q\<close> by (cases q) (auto simp: Cancel_def Let_def split: if_splits)
      ultimately show ?thesis using a by simp
    qed
  qed
qed

section \<open>Payment failures\<close>

lemma calm_UpdateOrderRow:
  assumes "wEnv w = []" and "order_at code (wTable w) = Some ord"
  shows "svc_call (on_table (\<lambda>now. UpdateOrderRow now code st None)) w =
     (w\<lparr>wTable := AList.update (order_key code) (DOrder (ord\<lparr>oStatus := st, oUpdatedAt := wNow w\<rparr>)) (wTable w)\<rparr>,
      Inr (ord\<lparr>oStatus := st, oUpdatedAt := wNow w\<rparr>))"
  using assms(2) by (subst svc_call_calm [OF assms(1)]) (simp add: on_table_def UpdateOrderRow_def upsert_at)

lemma rpc_Release_paid:
  assumes "confirmed_order db code"
  shows "fst (rpc_Release code db) = db"
proof -
  obtain r where "r \<in> set (orderRows db code)" "rStatus r = ReservationStatusConfirmed"
    using assms by (auto simp: confirmed_order_def list_all_iff) (meson last_in_set)
  then have "has_confirmed db code" by (auto simp: has_confirmed_def)
  from releaseTx_confirmed [OF this] show ?thesis
    by (simp add: rpc_Release_def Release_def transaction_def split: option.splits)
qed

lemma calm_releaseTickets:
  "wEnv w = [] \<Longrightarrow> fst (releaseTickets code w) = w\<lparr>wInv := fst (rpc_Release code (wInv w))\<rparr>"
  by (auto simp: releaseTickets_def on_inv_def split: prod.splits sum.splits)

text \<open>
  C39. A payment failure overwrites whatever the order became. Without lost calls, the order that
  the handler's lookup finds ends PAYMENT_FAILED, whatever its status was. If its tickets
  were already sold they stay sold, and a further \<open>payment.completed\<close> for it then refunds the
  buyer who keeps them.
\<close>

theorem payment_failure_overwrites:
  assumes "wEnv w = []" and "GetOne (by_code code) (wTable w) = Inr ord"
    and "order_at (oCode ord) (wTable w) = Some ord" and "HandlePaymentFailed code w = (w', r)"
  shows "r = Inr () \<and> status_at (oCode ord) (wTable w') = Some OrderStatusPaymentFailed \<and>
     (confirmed_order (wInv w) code \<longrightarrow> wInv w' = wInv w) \<and>
     (confirmed_order (wInv w) code \<and> code \<noteq> [] \<and> oCode ord = code \<and> oDeletedAt ord = None \<longrightarrow>
        (\<forall>w'' q. ConfirmOrder code w' = (w'', q) \<longrightarrow>
           status_at code (wTable w'') = Some OrderStatusRefundRequired \<and> wInv w'' = wInv w))"
proof -
  let ?db = "fst (rpc_Release code (wInv w))" and ?o = "ord\<lparr>oStatus := OrderStatusPaymentFailed, oUpdatedAt := wNow w\<rparr>"
  let ?w1 = "w\<lparr>wInv := ?db\<rparr>"
  have u: "svc_call (on_table (\<lambda>now. UpdateOrderRow now (oCode ord) OrderStatusPaymentFailed None)) ?w1 =
      (?w1\<lparr>wTable := AList.update (order_key (oCode ord)) (DOrder ?o) (wTable w)\<rparr>, Inr ?o)"
    using calm_UpdateOrderRow [of ?w1 "oCode ord" ord OrderStatusPaymentFailed] assms(1,3) by simp
  have g: "svc_GetOne (by_code code) ?w1 = (?w1, Inr ord)" using assms(1,2) by (simp add: svc_GetOne_def)
  have run: "HandlePaymentFailed code w = (w\<lparr>wTable := AList.update (order_key (oCode ord)) (DOrder ?o) (wTable w),
      wInv := ?db, wPub := wPub w @ [CheckoutFailed (oSessionID ord) (oUserID ord) (oEventID ord)]\<rparr>, Inr ())"
    unfolding HandlePaymentFailed_def handlePaymentFailure_def Let_def calm_releaseTickets [OF assms(1)] g prod.case sum.case u
    using assms(1) by (simp add: publishCheckoutFailedEvent_def)
  then have w': "wEnv w' = []" "order_at (oCode ord) (wTable w') = Some ?o" "r = Inr ()" "wInv w' = ?db"
    using assms(1,4) by auto
  have refund: "status_at code (wTable w'') = Some OrderStatusRefundRequired \<and> wInv w'' = wInv w'"
    if "code \<noteq> []" "oCode ord = code" "oDeletedAt ord = None" "ConfirmOrder code w' = (w'', q)" for w'' q
  proof -
    have at: "order_at code (wTable w') = Some ?o" using w'(2) that(2) by simp
    have g: "attempts confirm_attempts (act_GetOrder code) w' = (w', Inr ?o)"
      by (rule calm_GetOrder [OF w'(1) at _ that(1)]) (simp add: that(3))
    have "ConfirmOrder code w' = (markForRefund ?o (settled_reason ?o) w', Inl (AppError ''OrderAlreadyProcessed''))"
      by (simp add: ConfirmOrder_def g)
    moreover have "order_at (oCode ?o) (wTable w') = Some ?o" using w'(2) by simp
    ultimately show ?thesis
      using that calm_markForRefund [OF w'(1), of ?o] by (auto simp: status_at_def)
  qed
  show ?thesis using w' refund rpc_Release_paid [of "wInv w" code] by (auto simp: status_at_def)
qed

section \<open>Witnesses\<close>

definition demo_svc :: svc_ext where
  "demo_svc = \<lparr>eParse = demo_parse, eFmt = (\<lambda>t. ''t''), eFmtNano = (\<lambda>t. ''n''),
     ePay = (\<lambda>p. Inr ''url''), eBatch = (\<lambda>t j. BatchWritten []),
     sFindEvent = (\<lambda>e. Inr (Some \<lparr>evName = ''E'', evStatus = 2\<rparr>)),
     sGetConfig = (\<lambda>e. Inr (Some \<lparr>ecMaxTicketsPerOrder = 4, ecAllowWaitRoom = False\<rparr>)),
     sConfigLast = False, sVerify = (\<lambda>t. None), sPaymentUrl = (\<lambda>k. Inl (NotFound, ''none'')),
     sDate = (\<lambda>t. (2025, 10, 8)), sRandom = [0, 24, 1, 28, 9, 30, 10, 23], sOthers = (\<lambda>n t. t),
     sRun = Ran, sLate = (\<lambda>w. w), sCreateTimeout = 15 * second\<rparr>"

definition demo_request :: "string list \<Rightarrow> create_order_input" where
  "demo_request classes = \<lparr>ordCheckoutToken = [], ordUserID = ''u'', ordUserFullName = ''U'', ordEmail = ''m'',
     ordPhone = ''p'', ordEventID = ''e'', ordCurrency = ''VND'', ordRedirectUrl = ''r'',
     ordPaymentMethod = ''PAYOS'',
     ordItems = map (\<lambda>c. \<lparr>oiTicketClassID = c, oiQuantity = 1\<rparr>) classes\<rparr>"

definition demo_slot_key :: string where "demo_slot_key = PurchaseSlotKey [] ''u'' ''e''"

definition demo_code :: string where
  "demo_code = GenerateOrderCodeWithEventPrefix (2025, 10, 8) [0, 24, 1, 28, 9, 30, 10, 23] ''E''"

abbreviation "demo_event \<equiv> \<lparr>evName = ''E'', evStatus = 2\<rparr>"
abbreviation "demo_config \<equiv> \<lparr>ecMaxTicketsPerOrder = 4, ecAllowWaitRoom = False\<rparr>"

lemma demo_create_premises:
  "lookup_event demo_svc (ordEventID (demo_request cs)) = Inr (demo_event, demo_config)"
  "demo_code = GenerateOrderCodeWithEventPrefix (sDate demo_svc (wNow calm_world)) (sRandom demo_svc) (evName demo_event)"
  "demo_slot_key = PurchaseSlotKey (slot_session demo_svc (demo_request cs) demo_config)
     (ordUserID (demo_request cs)) (ordEventID (demo_request cs))"
  "map_of (wTable calm_world) (slot_key demo_slot_key) = None"
  "map_of (wTable calm_world) (order_key demo_code) = None" "fresh_items demo_code (wTable calm_world)"
  "consistent (wInv calm_world)" "wEnv calm_world = []" "\<forall>t j. eBatch demo_svc t j = BatchWritten []"
  "sRun demo_svc = Ran"
  using demo_consistent demo_fresh
  by (simp_all add: lookup_event_def demo_svc_def demo_request_def status_error_def demo_code_def
      demo_slot_key_def slot_session_def calm_world_def)

lemma demo_code_unused: "orderRows (wInv calm_world) demo_code = []"
proof -
  have "demo_code = ''TB-'' @ drop 3 demo_code"
    by (simp add: demo_code_def GenerateOrderCodeWithEventPrefix_def)
  then obtain s where s: "demo_code = ''TB-'' @ s" by blast
  have "demo_code \<noteq> ''A''" "demo_code \<noteq> ''B''" "demo_code \<noteq> ''E''" unfolding s by simp_all
  then show ?thesis by (simp add: calm_world_def orderRows_def demo_defs not_sym)
qed

lemma create_settles_slot_witness:
  "create_settled demo_slot_key demo_code calm_world
     (fst (Create demo_svc (demo_request [''1'']) calm_world)) (snd (Create demo_svc (demo_request [''1'']) calm_world))"
proof -
  have "length (ordItems (demo_request [''1''])) \<le> batchSize" by (simp add: demo_request_def batchSize_def)
  from create_settles_slot [OF demo_create_premises(1-7) demo_code_unused demo_create_premises(8,9) this
      demo_create_premises(10) surjective_pairing]
  show ?thesis .
qed

lemma missing_class_panics_witness:
  "snd (Create demo_svc (demo_request [''1'', ''9'']) calm_world) = Panicked"
proof -
  let ?i = "demo_request [''1'', ''9'']"
  have m: "map_option (map pId) (case rpc_FindManyTicketClass (\<lambda>t. ''t'') \<lparr>fmEventId = ''e'', fmIds = [''1'', ''9'']\<rparr> demo_db
      of Inl e \<Rightarrow> None | Inr tcs \<Rightarrow> Some tcs) = Some [''1'']" by code_simp
  then obtain tcs where tcs: "rpc_FindManyTicketClass (\<lambda>t. ''t'') \<lparr>fmEventId = ''e'', fmIds = [''1'', ''9'']\<rparr> demo_db = Inr tcs"
    "map pId tcs = [''1'']" by (auto split: sum.splits)
  have a: "evStatus demo_event = EVENT_STATUS_PUBLISHED" by (simp add: EVENT_STATUS_PUBLISHED_def)
  have b: "ecMaxTicketsPerOrder demo_config \<le> 0 \<or> ticketsInOrder (ordItems ?i) \<le> ecMaxTicketsPerOrder demo_config"
    by (simp add: demo_request_def ticketsInOrder_def int32_id in_i32_def)
  have c: "rpc_FindManyTicketClass (eFmt demo_svc)
      \<lparr>fmEventId = ordEventID ?i, fmIds = map oiTicketClassID (ordItems ?i)\<rparr> (wInv calm_world) = Inr tcs"
    using tcs(1) by (simp add: demo_svc_def demo_request_def calm_world_def)
  have d: "tcs \<noteq> []" using tcs(2) by auto
  have e: "\<lparr>oiTicketClassID = ''9'', oiQuantity = 1\<rparr> \<in> set (ordItems ?i)" by (simp add: demo_request_def)
  have "pId ` set tcs = {''1''}" using tcs(2) by (metis list.set(1,2) set_map)
  then have one: "pId tc = ''1''" if "tc \<in> set tcs" for tc using that by blast
  have f: "\<forall>tc \<in> set tcs. pId tc \<noteq> oiTicketClassID \<lparr>oiTicketClassID = ''9'', oiQuantity = 1\<rparr>"
    by (intro ballI) (simp add: one)
  have g: "min_i64 \<le> unix (wNow calm_world)" "unix (wNow calm_world) \<le> max_i64"
    by (simp_all add: calm_world_def unix_def second_def min_i64_def max_i64_def)
  have h: "ecAllowWaitRoom demo_config \<longrightarrow> (\<exists>c. validateCheckoutToken demo_svc ?i = Inr c)" by simp
  from missing_class_panics [OF demo_create_premises(1-5,8) a b h c d e f g surjective_pairing] show ?thesis by (rule conjunct1)
qed

lemma slot_not_stolen_witness:
  "snd (claimPurchaseSlot demo_svc ''s'' ''B'' ''PAYOS''
     (calm_world\<lparr>wTable := fst (ClaimPurchaseSlot (5 * second) ''s'' ''A'' (\<lambda>t. t) []), wNow := 9 * second\<rparr>)) \<noteq> Inr None"
proof -
  let ?c = "claim_item (5 * second) ''A''"
  let ?w = "calm_world\<lparr>wTable := fst (ClaimPurchaseSlot (5 * second) ''s'' ''A'' (\<lambda>t. t) []), wNow := 9 * second\<rparr>"
  have t: "fst (ClaimPurchaseSlot (5 * second) ''s'' ''A'' (\<lambda>t. t) []) = AList.update (slot_key ''s'') (DClaim ?c) []"
    by (simp add: ClaimPurchaseSlot_eq)
  have "unix (5 * second) = 5" by (simp add: unix_def second_def)
  then have "parseClaimedAt (Some ?c) = 5 * second"
    using parse_formatInt [of 5] by (simp add: parseClaimedAt_def claim_item_def min_i64_def max_i64_def)
  moreover have "0 \<le> CreateOrderSlotBudget"
    by (simp add: CreateOrderSlotBudget_def create_budget minute_def second_def)
  ultimately have "before (parseClaimedAt (Some ?c) + purchaseSlotSettleWindow demo_svc) ?w"
    by (simp add: before_def calm_world_def purchaseSlotSettleWindow_def demo_svc_def
        purchaseSlotSettleMargin_def second_def)
  moreover have "unwritten_at ''A'' (wTable ?w)" "clOrderCode ?c = ''A''"
    by (simp_all add: t unwritten_at_def GetByCode_def claim_item_def)
  ultimately have "slot_owed demo_svc ''s'' ?c ?w" by (simp add: slot_owed_def t slot_of_def as_claim_def)
  moreover have "others_keep demo_svc ''s'' ?c" by (simp add: others_keep_def demo_svc_def)
  ultimately show ?thesis using slot_not_stolen [OF _ _ surjective_pairing] by blast
qed

lemma cancel_sound_witness:
  "snd (Cancel ''A'' ''x'' (demo_world\<lparr>wEnv := []\<rparr>)) \<noteq> Inr () \<and>
     wTable (fst (Cancel ''A'' ''x'' (demo_world\<lparr>wEnv := []\<rparr>))) = demo_table"
proof -
  have "order_at ''A'' (wTable (demo_world\<lparr>wEnv := []\<rparr>)) = Some demo_order"
    using demo_order_at by (simp add: demo_world_def)
  from cancel_sound [OF this demo_order_fields(1,2) surjective_pairing, of "''x''"] demo_order_fields(4)
  show ?thesis by (simp add: demo_world_def)
qed

lemma payment_failure_overwrites_witness:
  "status_at ''A'' (wTable (fst (HandlePaymentFailed ''A'' (demo_world\<lparr>wEnv := []\<rparr>)))) = Some OrderStatusPaymentFailed"
proof -
  let ?w = "demo_world\<lparr>wEnv := []\<rparr>"
  have at: "order_at ''A'' (wTable ?w) = Some demo_order" using demo_order_at by (simp add: demo_world_def)
  then have "GetOne (by_code ''A'') (wTable ?w) = Inr demo_order"
    using get_at [OF at] demo_order_fields(1) by (simp add: GetOne_def by_code_def)
  moreover have "wEnv ?w = []" "order_at (oCode demo_order) (wTable ?w) = Some demo_order"
    using at demo_order_fields(2) by simp_all
  ultimately show ?thesis
    using payment_failure_overwrites [OF _ _ _ surjective_pairing, of ?w "''A''" demo_order] demo_order_fields(2) by simp
qed

end
