(* ===== verification/Order_Delivery.thy ===== *)
theory Order_Delivery
  imports Order_Service_Props
begin

text \<open>
  The order service's delivery layers. gRPC (\<open>order-svc/internal/order/delivery/grpc\<close>):
  validation, messages, error codes and the five handlers. Kafka
  (\<open>order-svc/internal/order/delivery/kafka/consumer\<close>): the consumer of payment results, which
  marks a message once it is answered and ends its session at one that is not, so that the broker
  delivers it again. A message's JSON body is modelled by the order code it holds, if it
  parses. A time is formatted by a parameter, and a cursor is read and written by parameters.
\<close>

section \<open>Messages\<close>

record pb_order_item =
  poiTicketClassId :: string
  poiQuantity :: int
  poiPriceCents :: int

record pb_order =
  poCode :: string
  poUserId :: string
  poEventId :: string
  poUserFullname :: string
  poUserEmail :: string
  poUserPhone :: string
  poTotalAmountCents :: int
  poCurrency :: string
  poPaymentMethod :: string
  poStatus :: int
  poCreatedAt :: string
  poUpdatedAt :: string
  poItems :: "pb_order_item list"

record pb_create_order_request =
  qoEventId :: string
  qoUserId :: string
  qoUserFullname :: string
  qoUserEmail :: string
  qoUserPhone :: string
  qoPaymentMethod :: string
  qoItems :: "order_item_input list"
  qoCurrency :: string
  qoCheckoutToken :: string
  qoRedirectUrl :: string

record pb_order_filter =
  pfUserId :: string
  pfEventId :: string
  pfStatus :: "int option"

record pb_pagination =
  ppNextCursor :: string
  ppPageSize :: int
  ppCount :: int
  ppHasNext :: bool

section \<open>Errors\<close>

definition ErrValidationFailed :: delivery_error where
  "ErrValidationFailed = GRPCError InvalidArgument ''ORD400 - Validation failed''"

definition mapError :: "order_error \<Rightarrow> delivery_error" where
  "mapError e =
     (case e of
        ErrOrderNotFound \<Rightarrow> GRPCError NotFound ''ORD001 - Order not found''
      | ErrOrderAlreadyExists \<Rightarrow> GRPCError AlreadyExists ''ORD002 - Order already exists''
      | ErrInvalidOrderStatus \<Rightarrow> GRPCError FailedPrecondition ''ORD003 - Invalid order status''
      | ErrOrderCreationFailed \<Rightarrow> GRPCError Internal ''ORD004 - Order creation failed''
      | ErrOrderUpdateFailed \<Rightarrow> GRPCError Internal ''ORD005 - Order update failed''
      | ErrOrderCancellationFailed \<Rightarrow> GRPCError Internal ''ORD006 - Order cancellation failed''
      | ErrOrderNotPending \<Rightarrow> GRPCError FailedPrecondition ''ORD007 - Order is not in pending status''
      | ErrPaymentAmountMismatch \<Rightarrow>
          GRPCError InvalidArgument ''ORD008 - Payment amount does not match order amount''
      | ErrEventNotFound \<Rightarrow> GRPCError NotFound ''ORD009 - Event not found''
      | ErrEventNotReadyForSale \<Rightarrow> GRPCError FailedPrecondition ''ORD010 - Event not ready for sale''
      | ErrTicketClassNotFound \<Rightarrow> GRPCError NotFound ''ORD011 - Ticket class not found''
      | ErrTicketSoldOut \<Rightarrow> GRPCError FailedPrecondition ''ORD012 - Ticket sold out''
      | ErrNotEnoughTickets \<Rightarrow> GRPCError FailedPrecondition ''ORD013 - Not enough tickets available''
      | ErrEventConfigNotFound \<Rightarrow> GRPCError NotFound ''ORD014 - Event config not found''
      | ErrTooManyTicketsInOrder \<Rightarrow>
          GRPCError InvalidArgument ''ORD020 - Too many tickets in one order for this event''
      | ErrInvalidCheckoutToken \<Rightarrow> GRPCError Unauthenticated ''ORD016 - Invalid checkout token''
      | ErrRequestTimeout \<Rightarrow> GRPCError DeadlineExceeded ''ORD017 - Order creation timed out''
      | ErrOrderAlreadyProcessed \<Rightarrow> GRPCError FailedPrecondition ''ORD018 - Order already processed''
      | ErrPurchaseSlotUnsettled \<Rightarrow>
          GRPCError FailedPrecondition ''ORD019 - Could not start checkout, please try again''
      | _ \<Rightarrow> PlainError ''error'')"

definition reply :: "order_error + 'a \<Rightarrow> grpc_status + 'a" where
  "reply r = (case r of Inl e \<Rightarrow> Inl (GrpcError (mapError e)) | Inr a \<Rightarrow> Inr a)"

section \<open>Statuses on the wire\<close>

definition GrpcOrderStatusValue :: "order_status \<Rightarrow> int" where
  "GrpcOrderStatusValue st =
     (case st of
        OrderStatusPending \<Rightarrow> 1 | OrderStatusCompleted \<Rightarrow> 2 | OrderStatusCancelled \<Rightarrow> 3
      | OrderStatusPaymentFailed \<Rightarrow> 4 | OrderStatusTimeout \<Rightarrow> 5 | OrderStatusRefundRequired \<Rightarrow> 6
      | OrderStatusRefunded \<Rightarrow> 7 | OrderStatusOther s \<Rightarrow> 0)"

definition OrderStatusOf :: "int \<Rightarrow> order_status option" where
  "OrderStatusOf n =
     (if n = 1 then Some OrderStatusPending else if n = 2 then Some OrderStatusCompleted
      else if n = 3 then Some OrderStatusCancelled else if n = 4 then Some OrderStatusPaymentFailed
      else if n = 5 then Some OrderStatusTimeout else if n = 6 then Some OrderStatusRefundRequired
      else if n = 7 then Some OrderStatusRefunded else None)"

section \<open>Validation\<close>

definition validateCreateOrderItem :: "order_item_input \<Rightarrow> delivery_error option" where
  "validateCreateOrderItem it =
     (if oiTicketClassID it = [] then Some ErrValidationFailed
      else if oiQuantity it \<le> 0 then Some ErrValidationFailed
      else None)"

fun validateOrderItems :: "order_item_input list \<Rightarrow> delivery_error option" where
  "validateOrderItems [] = None"
| "validateOrderItems (it # its) =
     (case validateCreateOrderItem it of Some e \<Rightarrow> Some e | None \<Rightarrow> validateOrderItems its)"

definition validateCreateOrderRequest :: "pb_create_order_request \<Rightarrow> delivery_error option" where
  "validateCreateOrderRequest req =
     (if qoEventId req = [] then Some ErrValidationFailed
      else if qoUserId req = [] then Some ErrValidationFailed
      else if qoUserFullname req = [] then Some ErrValidationFailed
      else if qoUserEmail req = [] then Some ErrValidationFailed
      else if qoUserPhone req = [] then Some ErrValidationFailed
      else if qoPaymentMethod req = [] then Some ErrValidationFailed
      else if qoCurrency req = [] then Some ErrValidationFailed
      else if qoItems req = [] then Some ErrValidationFailed
      else if qoRedirectUrl req = [] then Some ErrValidationFailed
      else validateOrderItems (qoItems req))"

definition validateOrderFilter :: "pb_order_filter \<Rightarrow> delivery_error option" where
  "validateOrderFilter fil =
     (case pfStatus fil of
        None \<Rightarrow> None
      | Some n \<Rightarrow> if OrderStatusOf n = None then Some ErrValidationFailed else None)"

definition validateFilterOption :: "pb_order_filter option \<Rightarrow> delivery_error option" where
  "validateFilterOption fil = (case fil of None \<Rightarrow> None | Some f \<Rightarrow> validateOrderFilter f)"

definition validateGetManyOrdersRequest :: "int \<Rightarrow> pb_order_filter option \<Rightarrow> delivery_error option" where
  "validateGetManyOrdersRequest pageSize fil =
     (if pageSize \<le> 0 then Some ErrValidationFailed else validateFilterOption fil)"

text \<open>Get and cancel name an order and the caller.\<close>

definition validateOwnerRequest :: "string \<Rightarrow> string \<Rightarrow> delivery_error option" where
  "validateOwnerRequest code userID = (if code = [] \<or> userID = [] then Some ErrValidationFailed else None)"

section \<open>Conversions\<close>

definition newOrderItems :: "order_item list \<Rightarrow> pb_order_item list" where
  "newOrderItems its = map (\<lambda>it. \<lparr>poiTicketClassId = iTicketClassID it, poiQuantity = iQuantity it,
     poiPriceCents = iTotalAmount it\<rparr>) its"

definition newOrderResponse :: "(time \<Rightarrow> string) \<Rightarrow> order \<Rightarrow> pb_order" where
  "newOrderResponse fmt ord =
     \<lparr>poCode = oCode ord, poUserId = oUserID ord, poEventId = oEventID ord,
      poUserFullname = oUserFullName ord, poUserEmail = oEmail ord, poUserPhone = oPhone ord,
      poTotalAmountCents = oTotalAmount ord, poCurrency = oCurrency ord,
      poPaymentMethod = oPaymentMethod ord, poStatus = GrpcOrderStatusValue (oStatus ord),
      poCreatedAt = fmt (oCreatedAt ord), poUpdatedAt = fmt (oUpdatedAt ord), poItems = []\<rparr>"

definition newGetOrderResponse :: "(time \<Rightarrow> string) \<Rightarrow> order \<times> order_item list \<Rightarrow> pb_order" where
  "newGetOrderResponse fmt out = (newOrderResponse fmt (fst out))\<lparr>poItems := newOrderItems (snd out)\<rparr>"

definition newCreateResponses :: "(time \<Rightarrow> string) \<Rightarrow> create_order_output \<Rightarrow> pb_order \<times> string" where
  "newCreateResponses fmt out =
     (\<lparr>poCode = oCode (outOrder out), poUserId = oUserID (outOrder out), poEventId = oEventID (outOrder out),
       poUserFullname = oUserFullName (outOrder out), poUserEmail = oEmail (outOrder out), poUserPhone = [],
       poTotalAmountCents = oTotalAmount (outOrder out), poCurrency = oCurrency (outOrder out),
       poPaymentMethod = oPaymentMethod (outOrder out),
       poStatus = GrpcOrderStatusValue (oStatus (outOrder out)),
       poCreatedAt = fmt (oCreatedAt (outOrder out)), poUpdatedAt = fmt (oUpdatedAt (outOrder out)),
       poItems = newOrderItems (outOrderItems out)\<rparr>, outPaymentUrl out)"

definition newOrderFilter :: "pb_order_filter option \<Rightarrow> filter_order" where
  "newOrderFilter reqFil =
     (case reqFil of
        None \<Rightarrow> \<lparr>fCode = [], fUserID = [], fEventID = [], fSessionID = [], fStatus = None\<rparr>
      | Some f \<Rightarrow>
          let n = (case pfStatus f of None \<Rightarrow> 0 | Some n \<Rightarrow> n)
          in \<lparr>fCode = [], fUserID = pfUserId f, fEventID = pfEventId f, fSessionID = [],
              fStatus = (if n = 0 then None
                         else Some (case OrderStatusOf n of None \<Rightarrow> OrderStatusOther [] | Some s \<Rightarrow> s))\<rparr>)"

definition newCreateOrderInput :: "pb_create_order_request \<Rightarrow> create_order_input" where
  "newCreateOrderInput req =
     \<lparr>ordCheckoutToken = qoCheckoutToken req, ordUserID = qoUserId req, ordUserFullName = qoUserFullname req,
      ordEmail = qoUserEmail req, ordPhone = qoUserPhone req, ordEventID = qoEventId req,
      ordCurrency = qoCurrency req, ordRedirectUrl = qoRedirectUrl req,
      ordPaymentMethod = qoPaymentMethod req, ordItems = qoItems req\<rparr>"

section \<open>Handlers\<close>

definition rpc_CreateOrder ::
  "svc_ext \<Rightarrow> pb_create_order_request \<Rightarrow> world \<Rightarrow> world \<times> (grpc_status + pb_order \<times> string) outcome" where
  "rpc_CreateOrder x req w =
     (case validateCreateOrderRequest req of
        Some e \<Rightarrow> (w, Returned (Inl (GrpcError e)))
      | None \<Rightarrow>
          (case Create x (newCreateOrderInput req) w of
             (w', Panicked) \<Rightarrow> (w', Panicked)
           | (w', Returned r) \<Rightarrow>
               (w', Returned (case reply r of Inl s \<Rightarrow> Inl s | Inr out \<Rightarrow> Inr (newCreateResponses (eFmt x) out)))))"

definition rpc_CancelOrder :: "string \<Rightarrow> string \<Rightarrow> world \<Rightarrow> world \<times> (grpc_status + unit)" where
  "rpc_CancelOrder code userID w =
     (case validateOwnerRequest code userID of
        Some e \<Rightarrow> (w, Inl (GrpcError e))
      | None \<Rightarrow> (case Cancel code userID w of (w', r) \<Rightarrow> (w', reply r)))"

definition rpc_GetOrder :: "(time \<Rightarrow> string) \<Rightarrow> string \<Rightarrow> string \<Rightarrow> world \<Rightarrow> world \<times> (grpc_status + pb_order)" where
  "rpc_GetOrder fmt code userID w =
     (case validateOwnerRequest code userID of
        Some e \<Rightarrow> (w, Inl (GrpcError e))
      | None \<Rightarrow>
          (case GetByID code userID w of
             (w', r) \<Rightarrow> (w', case reply r of Inl s \<Rightarrow> Inl s | Inr out \<Rightarrow> Inr (newGetOrderResponse fmt out))))"

definition rpc_ListOrders ::
  "page_cut \<Rightarrow> (time \<Rightarrow> string) \<Rightarrow> pb_order_filter option \<Rightarrow> world \<Rightarrow> world \<times> (grpc_status + pb_order list)" where
  "rpc_ListOrders fits fmt fil w =
     (case validateFilterOption fil of
        Some e \<Rightarrow> (w, Inl (GrpcError e))
      | None \<Rightarrow>
          (case svc_List fits (newOrderFilter fil) w of
             (w', r) \<Rightarrow> (w', case reply r of Inl s \<Rightarrow> Inl s | Inr os \<Rightarrow> Inr (map (newOrderResponse fmt) os))))"

text \<open>\<open>decode\<close> fails on a cursor that is not one; the empty cursor is the first page.\<close>

definition rpc_GetManyOrders ::
  "page_cut \<Rightarrow> (time \<Rightarrow> string) \<Rightarrow> (string \<Rightarrow> dkey option) \<Rightarrow> (dkey \<Rightarrow> string) \<Rightarrow> string \<Rightarrow> int \<Rightarrow> pb_order_filter option
     \<Rightarrow> world \<Rightarrow> world \<times> (grpc_status + pb_order list \<times> pb_pagination)" where
  "rpc_GetManyOrders fits fmt decode encode cursor pageSize fil w =
     (case validateGetManyOrdersRequest pageSize fil of
        Some e \<Rightarrow> (w, Inl (GrpcError e))
      | None \<Rightarrow>
          if cursor \<noteq> [] \<and> decode cursor = None
          then (w, Inl (GrpcError (PlainError ''cursor'')))
          else
            (case svc_GetMany fits (newOrderFilter fil)
                    \<lparr>pqLimit = pageSize, pqCursor = (if cursor = [] then None else decode cursor)\<rparr> w of
               (w', r) \<Rightarrow>
                 (w', case reply r of
                        Inl s \<Rightarrow> Inl s
                      | Inr (os, pg) \<Rightarrow>
                          Inr (map (newOrderResponse fmt) os,
                               \<lparr>ppNextCursor = (case pgNextCursor pg of None \<Rightarrow> [] | Some k \<Rightarrow> encode k),
                                ppPageSize = pgPageSize pg, ppCount = pgCount pg, ppHasNext = pgHasMore pg\<rparr>))))"

section \<open>The consumer of payment results\<close>

definition TopicPaymentCompleted :: string where "TopicPaymentCompleted = ''payment.completed''"
definition TopicPaymentFailed :: string where "TopicPaymentFailed = ''payment.failed''"

record kafka_message =
  kTopic :: string
  kOrderCode :: "string option"

definition consume_PaymentCompleted :: "kafka_message \<Rightarrow> unit svc" where
  "consume_PaymentCompleted msg w =
     (case kOrderCode msg of
        None \<Rightarrow> (w, Inl (ErrOther ''unmarshal''))
      | Some code \<Rightarrow> HandlePaymentCompleted code w)"

definition consume_PaymentFailed :: "kafka_message \<Rightarrow> unit svc" where
  "consume_PaymentFailed msg w =
     (case kOrderCode msg of
        None \<Rightarrow> (w, Inl (ErrOther ''unmarshal''))
      | Some code \<Rightarrow> HandlePaymentFailed code w)"

definition processMessage :: "kafka_message \<Rightarrow> unit svc" where
  "processMessage msg w =
     (if kTopic msg = TopicPaymentCompleted then consume_PaymentCompleted msg w
      else if kTopic msg = TopicPaymentFailed then consume_PaymentFailed msg w
      else (w, Inr ()))"

definition isSettled :: "order_error \<Rightarrow> bool" where
  "isSettled e \<longleftrightarrow> e = ErrOrderAlreadyProcessed \<or> e = ErrOrderNotFound"

text \<open>
  One session on a partition, over the messages still to come; it is told to stop after \<open>n\<close>
  of them. The result lists the messages it marked, and the error that ended it, if one did.
\<close>

fun ConsumeClaim ::
  "nat \<Rightarrow> kafka_message list \<Rightarrow> world \<Rightarrow> world \<times> kafka_message list \<times> order_error option" where
  "ConsumeClaim 0 ms w = (w, [], None)"
| "ConsumeClaim (Suc n) [] w = (w, [], None)"
| "ConsumeClaim (Suc n) (m # ms) w =
     (case processMessage m w of
        (w1, r) \<Rightarrow>
          if (case r of Inr u \<Rightarrow> True | Inl e \<Rightarrow> isSettled e)
          then (case ConsumeClaim n ms w1 of (w2, marked, e) \<Rightarrow> (w2, m # marked, e))
          else (w1, [], (case r of Inl e \<Rightarrow> Some e | Inr u \<Rightarrow> None)))"

text \<open>\<open>Start\<close>: session after session, each resuming after the last message marked.\<close>

fun sessions :: "nat list \<Rightarrow> kafka_message list \<Rightarrow> world \<Rightarrow> world \<times> kafka_message list" where
  "sessions [] ms w = (w, ms)"
| "sessions (n # ns) ms w =
     (case ConsumeClaim n ms w of (w', marked, e) \<Rightarrow> sessions ns (drop (length marked) ms) w')"

end
