(* ===== verification/Order_Queries.thy ===== *)
theory Order_Queries
  imports Order_Workflow_Props
begin

text \<open>
  The paged queries over orders: following the cursors of \<open>GetMany\<close> from the first page on
  visits every matching order exactly once, whatever the page size and wherever DynamoDB cuts
  a page short, and the single big page
  behind \<open>List\<close> holds them all up to its limit.
\<close>

text \<open>The rows a query reads, in its order, and the orders it keeps of them.\<close>

definition query_rows :: "filter_order \<Rightarrow> otable \<Rightarrow> (dkey \<times> ditem) list" where
  "query_rows f t =
     (if fUserID f \<noteq> [] then index_rows oGSI1PK oGSI1SK (BuildUserGSI1PK (fUserID f)) t
      else if fEventID f \<noteq> [] then index_rows oGSI2PK oGSI2SK (BuildEventGSI2PK (fEventID f)) t
      else t)"

definition query_keeps :: "filter_order \<Rightarrow> order \<Rightarrow> bool" where
  "query_keeps f ord \<longleftrightarrow> live_order ord \<and> status_matches f ord \<and> session_matches f ord \<and>
     (fUserID f = [] \<and> fEventID f = [] \<longrightarrow> fCode f = [] \<or> oCode ord = fCode f)"

definition matching :: "filter_order \<Rightarrow> otable \<Rightarrow> order list" where
  "matching f t = filter (query_keeps f) (List.map_filter (as_order \<circ> snd) (query_rows f t))"

lemma GetMany_page:
  "GetManyOrders fits f pq t = page fits (Adjust pq) (query_keeps f) (query_rows f t)"
  by (simp add: GetManyOrders_def Let_def query_rows_def query_keeps_def [abs_def] scanOrders_def)

lemma distinct_query_rows:
  assumes "distinct (map fst t)"
  shows "distinct (map fst (query_rows f t))"
proof -
  have "distinct (map fst (sort_key g (filter p t)))" for g :: "dkey \<times> ditem \<Rightarrow> string" and p
    using assms by (metis distinct_map_filter mset_map mset_sort mset_eq_imp_distinct_iff)
  then have "distinct (map fst (index_rows pk sk v t))" for pk sk v
    by (simp add: index_rows_def rev_map [symmetric])
  then show ?thesis using assms by (simp add: query_rows_def)
qed

lemma after_cursor_last:
  assumes "distinct (map fst (pre @ rest))" and "pre \<noteq> []"
  shows "after_cursor (Some (fst (last pre))) (pre @ rest) = rest"
proof -
  let ?k = "fst (last pre)" and ?ne = "\<lambda>kv. fst kv \<noteq> fst (last pre)"
  have pre: "pre = butlast pre @ [last pre]" using assms(2) by simp
  have "\<forall>kv \<in> set (butlast pre). ?ne kv"
    using assms(1) by (subst (asm) pre) (force simp: image_iff)
  then have "dropWhile ?ne (butlast pre @ (last pre # rest)) = last pre # rest"
    by (simp add: dropWhile_append2)
  then show ?thesis using pre by (simp add: after_cursor_def) (metis append.assoc append_Cons append_Nil list.sel(3))
qed

text \<open>Following the cursors, at most \<open>n\<close> pages.\<close>

fun walk_pages :: "page_cut \<Rightarrow> nat \<Rightarrow> filter_order \<Rightarrow> int \<Rightarrow> dkey option \<Rightarrow> otable \<Rightarrow> order list option" where
  "walk_pages fits 0 f limit c t = None"
| "walk_pages fits (Suc n) f limit c t =
     (case GetManyOrders fits f \<lparr>pqLimit = limit, pqCursor = c\<rparr> t of
        Inl e \<Rightarrow> None
      | Inr (os, pg) \<Rightarrow>
          (case pgNextCursor pg of
             None \<Rightarrow> Some os
           | Some k \<Rightarrow> map_option (append os) (walk_pages fits n f limit (Some k) t)))"

lemma walk_rest:
  assumes "distinct (map fst (query_rows f t))" and "1 \<le> limit" and "in_i32 limit" and "\<And>rows. 1 \<le> fits rows"
    and "query_rows f t = pre @ rest" and "c = (if pre = [] then None else Some (fst (last pre)))"
    and "length rest < n"
  shows "walk_pages fits n f limit c t = Some (filter (query_keeps f) (List.map_filter (as_order \<circ> snd) rest))"
  using assms(5-7)
proof (induction n arbitrary: pre rest c)
  case 0
  then show ?case by simp
next
  case (Suc n)
  let ?L = "min (nat limit) (fits rest)"
  let ?seen = "take ?L rest"
  have L: "0 < ?L" using assms(2) assms(4) [of rest] by simp
  have rest: "after_cursor c (query_rows f t) = rest"
  proof (cases "pre = []")
    case True
    with Suc.prems(1,2) show ?thesis by (simp add: after_cursor_def)
  next
    case False
    with Suc.prems(1,2) assms(1) after_cursor_last [of pre rest] show ?thesis by simp
  qed
  have adj: "Adjust \<lparr>pqLimit = limit, pqCursor = c\<rparr> = \<lparr>pqLimit = limit, pqCursor = c\<rparr>"
    using assms(2) by (simp add: Adjust_def)
  let ?os = "filter (query_keeps f) (List.map_filter (as_order \<circ> snd) ?seen)"
  let ?more = "length ?seen = nat limit \<or> length ?seen < length rest"
  obtain pg where run: "GetManyOrders fits f \<lparr>pqLimit = limit, pqCursor = c\<rparr> t = Inr (?os, pg)"
    "pgNextCursor pg = (if ?more then Some (fst (last ?seen)) else None)"
    using assms(2) int32_id [OF assms(3)] rest by (simp add: GetMany_page adj page_def Let_def)
  show ?case
  proof (cases ?more)
    case True
    let ?pre = "pre @ ?seen" and ?rest = "drop ?L rest"
    have some: "rest \<noteq> []" using True assms(2) by auto
    then have ne: "?seen \<noteq> []" using L by simp
    have "length ?rest < n"
    proof -
      have "0 < length rest" using some by simp
      with L have "length ?rest < length rest" unfolding length_drop by (rule diff_less)
      then show ?thesis using Suc.prems(3) by simp
    qed
    moreover have "query_rows f t = ?pre @ ?rest" using Suc.prems(1) by simp
    moreover have "Some (fst (last ?seen)) = (if ?pre = [] then None else Some (fst (last ?pre)))"
      using last_appendR [OF ne, of pre] ne by (simp del: take_eq_Nil take_eq_Nil2 last_append)
    ultimately have "walk_pages fits n f limit (Some (fst (last ?seen))) t =
        Some (filter (query_keeps f) (List.map_filter (as_order \<circ> snd) ?rest))"
      by (rule Suc.IH [rotated 2])
    moreover have "List.map_filter (as_order \<circ> snd) rest =
        List.map_filter (as_order \<circ> snd) ?seen @ List.map_filter (as_order \<circ> snd) ?rest"
      by (metis append_take_drop_id map_filter_def filter_append map_append)
    ultimately show ?thesis using run True by (simp add: o_def)
  next
    case False
    then have "?seen = rest" by (simp add: not_less)
    with run False show ?thesis by (simp add: o_def)
  qed
qed

text \<open>
  Following the cursors visits every order once. Over a table with distinct keys, with
  any page size that fits an \<open>int32\<close>, and wherever DynamoDB cuts a page, the pages from the
  first to the one without a cursor hold together exactly the orders that match, in the order of
  the index, and one page more than there are rows is enough.
\<close>

theorem pages_complete:
  assumes "distinct (map fst t)" and "1 \<le> limit" and "limit < 2 ^ 31" and "\<And>rows. 1 \<le> fits rows"
  shows "walk_pages fits (Suc (length (query_rows f t))) f limit None t = Some (matching f t)"
  unfolding matching_def
  by (rule walk_rest [OF distinct_query_rows [OF assms(1)] assms(2) _ assms(4), where pre = "[]"])
    (use assms(2,3) in \<open>simp_all add: in_i32_def\<close>)

lemma pages_complete_witness:
  "walk_pages (\<lambda>rows. 1) 3 \<lparr>fCode = [], fUserID = [], fEventID = [], fSessionID = [], fStatus = None\<rparr> 1 None demo_table =
     Some [demo_order]"
proof -
  let ?f = "\<lparr>fCode = [], fUserID = [], fEventID = [], fSessionID = [], fStatus = None\<rparr>"
  have t: "demo_table = [(slot_key ''s1'', DClaim \<lparr>clOrderCode = ''A'', clClaimedAt = formatInt (unix 5),
      clExpiresAt = formatInt (unix (5 + purchaseSlotTTL))\<rparr>), (order_key ''A'', DOrder demo_order)]"
    by (simp add: demo_table_def ClaimPurchaseSlot_def put_new_def Let_def CreateOrderRow_def demo_order_def
        demo_option_def)
  have "distinct (map fst demo_table)" "(1::int) \<le> 1" "(1::int) < 2 ^ 31" by (simp_all add: t)
  from pages_complete [OF this, where fits = "\<lambda>rows. 1" and f = ?f] show ?thesis
    by (simp add: query_rows_def t matching_def map_filter_simps as_order_def query_keeps_def live_order_def
        status_matches_def session_matches_def demo_order_def buildOrderModel_def numeral_eq_Suc)
qed

text \<open>The one page of \<open>List\<close>.\<close>

lemma ListOrders_matching:
  assumes "distinct (map fst t)" and "length t < 1000" and "\<And>rows. length rows \<le> fits rows"
  shows "ListOrders fits f t = Inr (matching f t)"
proof -
  have "length (query_rows f t) \<le> length t" by (auto simp: query_rows_def index_rows_def)
  then have "take (min 1000 (fits (query_rows f t))) (query_rows f t) = query_rows f t" "length (query_rows f t) \<noteq> 1000"
    using assms(2) assms(3) [of "query_rows f t"] by simp_all
  then show ?thesis
    by (simp add: ListOrders_def GetMany_page Adjust_def page_def Let_def after_cursor_def int32_id in_i32_def
        matching_def)
qed

end
