(* ===== verification/Order_Delivery_Props.thy ===== *)
theory Order_Delivery_Props
  imports Order_Delivery Order_Queries
begin

text \<open>
  What the order service promises on the wire: what a caller who does not own an order learns,
  which orders a status filter finds, and how the consumer of payment results moves on.
\<close>

section \<open>Access\<close>

lemma reply_simps [simp]:
  "reply (Inr a) = Inr a" "reply (Inl ErrOrderNotFound) = Inl (NotFound, ''ORD001 - Order not found'')"
  by (simp_all add: reply_def mapError_def GrpcError_def)

lemma calm_ownedOrder_stranger:
  assumes "wEnv w = []"
    and "order_at code (wTable w) = None \<and> map_of (wTable w) (order_key code) = None \<or>
         (\<exists>ord. order_at code (wTable w) = Some ord \<and> (oDeletedAt ord \<noteq> None \<or> oUserID ord \<noteq> u))"
  shows "ownedOrder code u w = (w, Inl ErrOrderNotFound)"
proof -
  have "GetByCode code (wTable w) = Inl ErrRepoOrderNotFound \<or>
      (\<exists>ord. GetByCode code (wTable w) = Inr ord \<and> oUserID ord \<noteq> u)"
    using assms(2)
  proof (elim disjE exE conjE)
    fix ord
    assume "order_at code (wTable w) = Some ord" "oUserID ord \<noteq> u"
    then show ?thesis using get_at by auto
  next
    fix ord
    assume "order_at code (wTable w) = Some ord" "oDeletedAt ord \<noteq> None"
    then show ?thesis using get_at by auto
  qed (simp add: GetByCode_def)
  then show ?thesis
    using assms(1) by (auto simp: ownedOrder_def svc_GetByCode_def not_found_def)
qed

text \<open>
  A stranger cannot tell someone else's order from none. Without lost calls, GetOrder and
  CancelOrder answer NotFound, with the same message, and change nothing, alike when no order has
  the code, when it was deleted, and when its owner is not the caller, whatever its status.
\<close>

theorem stranger_learns_nothing:
  assumes "wEnv w = []" and "code \<noteq> []" and "u \<noteq> []"
    and "order_at code (wTable w) = None \<and> map_of (wTable w) (order_key code) = None \<or>
         (\<exists>ord. order_at code (wTable w) = Some ord \<and> (oDeletedAt ord \<noteq> None \<or> oUserID ord \<noteq> u))"
  shows "rpc_GetOrder fmt code u w = (w, Inl (NotFound, ''ORD001 - Order not found'')) \<and>
     rpc_CancelOrder code u w = (w, Inl (NotFound, ''ORD001 - Order not found''))"
  using calm_ownedOrder_stranger [OF assms(1,4)] assms(2,3)
  by (simp add: rpc_GetOrder_def rpc_CancelOrder_def validateOwnerRequest_def GetByID_def Cancel_def)

lemma stranger_learns_nothing_witness:
  "rpc_CancelOrder ''A'' ''x'' (demo_world\<lparr>wEnv := []\<rparr>) =
     (demo_world\<lparr>wEnv := []\<rparr>, Inl (NotFound, ''ORD001 - Order not found''))"
proof -
  let ?w = "demo_world\<lparr>wEnv := []\<rparr>"
  have "order_at ''A'' (wTable ?w) = Some demo_order" using demo_order_at by (simp add: demo_world_def)
  moreover have "oUserID demo_order \<noteq> ''x''" using demo_order_fields(4) by simp
  ultimately have "order_at ''A'' (wTable ?w) = None \<and> map_of (wTable ?w) (order_key ''A'') = None \<or>
      (\<exists>ord. order_at ''A'' (wTable ?w) = Some ord \<and> (oDeletedAt ord \<noteq> None \<or> oUserID ord \<noteq> ''x''))"
    by blast
  from stranger_learns_nothing [OF _ _ _ this, of "\<lambda>t. []"] show ?thesis by simp
qed

section \<open>Statuses\<close>

lemma status_value_known: "OrderStatusOf (GrpcOrderStatusValue st) = (case st of OrderStatusOther s \<Rightarrow> None | _ \<Rightarrow> Some st)"
  by (cases st) (simp_all add: OrderStatusOf_def GrpcOrderStatusValue_def)

lemma status_value_eq: "OrderStatusOf n = Some st \<Longrightarrow> GrpcOrderStatusValue st' = n \<longleftrightarrow> st' = st"
  by (cases st') (auto simp: OrderStatusOf_def GrpcOrderStatusValue_def split: if_splits)

lemma status_of_value: "OrderStatusOf n = Some st \<longleftrightarrow> GrpcOrderStatusValue st = n \<and> n \<noteq> 0"
  by (cases st) (auto simp: OrderStatusOf_def GrpcOrderStatusValue_def split: if_splits)

definition stored_orders :: "otable \<Rightarrow> order list" where
  "stored_orders t = List.map_filter (as_order \<circ> snd) t"

text \<open>
  A status filter finds exactly the orders shown with that status. Without lost calls and
  over at most 999 rows that fit into one page, a ListOrders request with only a status is refused exactly when the
  number is not one a stored order can be shown with; otherwise the reply holds, in table order,
  every order that is not deleted and whose own message carries the status, and no other.
\<close>

theorem list_by_status_exact:
  assumes "wEnv w = []" and "distinct (map fst (wTable w))" and "length (wTable w) < 1000"
    and "\<And>rows. length rows \<le> fits rows"
  shows "rpc_ListOrders fits fmt (Some \<lparr>pfUserId = [], pfEventId = [], pfStatus = Some n\<rparr>) w =
     (w, if n \<in> {1..7}
         then Inr (map (newOrderResponse fmt)
                (filter (\<lambda>ord. live_order ord \<and> poStatus (newOrderResponse fmt ord) = n) (stored_orders (wTable w))))
         else Inl (InvalidArgument, ''ORD400 - Validation failed''))"
proof (cases "OrderStatusOf n")
  case None
  then have "n \<notin> {1..7}" by (auto simp: OrderStatusOf_def split: if_splits)
  with None show ?thesis
    by (simp add: rpc_ListOrders_def validateFilterOption_def validateOrderFilter_def
        Order_Delivery.ErrValidationFailed_def GrpcError_def)
next
  case (Some st)
  have n: "n \<in> {1..7}" "n \<noteq> 0" using Some by (auto simp: OrderStatusOf_def split: if_splits)
  let ?f = "\<lparr>fCode = [], fUserID = [], fEventID = [], fSessionID = [], fStatus = Some st\<rparr>"
  have "query_keeps ?f = (\<lambda>ord. live_order ord \<and> poStatus (newOrderResponse fmt ord) = n)"
    by (simp add: fun_eq_iff query_keeps_def status_matches_def session_matches_def newOrderResponse_def
        status_value_eq [OF Some])
  then have m: "matching ?f (wTable w) =
      filter (\<lambda>ord. live_order ord \<and> poStatus (newOrderResponse fmt ord) = n) (stored_orders (wTable w))"
    by (simp add: matching_def query_rows_def stored_orders_def)
  have f: "newOrderFilter (Some \<lparr>pfUserId = [], pfEventId = [], pfStatus = Some n\<rparr>) = ?f"
    using Some n by (simp add: newOrderFilter_def Let_def)
  show ?thesis
    using Some n assms(1) ListOrders_matching [OF assms(2,3,4), of ?f]
    by (simp add: rpc_ListOrders_def validateFilterOption_def validateOrderFilter_def f svc_List_def m)
qed

section \<open>The consumer\<close>

definition final :: "order_error + unit \<Rightarrow> bool" where
  "final r \<longleftrightarrow> (case r of Inr u \<Rightarrow> True | Inl e \<Rightarrow> isSettled e)"

lemma ConsumeClaim_step:
  "ConsumeClaim (Suc n) (m # ms) w =
     (case processMessage m w of (w1, r) \<Rightarrow>
        if final r then (case ConsumeClaim n ms w1 of (w2, marked, e) \<Rightarrow> (w2, m # marked, e))
        else (w1, [], (case r of Inl e \<Rightarrow> Some e | Inr u \<Rightarrow> None)))"
  by (simp add: final_def)

declare ConsumeClaim.simps(3) [simp del]

text \<open>
  How a partition may move: its next message is handled, in the world as the handling before left
  it, and is passed when the handling answers it for good; a handling that fails leaves the
  message where it is.
\<close>

inductive partition_step :: "kafka_message list \<times> world \<Rightarrow> kafka_message list \<times> world \<Rightarrow> bool" where
  answered: "processMessage m w = (w', r) \<Longrightarrow> final r \<Longrightarrow> partition_step (m # ms, w) (ms, w')"
| failed: "processMessage m w = (w', Inl d) \<Longrightarrow> \<not> isSettled d \<Longrightarrow> partition_step (m # ms, w) (m # ms, w')"

inductive_cases partition_stepE: "partition_step (ms, w) (ms', w')"

lemma partition_suffix: "partition_step\<^sup>*\<^sup>* p q \<Longrightarrow> \<exists>gone. fst p = gone @ fst q"
  by (induction rule: rtranclp_induct) (auto elim!: partition_step.cases)

lemma ConsumeClaim_moves:
  assumes "ConsumeClaim n ms w = (w', marked, e)"
  shows "partition_step\<^sup>*\<^sup>* (ms, w) (drop (length marked) ms, w') \<and> take (length marked) ms = marked"
  using assms
proof (induction n ms w arbitrary: w' marked e rule: ConsumeClaim.induct)
  case (3 n m ms w)
  obtain w1 r where p: "processMessage m w = (w1, r)" by (cases "processMessage m w")
  show ?case
  proof (cases "final r")
    case True
    obtain w2 mk d where c: "ConsumeClaim n ms w1 = (w2, mk, d)" by (cases "ConsumeClaim n ms w1")
    have out: "w' = w2" "marked = m # mk" using 3(2) p True c by (simp_all add: ConsumeClaim_step)
    have "case r of Inr u \<Rightarrow> True | Inl e \<Rightarrow> isSettled e" using True by (simp add: final_def)
    from 3(1) [OF p [symmetric] this c] show ?thesis
      using converse_rtranclp_into_rtranclp [of partition_step, OF answered [OF p True]] by (simp add: out)
  next
    case False
    then obtain d where "r = Inl d" "\<not> isSettled d" by (auto simp: final_def split: sum.splits)
    with 3(2) p False failed [of m w w1 d ms] show ?thesis by (auto simp: ConsumeClaim_step)
  qed
qed simp_all

text \<open>
  C20. No payment event is dropped. However many sessions run on a partition, and wherever each
  stops, the partition moves only in steps that each handle its next message in the world the step
  before left, and it passes a message only when that very handling succeeded or ended in a settled
  failure; a handling that fails otherwise leaves the message to be handled again. So what
  remains is a suffix of the messages.
\<close>

theorem partition_no_loss:
  assumes "sessions ns ms w = (w', rest)"
  shows "partition_step\<^sup>*\<^sup>* (ms, w) (rest, w') \<and> (\<exists>gone. ms = gone @ rest)"
proof -
  have "partition_step\<^sup>*\<^sup>* (ms, w) (rest, w')"
    using assms
  proof (induction ns arbitrary: ms w)
    case Nil
    then show ?case by simp
  next
    case (Cons n ns)
    obtain w1 mk e where c: "ConsumeClaim n ms w = (w1, mk, e)" by (cases "ConsumeClaim n ms w")
    have "partition_step\<^sup>*\<^sup>* (ms, w) (drop (length mk) ms, w1)" using ConsumeClaim_moves [OF c] by simp
    moreover have "partition_step\<^sup>*\<^sup>* (drop (length mk) ms, w1) (rest, w')"
      using Cons.IH Cons.prems c by simp
    ultimately show ?case by (rule rtranclp_trans)
  qed
  then show ?thesis using partition_suffix by fastforce
qed

text \<open>A result of an order that is not there is passed; one that does not parse stays.\<close>

lemma partition_no_loss_witness:
  "partition_step\<^sup>*\<^sup>*
     ([\<lparr>kTopic = TopicPaymentCompleted, kOrderCode = Some ''Z''\<rparr>, \<lparr>kTopic = TopicPaymentFailed, kOrderCode = None\<rparr>], calm_world)
     ([\<lparr>kTopic = TopicPaymentFailed, kOrderCode = None\<rparr>], calm_world)"
proof -
  let ?a = "\<lparr>kTopic = TopicPaymentCompleted, kOrderCode = Some ''Z''\<rparr>" and ?b = "\<lparr>kTopic = TopicPaymentFailed, kOrderCode = None\<rparr>"
  have get: "attempts confirm_attempts (act_GetOrder ''Z'') calm_world = (calm_world, Inl (AppError ''OrderNotFound''))"
    unfolding act_GetOrder_def
    by (intro remote_settled) (simp_all add: calm_world_def GetOne_def GetByCode_def repo_error_def)
  have "processMessage ?a calm_world = (calm_world, Inl ErrOrderNotFound)"
    by (simp add: processMessage_def consume_PaymentCompleted_def HandlePaymentCompleted_def ConfirmOrder_def get
        mapWorkflowError_def)
  moreover have "processMessage ?b calm_world = (calm_world, Inl (ErrOther ''unmarshal''))"
    by (simp add: processMessage_def consume_PaymentFailed_def TopicPaymentCompleted_def TopicPaymentFailed_def)
  ultimately have "sessions [2, 1] [?a, ?b] calm_world = (calm_world, [?b])"
    by (simp add: numeral_2_eq_2 ConsumeClaim_step final_def isSettled_def)
  from partition_no_loss [OF this] show ?thesis by (rule conjunct1)
qed

text \<open>
  A message that does not parse stops its partition for good. On either payment topic, when
  the next message's body is not JSON, no number of sessions gets past it: each one ends with
  the same error, marks nothing and changes nothing, so no later payment result is ever handled.
\<close>

theorem malformed_event_blocks:
  assumes "kTopic m = TopicPaymentCompleted \<or> kTopic m = TopicPaymentFailed" and "kOrderCode m = None"
  shows "sessions ns (m # ms) w = (w, m # ms) \<and>
     ConsumeClaim (Suc n) (m # ms) w = (w, [], Some (ErrOther ''unmarshal''))"
proof -
  have p: "processMessage m v = (v, Inl (ErrOther ''unmarshal''))" for v
    using assms by (auto simp: processMessage_def consume_PaymentCompleted_def consume_PaymentFailed_def)
  have one: "ConsumeClaim (Suc n) (m # ms) v = (v, [], Some (ErrOther ''unmarshal''))" for n v
    by (simp add: ConsumeClaim_step p final_def isSettled_def)
  have "ConsumeClaim n (m # ms) v = (v, [], if n = 0 then None else Some (ErrOther ''unmarshal''))" for n v
    using one by (cases n) simp_all
  then have "sessions ns (m # ms) w = (w, m # ms)" by (induction ns arbitrary: w) simp_all
  with one show ?thesis by simp
qed

lemma malformed_event_blocks_witness:
  "sessions [3, 5] [\<lparr>kTopic = TopicPaymentCompleted, kOrderCode = None\<rparr>] calm_world =
     (calm_world, [\<lparr>kTopic = TopicPaymentCompleted, kOrderCode = None\<rparr>])"
  using malformed_event_blocks [of "\<lparr>kTopic = TopicPaymentCompleted, kOrderCode = None\<rparr>" "[3, 5]" "[]" calm_world 0]
  by simp

lemma list_by_status_exact_witness:
  "snd (rpc_ListOrders length (\<lambda>t. []) (Some \<lparr>pfUserId = [], pfEventId = [], pfStatus = Some 9\<rparr>) calm_world) =
     Inl (InvalidArgument, ''ORD400 - Validation failed'')"
  using list_by_status_exact [of calm_world length "\<lambda>t. []" 9] by (simp add: calm_world_def)

end
