(* ===== verification/Waitroom_Session.thy ===== *)
theory Waitroom_Session
  imports TB_Prelude
begin

text \<open>
  A waiting-room session (\<open>waitroom-svc/internal/models/session.go\<close>) and its place in the line.
  A queue score is a Go \<open>float64\<close> in seconds; here it is the integer number of \<open>2^-53\<close>
  seconds, the step of \<open>rand.Float64\<close>, and \<open>float64\<close> rounds such a number to a 53-bit
  significand, ties to even, as the hardware does. The lot drawn is an argument.
\<close>

section \<open>Data\<close>

datatype session_status =
  SessionStatusQueued
  | SessionStatusAdmitted
  | SessionStatusCompleted
  | SessionStatusExpired
  | SessionStatusAbandoned
  | SessionStatusFailed
  | SessionStatusEvicted
  | SessionStatusSoldOut

record session =
  ssID :: string
  ssUserID :: string
  ssEventID :: string
  ssPosition :: int
  ssQueuedAt :: time
  ssStatus :: session_status
  ssAdmittedAt :: "time option"
  ssCompletedAt :: "time option"
  ssExpiresAt :: time
  ssCheckoutToken :: string
  ssCheckoutExpiresAt :: "time option"
  ssTokenInvalidated :: bool
  ssTokenInvalidatedAt :: "time option"
  ssTokenInvalidationReason :: string
  ssConnectionID :: string
  ssUserAgent :: string
  ssIPAddress :: string
  ssLastHeartbeatAt :: time
  ssAttemptCount :: int
  ssQueueScore :: int
  ssCreatedAt :: time
  ssUpdatedAt :: time

definition IsActive :: "session \<Rightarrow> bool" where
  "IsActive s \<longleftrightarrow> ssStatus s = SessionStatusQueued \<or> ssStatus s = SessionStatusAdmitted"

definition IsTerminal :: "session \<Rightarrow> bool" where
  "IsTerminal s \<longleftrightarrow>
     ssStatus s = SessionStatusCompleted \<or> ssStatus s = SessionStatusExpired \<or>
     ssStatus s = SessionStatusAbandoned \<or> ssStatus s = SessionStatusFailed \<or>
     ssStatus s = SessionStatusEvicted \<or> ssStatus s = SessionStatusSoldOut"

definition CanAdmit :: "time \<Rightarrow> session \<Rightarrow> bool" where
  "CanAdmit now s \<longleftrightarrow> ssStatus s = SessionStatusQueued \<and> now < ssExpiresAt s"

definition IsExpired :: "time \<Rightarrow> session \<Rightarrow> bool" where
  "IsExpired now s \<longleftrightarrow> ssExpiresAt s < now"

definition HasCheckoutExpired :: "time \<Rightarrow> session \<Rightarrow> bool" where
  "HasCheckoutExpired now s =
     (case ssCheckoutExpiresAt s of None \<Rightarrow> False | Some t \<Rightarrow> t < now)"

lemma active_or_terminal: "IsActive s \<longleftrightarrow> \<not> IsTerminal s"
  by (cases "ssStatus s") (simp_all add: IsActive_def IsTerminal_def)

section \<open>Floating point\<close>

fun bits :: "nat \<Rightarrow> nat" where
  "bits n = (if n = 0 then 0 else Suc (bits (n div 2)))"

declare bits.simps [simp del]

definition round_even :: "nat \<Rightarrow> int \<Rightarrow> int" where
  "round_even k x =
     (let q = x div 2 ^ k; r = x mod 2 ^ k
      in (if 2 * r < 2 ^ k \<or> 2 * r = 2 ^ k \<and> even q then q else q + 1) * 2 ^ k)"

definition float64 :: "int \<Rightarrow> int" where
  "float64 x = round_even (bits (nat \<bar>x\<bar>) - 53) x"

definition score_unit :: int where
  "score_unit = 2 ^ 53"

text \<open>Go's zero \<open>time.Time\<close>, 1 January of year 1.\<close>

definition zero_time :: time where
  "zero_time = - 62135596800 * second"

section \<open>The place in the line\<close>

definition GetQueueScore :: "session \<Rightarrow> int" where
  "GetQueueScore s =
     (if ssQueueScore s \<noteq> 0 then ssQueueScore s else float64 (unix (ssQueuedAt s) * score_unit))"

definition DrawQueueScore :: "int \<Rightarrow> time \<Rightarrow> time \<Rightarrow> int" where
  "DrawQueueScore lot queuedAt saleStartAt =
     (if saleStartAt = zero_time \<or> \<not> queuedAt < saleStartAt
      then float64 (unix queuedAt * score_unit)
      else float64 (float64 ((unix saleStartAt - 1) * score_unit) + lot))"

section \<open>Rounding\<close>

lemma bits_eq: "2 ^ n \<le> x \<Longrightarrow> x < 2 ^ Suc n \<Longrightarrow> bits x = Suc n"
proof (induction n arbitrary: x)
  case 0
  then have "x = 1" by simp
  then show ?case by (simp add: bits.simps)
next
  case (Suc n)
  have "2 ^ n \<le> x div 2" "x div 2 < 2 ^ Suc n" using Suc.prems by simp_all
  then have "bits (x div 2) = Suc n" by (rule Suc.IH)
  moreover have "x \<noteq> 0" using Suc.prems by (metis not_less power_not_zero zero_neq_numeral zero_less_iff_neq_zero)
  ultimately show ?case by (subst bits.simps) simp
qed

lemma round_even_exact [simp]: "round_even k (q * 2 ^ k) = q * 2 ^ k"
  by (simp add: round_even_def)

lemma div_bounds: "x div 2 ^ k * 2 ^ k \<le> x" "x < (x div 2 ^ k + 1) * 2 ^ k" for x :: int
proof -
  have "x = x div 2 ^ k * 2 ^ k + x mod 2 ^ k" by (rule div_mult_mod_eq [symmetric])
  moreover have "0 \<le> x mod 2 ^ k" "x mod 2 ^ k < 2 ^ k" by simp_all
  ultimately show "x div 2 ^ k * 2 ^ k \<le> x" "x < (x div 2 ^ k + 1) * 2 ^ k"
    by (simp_all only: distrib_right)
qed

lemma round_even_lower:
  assumes "q * 2 ^ k \<le> x" shows "q * 2 ^ k \<le> round_even k x"
proof -
  have "q * 2 ^ k < (x div 2 ^ k + 1) * 2 ^ k" using assms div_bounds(2) [of x k] by linarith
  then have "q \<le> x div 2 ^ k" by simp
  then show ?thesis by (auto simp: round_even_def Let_def)
qed

lemma round_even_upper:
  assumes "x \<le> q * 2 ^ k" shows "round_even k x \<le> q * 2 ^ k"
proof (cases "x = q * 2 ^ k")
  case True
  then show ?thesis by simp
next
  case False
  then have "x div 2 ^ k * 2 ^ k < q * 2 ^ k" using assms div_bounds(1) [of x k] by linarith
  then have "x div 2 ^ k < q" by simp
  then show ?thesis by (auto simp: round_even_def Let_def)
qed

lemma round_even_below:
  assumes "2 * x < (2 * q - 1) * 2 ^ k" shows "round_even k x < q * 2 ^ k"
proof -
  let ?d = "x div 2 ^ k" and ?r = "x mod 2 ^ k"
  have x: "x = ?d * 2 ^ k + ?r" by (rule div_mult_mod_eq [symmetric])
  have r: "0 \<le> ?r" by simp
  have "2 * ?d * 2 ^ k + 2 * ?r < (2 * q - 1) * 2 ^ k" using assms x by linarith
  then have lt: "2 * ?d * 2 ^ k < (2 * q - 1) * 2 ^ k" using r by linarith
  then have d: "2 * ?d < 2 * q - 1" by simp
  show ?thesis
  proof (cases "?d + 1 = q")
    case True
    have "2 * ?r < 2 ^ k"
      using \<open>2 * ?d * 2 ^ k + 2 * ?r < (2 * q - 1) * 2 ^ k\<close>
      by (simp add: True [symmetric] algebra_simps)
    then show ?thesis using d by (simp add: round_even_def Let_def)
  next
    case False
    with d have "?d + 1 < q" by linarith
    then show ?thesis by (auto simp: round_even_def Let_def)
  qed
qed

lemma round_even_up:
  fixes q r :: int
  assumes "0 \<le> r" and "r < 2 ^ k" and "2 ^ k \<le> 2 * r" and "odd q"
  shows "round_even k (q * 2 ^ k + r) = (q + 1) * 2 ^ k"
proof -
  have "r div 2 ^ k = 0" "r mod 2 ^ k = r" using assms(1,2) by simp_all
  then have "(q * 2 ^ k + r) div 2 ^ k = q" "(q * 2 ^ k + r) mod 2 ^ k = r" by simp_all
  then show ?thesis using assms(3,4) by (simp add: round_even_def)
qed

lemma bits_le: "x < 2 ^ n \<Longrightarrow> bits x \<le> n"
proof (induction n arbitrary: x)
  case 0
  then show ?case by (simp add: bits.simps)
next
  case (Suc n)
  have "bits (x div 2) \<le> n" using Suc.prems by (intro Suc.IH) simp
  then show ?case by (subst bits.simps) simp
qed

text \<open>A whole number of seconds is a float, exactly.\<close>

lemma float64_seconds:
  assumes "\<bar>n\<bar> < 2 ^ 53" shows "float64 (n * score_unit) = n * score_unit"
proof -
  let ?k = "bits (nat \<bar>n * score_unit\<bar>) - 53"
  have "\<bar>n * score_unit\<bar> < 2 ^ 53 * 2 ^ 53"
    unfolding score_unit_def abs_mult using assms by simp
  then have "nat \<bar>n * score_unit\<bar> < 2 ^ 106" by simp
  then have "?k \<le> 53" using bits_le by fastforce
  then have "score_unit = 2 ^ (53 - ?k) * 2 ^ ?k" by (simp add: score_unit_def flip: power_add)
  then have "n * score_unit = (n * 2 ^ (53 - ?k)) * 2 ^ ?k" by (simp only: mult.assoc)
  then show ?thesis unfolding float64_def by (metis round_even_exact)
qed

text \<open>In the years 2004 to 2038 a float's step is \<open>2^-22\<close> seconds.\<close>

lemma float64_now:
  assumes "2 ^ 30 * score_unit \<le> x" and "x < 2 ^ 31 * score_unit"
  shows "float64 x = round_even 31 x"
proof -
  have "2 ^ 83 \<le> nat \<bar>x\<bar>" "nat \<bar>x\<bar> < 2 ^ Suc 83" using assms by (simp_all add: score_unit_def)
  then have "bits (nat \<bar>x\<bar>) = Suc 83" by (rule bits_eq)
  then show ?thesis by (simp add: float64_def)
qed

section \<open>The draw\<close>

definition sale_era :: "time \<Rightarrow> bool" where
  "sale_era t \<longleftrightarrow> 2 ^ 30 < unix t \<and> unix t \<le> 2 ^ 31"

definition is_lot :: "int \<Rightarrow> bool" where
  "is_lot lot \<longleftrightarrow> 0 \<le> lot \<and> lot < score_unit"

lemma sale_era_not_zero: "sale_era t \<Longrightarrow> t \<noteq> zero_time"
  by (auto simp: sale_era_def zero_time_def unix_def second_def)

lemma draw_before:
  assumes "sale_era s" and "queuedAt < s" and "is_lot lot"
  shows "DrawQueueScore lot queuedAt s = round_even 31 ((unix s - 1) * score_unit + lot)"
proof -
  have n: "2 ^ 30 \<le> unix s - 1" "unix s - 1 < 2 ^ 31" using assms(1) by (simp_all add: sale_era_def)
  have "float64 ((unix s - 1) * score_unit) = (unix s - 1) * score_unit"
    using n by (intro float64_seconds) simp
  moreover have "float64 ((unix s - 1) * score_unit + lot) =
      round_even 31 ((unix s - 1) * score_unit + lot)"
    using n assms(3) by (intro float64_now) (simp_all add: is_lot_def score_unit_def)
  ultimately show ?thesis
    using assms(2) sale_era_not_zero [OF assms(1)] by (simp add: DrawQueueScore_def)
qed

lemma draw_after:
  assumes "\<not> queuedAt < s" and "0 \<le> unix queuedAt" and "unix queuedAt < 2 ^ 53"
  shows "DrawQueueScore lot queuedAt s = unix queuedAt * score_unit"
  using assms by (simp add: DrawQueueScore_def float64_seconds)

lemma draw_band:
  assumes "sale_era s" and "queuedAt < s" and "is_lot lot"
  shows "(unix s - 1) * score_unit \<le> DrawQueueScore lot queuedAt s"
    and "DrawQueueScore lot queuedAt s \<le> unix s * score_unit"
    and "lot < score_unit - 2 ^ 30 \<Longrightarrow> DrawQueueScore lot queuedAt s < unix s * score_unit"
    and "score_unit - 2 ^ 30 \<le> lot \<Longrightarrow> DrawQueueScore lot queuedAt s = unix s * score_unit"
proof -
  let ?x = "(unix s - 1) * score_unit + lot"
  have u: "n * score_unit = n * 2 ^ 22 * 2 ^ 31" for n by (simp add: score_unit_def)
  have d: "DrawQueueScore lot queuedAt s = round_even 31 ?x" by (rule draw_before [OF assms])
  have lot: "0 \<le> lot" "lot < score_unit" using assms(3) by (simp_all add: is_lot_def)
  show lower: "(unix s - 1) * score_unit \<le> DrawQueueScore lot queuedAt s"
    unfolding d u using lot by (intro round_even_lower) simp
  have "?x \<le> unix s * score_unit" using lot by (simp add: left_diff_distrib)
  then show upper: "DrawQueueScore lot queuedAt s \<le> unix s * score_unit"
    unfolding d u by (rule round_even_upper)
  show "DrawQueueScore lot queuedAt s < unix s * score_unit" if "lot < score_unit - 2 ^ 30"
    unfolding d u using that by (intro round_even_below) (simp add: score_unit_def)
  show "DrawQueueScore lot queuedAt s = unix s * score_unit" if "score_unit - 2 ^ 30 \<le> lot"
  proof -
    have "0 \<le> lot - (score_unit - 2 ^ 31)" "lot - (score_unit - 2 ^ 31) < 2 ^ 31"
      "2 ^ 31 \<le> 2 * (lot - (score_unit - 2 ^ 31))"
      using lot that by (simp_all add: score_unit_def)
    moreover have "odd (unix s * 2 ^ 22 - 1)" by simp
    ultimately have "round_even 31 ((unix s * 2 ^ 22 - 1) * 2 ^ 31 + (lot - (score_unit - 2 ^ 31))) =
        (unix s * 2 ^ 22 - 1 + 1) * 2 ^ 31"
      by (rule round_even_up)
    then show ?thesis by (simp add: d score_unit_def algebra_simps)
  qed
qed

end
