(* ===== verification/Waitroom_ZSet.thy ===== *)
theory Waitroom_ZSet
  imports TB_Prelude "HOL-Library.Product_Lexorder" "HOL-Library.List_Lexorder" "HOL-Library.Char_ord"
begin

text \<open>
  Redis sorted sets, as the waitroom uses them (\<open>waitroom-svc/pkg/redis/client.go\<close>): a set of
  members, each with one score, kept in the order of scores and, at equal scores, of the
  members' bytes. A score is an integer of some fixed unit. The locale \<open>timed_line\<close> is what
  the waiting line and the checkout slots rely on: one entry per member, in order, and nothing
  else touched by adding or removing one.
\<close>

type_synonym zset = "(int \<times> string) list"

definition zrem :: "string list \<Rightarrow> zset \<Rightarrow> zset" where
  "zrem ms z = filter (\<lambda>p. snd p \<notin> set ms) z"

definition zadd :: "int \<Rightarrow> string \<Rightarrow> zset \<Rightarrow> zset" where
  "zadd sc m z = insort (sc, m) (zrem [m] z)"

definition zcard :: "zset \<Rightarrow> int" where
  "zcard z = int (length z)"

fun zrank :: "string \<Rightarrow> zset \<Rightarrow> int option" where
  "zrank m [] = None"
| "zrank m (p # z) = (if snd p = m then Some 0 else map_option (\<lambda>r. r + 1) (zrank m z))"

definition zscore :: "string \<Rightarrow> zset \<Rightarrow> int option" where
  "zscore m z = map_option fst (find (\<lambda>p. snd p = m) z)"

text \<open>\<open>ZRANGEBYSCORE -inf (bound LIMIT 0 count\<close>, the bound excluded.\<close>

definition zrange_below :: "int \<Rightarrow> nat \<Rightarrow> zset \<Rightarrow> string list" where
  "zrange_below bound n z = take n (map snd (filter (\<lambda>p. fst p < bound) z))"

definition zremrange_upto :: "int \<Rightarrow> zset \<Rightarrow> zset" where
  "zremrange_upto bound z = filter (\<lambda>p. bound < fst p) z"

definition members :: "zset \<Rightarrow> string set" where
  "members z = snd ` set z"

definition wf_zset :: "zset \<Rightarrow> bool" where
  "wf_zset z \<longleftrightarrow> sorted z \<and> distinct (map snd z)"

section \<open>Laws\<close>

lemma members_simps [simp]:
  "members [] = {}"
  "members (p # z) = insert (snd p) (members z)"
  "members (y @ z) = members y \<union> members z"
  by (auto simp: members_def)

lemma set_insort_pair [simp]: "set (insort p z) = insert p (set (z :: zset))"
  by (simp add: set_insort_key)

lemma members_zrem [simp]: "members (zrem ms z) = members z - set ms"
  by (auto simp: members_def zrem_def)

lemma members_zadd [simp]: "members (zadd sc m z) = insert m (members z)"
  by (auto simp: zadd_def members_def zrem_def)

lemma zrem_absent: "members z \<inter> set ms = {} \<Longrightarrow> zrem ms z = z"
  by (auto simp: zrem_def members_def intro!: filter_True)

lemma zrem_Nil [simp]: "zrem [] z = z"
  by (simp add: zrem_def)

lemma zrem_append: "zrem (ms @ ns) z = zrem ns (zrem ms z)"
  by (auto simp: zrem_def intro!: filter_cong)

lemma zscore_Some_iff:
  assumes "wf_zset z" shows "zscore m z = Some sc \<longleftrightarrow> (sc, m) \<in> set z"
proof -
  have "distinct (map snd z)" using assms by (simp add: wf_zset_def)
  then show ?thesis
    unfolding zscore_def by (induction z) (auto simp: image_iff split: prod.splits)
qed

lemma zscore_None_iff: "zscore m z = None \<longleftrightarrow> m \<notin> members z"
  by (force simp: zscore_def find_None_iff members_def)

lemma zrank_None_iff: "zrank m z = None \<longleftrightarrow> m \<notin> members z"
  by (induction z) auto

lemma zrank_before: "zrank m z = Some r \<Longrightarrow> r = int (length (takeWhile (\<lambda>p. snd p \<noteq> m) z))"
  by (induction z arbitrary: r) (auto split: if_splits)

lemma wf_filter: "wf_zset z \<Longrightarrow> wf_zset (filter p z)"
  by (auto simp: wf_zset_def sorted_wrt_filter distinct_map_filter)

lemma wf_zset_Nil [simp]: "wf_zset []"
  by (simp add: wf_zset_def)

lemma wf_zrem [simp]: "wf_zset z \<Longrightarrow> wf_zset (zrem ms z)"
  by (simp add: zrem_def wf_filter)

lemma wf_zremrange [simp]: "wf_zset z \<Longrightarrow> wf_zset (zremrange_upto b z)"
  by (simp add: zremrange_upto_def wf_filter)

lemma distinct_insort_snd:
  "distinct (map snd (insort p (z :: zset))) \<longleftrightarrow> snd p \<notin> members z \<and> distinct (map snd z)"
  by (induction z) (auto simp: members_def)

lemma wf_zadd [simp]:
  assumes "wf_zset z" shows "wf_zset (zadd sc m z)"
proof -
  have "wf_zset (zrem [m] z)" using assms by simp
  then show ?thesis
    by (simp add: wf_zset_def zadd_def sorted_insort distinct_insort_snd)
qed

lemma zrem_insort: "snd p \<in> set ms \<Longrightarrow> zrem ms (insort p z) = zrem ms z"
  by (induction z) (auto simp: zrem_def)

lemma zrem_zadd: "zrem [m] (zadd sc m z) = zrem [m] z"
  by (simp add: zadd_def zrem_insort) (simp add: zrem_def)

lemma zremrange_zremrange: "b \<le> c \<Longrightarrow> zremrange_upto c (zremrange_upto b z) = zremrange_upto c z"
  by (auto simp: zremrange_upto_def intro!: filter_cong)

lemma zrange_below_members: "set (zrange_below b n z) \<subseteq> members z"
  using set_take_subset [of n "map snd (filter (\<lambda>p. fst p < b) z)"]
  by (auto simp: zrange_below_def members_def)

lemma distinct_zrange_below: "wf_zset z \<Longrightarrow> distinct (zrange_below b n z)"
  by (simp add: zrange_below_def wf_zset_def distinct_map_filter)

lemma length_zrange_below: "length (zrange_below b n z) \<le> n"
  by (simp add: zrange_below_def)

lemma zrank_nonneg: "zrank m z = Some r \<Longrightarrow> 0 \<le> r"
  by (auto dest!: zrank_before)

text \<open>Who stands ahead of whom: by score, then by member.\<close>

lemma zrank_less:
  assumes "wf_zset z" and "(a, m) \<in> set z" and "(b, n) \<in> set z" and "(a, m) < (b, n)"
  shows "\<exists>r s. zrank m z = Some r \<and> zrank n z = Some s \<and> r < s"
  using assms
proof (induction z)
  case Nil
  then show ?case by simp
next
  case (Cons p z)
  have z: "wf_zset z" "snd p \<notin> snd ` set z" "\<And>q. q \<in> set z \<Longrightarrow> p \<le> q"
    using Cons.prems(1) by (auto simp: wf_zset_def)
  have "p \<noteq> (b, n)" using Cons.prems(2,4) z(3) [of "(a, m)"] by (metis leD less_irrefl set_ConsD)
  then have n: "(b, n) \<in> set z" using Cons.prems(3) by auto
  then have neq: "snd p \<noteq> n" using z(2) by (metis image_eqI snd_conv)
  show ?case
  proof (cases "p = (a, m)")
    case True
    obtain s where "zrank n z = Some s" using n zrank_None_iff [of n z] by (force simp: members_def)
    then show ?thesis using True neq zrank_nonneg [of n z s] by auto
  next
    case False
    then have m: "(a, m) \<in> set z" using Cons.prems(2) by auto
    then have "snd p \<noteq> m" using z(2) by (metis image_eqI snd_conv)
    with m show ?thesis using Cons.IH [OF z(1) _ n Cons.prems(4)] neq by auto
  qed
qed

text \<open>The range read is the front of the set: what is below the bound is a prefix of it.\<close>

lemma below_prefix:
  assumes "sorted z" shows "filter (\<lambda>p. fst p < b) z = takeWhile (\<lambda>p. fst p < b) z"
  using assms
proof (induction z)
  case Nil
  then show ?case by simp
next
  case (Cons p z)
  show ?case
  proof (cases "fst p < b")
    case True
    with Cons show ?thesis by simp
  next
    case False
    have "\<not> fst q < b" if "q \<in> set z" for q
      using Cons.prems that False by (auto simp: less_eq_prod_def)
    with False show ?thesis by (simp add: filter_empty_conv)
  qed
qed

section \<open>The interface\<close>

locale timed_line =
  fixes add :: "int \<Rightarrow> string \<Rightarrow> 's \<Rightarrow> 's"
    and remove :: "string list \<Rightarrow> 's \<Rightarrow> 's"
    and entries :: "'s \<Rightarrow> (int \<times> string) set"
    and ok :: "'s \<Rightarrow> bool"
  assumes ok_add: "ok s \<Longrightarrow> ok (add sc m s)"
    and ok_remove: "ok s \<Longrightarrow> ok (remove ms s)"
    and one_score: "ok s \<Longrightarrow> (a, m) \<in> entries s \<Longrightarrow> (b, m) \<in> entries s \<Longrightarrow> a = b"
    and entries_add: "entries (add sc m s) = insert (sc, m) {p \<in> entries s. snd p \<noteq> m}"
    and entries_remove: "entries (remove ms s) = {p \<in> entries s. snd p \<notin> set ms}"
begin

lemma add_frame: "m' \<noteq> m \<Longrightarrow> (a, m') \<in> entries (add sc m s) \<longleftrightarrow> (a, m') \<in> entries s"
  by (simp add: entries_add)

lemma remove_frame: "m' \<notin> set ms \<Longrightarrow> (a, m') \<in> entries (remove ms s) \<longleftrightarrow> (a, m') \<in> entries s"
  by (simp add: entries_remove)

lemma remove_add: "entries (remove [m] (add sc m s)) = entries (remove [m] s)"
  by (auto simp: entries_add entries_remove)

lemma added_only: "(a, m) \<in> entries (add sc m s) \<longleftrightarrow> a = sc"
  by (simp add: entries_add)

end

interpretation line: timed_line zadd zrem set wf_zset
proof
  show "a = b" if "wf_zset s" "(a, m) \<in> set s" "(b, m) \<in> set s" for s m a b
    using that zscore_Some_iff [OF that(1)] by (metis option.inject)
next
  show "set (zadd sc m s) = insert (sc, m) {p \<in> set s. snd p \<noteq> m}" for sc m s
    by (auto simp: zadd_def zrem_def)
  show "set (zrem ms s) = {p \<in> set s. snd p \<notin> set ms}" for ms s
    by (auto simp: zrem_def)
qed simp_all

end
