(* ===== verification/Waitroom_Store.thy ===== *)
theory Waitroom_Store
  imports Inventory_Grpc Waitroom_Session Waitroom_ZSet
begin

text \<open>
  What the waiting room shares with other processes, and its two Redis repositories
  (\<open>waitroom-svc/internal/repository/redis\<close>). A \<open>wr_store\<close> is the Redis keys, one field per kind
  of key, the Kafka log and the inventory database. A \<open>room\<close> is one waiting-room process: the
  store, its clock, its caches and counters, and what happens around its next remote calls.

  A remote call runs its commands in order. Before it, time passes and other processes change
  the store in any way; then either all commands run and are answered, or the connection breaks
  after the first few (\<open>Cut\<close>), so that a lost request is \<open>Cut 0\<close> and a lost reply is a cut after
  the last command. With no more such entries, calls take no time and succeed. Other clients'
  commands are not interleaved inside one pipeline. An error is the innermost one
  of its chain of wrappings, the one \<open>errors.Is\<close> looks for.

  A key of Redis is there until its expiry. The blacklist is keyed by the token's hash, which is
  a parameter, and a stored session is the record that its JSON holds.
\<close>

section \<open>Errors\<close>

datatype wr_error =
  ErrSessionNotFound
  | ErrSessionExpired
  | ErrSessionAlreadyExists
  | ErrInvalidSessionStatus
  | ErrQueueFull
  | ErrEventNotFound
  | ErrEventConfigNotFound
  | ErrWaitRoomNotAllowed
  | ErrSoldOut
  | ErrEventServiceUnavailable
  | ErrEventServiceTimeout
  | ErrProcessorStopped
  | ErrEventNotActive
  | ErrSessionNotAdmittable
  | ErrTokenEmpty
  | ErrTokenInvalid
  | ErrTokenInvalidated
  | ErrTokenExpired
  | ErrTokenInvalidClaims
  | ErrTokenUnexpectedSignature
  | ErrTokenNotValid
  | ErrSessionNotAdmitted
  | RedisNil
  | ErrRemote
  | ErrContext
  | ErrOther string

section \<open>The store\<close>

record queue_ready_event =
  qrSessionID :: string
  qrUserID :: string
  qrEventID :: string
  qrCheckoutToken :: string
  qrAdmittedAt :: time
  qrExpiresAt :: time
  qrTimestamp :: time

record queue_joined_event =
  qjSessionID :: string
  qjUserID :: string
  qjEventID :: string
  qjPosition :: int
  qjJoinedAt :: time
  qjTimestamp :: time

record queue_left_event =
  qlSessionID :: string
  qlUserID :: string
  qlEventID :: string
  qlReason :: string
  qlLeftAt :: time
  qlTimestamp :: time

datatype queue_event =
  QueueReady queue_ready_event
  | QueueJoined queue_joined_event
  | QueueLeft queue_left_event

text \<open>
  A message about a finished checkout: its body, if it parses, is three ids and the
  timestamp field, if that is a JSON string.
\<close>

record checkout_event =
  ceSessionID :: string
  ceUserID :: string
  ceEventID :: string
  ceTimestamp :: "string option"

record checkout_message =
  cmTopic :: string
  cmPartition :: int
  cmOffset :: int
  cmTimestamp :: time
  cmBody :: "checkout_event option"

record dead_letter =
  dlTopic :: string
  dlMessage :: checkout_message
  dlAttempts :: nat

record wr_store =
  wsSessions :: "string \<Rightarrow> (session \<times> time) option"
  wsUserIndex :: "string \<Rightarrow> (string \<times> time) option"
  wsBlacklist :: "string \<Rightarrow> time option"
  wsQueue :: "string \<Rightarrow> zset"
  wsCheckouts :: "string \<Rightarrow> zset \<times> time option"
  wsBuffer :: "queue_ready_event option list"
  wsActive :: "string list"
  wsKafka :: "queue_event list"
  wsDeadLetters :: "dead_letter list"
  wsInv :: invdb

datatype answer = Answered | Cut nat

type_synonym disturbance = "nat \<times> (wr_store \<Rightarrow> wr_store) \<times> answer"

section \<open>A process\<close>

datatype door = DoorOpen | DoorPaused | DoorSoldOut

record stock =
  stDoor :: door
  stAvailable :: int
  stCounted :: bool

record wr_event_info =
  eiAllowWaitRoom :: bool
  eiSaleStartAt :: time

record room =
  rSt :: wr_store
  rNow :: time
  rEnv :: "disturbance list"
  rEventGate :: "string \<Rightarrow> ((wr_error + wr_event_info) \<times> time) option"
  rStockGate :: "string \<Rightarrow> (stock \<times> time) option"
  rTotalAdmitted :: int
  rErrorCount :: int
  rLastProcessed :: time

type_synonym 'a wr = "room \<Rightarrow> room \<times> (wr_error + 'a)"
type_synonym command = "time \<Rightarrow> wr_store \<Rightarrow> wr_store"

definition ret :: "'a \<Rightarrow> 'a wr" where
  "ret x w = (w, Inr x)"

definition fail :: "wr_error \<Rightarrow> 'a wr" where
  "fail e w = (w, Inl e)"

definition andThen :: "'a wr \<Rightarrow> ('a \<Rightarrow> 'b wr) \<Rightarrow> 'b wr" where
  "andThen m k w = (case m w of (w', Inl e) \<Rightarrow> (w', Inl e) | (w', Inr x) \<Rightarrow> k x w')"

text \<open>\<open>settle m k\<close> continues on an error too.\<close>

definition settle :: "'a wr \<Rightarrow> (wr_error + 'a \<Rightarrow> 'b wr) \<Rightarrow> 'b wr" where
  "settle m k w = (case m w of (w', r) \<Rightarrow> k r w')"

definition withNow :: "(time \<Rightarrow> 'a wr) \<Rightarrow> 'a wr" where
  "withNow f w = f (rNow w) w"

definition runAll :: "command list \<Rightarrow> time \<Rightarrow> wr_store \<Rightarrow> wr_store" where
  "runAll cmds now s = fold (\<lambda>c s. c now s) cmds s"

text \<open>
  A call sends its commands once. The client may be configured to send a command again whose answer
  did not come (\<open>REDIS_MAX_RETRIES\<close>); commands that do the same again when repeated, all but the
  \<open>LTRIM\<close> of the buffer and the push to it, leave what one sending leaves.
\<close>

definition rcall :: "command list \<Rightarrow> (time \<Rightarrow> wr_store \<Rightarrow> wr_error + 'a) \<Rightarrow> 'a wr" where
  "rcall cmds ans w =
     (case rEnv w of
        [] \<Rightarrow> let s = runAll cmds (rNow w) (rSt w) in (w\<lparr>rSt := s\<rparr>, ans (rNow w) s)
      | (d, g, a) # es \<Rightarrow>
          let now = rNow w + int d; s = g (rSt w); w' = w\<lparr>rNow := now, rEnv := es\<rparr>
          in case a of
               Answered \<Rightarrow> let s' = runAll cmds now s in (w'\<lparr>rSt := s'\<rparr>, ans now s')
             | Cut k \<Rightarrow> (w'\<lparr>rSt := runAll (take k cmds) now s\<rparr>, Inl ErrRemote))"

section \<open>Keys with an expiry\<close>

definition liveKey :: "time \<Rightarrow> ('a \<times> time) option \<Rightarrow> 'a option" where
  "liveKey now e = (case e of Some (x, t) \<Rightarrow> if now < t then Some x else None | None \<Rightarrow> None)"

text \<open>\<open>TTL\<close> answers whole seconds, rounded, and a negative number for a missing key.\<close>

definition keyTTL :: "time \<Rightarrow> ('a \<times> time) option \<Rightarrow> duration" where
  "keyTTL now e =
     (case e of
        Some (x, t) \<Rightarrow> if now < t then (((t - now) div 1000000 + 500) div 1000) * second else - 2
      | None \<Rightarrow> - 2)"

definition slotKey :: "time \<Rightarrow> zset \<times> time option \<Rightarrow> zset \<times> time option" where
  "slotKey now k = (case snd k of Some t \<Rightarrow> if t \<le> now then ([], None) else k | None \<Rightarrow> k)"

definition putSlots :: "zset \<times> time option \<Rightarrow> zset \<times> time option" where
  "putSlots k = (if fst k = [] then ([], None) else k)"

definition slots :: "time \<Rightarrow> wr_store \<Rightarrow> string \<Rightarrow> zset" where
  "slots now s e = fst (slotKey now (wsCheckouts s e))"

section \<open>Session repository\<close>

definition sessionTTL :: duration where
  "sessionTTL = 2 * hour"

definition userEventKey :: "string \<Rightarrow> string \<Rightarrow> string" where
  "userEventKey uID eID = ''waitroom:user_session:'' @ uID @ '':'' @ eID"

definition setSession :: "string \<Rightarrow> session \<Rightarrow> duration \<Rightarrow> command" where
  "setSession k ss ttl now s = s\<lparr>wsSessions := (wsSessions s)(k := Some (ss, now + ttl))\<rparr>"

definition setUserIndex :: "string \<Rightarrow> string \<Rightarrow> duration \<Rightarrow> command" where
  "setUserIndex k v ttl now s = s\<lparr>wsUserIndex := (wsUserIndex s)(k := Some (v, now + ttl))\<rparr>"

definition repo_Create :: "session \<Rightarrow> unit wr" where
  "repo_Create ss = rcall
     [setSession (ssID ss) ss sessionTTL,
      setUserIndex (userEventKey (ssUserID ss) (ssEventID ss)) (ssID ss) sessionTTL]
     (\<lambda>_ _. Inr ())"

definition repo_Get :: "string \<Rightarrow> session wr" where
  "repo_Get k = rcall [] (\<lambda>now s. case liveKey now (wsSessions s k) of None \<Rightarrow> Inl RedisNil | Some ss \<Rightarrow> Inr ss)"

definition getTTL :: "string \<Rightarrow> duration wr" where
  "getTTL k = rcall [] (\<lambda>now s. Inr (keyTTL now (wsSessions s k)))"

definition repo_Update :: "string \<Rightarrow> session \<Rightarrow> unit wr" where
  "repo_Update k ss = withNow (\<lambda>now.
     let ss' = ss\<lparr>ssUpdatedAt := now\<rparr>
     in andThen (getTTL k) (\<lambda>ttl.
          rcall [setSession k ss' (if ttl \<le> 0 then sessionTTL else ttl)] (\<lambda>_ _. Inr ())))"

definition repo_UpdateStatus :: "string \<Rightarrow> session_status \<Rightarrow> unit wr" where
  "repo_UpdateStatus k st =
     andThen (repo_Get k) (\<lambda>ss. withNow (\<lambda>now.
       repo_Update k (ss\<lparr>ssStatus := st, ssUpdatedAt := now\<rparr>)))"

definition repo_UpdatePosition :: "string \<Rightarrow> int \<Rightarrow> unit wr" where
  "repo_UpdatePosition k pos =
     andThen (repo_Get k) (\<lambda>ss. withNow (\<lambda>now.
       repo_Update k (ss\<lparr>ssPosition := pos, ssUpdatedAt := now\<rparr>)))"

definition repo_UpdateCheckoutToken :: "string \<Rightarrow> string \<Rightarrow> time \<Rightarrow> unit wr" where
  "repo_UpdateCheckoutToken k token expAt =
     andThen (repo_Get k) (\<lambda>ss. withNow (\<lambda>now.
       repo_Update k (ss\<lparr>ssCheckoutToken := token, ssCheckoutExpiresAt := Some expAt,
         ssAdmittedAt := Some now, ssStatus := SessionStatusAdmitted, ssUpdatedAt := now\<rparr>)))"

definition repo_Delete :: "string \<Rightarrow> unit wr" where
  "repo_Delete k =
     settle (repo_Get k) (\<lambda>r. case r of
       Inl RedisNil \<Rightarrow> ret ()
     | Inl e \<Rightarrow> fail e
     | Inr ss \<Rightarrow> rcall
         [\<lambda>_ s. s\<lparr>wsSessions := (wsSessions s)(k := None)\<rparr>,
          \<lambda>_ s. s\<lparr>wsUserIndex := (wsUserIndex s)(userEventKey (ssUserID ss) (ssEventID ss) := None)\<rparr>]
         (\<lambda>_ _. Inr ()))"

definition repo_GetByUserAndEvent :: "string \<Rightarrow> string \<Rightarrow> session wr" where
  "repo_GetByUserAndEvent uID eID =
     andThen (rcall [] (\<lambda>now s. case liveKey now (wsUserIndex s (userEventKey uID eID)) of
                                  None \<Rightarrow> Inl RedisNil | Some k \<Rightarrow> Inr k))
       repo_Get"

definition repo_Exists :: "string \<Rightarrow> bool wr" where
  "repo_Exists k = rcall [] (\<lambda>now s. Inr (liveKey now (wsSessions s k) \<noteq> None))"

definition blacklistTTL :: "time \<Rightarrow> session \<Rightarrow> duration" where
  "blacklistTTL now ss =
     (case ssCheckoutExpiresAt ss of
        Some t \<Rightarrow> if t - now > 0 then t - now else 15 * minute
      | None \<Rightarrow> 15 * minute)"

definition repo_InvalidateToken :: "(string \<Rightarrow> string) \<Rightarrow> string \<Rightarrow> string \<Rightarrow> unit wr" where
  "repo_InvalidateToken hash k reason =
     andThen (repo_Get k) (\<lambda>ss.
       if ssCheckoutToken ss = [] then ret ()
       else withNow (\<lambda>now.
         let ss' = ss\<lparr>ssTokenInvalidated := True, ssTokenInvalidatedAt := Some now,
                      ssTokenInvalidationReason := reason, ssUpdatedAt := now\<rparr>
         in settle (getTTL k) (\<lambda>r.
              let ttl = (case r of Inl e \<Rightarrow> 0 | Inr t \<Rightarrow> t)
              in rcall
                   [\<lambda>t s. s\<lparr>wsBlacklist := (wsBlacklist s)(hash (ssCheckoutToken ss) := Some (t + blacklistTTL now ss))\<rparr>,
                    setSession k ss' (if ttl \<le> 0 then sessionTTL else ttl)]
                   (\<lambda>_ _. Inr ()))))"

definition repo_IsTokenInvalidated :: "(string \<Rightarrow> string) \<Rightarrow> string \<Rightarrow> bool wr" where
  "repo_IsTokenInvalidated hash token =
     (if token = [] then fail (ErrOther ''token cannot be empty'')
      else rcall [] (\<lambda>now s. Inr (case wsBlacklist s (hash token) of Some t \<Rightarrow> now < t | None \<Rightarrow> False)))"

section \<open>Queue repository\<close>

definition repo_AddToQueue :: "string \<Rightarrow> session \<Rightarrow> unit wr" where
  "repo_AddToQueue eID ss = rcall
     [\<lambda>_ s. s\<lparr>wsQueue := (wsQueue s)(eID := zadd (GetQueueScore ss) (ssID ss) (wsQueue s eID))\<rparr>]
     (\<lambda>_ _. Inr ())"

definition leaveQueue :: "string \<Rightarrow> string list \<Rightarrow> command" where
  "leaveQueue eID ids now s = s\<lparr>wsQueue := (wsQueue s)(eID := zrem ids (wsQueue s eID))\<rparr>"

definition repo_RemoveFromQueue :: "string \<Rightarrow> string list \<Rightarrow> unit wr" where
  "repo_RemoveFromQueue eID ids =
     (if ids = [] then ret () else rcall [leaveQueue eID ids] (\<lambda>_ _. Inr ()))"

definition repo_GetQueueLength :: "string \<Rightarrow> int wr" where
  "repo_GetQueueLength eID = rcall [] (\<lambda>_ s. Inr (zcard (wsQueue s eID)))"

definition rankOf :: "string \<Rightarrow> zset \<Rightarrow> int" where
  "rankOf k z = (case zrank k z of None \<Rightarrow> - 1 | Some r \<Rightarrow> r + 1)"

definition repo_GetQueuePosition :: "string \<Rightarrow> string \<Rightarrow> int wr" where
  "repo_GetQueuePosition eID k = rcall [] (\<lambda>_ s. Inr (rankOf k (wsQueue s eID)))"

definition repo_GetQueuePositionAndLength :: "string \<Rightarrow> string \<Rightarrow> (int \<times> int) wr" where
  "repo_GetQueuePositionAndLength eID k =
     rcall [] (\<lambda>_ s. Inr (rankOf k (wsQueue s eID), zcard (wsQueue s eID)))"

definition repo_GetQueueMembers :: "string \<Rightarrow> int \<Rightarrow> int \<Rightarrow> string list wr" where
  "repo_GetQueueMembers eID bound n =
     rcall [] (\<lambda>_ s. Inr (zrange_below bound
       (if n \<le> 0 then length (wsQueue s eID) else nat n) (wsQueue s eID)))"

definition processingKeyGrace :: duration where
  "processingKeyGrace = hour"

definition claimSlotAt :: "string \<Rightarrow> string \<Rightarrow> time \<Rightarrow> command" where
  "claimSlotAt eID k expiresAt now s =
     (let (z, t) = slotKey now (wsCheckouts s eID)
      in s\<lparr>wsCheckouts := (wsCheckouts s)(eID := (zadd (unix_milli expiresAt) k z, t))\<rparr>)"

definition expireSlots :: "string \<Rightarrow> duration \<Rightarrow> command" where
  "expireSlots eID ttl now s =
     (let (z, t) = slotKey now (wsCheckouts s eID)
      in s\<lparr>wsCheckouts := (wsCheckouts s)(eID := putSlots (z, Some (now + ttl)))\<rparr>)"

definition repo_AddToProcessing :: "string \<Rightarrow> string \<Rightarrow> duration \<Rightarrow> unit wr" where
  "repo_AddToProcessing eID k ttl = withNow (\<lambda>now. rcall
     [claimSlotAt eID k (now + ttl), expireSlots eID (ttl + processingKeyGrace)] (\<lambda>_ _. Inr ()))"

definition freeSlot :: "string \<Rightarrow> string \<Rightarrow> command" where
  "freeSlot eID k now s =
     (let (z, t) = slotKey now (wsCheckouts s eID)
      in s\<lparr>wsCheckouts := (wsCheckouts s)(eID := putSlots (zrem [k] z, t))\<rparr>)"

definition repo_RemoveFromProcessing :: "string \<Rightarrow> string \<Rightarrow> unit wr" where
  "repo_RemoveFromProcessing eID k = rcall [freeSlot eID k] (\<lambda>_ _. Inr ())"

text \<open>The script reaps the slots whose expiry is not after the client's clock, and counts the rest.\<close>

definition reapSlots :: "string \<Rightarrow> int \<Rightarrow> command" where
  "reapSlots eID bound now s =
     (let (z, t) = slotKey now (wsCheckouts s eID)
      in s\<lparr>wsCheckouts := (wsCheckouts s)(eID := putSlots (zremrange_upto bound z, t))\<rparr>)"

definition repo_GetProcessingCount :: "string \<Rightarrow> int wr" where
  "repo_GetProcessingCount eID = withNow (\<lambda>now.
     rcall [reapSlots eID (unix_milli now)] (\<lambda>t s. Inr (zcard (slots t s eID))))"

definition repo_IsProcessing :: "string \<Rightarrow> string \<Rightarrow> bool wr" where
  "repo_IsProcessing eID k =
     andThen (rcall [] (\<lambda>t s. Inr (zscore k (slots t s eID)))) (\<lambda>sc. withNow (\<lambda>now.
       ret (case sc of None \<Rightarrow> False | Some expiresAt \<Rightarrow> expiresAt > unix_milli now)))"

subsection \<open>Unpublished announcements\<close>

definition maxBufferedQueueReady :: int where
  "maxBufferedQueueReady = 10000"

text \<open>A payload is modelled by the event it holds, if it parses.\<close>

definition repo_BufferQueueReady :: "queue_ready_event option \<Rightarrow> unit wr" where
  "repo_BufferQueueReady payload =
     andThen (rcall [\<lambda>_ s. s\<lparr>wsBuffer := wsBuffer s @ [payload]\<rparr>] (\<lambda>_ s. Inr (int (length (wsBuffer s)))))
       (\<lambda>len. if len > maxBufferedQueueReady
          then settle (rcall [\<lambda>_ s. s\<lparr>wsBuffer := drop (nat (len - maxBufferedQueueReady)) (wsBuffer s)\<rparr>]
                 (\<lambda>_ _. Inr ())) (\<lambda>_. ret ())
          else ret ())"

definition repo_PeekBufferedQueueReady :: "int \<Rightarrow> queue_ready_event option list wr" where
  "repo_PeekBufferedQueueReady n =
     (if n \<le> 0 then ret [] else rcall [] (\<lambda>_ s. Inr (take (nat n) (wsBuffer s))))"

definition repo_TrimBufferedQueueReady :: "int \<Rightarrow> unit wr" where
  "repo_TrimBufferedQueueReady n =
     (if n \<le> 0 then ret ()
      else rcall [\<lambda>_ s. s\<lparr>wsBuffer := drop (nat n) (wsBuffer s)\<rparr>] (\<lambda>_ _. Inr ()))"

subsection \<open>Active events\<close>

definition addActive :: "string \<Rightarrow> command" where
  "addActive eID now s = s\<lparr>wsActive := (if eID \<in> set (wsActive s) then wsActive s else wsActive s @ [eID])\<rparr>"

definition removeActive :: "string \<Rightarrow> command" where
  "removeActive eID now s = s\<lparr>wsActive := filter (\<lambda>e. e \<noteq> eID) (wsActive s)\<rparr>"

definition repo_AddActiveEvent :: "string \<Rightarrow> unit wr" where
  "repo_AddActiveEvent eID = rcall [addActive eID] (\<lambda>_ _. Inr ())"

definition repo_RemoveActiveEvent :: "string \<Rightarrow> unit wr" where
  "repo_RemoveActiveEvent eID = rcall [removeActive eID] (\<lambda>_ _. Inr ())"

definition repo_GetActiveEvents :: "string list wr" where
  "repo_GetActiveEvents = rcall [] (\<lambda>_ s. Inr (wsActive s))"

definition repo_IsActiveEvent :: "string \<Rightarrow> bool wr" where
  "repo_IsActiveEvent eID = rcall [] (\<lambda>_ s. Inr (eID \<in> set (wsActive s)))"

end
