(* ===== verification/Waitroom_Services.thy ===== *)
theory Waitroom_Services
  imports Waitroom_Store
begin

text \<open>
  The waiting room's own services (\<open>waitroom-svc/internal/service\<close>): the two gates that ask
  other services from a cache, the session service, the queue service, and the operations a buyer
  or a finished checkout calls. Signing and parsing of checkout tokens (golang-jwt), the
  hash of a token, event-svc, the reading of an ISO time and the configuration are the
  record \<open>wr_ext\<close>; a new session's id and lot are arguments. Concurrent misses of a gate,
  which the code collapses into one fetch, do not arise in one process's sequence of calls.
\<close>

record wr_ext =
  xExpiry :: duration
  xBatchSize :: int
  xEventTTL :: duration
  xStockTTL :: duration
  xSign :: "time \<Rightarrow> time \<Rightarrow> session \<Rightarrow> string option"
  xParseToken :: "time \<Rightarrow> string \<Rightarrow> wr_error + string option"
  xHash :: "string \<Rightarrow> string"
  xFindOne :: "time \<Rightarrow> string \<Rightarrow> grpc_code + bool"
  xGetConfig :: "time \<Rightarrow> string \<Rightarrow> grpc_code + (bool \<times> string) option"
  xParseISO :: "string \<Rightarrow> time option"

section \<open>The event gate\<close>

definition eventServiceError :: "grpc_code \<Rightarrow> wr_error \<Rightarrow> wr_error" where
  "eventServiceError c notFound =
     (case c of
        NotFound \<Rightarrow> notFound
      | DeadlineExceeded \<Rightarrow> ErrEventServiceTimeout
      | Canceled \<Rightarrow> ErrEventServiceTimeout
      | _ \<Rightarrow> ErrEventServiceUnavailable)"

text \<open>One RPC to event-svc; a broken connection has the code \<open>Unavailable\<close>.\<close>

definition callEvent :: "(time \<Rightarrow> grpc_code + 'a) \<Rightarrow> wr_error \<Rightarrow> 'a wr" where
  "callEvent f notFound =
     settle (rcall [] (\<lambda>now _. Inr (f now))) (\<lambda>r. case r of
         Inl _ \<Rightarrow> fail (eventServiceError Unavailable notFound)
       | Inr (Inl c) \<Rightarrow> fail (eventServiceError c notFound)
       | Inr (Inr y) \<Rightarrow> ret y)"

definition isEventVerdict :: "wr_error + 'a \<Rightarrow> bool" where
  "isEventVerdict r = (case r of Inr _ \<Rightarrow> True | Inl e \<Rightarrow> e = ErrEventNotFound \<or> e = ErrEventConfigNotFound)"

definition eventGate_lookup :: "string \<Rightarrow> room \<Rightarrow> (wr_error + wr_event_info) option" where
  "eventGate_lookup eID w =
     (case rEventGate w eID of
        Some (v, expiresAt) \<Rightarrow> if expiresAt < rNow w then None else Some v
      | None \<Rightarrow> None)"

definition eventGate_store :: "string \<Rightarrow> wr_error + wr_event_info \<Rightarrow> time \<Rightarrow> room \<Rightarrow> room" where
  "eventGate_store eID v expiresAt w = w\<lparr>rEventGate := (rEventGate w)(eID := Some (v, expiresAt))\<rparr>"

definition eventGate_fetch :: "wr_ext \<Rightarrow> string \<Rightarrow> wr_event_info wr" where
  "eventGate_fetch x eID =
     andThen (callEvent (\<lambda>now. xFindOne x now eID) ErrEventNotFound) (\<lambda>found.
       if \<not> found then fail ErrEventNotFound
       else andThen (callEvent (\<lambda>now. xGetConfig x now eID) ErrEventConfigNotFound) (\<lambda>cfg.
         case cfg of
           None \<Rightarrow> fail ErrEventConfigNotFound
         | Some (allow, start) \<Rightarrow>
             ret \<lparr>eiAllowWaitRoom = allow,
                  eiSaleStartAt = (case xParseISO x start of None \<Rightarrow> zero_time | Some t \<Rightarrow> t)\<rparr>))"

definition eventGate_Get :: "wr_ext \<Rightarrow> string \<Rightarrow> wr_event_info wr" where
  "eventGate_Get x eID w =
     (case eventGate_lookup eID w of
        Some v \<Rightarrow> (w, v)
      | None \<Rightarrow>
          (case eventGate_fetch x eID w of
             (w', v) \<Rightarrow>
               if isEventVerdict v then (eventGate_store eID v (rNow w' + xEventTTL x) w', v)
               else (w', v)))"

section \<open>The stock gate\<close>

definition doorFor :: "int \<Rightarrow> int \<Rightarrow> int \<Rightarrow> door" where
  "doorFor tot sold available =
     (if tot \<le> 0 then DoorOpen
      else if sold \<ge> tot then DoorSoldOut
      else if available \<le> 0 then DoorPaused
      else DoorOpen)"

definition stockGate_lookup :: "string \<Rightarrow> room \<Rightarrow> stock option" where
  "stockGate_lookup eID w =
     (case rStockGate w eID of
        Some (s, expiresAt) \<Rightarrow> if expiresAt < rNow w then None else Some s
      | None \<Rightarrow> None)"

definition stockGate_store :: "string \<Rightarrow> stock \<Rightarrow> time \<Rightarrow> room \<Rightarrow> room" where
  "stockGate_store eID s expiresAt w = w\<lparr>rStockGate := (rStockGate w)(eID := Some (s, expiresAt))\<rparr>"

definition stock_of :: "event_stock \<Rightarrow> stock" where
  "stock_of out =
     \<lparr>stDoor = doorFor (esTotal out) (esSold out) (esAvailable out),
      stAvailable = esAvailable out, stCounted = esTotal out > 0\<rparr>"

definition stockGate_fetch :: "string \<Rightarrow> room \<Rightarrow> room \<times> stock" where
  "stockGate_fetch eID w =
     (case rcall [] (\<lambda>now s. Inr (rpc_GetEventStock now eID (wsInv s))) w of
        (w', Inr (Inr out)) \<Rightarrow> (w', stock_of out)
      | (w', _) \<Rightarrow> (w', \<lparr>stDoor = DoorOpen, stAvailable = 0, stCounted = False\<rparr>))"

definition stockGate_Stock :: "wr_ext \<Rightarrow> string \<Rightarrow> room \<Rightarrow> room \<times> stock" where
  "stockGate_Stock x eID w =
     (case stockGate_lookup eID w of
        Some s \<Rightarrow> (w, s)
      | None \<Rightarrow>
          (case stockGate_fetch eID w of
             (w', s) \<Rightarrow> (stockGate_store eID s (rNow w' + xStockTTL x) w', s)))"

definition askStock :: "wr_ext \<Rightarrow> string \<Rightarrow> stock wr" where
  "askStock x eID w = (case stockGate_Stock x eID w of (w', s) \<Rightarrow> (w', Inr s))"

section \<open>The session service\<close>

definition svc_CreateSession ::
  "string \<Rightarrow> int \<Rightarrow> string \<Rightarrow> string \<Rightarrow> string \<Rightarrow> string \<Rightarrow> time \<Rightarrow> session wr" where
  "svc_CreateSession k lot uID eID userAgent ipAddr saleStartAt = withNow (\<lambda>now.
     let ss = \<lparr>ssID = k, ssUserID = uID, ssEventID = eID, ssPosition = 0, ssQueuedAt = now,
               ssStatus = SessionStatusQueued, ssAdmittedAt = None, ssCompletedAt = None,
               ssExpiresAt = now + 2 * hour, ssCheckoutToken = [], ssCheckoutExpiresAt = None,
               ssTokenInvalidated = False, ssTokenInvalidatedAt = None,
               ssTokenInvalidationReason = [], ssConnectionID = [], ssUserAgent = userAgent,
               ssIPAddress = ipAddr, ssLastHeartbeatAt = now, ssAttemptCount = 1,
               ssQueueScore = DrawQueueScore lot now saleStartAt, ssCreatedAt = now,
               ssUpdatedAt = now\<rparr>
     in andThen (repo_Create ss) (\<lambda>_. ret ss))"

definition svc_UpdateSession :: "session \<Rightarrow> unit wr" where
  "svc_UpdateSession ss = repo_Update (ssID ss) ss"

definition notFoundIfNil :: "'a wr \<Rightarrow> 'a wr" where
  "notFoundIfNil m = settle m (\<lambda>r. case r of
       Inl e \<Rightarrow> fail (if e = RedisNil then ErrSessionNotFound else e)
     | Inr y \<Rightarrow> ret y)"

definition svc_UpdateSessionStatus :: "string \<Rightarrow> session_status \<Rightarrow> unit wr" where
  "svc_UpdateSessionStatus k st = notFoundIfNil (repo_UpdateStatus k st)"

definition svc_GetSession :: "string \<Rightarrow> session wr" where
  "svc_GetSession k = notFoundIfNil (repo_Get k)"

definition svc_GenerateCheckoutToken :: "wr_ext \<Rightarrow> session \<Rightarrow> string wr" where
  "svc_GenerateCheckoutToken x ss = withNow (\<lambda>now.
     case xSign x (now + xExpiry x) now ss of
       None \<Rightarrow> fail (ErrOther ''failed to sign token'')
     | Some token \<Rightarrow> ret token)"

definition svc_ActiveSession :: "string \<Rightarrow> string \<Rightarrow> session wr" where
  "svc_ActiveSession k userID = andThen (svc_GetSession k) (\<lambda>ss. withNow (\<lambda>now.
     if ssUserID ss \<noteq> userID then fail ErrSessionNotFound
     else if IsExpired now ss then fail ErrSessionExpired
     else if ssStatus ss = SessionStatusSoldOut then fail ErrSoldOut
     else if \<not> IsActive ss then fail ErrInvalidSessionStatus
     else ret ss))"

definition svc_UpdateCheckoutToken :: "string \<Rightarrow> string \<Rightarrow> time \<Rightarrow> unit wr" where
  "svc_UpdateCheckoutToken k token expAt = repo_UpdateCheckoutToken k token expAt"

definition svc_InvalidateCheckoutToken :: "wr_ext \<Rightarrow> string \<Rightarrow> string \<Rightarrow> unit wr" where
  "svc_InvalidateCheckoutToken x k reason = repo_InvalidateToken (xHash x) k reason"

definition svc_ValidateCheckoutToken :: "wr_ext \<Rightarrow> string \<Rightarrow> unit wr" where
  "svc_ValidateCheckoutToken x token =
     (if token = [] then fail ErrTokenEmpty
      else withNow (\<lambda>now.
        case xParseToken x now token of
          Inl e \<Rightarrow> fail e
        | Inr claim \<Rightarrow>
            andThen (repo_IsTokenInvalidated (xHash x) token) (\<lambda>isBlacklisted.
              if isBlacklisted then fail ErrTokenInvalidated
              else case claim of
                None \<Rightarrow> fail ErrTokenInvalidClaims
              | Some k \<Rightarrow>
                  andThen (notFoundIfNil (repo_Get k)) (\<lambda>ss. withNow (\<lambda>now2.
                    if ssStatus ss \<noteq> SessionStatusAdmitted then fail ErrSessionNotAdmitted
                    else if ssTokenInvalidated ss then fail ErrTokenInvalidated
                    else if HasCheckoutExpired now2 ss then fail ErrTokenExpired
                    else ret ())))))"

section \<open>The queue service\<close>

definition svc_EnqueueSession :: "session \<Rightarrow> int wr" where
  "svc_EnqueueSession ss =
     andThen (repo_AddToQueue (ssEventID ss) ss) (\<lambda>_.
     andThen (repo_GetQueuePosition (ssEventID ss) (ssID ss)) (\<lambda>pos.
     settle (repo_AddActiveEvent (ssEventID ss)) (\<lambda>_. ret pos)))"

definition svc_DequeueSession :: "string \<Rightarrow> string \<Rightarrow> unit wr" where
  "svc_DequeueSession eID k =
     andThen (repo_RemoveFromQueue eID [k]) (\<lambda>_.
     settle (repo_GetQueueLength eID) (\<lambda>r. case r of
         Inl _ \<Rightarrow> ret ()
       | Inr queueLength \<Rightarrow>
           if queueLength = 0 then settle (repo_RemoveActiveEvent eID) (\<lambda>_. ret ()) else ret ()))"

record queue_status =
  qsSessionID :: string
  qsStatus :: session_status
  qsPosition :: int
  qsQueueLength :: int
  qsQueuedAt :: time
  qsExpiresAt :: time
  qsCheckoutToken :: string
  qsCheckoutURL :: string
  qsCheckoutExpiresAt :: "time option"
  qsAdmittedAt :: "time option"
  qsPaused :: bool

definition plain_status :: "session \<Rightarrow> queue_status" where
  "plain_status ss =
     \<lparr>qsSessionID = ssID ss, qsStatus = ssStatus ss, qsPosition = 0, qsQueueLength = 0,
      qsQueuedAt = ssQueuedAt ss, qsExpiresAt = ssExpiresAt ss, qsCheckoutToken = [],
      qsCheckoutURL = [], qsCheckoutExpiresAt = None, qsAdmittedAt = None, qsPaused = False\<rparr>"

definition svc_GetQueueStatus :: "session \<Rightarrow> queue_status wr" where
  "svc_GetQueueStatus ss =
     (if ssStatus ss = SessionStatusQueued
      then andThen (repo_GetQueuePositionAndLength (ssEventID ss) (ssID ss)) (\<lambda>(pos, len).
             ret ((plain_status ss)\<lparr>qsPosition := pos, qsQueueLength := len\<rparr>))
      else if ssStatus ss = SessionStatusAdmitted
      then ret ((plain_status ss)\<lparr>qsCheckoutToken := ssCheckoutToken ss,
             qsCheckoutExpiresAt := ssCheckoutExpiresAt ss, qsAdmittedAt := ssAdmittedAt ss,
             qsCheckoutURL := ''/checkout''\<rparr>)
      else ret (plain_status ss))"

definition svc_GetQueueInfo :: "string \<Rightarrow> (int \<times> int) wr" where
  "svc_GetQueueInfo eID =
     andThen (repo_GetQueueLength eID) (\<lambda>len.
     andThen (repo_GetProcessingCount eID) (\<lambda>n. ret (len, n)))"

text \<open>An entry is due once the whole second of its score has passed.\<close>

definition svc_PeekQueue :: "string \<Rightarrow> int \<Rightarrow> string list wr" where
  "svc_PeekQueue eID n =
     (if n \<le> 0 then ret []
      else withNow (\<lambda>now. repo_GetQueueMembers eID (float64 (unix now * score_unit)) n))"

section \<open>Announcements\<close>

definition prod_PublishQueueReady :: "queue_ready_event \<Rightarrow> unit wr" where
  "prod_PublishQueueReady e = withNow (\<lambda>now.
     rcall [\<lambda>_ s. s\<lparr>wsKafka := wsKafka s @ [QueueReady (e\<lparr>qrTimestamp := now\<rparr>)]\<rparr>] (\<lambda>_ _. Inr ()))"

definition prod_PublishQueueJoined :: "queue_joined_event \<Rightarrow> unit wr" where
  "prod_PublishQueueJoined e = withNow (\<lambda>now.
     rcall [\<lambda>_ s. s\<lparr>wsKafka := wsKafka s @ [QueueJoined (e\<lparr>qjTimestamp := now\<rparr>)]\<rparr>] (\<lambda>_ _. Inr ()))"

definition prod_PublishQueueLeft :: "queue_left_event \<Rightarrow> unit wr" where
  "prod_PublishQueueLeft e = withNow (\<lambda>now.
     rcall [\<lambda>_ s. s\<lparr>wsKafka := wsKafka s @ [QueueLeft (e\<lparr>qlTimestamp := now\<rparr>)]\<rparr>] (\<lambda>_ _. Inr ()))"

section \<open>What a buyer calls\<close>

record join_input =
  jiUserID :: string
  jiEventID :: string
  jiUserAgent :: string
  jiIPAddress :: string

record join_output =
  joSessionID :: string
  joPosition :: int
  joQueueLength :: int
  joQueuedAt :: time
  joExpiresAt :: time

definition wr_JoinQueue :: "wr_ext \<Rightarrow> string \<Rightarrow> int \<Rightarrow> join_input \<Rightarrow> join_output wr" where
  "wr_JoinQueue x k lot inp =
     andThen (eventGate_Get x (jiEventID inp)) (\<lambda>eInfo.
     if \<not> eiAllowWaitRoom eInfo then fail ErrWaitRoomNotAllowed
     else andThen (askStock x (jiEventID inp)) (\<lambda>st.
     if stDoor st = DoorSoldOut then fail ErrSoldOut
     else andThen (svc_CreateSession k lot (jiUserID inp) (jiEventID inp) (jiUserAgent inp)
                     (jiIPAddress inp) (eiSaleStartAt eInfo)) (\<lambda>ss.
     andThen (svc_EnqueueSession ss) (\<lambda>pos.
     settle (prod_PublishQueueJoined \<lparr>qjSessionID = ssID ss, qjUserID = ssUserID ss,
               qjEventID = ssEventID ss, qjPosition = pos, qjJoinedAt = ssQueuedAt ss,
               qjTimestamp = zero_time\<rparr>) (\<lambda>_.
     andThen (svc_GetQueueInfo (jiEventID inp)) (\<lambda>(len, inside).
     ret \<lparr>joSessionID = ssID ss, joPosition = pos, joQueueLength = len,
          joQueuedAt = ssQueuedAt ss, joExpiresAt = ssExpiresAt ss\<rparr>))))))"

definition wr_GetQueueStatus :: "wr_ext \<Rightarrow> string \<Rightarrow> string \<Rightarrow> queue_status wr" where
  "wr_GetQueueStatus x k userID =
     andThen (svc_ActiveSession k userID) (\<lambda>ss.
     andThen (if ssStatus ss = SessionStatusQueued
              then andThen (askStock x (ssEventID ss)) (\<lambda>st. ret (stDoor st))
              else ret DoorOpen) (\<lambda>door.
     if door = DoorSoldOut then fail ErrSoldOut
     else andThen (svc_GetQueueStatus ss) (\<lambda>out. ret (out\<lparr>qsPaused := (door = DoorPaused)\<rparr>))))"

definition wr_LeaveQueue :: "string \<Rightarrow> string \<Rightarrow> unit wr" where
  "wr_LeaveQueue k userID =
     andThen (svc_GetSession k) (\<lambda>ss.
     if ssUserID ss \<noteq> userID then fail ErrSessionNotFound
     else andThen (svc_DequeueSession (ssEventID ss) k) (\<lambda>_.
     andThen (svc_UpdateSessionStatus k SessionStatusAbandoned) (\<lambda>_.
     settle (prod_PublishQueueLeft \<lparr>qlSessionID = k, qlUserID = ssUserID ss,
               qlEventID = ssEventID ss, qlReason = ''user_left'', qlLeftAt = ssUpdatedAt ss,
               qlTimestamp = zero_time\<rparr>) (\<lambda>_. ret ()))))"

section \<open>What a finished checkout calls\<close>

record checkout_input =
  ciSessionID :: string
  ciUserID :: string
  ciEventID :: string
  ciTimestamp :: time

text \<open>The three handlers differ in the reason, the status, and the completion time.\<close>

definition endCheckout :: "wr_ext \<Rightarrow> string \<Rightarrow> (session \<Rightarrow> session) \<Rightarrow> checkout_input \<Rightarrow> unit wr" where
  "endCheckout x reason f inp =
     settle (svc_GetSession (ciSessionID inp)) (\<lambda>r. case r of
       Inl e \<Rightarrow> if e = ErrSessionNotFound then ret () else fail e
     | Inr ss \<Rightarrow>
         settle (svc_InvalidateCheckoutToken x (ciSessionID inp) reason) (\<lambda>_.
         settle (repo_RemoveFromProcessing (ciEventID inp) (ciSessionID inp)) (\<lambda>_.
         svc_UpdateSession (f ss))))"

definition wr_HandleCheckoutCompleted :: "wr_ext \<Rightarrow> checkout_input \<Rightarrow> unit wr" where
  "wr_HandleCheckoutCompleted x inp = endCheckout x ''completed''
     (\<lambda>ss. ss\<lparr>ssStatus := SessionStatusCompleted, ssCompletedAt := Some (ciTimestamp inp)\<rparr>) inp"

definition wr_HandleCheckoutFailed :: "wr_ext \<Rightarrow> checkout_input \<Rightarrow> unit wr" where
  "wr_HandleCheckoutFailed x inp = endCheckout x ''failed'' (\<lambda>ss. ss\<lparr>ssStatus := SessionStatusFailed\<rparr>) inp"

definition wr_HandleCheckoutExpired :: "wr_ext \<Rightarrow> checkout_input \<Rightarrow> unit wr" where
  "wr_HandleCheckoutExpired x inp = endCheckout x ''expired'' (\<lambda>ss. ss\<lparr>ssStatus := SessionStatusExpired\<rparr>) inp"

end
