(* ===== verification/Waitroom_Processor.thy ===== *)
theory Waitroom_Processor
  imports Waitroom_Services
begin

text \<open>
  The queue processor (\<open>waitroom-svc/internal/service/queue_processor.go\<close>): one tick drains the
  unpublished announcements, then for each active event admits, closes or sweeps the head of its
  line. The ticker that starts a tick is not modelled here; starting and stopping the
  processor is in \<open>Waitroom_Lifecycle\<close>. A wait between two attempts lets the clock run, up to the
  deadline of the event's context.
\<close>

definition countError :: "room \<Rightarrow> room" where
  "countError w = w\<lparr>rErrorCount := rErrorCount w + 1\<rparr>"

section \<open>Retries\<close>

definition retryAttempts :: nat where "retryAttempts = 3"
definition retryDelay :: duration where "retryDelay = second"
definition sweepBatchSize :: int where "sweepBatchSize = 100"

definition waitUntil :: "time \<Rightarrow> duration \<Rightarrow> unit wr" where
  "waitUntil deadline d w =
     (if rNow w + d < deadline then (w\<lparr>rNow := rNow w + d\<rparr>, Inr ())
      else (w\<lparr>rNow := max (rNow w) deadline\<rparr>, Inl ErrContext))"

text \<open>\<open>retryLoop op deadline n attempt e\<close>: \<open>n\<close> attempts are left, \<open>attempt\<close> were made, the last failed with \<open>e\<close>.\<close>

fun retryLoop :: "unit wr \<Rightarrow> time \<Rightarrow> nat \<Rightarrow> nat \<Rightarrow> wr_error \<Rightarrow> unit wr" where
  "retryLoop op deadline 0 attempt e w = (w, Inl e)"
| "retryLoop op deadline (Suc n) attempt e w =
     (case (if attempt = 0 then (w, Inr ()) else waitUntil deadline (retryDelay * int attempt) w) of
        (w', Inl c) \<Rightarrow> (w', Inl c)
      | (w', Inr _) \<Rightarrow>
          (case op w' of
             (w2, Inr _) \<Rightarrow> (w2, Inr ())
           | (w2, Inl e2) \<Rightarrow>
               if e2 = ErrSessionNotAdmittable then (w2, Inl e2)
               else retryLoop op deadline n (Suc attempt) e2 w2))"

definition withRetry :: "time \<Rightarrow> unit wr \<Rightarrow> unit wr" where
  "withRetry deadline op = retryLoop op deadline retryAttempts 0 (ErrOther ''operation failed after 0 attempts'')"

section \<open>Announcing an admission\<close>

definition bufferQueueReady :: "queue_ready_event \<Rightarrow> unit wr" where
  "bufferQueueReady e w =
     (case repo_BufferQueueReady (Some e) w of
        (w', Inl _) \<Rightarrow> (countError w', Inr ())
      | (w', Inr _) \<Rightarrow> (w', Inr ()))"

definition claimSlot :: "string \<Rightarrow> session \<Rightarrow> string \<Rightarrow> time \<Rightarrow> unit wr" where
  "claimSlot eID ss token expAt = withNow (\<lambda>now0.
     andThen (repo_AddToProcessing eID (ssID ss) (expAt - now0)) (\<lambda>_. withNow (\<lambda>now.
     let e = \<lparr>qrSessionID = ssID ss, qrUserID = ssUserID ss, qrEventID = eID,
              qrCheckoutToken = token, qrAdmittedAt = now, qrExpiresAt = expAt, qrTimestamp = now\<rparr>
     in settle (prod_PublishQueueReady e) (\<lambda>r. case r of
          Inl _ \<Rightarrow> bufferQueueReady e
        | Inr _ \<Rightarrow> ret ()))))"

section \<open>One admission\<close>

definition resumeOrReject :: "string \<Rightarrow> session \<Rightarrow> unit wr" where
  "resumeOrReject eID ss = withNow (\<lambda>now.
     if ssStatus ss \<noteq> SessionStatusAdmitted \<or> IsExpired now ss \<or> HasCheckoutExpired now ss
        \<or> ssCheckoutToken ss = []
     then fail ErrSessionNotAdmittable
     else case ssCheckoutExpiresAt ss of
       None \<Rightarrow> fail ErrSessionNotAdmittable
     | Some expAt \<Rightarrow>
         andThen (repo_IsProcessing eID (ssID ss)) (\<lambda>holding.
           if holding then fail ErrSessionNotAdmittable
           else claimSlot eID ss (ssCheckoutToken ss) expAt))"

definition doAdmitUserToCheckout :: "wr_ext \<Rightarrow> string \<Rightarrow> string \<Rightarrow> unit wr" where
  "doAdmitUserToCheckout x eID k =
     settle (svc_GetSession k) (\<lambda>r. case r of
       Inl e \<Rightarrow> fail (if e = ErrSessionNotFound then ErrSessionNotAdmittable else e)
     | Inr ss \<Rightarrow> withNow (\<lambda>now.
         if \<not> CanAdmit now ss then resumeOrReject eID ss
         else andThen (svc_GenerateCheckoutToken x ss) (\<lambda>token. withNow (\<lambda>now2.
           let expAt = now2 + xExpiry x
           in andThen (svc_UpdateCheckoutToken k token expAt) (\<lambda>_.
              claimSlot eID ss token expAt)))))"

definition admitUserToCheckout :: "wr_ext \<Rightarrow> time \<Rightarrow> string \<Rightarrow> string \<Rightarrow> unit wr" where
  "admitUserToCheckout x deadline eID k = withRetry deadline (doAdmitUserToCheckout x eID k)"

section \<open>A batch\<close>

text \<open>The loop over the batch: who was admitted, and who can never be.\<close>

fun admitAll :: "wr_ext \<Rightarrow> time \<Rightarrow> string \<Rightarrow> string list \<Rightarrow> room \<Rightarrow> room \<times> string list \<times> string list" where
  "admitAll x deadline eID [] w = (w, [], [])"
| "admitAll x deadline eID (k # ks) w =
     (case admitUserToCheckout x deadline eID k w of
        (w', r) \<Rightarrow>
          (case admitAll x deadline eID ks w' of
             (w2, admitted, stale) \<Rightarrow>
               (case r of
                  Inr _ \<Rightarrow> (w2, k # admitted, stale)
                | Inl e \<Rightarrow>
                    if e = ErrSessionNotAdmittable then (w2, admitted, k # stale)
                    else (w2, admitted, stale))))"

definition admitCount :: "nat \<Rightarrow> stock \<Rightarrow> int \<Rightarrow> nat" where
  "admitCount due s inside =
     (if \<not> stCounted s then due
      else nat (max 0 (min (int due) (stAvailable s - inside))))"

fun closeLoop :: "string list \<Rightarrow> room \<Rightarrow> room \<times> string list" where
  "closeLoop [] w = (w, [])"
| "closeLoop (k # ks) w =
     (case svc_GetSession k w of
        (w', Inl e) \<Rightarrow>
          (case closeLoop ks w' of (w2, ls) \<Rightarrow> (w2, if e = ErrSessionNotFound then k # ls else ls))
      | (w', Inr ss) \<Rightarrow>
          if ssStatus ss = SessionStatusQueued
          then (case svc_UpdateSessionStatus k SessionStatusSoldOut w' of
                  (w2, Inl _) \<Rightarrow> closeLoop ks w2
                | (w2, Inr _) \<Rightarrow> (case closeLoop ks w2 of (w3, ls) \<Rightarrow> (w3, k # ls)))
          else (case closeLoop ks w' of (w2, ls) \<Rightarrow> (w2, if IsTerminal ss then k # ls else ls)))"

definition letGo :: "string \<Rightarrow> string list \<Rightarrow> unit wr" where
  "letGo eID ids =
     (if ids = [] then ret () else settle (repo_RemoveFromQueue eID ids) (\<lambda>_. ret ()))"

definition closeLine :: "string \<Rightarrow> unit wr" where
  "closeLine eID =
     andThen (svc_PeekQueue eID sweepBatchSize) (\<lambda>ids w.
       case closeLoop ids w of (w', leaving) \<Rightarrow> letGo eID leaving w')"

fun deadLoop :: "string list \<Rightarrow> room \<Rightarrow> room \<times> string list" where
  "deadLoop [] w = (w, [])"
| "deadLoop (k # ks) w =
     (case svc_GetSession k w of
        (w', Inl e) \<Rightarrow>
          if e = ErrSessionNotFound then (case deadLoop ks w' of (w2, ds) \<Rightarrow> (w2, k # ds)) else (w', [])
      | (w', Inr ss) \<Rightarrow>
          if IsTerminal ss \<or> IsExpired (rNow w') ss
          then (case deadLoop ks w' of (w2, ds) \<Rightarrow> (w2, k # ds)) else (w', []))"

definition dropDeadHead :: "string \<Rightarrow> unit wr" where
  "dropDeadHead eID =
     andThen (svc_PeekQueue eID sweepBatchSize) (\<lambda>ids w.
       case deadLoop ids w of (w', dead) \<Rightarrow> letGo eID dead w')"

section \<open>One event\<close>

definition admitBatch :: "wr_ext \<Rightarrow> time \<Rightarrow> string \<Rightarrow> string list \<Rightarrow> unit wr" where
  "admitBatch x deadline eID ids w =
     (case admitAll x deadline eID ids w of
        (w', admitted, stale) \<Rightarrow>
          (case letGo eID (admitted @ stale) w' of
             (w2, _) \<Rightarrow> (w2\<lparr>rTotalAdmitted := rTotalAdmitted w2 + int (length admitted)\<rparr>, Inr ())))"

definition ProcessEventQueue :: "wr_ext \<Rightarrow> string \<Rightarrow> unit wr" where
  "ProcessEventQueue x eID = withNow (\<lambda>start.
     let deadline = start + 10 * second
     in andThen (svc_PeekQueue eID (xBatchSize x)) (\<lambda>ids.
        if ids = [] then ret ()
        else andThen (askStock x eID) (\<lambda>st.
          case stDoor st of
            DoorPaused \<Rightarrow> dropDeadHead eID
          | DoorSoldOut \<Rightarrow> closeLine eID
          | DoorOpen \<Rightarrow>
              andThen (repo_GetProcessingCount eID) (\<lambda>inside.
                let n = admitCount (length ids) st inside
                in if n = 0 then ret ()
                   else admitBatch x deadline eID (take n ids)))))"

section \<open>Draining\<close>

fun publishBuffered :: "queue_ready_event option list \<Rightarrow> room \<Rightarrow> room \<times> nat" where
  "publishBuffered [] w = (w, 0)"
| "publishBuffered (None # ps) w =
     (case publishBuffered ps (countError w) of (w', n) \<Rightarrow> (w', Suc n))"
| "publishBuffered (Some e # ps) w =
     (if qrExpiresAt e \<noteq> zero_time \<and> qrExpiresAt e < rNow w
      then (case publishBuffered ps w of (w', n) \<Rightarrow> (w', Suc n))
      else case prod_PublishQueueReady e w of
             (w', Inl _) \<Rightarrow> (w', 0)
           | (w', Inr _) \<Rightarrow> (case publishBuffered ps w' of (w2, n) \<Rightarrow> (w2, Suc n)))"

definition drainBufferedQueueReady :: "wr_ext \<Rightarrow> room \<Rightarrow> room" where
  "drainBufferedQueueReady x w =
     (case repo_PeekBufferedQueueReady (xBatchSize x) w of
        (w', Inl _) \<Rightarrow> w'
      | (w', Inr payloads) \<Rightarrow>
          (case publishBuffered payloads w' of
             (w2, settled) \<Rightarrow> if settled = 0 then w2 else fst (repo_TrimBufferedQueueReady (int settled) w2)))"

section \<open>One tick\<close>

fun processEvents :: "wr_ext \<Rightarrow> string list \<Rightarrow> room \<Rightarrow> room" where
  "processEvents x [] w = w"
| "processEvents x (e # es) w =
     (case ProcessEventQueue x e w of
        (w', Inl _) \<Rightarrow> processEvents x es (countError w')
      | (w', Inr _) \<Rightarrow> processEvents x es w')"

definition processAllQueues :: "wr_ext \<Rightarrow> room \<Rightarrow> room" where
  "processAllQueues x w =
     (let w1 = drainBufferedQueueReady x w;
          w2 = (case repo_GetActiveEvents w1 of
                  (w', Inl _) \<Rightarrow> countError w'
                | (w', Inr es) \<Rightarrow> processEvents x es w')
      in w2\<lparr>rLastProcessed := rNow w2\<rparr>)"

end
