(* ===== verification/Waitroom_Rely.thy ===== *)
theory Waitroom_Rely
  imports Waitroom_Processor
begin

text \<open>
  How the waiting room's operations are reasoned about while other processes change the store
  between any two of their calls. An observation is a relation between the clock and the store
  at two moments. \<open>env_in P w\<close>: what happens around the remote calls of \<open>w\<close> is an observation
  \<open>P\<close>; \<open>keeps P m w\<close>: then the run of \<open>m\<close> from \<open>w\<close>, with all that happens meanwhile, is one
  too. The locale \<open>observation\<close> carries \<open>keeps\<close> through the combinators of the model. In a
  calm process (no more disturbances) every call succeeds and takes no time.
\<close>

type_synonym moment = "time \<times> wr_store"

definition now_at :: "room \<Rightarrow> moment" where
  "now_at w = (rNow w, rSt w)"

definition env_in :: "(moment \<Rightarrow> moment \<Rightarrow> bool) \<Rightarrow> room \<Rightarrow> bool" where
  "env_in P w \<longleftrightarrow> (\<forall>(d, g, a) \<in> set (rEnv w). \<forall>t s. P (t, s) (t + int d, g s))"

text \<open>Time goes on, and what was still to happen is all that may happen.\<close>

definition onward :: "room \<Rightarrow> room \<Rightarrow> bool" where
  "onward w w' \<longleftrightarrow> rNow w \<le> rNow w' \<and> set (rEnv w') \<subseteq> set (rEnv w)"

definition keeps :: "(moment \<Rightarrow> moment \<Rightarrow> bool) \<Rightarrow> (room \<Rightarrow> room) \<Rightarrow> room \<Rightarrow> bool" where
  "keeps P f w \<longleftrightarrow> (env_in P w \<longrightarrow>
     P (now_at w) (now_at (f w)) \<and> env_in P (f w) \<and> onward w (f w))"

definition obeys :: "(moment \<Rightarrow> moment \<Rightarrow> bool) \<Rightarrow> time \<Rightarrow> command \<Rightarrow> bool" where
  "obeys P t0 c \<longleftrightarrow> (\<forall>t s. t0 \<le> t \<longrightarrow> P (t, s) (t, c t s))"

abbreviation keeps_run :: "(moment \<Rightarrow> moment \<Rightarrow> bool) \<Rightarrow> 'a wr \<Rightarrow> room \<Rightarrow> bool" where
  "keeps_run P m \<equiv> keeps P (\<lambda>w. fst (m w))"

definition set_local :: "(room \<Rightarrow> room) \<Rightarrow> bool" where
  "set_local f \<longleftrightarrow> (\<forall>w. rSt (f w) = rSt w \<and> rNow (f w) = rNow w \<and> rEnv (f w) = rEnv w)"

section \<open>Running\<close>

lemma runAll_simps [simp]:
  "runAll [] now s = s"
  "runAll (c # cs) now s = runAll cs now (c now s)"
  by (simp_all add: runAll_def)

lemma ret_simps [simp]: "ret x w = (w, Inr x)" "fail e w = (w, Inl e)"
  by (simp_all add: ret_def fail_def)

lemma withNow_simp [simp]: "withNow f w = f (rNow w) w"
  by (simp add: withNow_def)

lemma andThen_simps:
  "m w = (w', Inr y) \<Longrightarrow> andThen m k w = k y w'"
  "m w = (w', Inl e) \<Longrightarrow> andThen m k w = (w', Inl e)"
  by (simp_all add: andThen_def)

lemma settle_simp: "m w = (w', r) \<Longrightarrow> settle m k w = k r w'"
  by (simp add: settle_def)

lemma rcall_calm:
  assumes "rEnv w = []"
  shows "rcall cmds ans w =
    (w\<lparr>rSt := runAll cmds (rNow w) (rSt w)\<rparr>, ans (rNow w) (runAll cmds (rNow w) (rSt w)))"
  using assms by (simp add: rcall_def Let_def)

lemma rcall_read_calm: "rEnv w = [] \<Longrightarrow> rcall [] ans w = (w, ans (rNow w) (rSt w))"
  by (simp add: rcall_calm)

lemma andThen_Inr:
  assumes "andThen m k w = (w', Inr y)"
  obtains v z where "m w = (v, Inr z)" "k z v = (w', Inr y)"
  using assms by (auto simp: andThen_def split: prod.splits sum.splits)

lemma andThen_cases:
  assumes "andThen m k w = (w', r)"
  obtains e where "m w = (w', Inl e)" "r = Inl e"
  | v z where "m w = (v, Inr z)" "k z v = (w', r)"
  using assms by (auto simp: andThen_def split: prod.splits sum.splits)

text \<open>One remote call: the moment it ran at, and what it did then.\<close>

lemma rcall_cases:
  assumes "rcall cmds ans w = (w', r)"
  obtains d g where "rNow w' = rNow w + int d"
      "g = id \<and> d = 0 \<and> rEnv w = [] \<and> rEnv w' = [] \<or> (\<exists>a. rEnv w = (d, g, a) # rEnv w')"
      "rSt w' = runAll cmds (rNow w') (g (rSt w))" "r = ans (rNow w') (rSt w')"
  | d g a n where "rNow w' = rNow w + int d" "rEnv w = (d, g, a) # rEnv w'"
      "rSt w' = runAll (take n cmds) (rNow w') (g (rSt w))" "r = Inl ErrRemote"
proof (cases "rEnv w")
  case Nil
  with assms show thesis
    by (intro that(1) [of 0 id]) (auto simp: rcall_def Let_def)
next
  case (Cons p es)
  obtain d g a where p: "p = (d, g, a)" by (cases p)
  show thesis
  proof (cases a)
    case Answered
    with assms Cons p show thesis
      by (intro that(1) [of d g]) (auto simp: rcall_def Let_def)
  next
    case (Cut n)
    with assms Cons p show thesis
      by (intro that(2) [of d g a n]) (auto simp: rcall_def Let_def)
  qed
qed

lemma rcall_Inr: "rcall cmds ans w = (w', Inr y) \<Longrightarrow> ans (rNow w') (rSt w') = Inr y"
  by (erule rcall_cases) simp_all

lemma env_tail: "rEnv w = p # rEnv w' \<Longrightarrow> env_in P w \<Longrightarrow> env_in P w'"
  by (simp add: env_in_def)

lemma env_empty: "rEnv w = [] \<Longrightarrow> env_in P w"
  by (simp add: env_in_def)

section \<open>Observations\<close>

locale observation =
  fixes P :: "moment \<Rightarrow> moment \<Rightarrow> bool"
  assumes same: "P m m"
    and trans: "P l m \<Longrightarrow> P m n \<Longrightarrow> P l n"
    and passing: "0 \<le> d \<Longrightarrow> P (t, s) (t + d, s)"
begin

lemma keeps_id: "keeps P (\<lambda>w. w) w"
  by (simp add: keeps_def same onward_def)

lemma keeps_local: "set_local f \<Longrightarrow> keeps P f w"
  by (simp add: keeps_def set_local_def same now_at_def env_in_def onward_def)

lemma keeps_via:
  assumes "keeps P f w" and "keeps P g (f w)" and "h w = g (f w)" shows "keeps P h w"
  unfolding keeps_def
proof (intro impI conjI)
  assume "env_in P w"
  then have f: "P (now_at w) (now_at (f w))" "env_in P (f w)" "onward w (f w)"
    using assms(1) by (simp_all add: keeps_def)
  then have g: "P (now_at (f w)) (now_at (g (f w)))" "env_in P (g (f w))" "onward (f w) (g (f w))"
    using assms(2) by (simp_all add: keeps_def)
  show "P (now_at w) (now_at (h w))" unfolding assms(3) using f(1) g(1) by (rule trans)
  show "env_in P (h w)" using g(2) by (simp add: assms(3))
  show "onward w (h w)" using f(3) g(3) by (auto simp: assms(3) onward_def)
qed

lemma keeps_ret: "keeps_run P (ret x) w" and keeps_fail: "keeps_run P (fail e) w"
  by (simp_all add: keeps_id)

lemma keeps_step:
  assumes "keeps P f w" and "h w = g (f w)"
    and "env_in P w \<Longrightarrow> P (now_at w) (now_at (f w)) \<Longrightarrow> env_in P (f w) \<Longrightarrow> onward w (f w) \<Longrightarrow>
      keeps P g (f w)"
  shows "keeps P h w"
proof (cases "env_in P w")
  case True
  then have "keeps P g (f w)" using assms(1,3) by (simp add: keeps_def)
  then show ?thesis by (rule keeps_via [OF assms(1)]) (rule assms(2))
next
  case False
  then show ?thesis by (simp add: keeps_def)
qed

lemma keeps_after:
  assumes "f w = (v, y)" and "keeps P (\<lambda>w. fst (f w)) w" and "keeps P g v" and "h w = g v"
  shows "keeps P h w"
  by (rule keeps_via [OF assms(2), of g]) (simp_all add: assms)

text \<open>The next step may rely on what the observation says of the steps before it.\<close>

definition reached :: "room \<Rightarrow> room \<Rightarrow> bool" where
  "reached w w' \<longleftrightarrow> env_in P w \<and> P (now_at w) (now_at w') \<and> env_in P w' \<and> onward w w'"

lemma keeps_reached: "keeps P f w \<Longrightarrow> env_in P w \<Longrightarrow> reached w (f w)"
  by (simp add: keeps_def reached_def)

lemma reached_keeps: "(env_in P w \<Longrightarrow> reached w (f w)) \<Longrightarrow> keeps P f w"
  by (simp add: keeps_def reached_def)

lemma reached_refl: "env_in P w \<Longrightarrow> reached w w"
  by (simp add: reached_def same onward_def)

lemma reached_trans: "reached u v \<Longrightarrow> reached v w \<Longrightarrow> reached u w"
  using trans [of "now_at u" "now_at v" "now_at w"] by (auto simp: reached_def onward_def)

lemma keeps_andThen:
  assumes "keeps_run P m w"
    and "\<And>x w'. m w = (w', Inr x) \<Longrightarrow> reached w w' \<Longrightarrow> keeps_run P (k x) w'"
  shows "keeps_run P (andThen m k) w"
proof (cases "m w")
  case (Pair w' r)
  show ?thesis
  proof (cases r)
    case (Inl e)
    with Pair assms(1) show ?thesis by (simp add: keeps_def andThen_def)
  next
    case (Inr x)
    with Pair show ?thesis
      by (intro keeps_step [OF assms(1), of _ "\<lambda>w. fst (k x w)"])
        (simp_all add: andThen_def assms(2) reached_def)
  qed
qed

lemma keeps_settle:
  assumes "keeps_run P m w" and "\<And>r w'. m w = (w', r) \<Longrightarrow> reached w w' \<Longrightarrow> keeps_run P (k r) w'"
  shows "keeps_run P (settle m k) w"
proof (cases "m w")
  case (Pair w' r)
  then show ?thesis
    by (intro keeps_step [OF assms(1), of _ "\<lambda>w. fst (k r w)"])
      (simp_all add: settle_def assms(2) reached_def)
qed

lemma keeps_withNow: "keeps_run P (f (rNow w)) w \<Longrightarrow> keeps_run P (withNow f) w"
  by (simp add: keeps_def)

lemma runAll_obeys:
  assumes "\<And>c. c \<in> set cmds \<Longrightarrow> obeys P t0 c" and "t0 \<le> t"
  shows "P (t, s) (t, runAll cmds t s)"
  using assms(1)
proof (induction cmds arbitrary: s)
  case Nil
  then show ?case by (simp add: same)
next
  case (Cons c cs)
  have "P (t, s) (t, c t s)" using Cons.prems [of c] assms(2) by (simp add: obeys_def)
  moreover have "P (t, c t s) (t, runAll cs t (c t s))" using Cons.prems by (intro Cons.IH) simp
  ultimately show ?case by (simp add: trans [of "(t, s)" "(t, c t s)"])
qed

lemma keeps_rcall:
  assumes "\<And>c. c \<in> set cmds \<Longrightarrow> obeys P (rNow w) c"
  shows "keeps_run P (rcall cmds ans) w"
  unfolding keeps_def
proof
  assume e: "env_in P w"
  obtain w' r where run: "rcall cmds ans w = (w', r)" by (cases "rcall cmds ans w")
  have "P (now_at w) (now_at w') \<and> env_in P w' \<and> onward w w'" using run
  proof (cases rule: rcall_cases)
    case (1 d g)
    have "P (rNow w, rSt w) (rNow w', g (rSt w))"
      using 1(1,2) e passing [of 0] by (auto simp: env_in_def)
    moreover have "P (rNow w', g (rSt w)) (rNow w', rSt w')"
      unfolding 1(3) by (rule runAll_obeys [of _ "rNow w"]) (simp_all add: assms 1(1))
    ultimately have "P (now_at w) (now_at w')" unfolding now_at_def by (rule trans)
    moreover have "env_in P w'" using 1(2) e by (auto intro: env_tail env_empty)
    ultimately show ?thesis using 1(1,2) by (auto simp: onward_def)
  next
    case (2 d g a n)
    have "P (rNow w, rSt w) (rNow w', g (rSt w))"
      using 2(1,2) e by (auto simp: env_in_def)
    moreover have "P (rNow w', g (rSt w)) (rNow w', rSt w')"
      unfolding 2(3) by (rule runAll_obeys [of _ "rNow w"]) (auto simp: 2(1) intro: assms dest: in_set_takeD)
    ultimately have "P (now_at w) (now_at w')" unfolding now_at_def by (rule trans)
    moreover have "env_in P w'" using 2(2) e by (rule env_tail)
    ultimately show ?thesis using 2(1,2) by (auto simp: onward_def)
  qed
  then show "P (now_at w) (now_at (fst (rcall cmds ans w))) \<and>
      env_in P (fst (rcall cmds ans w)) \<and> onward w (fst (rcall cmds ans w))"
    by (simp add: run)
qed

lemma keeps_read: "keeps_run P (rcall [] ans) w"
  by (rule keeps_rcall) simp

lemma keeps_if:
  "(c \<Longrightarrow> keeps_run P m w) \<Longrightarrow> (\<not> c \<Longrightarrow> keeps_run P n w) \<Longrightarrow> keeps_run P (if c then m else n) w"
  by simp

lemma keeps_pair: "(\<And>a b. y = (a, b) \<Longrightarrow> keeps_run P (f a b) w) \<Longrightarrow> keeps_run P (case y of (a, b) \<Rightarrow> f a b) w"
  by (cases y) simp

lemma keeps_wait: "0 \<le> d \<Longrightarrow> keeps_run P (waitUntil deadline d) w"
proof -
  assume d: "0 \<le> d"
  let ?w = "fst (waitUntil deadline d w)"
  have "rNow w \<le> rNow ?w" "rSt ?w = rSt w" "rEnv ?w = rEnv w"
    using d by (auto simp: waitUntil_def)
  with passing [of "rNow ?w - rNow w" "rNow w" "rSt w"] show ?thesis
    by (simp add: keeps_def now_at_def env_in_def onward_def)
qed

lemmas keeps_intros = keeps_ret keeps_fail keeps_andThen keeps_settle keeps_withNow keeps_read

end

text \<open>Without any constraint, an observation says that the clock does not go back.\<close>

definition later :: "moment \<Rightarrow> moment \<Rightarrow> bool" where
  "later l m \<longleftrightarrow> fst l \<le> fst m"

interpretation clock: observation later
  by unfold_locales (auto simp: later_def)

lemma later_env [simp]: "env_in later w"
  by (auto simp: env_in_def later_def)

lemma later_obeys [simp]: "obeys later t c"
  by (simp add: obeys_def later_def)

lemma rcall_time: "rNow w \<le> rNow (fst (rcall cmds ans w))"
  using clock.keeps_rcall [of cmds w ans] by (simp add: keeps_def onward_def)

end
