(* ===== verification/Waitroom_Demo.thy ===== *)
theory Waitroom_Demo
  imports Waitroom_Rely
begin

text \<open>
  A small waiting room for the witnesses: event \<open>e\<close> with five tickets left, the sessions
  \<open>s1\<close> and \<open>s2\<close> in its line, \<open>s3\<close> inside, at 100 seconds on the clock.
\<close>

definition wr_db :: invdb where
  "wr_db = demo_db\<lparr>ticket_class_table := [demo_class\<lparr>tcSaleEndAt := None\<rparr>]\<rparr>"

definition wr_session :: "string \<Rightarrow> string \<Rightarrow> int \<Rightarrow> session" where
  "wr_session k u n =
     \<lparr>ssID = k, ssUserID = u, ssEventID = ''e'', ssPosition = 0, ssQueuedAt = n * second,
      ssStatus = SessionStatusQueued, ssAdmittedAt = None, ssCompletedAt = None,
      ssExpiresAt = n * second + 2 * hour, ssCheckoutToken = [], ssCheckoutExpiresAt = None,
      ssTokenInvalidated = False, ssTokenInvalidatedAt = None, ssTokenInvalidationReason = [],
      ssConnectionID = [], ssUserAgent = [], ssIPAddress = [], ssLastHeartbeatAt = n * second,
      ssAttemptCount = 1, ssQueueScore = n * score_unit, ssCreatedAt = n * second,
      ssUpdatedAt = n * second\<rparr>"

definition wr_s1 :: session where "wr_s1 = wr_session ''s1'' ''u1'' 40"
definition wr_s2 :: session where "wr_s2 = wr_session ''s2'' ''u2'' 50"
definition wr_s3 :: session where
  "wr_s3 = (wr_session ''s3'' ''u3'' 30)\<lparr>ssStatus := SessionStatusAdmitted,
     ssAdmittedAt := Some (90 * second), ssCheckoutToken := ''t3'',
     ssCheckoutExpiresAt := Some (990 * second)\<rparr>"

definition wr_store0 :: wr_store where
  "wr_store0 =
     \<lparr>wsSessions = (\<lambda>_. None)(''s1'' := Some (wr_s1, 40 * second + 2 * hour),
        ''s2'' := Some (wr_s2, 50 * second + 2 * hour), ''s3'' := Some (wr_s3, 30 * second + 2 * hour)),
      wsUserIndex = (\<lambda>_. None), wsBlacklist = (\<lambda>_. None),
      wsQueue = (\<lambda>_. [])(''e'' := [(40 * score_unit, ''s1''), (50 * score_unit, ''s2'')]),
      wsCheckouts = (\<lambda>_. ([], None))(''e'' := ([(990000, ''s3'')], Some (990 * second + hour))),
      wsBuffer = [], wsActive = [''e''], wsKafka = [], wsDeadLetters = [], wsInv = wr_db\<rparr>"

definition wr_room0 :: room where
  "wr_room0 = \<lparr>rSt = wr_store0, rNow = 100 * second, rEnv = [], rEventGate = (\<lambda>_. None),
     rStockGate = (\<lambda>_. None), rTotalAdmitted = 0, rErrorCount = 0, rLastProcessed = zero_time\<rparr>"

definition wr_ext0 :: wr_ext where
  "wr_ext0 = \<lparr>xExpiry = 15 * minute, xBatchSize = 10, xEventTTL = 30 * second,
     xStockTTL = 500000000, xSign = (\<lambda>expAt now ss. Some (''token of '' @ ssID ss)),
     xParseToken = (\<lambda>now t. if take 9 t = ''token of '' then Inr (Some (drop 9 t)) else Inl ErrTokenInvalid),
     xHash = (\<lambda>t. t), xFindOne = (\<lambda>now e. Inr True), xGetConfig = (\<lambda>now e. Inr (Some (True, ''2026''))),
     xParseISO = (\<lambda>s. None)\<rparr>"

lemmas wr_demo_defs = wr_room0_def wr_store0_def wr_s1_def wr_s2_def wr_s3_def wr_session_def
  second_def minute_def hour_def

lemma wr_room0_simps [simp]:
  "rEnv wr_room0 = []" "rNow wr_room0 = 100 * second" "rSt wr_room0 = wr_store0"
  "rStockGate wr_room0 = (\<lambda>_. None)" "rEventGate wr_room0 = (\<lambda>_. None)" "wsInv wr_store0 = wr_db"
  by (simp_all add: wr_room0_def wr_store0_def)

lemma wr_ext0_simps [simp]:
  "0 \<le> xExpiry wr_ext0" "xBatchSize wr_ext0 = 10" "xHash wr_ext0 = (\<lambda>t. t)"
  by (simp_all add: wr_ext0_def minute_def second_def)

lemma wr_db_wf: "wf_db wr_db"
  using demo_wf by (simp add: wf_db_def wr_db_def demo_defs tc_check_defs idx_order_ticket_def)

end
