(* ===== verification/Waitroom_Line.thy ===== *)
theory Waitroom_Line
  imports Waitroom_Demo
begin

text \<open>
  The order of the line: the draw at join against arrival after the doors open, what a peek
  at the head of the line may return before they do, and the place a join gets.
\<close>

lemma rankOf_less_iff:
  assumes "wf_zset z" and "(a, m) \<in> set z" and "(b, n) \<in> set z" and "m \<noteq> n"
  shows "rankOf m z < rankOf n z \<longleftrightarrow> (a, m) < (b, n)"
proof -
  have "(a, m) < (b, n) \<or> (b, n) < (a, m)" using assms(4) by (auto simp: less_prod_def)
  then show ?thesis
    using zrank_less [OF assms(1,2,3)] zrank_less [OF assms(1,3,2)] by (auto simp: rankOf_def)
qed

lemma pre_open_score:
  assumes "sale_era s" and "is_lot lot" and "q1 < s" and "s \<le> q2" and "unix q2 < 2 ^ 53"
  shows "DrawQueueScore lot q1 s \<le> DrawQueueScore lot2 q2 s"
    and "DrawQueueScore lot q1 s = DrawQueueScore lot2 q2 s \<longleftrightarrow>
      score_unit - 2 ^ 30 \<le> lot \<and> unix q2 = unix s"
proof -
  note band = draw_band(2,3,4) [OF assms(1,3,2)]
  have le: "unix s \<le> unix q2" using assms(4) by (simp add: unix_def zdiv_mono1)
  then have q2: "DrawQueueScore lot2 q2 s = unix q2 * score_unit"
    using assms(1,4,5) by (intro draw_after) (simp_all add: sale_era_def)
  have up: "unix s * score_unit \<le> unix q2 * score_unit"
    using le by (simp add: score_unit_def)
  then show "DrawQueueScore lot q1 s \<le> DrawQueueScore lot2 q2 s"
    unfolding q2 using band(1) by (rule order_trans [rotated])
  show "DrawQueueScore lot q1 s = DrawQueueScore lot2 q2 s \<longleftrightarrow>
      score_unit - 2 ^ 30 \<le> lot \<and> unix q2 = unix s"
  proof (cases "score_unit - 2 ^ 30 \<le> lot")
    case True
    have "score_unit \<noteq> 0" by (simp add: score_unit_def)
    then show ?thesis unfolding q2 using band(3) [OF True] True by auto
  next
    case False
    then have "DrawQueueScore lot q1 s < unix q2 * score_unit"
      using less_le_trans [OF band(2) up] by simp
    then show ?thesis unfolding q2 using False by simp
  qed
qed

text \<open>
  C37. Whoever joins before a sale opens stands in the line ahead of everyone who joins once it is
  open, whatever the draws and in floating point, with exactly one exception: a draw in the top
  \<open>2^-23\<close> of the range is rounded to the opening second itself, the score of the buyers who join in
  that second, and Redis then orders the two by their session ids.
\<close>

theorem pre_open_ahead:
  assumes "sale_era s" and "is_lot lot" and "q1 < s" and "s \<le> q2" and "unix q2 < 2 ^ 53"
    and "wf_zset z" and "(DrawQueueScore lot q1 s, k1) \<in> set z" and "(DrawQueueScore lot2 q2 s, k2) \<in> set z"
    and "k1 \<noteq> k2"
  shows "rankOf k1 z < rankOf k2 z \<longleftrightarrow>
    \<not> (score_unit - 2 ^ 30 \<le> lot \<and> unix q2 = unix s \<and> k2 < k1)"
proof -
  have "rankOf k1 z < rankOf k2 z \<longleftrightarrow> (DrawQueueScore lot q1 s, k1) < (DrawQueueScore lot2 q2 s, k2)"
    by (rule rankOf_less_iff [OF assms(6-9)])
  also have "\<dots> \<longleftrightarrow> \<not> (DrawQueueScore lot q1 s = DrawQueueScore lot2 q2 s \<and> k2 < k1)"
    using pre_open_score(1) [OF assms(1-5), of lot2] assms(9) by (auto simp: less_prod_def)
  also have "\<dots> \<longleftrightarrow> \<not> (score_unit - 2 ^ 30 \<le> lot \<and> unix q2 = unix s \<and> k2 < k1)"
    unfolding pre_open_score(2) [OF assms(1-5), of lot2] by simp
  finally show ?thesis .
qed

text \<open>A line in which the lot does not matter, and one in which the id decides.\<close>

definition doors :: time where "doors = 2000000000 * second"

definition doors_line :: "int \<Rightarrow> zset" where
  "doors_line lot = zadd (DrawQueueScore lot (doors - 1) doors) ''p''
     (zadd (DrawQueueScore 0 doors doors) ''a'' [])"

lemma pre_open_ahead_witness:
  "rankOf ''p'' (doors_line 5) < rankOf ''a'' (doors_line 5) \<and>
   \<not> rankOf ''p'' (doors_line (score_unit - 1)) < rankOf ''a'' (doors_line (score_unit - 1))"
proof -
  have line: "wf_zset (doors_line l)" "(DrawQueueScore l (doors - 1) doors, ''p'') \<in> set (doors_line l)"
    "(DrawQueueScore 0 doors doors, ''a'') \<in> set (doors_line l)" for l
    by (simp_all add: doors_line_def) (simp_all add: zadd_def zrem_def)
  have "sale_era doors" "is_lot 5" "is_lot (score_unit - 1)" "doors - 1 < doors" "unix doors < 2 ^ 53"
    by (simp_all add: doors_def sale_era_def is_lot_def score_unit_def unix_def second_def)
  note ahead = pre_open_ahead [OF this(1) _ this(4) order_refl this(5) line] this(2,3)
  show ?thesis
    using ahead(1) [OF ahead(2)] ahead(1) [OF ahead(3)]
    by (simp add: score_unit_def)
qed

section \<open>The head of the line\<close>

lemma Peek_below:
  assumes "svc_PeekQueue e n w = (w', Inr ids)" and "k \<in> set ids"
  shows "\<exists>sc. (sc, k) \<in> set (wsQueue (rSt w') e) \<and> sc < float64 (unix (rNow w) * score_unit)"
proof -
  have n: "\<not> n \<le> 0" using assms by (auto simp: svc_PeekQueue_def)
  then have "ids = zrange_below (float64 (unix (rNow w) * score_unit)) (nat n) (wsQueue (rSt w') e)"
    using assms(1) by (auto simp: svc_PeekQueue_def repo_GetQueueMembers_def dest!: rcall_Inr)
  with assms(2) show ?thesis
    by (auto simp: zrange_below_def dest!: in_set_takeD) blast
qed

text \<open>
  Nobody in a pre-sale draw is due before the doors open: while the clock is before a
  sale that starts on a whole second, a peek of the line, whatever else happens to it, returns
  no session whose score was drawn for that sale.
\<close>

theorem closed_until_open:
  assumes "sale_era s" and "s = unix s * second" and "is_lot lot" and "q < s"
    and "wf_zset (wsQueue (rSt w') e)" and "(DrawQueueScore lot q s, k) \<in> set (wsQueue (rSt w') e)"
    and "0 \<le> rNow w" and "rNow w < s" and "svc_PeekQueue e n w = (w', Inr ids)"
  shows "k \<notin> set ids"
proof
  assume "k \<in> set ids"
  then obtain sc where sc: "(sc, k) \<in> set (wsQueue (rSt w') e)"
      "sc < float64 (unix (rNow w) * score_unit)"
    using Peek_below assms(9) by blast
  have "unix (rNow w) < unix s"
    using assms(2,8) by (metis unix_def second_pos div_mult_mod_eq linorder_not_less
        mult_right_mono less_imp_le pos_mod_sign add_increasing2 order_trans)
  then have due: "unix (rNow w) * score_unit \<le> (unix s - 1) * score_unit"
    by (intro mult_right_mono) (simp_all add: score_unit_def)
  have "float64 (unix (rNow w) * score_unit) = unix (rNow w) * score_unit"
    using assms(1,7) \<open>unix (rNow w) < unix s\<close>
    by (intro float64_seconds) (simp add: sale_era_def unix_def pos_imp_zdiv_nonneg_iff)
  with sc(2) due have "sc < (unix s - 1) * score_unit" by linarith
  moreover have "sc = DrawQueueScore lot q s"
    using line.one_score [OF assms(5) sc(1) assms(6)] .
  ultimately show False using draw_band(1) [OF assms(1,4,3)] by simp
qed

definition wr_presale :: room where
  "wr_presale = wr_room0\<lparr>rNow := 2000000000 * second - 5, rSt := wr_store0\<lparr>wsQueue := (\<lambda>_.
     zadd (DrawQueueScore 5 (1999999000 * second) (2000000000 * second)) ''p'' [])\<rparr>\<rparr>"

lemma closed_until_open_witness:
  "\<exists>ids. svc_PeekQueue ''e'' 10 wr_presale = (wr_presale, Inr ids) \<and> ''p'' \<notin> set ids"
proof -
  obtain ids where peek: "svc_PeekQueue ''e'' 10 wr_presale = (wr_presale, Inr ids)"
    by (simp add: svc_PeekQueue_def repo_GetQueueMembers_def rcall_calm wr_presale_def)
  have "''p'' \<notin> set ids"
    by (rule closed_until_open [OF _ _ _ _ _ _ _ _ peek, of "2000000000 * second" 5 "1999999000 * second"])
      (simp_all add: wr_presale_def sale_era_def is_lot_def score_unit_def unix_def second_def zadd_def
        wf_zset_def zrem_def)
  with peek show ?thesis by blast
qed

section \<open>Joining\<close>

lemma zrank_insort:
  assumes "wf_zset z" and "m \<notin> members z"
  shows "zrank m (insort (sc, m) z) = Some (int (length (filter (\<lambda>p. p < (sc, m)) z)))"
  using assms
proof (induction z)
  case Nil
  then show ?case by simp
next
  case (Cons p z)
  have z: "wf_zset z" "m \<notin> members z" "snd p \<noteq> m" using Cons.prems by (auto simp: wf_zset_def)
  show ?case
  proof (cases "(sc, m) \<le> p")
    case True
    have "\<not> q < (sc, m)" if "q \<in> set (p # z)" for q
      using Cons.prems(1) True that by (auto simp: wf_zset_def not_less)
    then have "filter (\<lambda>p. p < (sc, m)) (p # z) = []" by (simp add: filter_empty_conv)
    with True z show ?thesis by simp
  next
    case False
    with Cons.IH [OF z(1,2)] z(3) show ?thesis by (simp add: not_le)
  qed
qed

text \<open>The entries of a line that stand before a score and a member.\<close>

definition ahead :: "int \<times> string \<Rightarrow> zset \<Rightarrow> zset" where
  "ahead p z = filter (\<lambda>q. q < p) (zrem [snd p] z)"

lemma rankOf_zadd:
  assumes "wf_zset z" shows "rankOf m (zadd sc m z) = int (length (ahead (sc, m) z)) + 1"
proof -
  have "zrank m (zadd sc m z) = Some (int (length (ahead (sc, m) z)))"
    unfolding zadd_def ahead_def using assms by (simp add: zrank_insort)
  then show ?thesis by (simp add: rankOf_def)
qed

definition joined :: "string \<Rightarrow> int \<Rightarrow> join_input \<Rightarrow> time \<Rightarrow> time \<Rightarrow> session" where
  "joined k lot inp now start =
     \<lparr>ssID = k, ssUserID = jiUserID inp, ssEventID = jiEventID inp, ssPosition = 0,
      ssQueuedAt = now, ssStatus = SessionStatusQueued, ssAdmittedAt = None, ssCompletedAt = None,
      ssExpiresAt = now + 2 * hour, ssCheckoutToken = [], ssCheckoutExpiresAt = None,
      ssTokenInvalidated = False, ssTokenInvalidatedAt = None, ssTokenInvalidationReason = [],
      ssConnectionID = [], ssUserAgent = jiUserAgent inp, ssIPAddress = jiIPAddress inp,
      ssLastHeartbeatAt = now, ssAttemptCount = 1, ssQueueScore = DrawQueueScore lot now start,
      ssCreatedAt = now, ssUpdatedAt = now\<rparr>"

lemma calm_eventGate:
  "rEnv w = [] \<Longrightarrow> eventGate_Get x e w = (w1, v) \<Longrightarrow> rSt w1 = rSt w \<and> rNow w1 = rNow w \<and> rEnv w1 = []"
  by (auto simp: eventGate_Get_def eventGate_fetch_def callEvent_def andThen_def settle_def rcall_calm
      eventGate_store_def split: option.splits prod.splits sum.splits if_splits)

lemma calm_askStock:
  "rEnv w = [] \<Longrightarrow> askStock x e w = (w1, v) \<Longrightarrow> rSt w1 = rSt w \<and> rNow w1 = rNow w \<and> rEnv w1 = []"
  by (auto simp: askStock_def stockGate_Stock_def stockGate_fetch_def rcall_calm stockGate_store_def
      split: option.splits prod.splits sum.splits if_splits)

text \<open>
  C38. A join, when nothing fails: a buyer the gates let through gets a session of two hours
  under a fresh id, one entry in the event's line at the score drawn for it, and the event is
  active; the answer's position counts the entries ahead of the buyer, and its length
  the whole line. No other session and no other line changes.
\<close>

theorem join_exact:
  assumes "rEnv w = []" and "eventGate_Get x (jiEventID inp) w = (w1, Inr info)"
    and "eiAllowWaitRoom info" and "askStock x (jiEventID inp) w1 = (w2, Inr st)"
    and "stDoor st \<noteq> DoorSoldOut" and "wf_zset (wsQueue (rSt w) (jiEventID inp))"
  shows "\<exists>w'. let ss = joined k lot inp (rNow w) (eiSaleStartAt info);
       q = wsQueue (rSt w) (jiEventID inp)
     in wr_JoinQueue x k lot inp w =
          (w', Inr \<lparr>joSessionID = k, joPosition = int (length (ahead (GetQueueScore ss, k) q)) + 1,
             joQueueLength = zcard (zadd (GetQueueScore ss) k q), joQueuedAt = rNow w,
             joExpiresAt = rNow w + 2 * hour\<rparr>) \<and>
        wsSessions (rSt w') = (wsSessions (rSt w))(k := Some (ss, rNow w + sessionTTL)) \<and>
        wsQueue (rSt w') = (wsQueue (rSt w))(jiEventID inp := zadd (GetQueueScore ss) k q) \<and>
        set (wsActive (rSt w')) = insert (jiEventID inp) (set (wsActive (rSt w)))"
proof -
  have w2: "rSt w2 = rSt w" "rNow w2 = rNow w" "rEnv w2 = []"
    using calm_eventGate [OF assms(1,2)] calm_askStock [OF _ assms(4)] by simp_all
  let ?ss = "joined k lot inp (rNow w) (eiSaleStartAt info)"
  have create: "svc_CreateSession k lot (jiUserID inp) (jiEventID inp) (jiUserAgent inp) (jiIPAddress inp)
      (eiSaleStartAt info) w2 = (w2\<lparr>rSt := setUserIndex (userEventKey (jiUserID inp) (jiEventID inp)) k
        sessionTTL (rNow w) (setSession k ?ss sessionTTL (rNow w) (rSt w))\<rparr>, Inr ?ss)"
    by (simp add: svc_CreateSession_def repo_Create_def Let_def andThen_def rcall_calm w2 joined_def)
  show ?thesis
    using assms(2-5) create
    by (simp add: wr_JoinQueue_def andThen_def settle_def svc_EnqueueSession_def repo_AddToQueue_def
        repo_GetQueuePosition_def repo_AddActiveEvent_def prod_PublishQueueJoined_def
        svc_GetQueueInfo_def repo_GetQueueLength_def repo_GetProcessingCount_def
        rcall_calm w2 setUserIndex_def setSession_def Let_def rankOf_zadd assms(6)
        joined_def reapSlots_def split_beta addActive_def insert_absorb)
qed

definition wr_join :: join_input where
  "wr_join = \<lparr>jiUserID = ''u9'', jiEventID = ''e'', jiUserAgent = [], jiIPAddress = []\<rparr>"

lemma wr_join_event [simp]: "jiEventID wr_join = ''e''"
  by (simp add: wr_join_def)

lemma join_exact_witness:
  "\<exists>w' out. wr_JoinQueue wr_ext0 ''s9'' 7 wr_join wr_room0 = (w', Inr out) \<and> joPosition out = 3"
proof -
  let ?info = "\<lparr>eiAllowWaitRoom = True, eiSaleStartAt = zero_time\<rparr>"
  let ?w1 = "eventGate_store ''e'' (Inr ?info) (100 * second + xEventTTL wr_ext0) wr_room0"
  let ?st = "stock_of \<lparr>esTotal = 10, esSold = 2, esAvailable = 5\<rparr>"
  have gate: "eventGate_Get wr_ext0 (jiEventID wr_join) wr_room0 = (?w1, Inr ?info)"
    by (simp add: eventGate_Get_def eventGate_lookup_def eventGate_fetch_def callEvent_def settle_def
        andThen_def rcall_read_calm wr_ext0_def wr_join_def isEventVerdict_def)
  have ask: "askStock wr_ext0 (jiEventID wr_join) ?w1 =
      (stockGate_store ''e'' ?st (100 * second + xStockTTL wr_ext0) ?w1, Inr ?st)"
    by (simp add: askStock_def stockGate_Stock_def stockGate_lookup_def stockGate_fetch_def rcall_read_calm
        eventGate_store_def wr_join_def rpc_GetEventStock_def validate_id_def GetEventStock_def
        wr_db_def demo_defs)
  have wf: "wf_zset (wsQueue (rSt wr_room0) (jiEventID wr_join))"
    by (simp add: wr_join_def wr_store0_def wf_zset_def score_unit_def)
  have score: "GetQueueScore (joined ''s9'' 7 wr_join (100 * second) zero_time) = 100 * score_unit"
  proof -
    have u: "unix (100 * second) = 100" by (simp add: unix_def second_def)
    have "score_unit \<noteq> 0" by (simp add: score_unit_def)
    then show ?thesis
      using float64_seconds [of 100] by (simp add: GetQueueScore_def joined_def DrawQueueScore_def u)
  qed
  have ahead: "ahead (100 * score_unit, ''s9'') (wsQueue wr_store0 ''e'') =
      [(40 * score_unit, ''s1''), (50 * score_unit, ''s2'')]"
    by (simp add: ahead_def zrem_def wr_store0_def score_unit_def)
  from join_exact [OF _ gate _ ask _ wf, of "''s9''" 7] show ?thesis
    by (auto simp: score ahead stock_of_def doorFor_def Let_def)
qed

end
