(* ===== verification/Waitroom_Tick.thy ===== *)
theory Waitroom_Tick
  imports Waitroom_Rely
begin

text \<open>
  What a tick does to an observation. The locale \<open>admitting\<close> is the interface between the
  admission of a batch and a client that watches the store: which commands an admission may
  run, on which sessions and slots, and that a slot's key is never given less than an hour
  beyond the batch's start. An admission of a session in \<open>KS \<inter> K\<close> then is an observation,
  retries and lost calls included, and so is what the two other doors do to their lines.
\<close>

definition own_ids :: "wr_store \<Rightarrow> bool" where
  "own_ids s \<longleftrightarrow> (\<forall>k ss t. wsSessions s k = Some (ss, t) \<longrightarrow> ssID ss = k)"

lemma Get_own:
  assumes "repo_Get k w = (w', Inr ss)" and "own_ids (rSt w')"
  shows "ssID ss = k"
  using assms(1) unfolding repo_Get_def
  by (cases rule: rcall_cases)
    (use assms(2) in \<open>auto simp: own_ids_def liveKey_def split: option.splits prod.splits if_splits\<close>)

lemma GetSession_Inr: "svc_GetSession k w = (w', Inr ss) \<longleftrightarrow> repo_Get k w = (w', Inr ss)"
  by (auto simp: svc_GetSession_def notFoundIfNil_def settle_def split: prod.splits sum.splits)

lemma admitAll_room:
  "fst (admitAll x deadline eID (k # ks) w) =
     fst (admitAll x deadline eID ks (fst (admitUserToCheckout x deadline eID k w)))"
  by (auto split: prod.split sum.split)

lemma closeLoop_room:
  "fst (closeLoop (k # ks) w) = fst (closeLoop ks (fst (settle (svc_GetSession k) (\<lambda>r. case r of
     Inl e \<Rightarrow> ret ()
   | Inr ss \<Rightarrow> if ssStatus ss = SessionStatusQueued
       then svc_UpdateSessionStatus k SessionStatusSoldOut else ret ()) w)))"
  by (auto simp: settle_def split: prod.split sum.split)

locale admitting = observation +
  fixes eID :: string and s0 :: time and KS K :: "string set"
  assumes keeps_own: "P (t, s) (t', s') \<Longrightarrow> own_ids s \<Longrightarrow> own_ids s'"
    and a_session: "k \<in> KS \<Longrightarrow> ssID ss = k \<Longrightarrow> obeys P t (setSession k ss ttl)"
    and a_claim: "k \<in> K \<Longrightarrow> obeys P t (claimSlotAt eID k T)"
    and a_expire: "s0 \<le> t \<Longrightarrow> s0 \<le> T \<Longrightarrow> obeys P t (expireSlots eID (T - t + processingKeyGrace))"
    and a_log: "P (t, s) (t, s\<lparr>wsKafka := l\<rparr>)"
    and a_buffer: "P (t, s) (t, s\<lparr>wsBuffer := b\<rparr>)"
begin

definition ready :: "room \<Rightarrow> bool" where
  "ready w \<longleftrightarrow> own_ids (rSt w) \<and> s0 \<le> rNow w"

lemma reached_ready: "reached w w' \<Longrightarrow> ready w \<Longrightarrow> ready w'"
  unfolding reached_def ready_def now_at_def onward_def using keeps_own by force

lemma log_obeys: "obeys P t (\<lambda>_ s. s\<lparr>wsKafka := f s\<rparr>)"
  by (simp add: obeys_def a_log)

lemma buffer_obeys: "obeys P t (\<lambda>_ s. s\<lparr>wsBuffer := f s\<rparr>)"
  by (simp add: obeys_def a_buffer)

lemma keeps_Get: "keeps_run P (repo_Get k) w"
  unfolding repo_Get_def by (rule keeps_read)

lemma keeps_GetSession: "keeps_run P (svc_GetSession k) w"
  unfolding svc_GetSession_def notFoundIfNil_def
  by (rule keeps_settle [OF keeps_Get]) (simp add: keeps_id split: sum.split)

lemma keeps_Update: "k \<in> KS \<Longrightarrow> ssID ss = k \<Longrightarrow> keeps_run P (repo_Update k ss) w"
  unfolding repo_Update_def Let_def getTTL_def
  by (intro keeps_withNow keeps_andThen keeps_read keeps_rcall) (auto intro: a_session)

lemma keeps_Get_Update:
  assumes "k \<in> KS" and "ready w" and "\<And>t ss. ssID (f t ss) = ssID ss"
  shows "keeps_run P (andThen (repo_Get k) (\<lambda>ss. withNow (\<lambda>now. repo_Update k (f now ss)))) w"
proof (rule keeps_andThen [OF keeps_Get], rule keeps_withNow, rule keeps_Update [OF assms(1)])
  fix ss w' assume "repo_Get k w = (w', Inr ss)" and "reached w w'"
  then have "ssID ss = k" using reached_ready assms(2) Get_own by (simp add: ready_def)
  then show "ssID (f (rNow w') ss) = k" by (simp add: assms(3))
qed

lemma keeps_UpdateStatus: "k \<in> KS \<Longrightarrow> ready w \<Longrightarrow> keeps_run P (repo_UpdateStatus k st) w"
  unfolding repo_UpdateStatus_def by (rule keeps_Get_Update) simp_all

lemma keeps_UpdateCheckoutToken:
  "k \<in> KS \<Longrightarrow> ready w \<Longrightarrow> keeps_run P (svc_UpdateCheckoutToken k token expAt) w"
  unfolding svc_UpdateCheckoutToken_def repo_UpdateCheckoutToken_def by (rule keeps_Get_Update) simp_all

lemma keeps_UpdateSessionStatus:
  "k \<in> KS \<Longrightarrow> ready w \<Longrightarrow> keeps_run P (svc_UpdateSessionStatus k st) w"
  unfolding svc_UpdateSessionStatus_def notFoundIfNil_def
  by (rule keeps_settle [OF keeps_UpdateStatus]) (simp_all add: keeps_id split: sum.split)

lemma keeps_publish: "keeps_run P (prod_PublishQueueReady e) w"
  unfolding prod_PublishQueueReady_def by (intro keeps_withNow keeps_rcall) (auto intro: log_obeys)

lemma keeps_buffer: "keeps_run P (bufferQueueReady e) w"
proof -
  have "keeps_run P (repo_BufferQueueReady (Some e)) w"
    unfolding repo_BufferQueueReady_def
    by (rule keeps_andThen, rule keeps_rcall)
      (auto intro!: buffer_obeys keeps_settle keeps_rcall simp: keeps_id split: if_splits)
  moreover have "set_local countError" by (simp add: set_local_def countError_def)
  ultimately show ?thesis
    by (cases "repo_BufferQueueReady (Some e) w")
      (rule keeps_via [OF _ keeps_local [of "if (case repo_BufferQueueReady (Some e) w of (w', Inl _) \<Rightarrow> True | _ \<Rightarrow> False)
          then countError else (\<lambda>w. w)"]],
       auto simp: bufferQueueReady_def set_local_def split: sum.splits)
qed

lemma keeps_claimSlot:
  assumes "ssID ss \<in> K" and "ready w" and "s0 \<le> expAt"
  shows "keeps_run P (claimSlot eID ss token expAt) w"
proof -
  have claim: "keeps_run P (repo_AddToProcessing eID (ssID ss) (expAt - rNow w)) w"
    unfolding repo_AddToProcessing_def using assms
    by (intro keeps_withNow keeps_rcall) (auto intro: a_claim a_expire simp: ready_def)
  show ?thesis
    unfolding claimSlot_def Let_def
    by (intro keeps_withNow keeps_andThen [OF claim] keeps_settle keeps_publish)
      (simp add: keeps_id keeps_buffer split: sum.split)
qed

lemma keeps_resume:
  assumes "ssID ss \<in> K" and "ready w"
  shows "keeps_run P (resumeOrReject eID ss) w"
proof -
  have "keeps_run P (repo_IsProcessing eID (ssID ss)) w"
    unfolding repo_IsProcessing_def
    by (intro keeps_andThen keeps_read keeps_withNow) (simp add: keeps_id)
  then have "keeps_run P (andThen (repo_IsProcessing eID (ssID ss)) (\<lambda>holding.
        if holding then fail ErrSessionNotAdmittable
        else claimSlot eID ss (ssCheckoutToken ss) expAt)) w" if "s0 \<le> expAt" for expAt
    by (rule keeps_andThen) (use assms that in \<open>auto simp: keeps_id intro: keeps_claimSlot reached_ready\<close>)
  then show ?thesis
    unfolding resumeOrReject_def using assms(2)
    by (intro keeps_withNow) (auto simp: keeps_id HasCheckoutExpired_def ready_def split: option.split)
qed

lemma keeps_doAdmit:
  assumes "k \<in> KS" and "k \<in> K" and "ready w" and "0 \<le> xExpiry x"
  shows "keeps_run P (doAdmitUserToCheckout x eID k) w"
  unfolding doAdmitUserToCheckout_def
proof (rule keeps_settle [OF keeps_GetSession])
  fix r w' assume got: "svc_GetSession k w = (w', r)" and to: "reached w w'"
  have rd: "ready w'" using to assms(3) by (rule reached_ready)
  show "keeps_run P (case r of Inl e \<Rightarrow> fail (if e = ErrSessionNotFound then ErrSessionNotAdmittable else e)
     | Inr ss \<Rightarrow> withNow (\<lambda>now. if \<not> CanAdmit now ss then resumeOrReject eID ss
         else andThen (svc_GenerateCheckoutToken x ss) (\<lambda>token. withNow (\<lambda>now2.
           let expAt = now2 + xExpiry x
           in andThen (svc_UpdateCheckoutToken k token expAt) (\<lambda>_. claimSlot eID ss token expAt))))) w'"
  proof (cases r)
    case (Inl e)
    then show ?thesis by (simp add: keeps_id)
  next
    case (Inr ss)
    have id: "ssID ss = k" using got rd by (auto simp: Inr GetSession_Inr ready_def intro: Get_own)
    have "keeps_run P (svc_GenerateCheckoutToken x ss) w'"
      unfolding svc_GenerateCheckoutToken_def
      by (rule keeps_withNow) (simp add: keeps_id split: option.split)
    then have "keeps_run P (andThen (svc_GenerateCheckoutToken x ss) (\<lambda>token. withNow (\<lambda>now2.
        andThen (svc_UpdateCheckoutToken k token (now2 + xExpiry x)) (\<lambda>_.
          claimSlot eID ss token (now2 + xExpiry x))))) w'"
    proof (rule keeps_andThen, intro keeps_withNow keeps_andThen)
      fix token w2 assume to2: "reached w' w2"
      have rd2: "ready w2" using to2 rd by (rule reached_ready)
      show "keeps_run P (svc_UpdateCheckoutToken k token (rNow w2 + xExpiry x)) w2"
        using assms(1) rd2 by (rule keeps_UpdateCheckoutToken)
      fix u w3 assume to3: "reached w2 w3"
      show "keeps_run P (claimSlot eID ss token (rNow w2 + xExpiry x)) w3"
        using assms(2,4) rd2 reached_ready [OF to3 rd2]
        by (intro keeps_claimSlot) (simp_all add: id ready_def)
    qed
    then show ?thesis
      using keeps_resume [of ss w'] assms(2) rd
      by (simp add: Inr id Let_def keeps_def)
  qed
qed

lemma keeps_retry:
  assumes "\<And>v. ready v \<Longrightarrow> keeps_run P op v" and "ready w"
  shows "keeps_run P (retryLoop op deadline n a e) w"
  using assms(2)
proof (induction n arbitrary: a e w)
  case 0
  then show ?case by (simp add: keeps_id)
next
  case (Suc n)
  let ?wait = "if a = 0 then ret () else waitUntil deadline (retryDelay * int a)"
  have wait: "keeps_run P ?wait w"
    using keeps_wait [of "retryDelay * int a" deadline w] by (simp add: keeps_id retryDelay_def second_def)
  have "keeps_run P (andThen ?wait (\<lambda>_. settle op (\<lambda>r. case r of
      Inr _ \<Rightarrow> ret () | Inl e2 \<Rightarrow> if e2 = ErrSessionNotAdmittable then fail e2
        else retryLoop op deadline n (Suc a) e2))) w"
  proof (rule keeps_andThen [OF wait], rule keeps_settle)
    fix u w' assume to: "reached w w'"
    have rd: "ready w'" using to Suc.prems by (rule reached_ready)
    then show "keeps_run P op w'" by (rule assms(1))
    fix r w2 assume to2: "reached w' w2"
    show "keeps_run P (case r of Inr _ \<Rightarrow> ret () | Inl e2 \<Rightarrow> if e2 = ErrSessionNotAdmittable then fail e2
        else retryLoop op deadline n (Suc a) e2) w2"
      using Suc.IH [OF reached_ready [OF to2 rd]] by (simp add: keeps_id split: sum.split)
  qed
  moreover have "andThen ?wait (\<lambda>_. settle op (\<lambda>r. case r of
      Inr _ \<Rightarrow> ret () | Inl e2 \<Rightarrow> if e2 = ErrSessionNotAdmittable then fail e2
        else retryLoop op deadline n (Suc a) e2)) = retryLoop op deadline (Suc n) a e"
    by (rule ext) (auto simp: andThen_def settle_def split: prod.splits sum.splits)
  ultimately show ?case by simp
qed

lemma keeps_admitUser:
  assumes "k \<in> KS" and "k \<in> K" and "ready w" and "0 \<le> xExpiry x"
  shows "keeps_run P (admitUserToCheckout x deadline eID k) w"
  unfolding admitUserToCheckout_def withRetry_def
  using keeps_doAdmit [OF assms(1,2) _ assms(4)] assms(3) by (rule keeps_retry)

lemma keeps_admitAll:
  assumes "set ks \<subseteq> KS \<inter> K" and "ready w" and "0 \<le> xExpiry x"
  shows "keeps P (\<lambda>w. fst (admitAll x deadline eID ks w)) w"
  using assms(1,2)
proof (induction ks arbitrary: w)
  case Nil
  then show ?case by (simp add: keeps_id)
next
  case (Cons k ks)
  let ?one = "\<lambda>w. fst (admitUserToCheckout x deadline eID k w)"
  show ?case
  proof (rule keeps_step [of ?one _ _ "\<lambda>w. fst (admitAll x deadline eID ks w)"])
    show "keeps P ?one w" using Cons.prems assms(3) by (intro keeps_admitUser) auto
    show "fst (admitAll x deadline eID (k # ks) w) = fst (admitAll x deadline eID ks (?one w))"
      by (rule admitAll_room)
    assume "env_in P w" "P (now_at w) (now_at (?one w))" "env_in P (?one w)" "onward w (?one w)"
    then have "reached w (?one w)" by (simp only: reached_def)
    then have "ready (?one w)" using Cons.prems(2) by (rule reached_ready)
    then show "keeps P (\<lambda>w. fst (admitAll x deadline eID ks w)) (?one w)"
      using Cons.prems(1) by (intro Cons.IH) simp_all
  qed
qed

lemma keeps_Peek: "keeps_run P (svc_PeekQueue e' n) w"
  unfolding svc_PeekQueue_def repo_GetQueueMembers_def
  by (cases "n \<le> 0")
    (simp_all only: if_True if_False, rule keeps_ret,
     rule keeps_withNow, rule keeps_read)

lemma keeps_askStock: "keeps_run P (askStock x e') w"
proof (cases "stockGate_lookup e' w")
  case (Some st)
  then show ?thesis
    by (intro keeps_via [OF keeps_id keeps_id])
      (simp add: askStock_def stockGate_Stock_def)
next
  case None
  let ?ask = "rcall [] (\<lambda>now s. Inr (rpc_GetEventStock now e' (wsInv s)))"
  obtain v st where f: "stockGate_fetch e' w = (v, st)" by (cases "stockGate_fetch e' w")
  then have "v = fst (?ask w)" by (auto simp: stockGate_fetch_def split: prod.splits sum.splits)
  then have "fst (askStock x e' w) = stockGate_store e' st (rNow v + xStockTTL x) (fst (?ask w))"
    using None f by (simp add: askStock_def stockGate_Stock_def)
  moreover have "set_local (stockGate_store e' st (rNow v + xStockTTL x))"
    by (simp add: set_local_def stockGate_store_def)
  ultimately show ?thesis
    by (intro keeps_via [where f = "\<lambda>w. fst (?ask w)", OF keeps_read keeps_local])
qed

lemma keeps_closeLoop:
  assumes "ready w" and "set ks \<subseteq> KS"
  shows "keeps P (\<lambda>w. fst (closeLoop ks w)) w"
  using assms
proof (induction ks arbitrary: w)
  case Nil
  then show ?case by (simp add: keeps_id)
next
  case (Cons k ks)
  let ?one = "settle (svc_GetSession k) (\<lambda>r. case r of
     Inl e \<Rightarrow> ret ()
   | Inr ss \<Rightarrow> if ssStatus ss = SessionStatusQueued
       then svc_UpdateSessionStatus k SessionStatusSoldOut else ret ())"
  have one: "keeps_run P ?one w"
  proof (rule keeps_settle [OF keeps_GetSession])
    fix r w' assume "reached w w'"
    then have "ready w'" using Cons.prems(1) by (rule reached_ready)
    then show "keeps_run P (case r of Inl e \<Rightarrow> ret () | Inr ss \<Rightarrow>
        if ssStatus ss = SessionStatusQueued then svc_UpdateSessionStatus k SessionStatusSoldOut else ret ()) w'"
      using Cons.prems(2) by (auto simp: keeps_id keeps_UpdateSessionStatus split: sum.split)
  qed
  show ?case
  proof (rule keeps_step [OF one, where g = "\<lambda>w. fst (closeLoop ks w)"], rule closeLoop_room)
    assume "env_in P w" "P (now_at w) (now_at (fst (?one w)))"
      "env_in P (fst (?one w))" "onward w (fst (?one w))"
    then have "reached w (fst (?one w))" by (simp only: reached_def)
    then have "ready (fst (?one w))" using Cons.prems(1) by (rule reached_ready)
    then show "keeps P (\<lambda>w. fst (closeLoop ks w)) (fst (?one w))"
      using Cons.prems(2) by (intro Cons.IH) simp_all
  qed
qed

lemma keeps_deadLoop: "keeps P (\<lambda>w. fst (deadLoop ks w)) w"
proof (induction ks arbitrary: w)
  case Nil
  then show ?case by (simp add: keeps_id)
next
  case (Cons k ks)
  obtain w' r where got: "svc_GetSession k w = (w', r)" by (cases "svc_GetSession k w")
  have get: "keeps_run P (svc_GetSession k) w" by (rule keeps_GetSession)
  have "fst (deadLoop (k # ks) w) = fst (deadLoop ks w') \<or> fst (deadLoop (k # ks) w) = w'"
    by (auto simp: got split: sum.split prod.split)
  then show ?case
  proof
    assume "fst (deadLoop (k # ks) w) = fst (deadLoop ks w')"
    then show ?thesis by (intro keeps_via [OF get Cons.IH]) (simp add: got)
  next
    assume "fst (deadLoop (k # ks) w) = w'"
    then show ?thesis by (intro keeps_via [OF get keeps_id]) (simp add: got)
  qed
qed

end

text \<open>A client that also watches the two other doors and the count of the slots.\<close>

locale ticking = admitting +
  assumes a_leave: "obeys P t (leaveQueue e ids)"
    and a_reap: "obeys P t (reapSlots eID b)"
begin

lemma keeps_letGo: "keeps_run P (letGo e' ids) w"
  unfolding letGo_def repo_RemoveFromQueue_def
  by (auto simp: keeps_id a_leave intro!: keeps_settle keeps_rcall)

lemma keeps_count: "keeps_run P (repo_GetProcessingCount eID) w"
  unfolding repo_GetProcessingCount_def
  by (rule keeps_withNow, rule keeps_rcall) (simp add: a_reap)

lemma keeps_closeLine:
  assumes "ready w" and "KS = UNIV" shows "keeps_run P (closeLine e') w"
  unfolding closeLine_def
proof (rule keeps_andThen [OF keeps_Peek])
  fix ids w' assume "reached w w'"
  then have "ready w'" using assms(1) by (rule reached_ready)
  then show "keeps_run P (\<lambda>w. case closeLoop ids w of (w', leaving) \<Rightarrow> letGo e' leaving w') w'"
    using assms(2)
    by (cases "closeLoop ids w'") (rule keeps_after [OF _ keeps_closeLoop keeps_letGo], simp_all)
qed

lemma keeps_dropDeadHead: "keeps_run P (dropDeadHead e') w"
  unfolding dropDeadHead_def
proof (rule keeps_andThen [OF keeps_Peek])
  show "keeps_run P (\<lambda>w. case deadLoop ids w of (w', dead) \<Rightarrow> letGo e' dead w') w'" for ids w'
    by (cases "deadLoop ids w'") (rule keeps_after [OF _ keeps_deadLoop keeps_letGo], simp_all)
qed

lemma keeps_admitBatch:
  assumes "ready w" and "set ids \<subseteq> KS \<inter> K" and "0 \<le> xExpiry x"
  shows "keeps_run P (admitBatch x deadline eID ids) w"
proof -
  obtain w' ad st where run: "admitAll x deadline eID ids w = (w', ad, st)"
    by (cases "admitAll x deadline eID ids w")
  have local: "set_local (\<lambda>w. w\<lparr>rTotalAdmitted := rTotalAdmitted w + int (length ad)\<rparr>)"
    by (simp add: set_local_def)
  have all: "keeps P (\<lambda>w. fst (admitAll x deadline eID ids w)) w"
    using assms by (intro keeps_admitAll) simp_all
  have rest: "keeps P (\<lambda>w. (fst (letGo eID (ad @ st) w))
      \<lparr>rTotalAdmitted := rTotalAdmitted (fst (letGo eID (ad @ st) w)) + int (length ad)\<rparr>) w'"
    by (rule keeps_via [OF keeps_letGo keeps_local [OF local]]) (rule refl)
  show ?thesis
    by (rule keeps_after [OF run all rest]) (simp add: run admitBatch_def split: prod.split)
qed

lemma keeps_ProcessEventQueue:
  assumes "ready w" and "KS = UNIV" and "K = UNIV" and "0 \<le> xExpiry x"
  shows "keeps_run P (ProcessEventQueue x eID) w"
  unfolding ProcessEventQueue_def Let_def
proof (rule keeps_withNow, rule keeps_andThen [OF keeps_Peek])
  fix ids u assume "reached w u"
  then have u: "ready u" using assms(1) by (rule reached_ready)
  show "keeps_run P (if ids = [] then ret ()
      else andThen (askStock x eID) (\<lambda>st. case stDoor st of
          DoorOpen \<Rightarrow> andThen (repo_GetProcessingCount eID) (\<lambda>inside.
            if admitCount (length ids) st inside = 0 then ret ()
            else admitBatch x (rNow w + 10 * second) eID (take (admitCount (length ids) st inside) ids))
        | DoorPaused \<Rightarrow> dropDeadHead eID | DoorSoldOut \<Rightarrow> closeLine eID)) u"
  proof (cases "ids = []")
    case True
    then show ?thesis by (simp add: keeps_id)
  next
    case False
    have "keeps_run P (andThen (askStock x eID) (\<lambda>st. case stDoor st of
          DoorOpen \<Rightarrow> andThen (repo_GetProcessingCount eID) (\<lambda>inside.
            if admitCount (length ids) st inside = 0 then ret ()
            else admitBatch x (rNow w + 10 * second) eID (take (admitCount (length ids) st inside) ids))
        | DoorPaused \<Rightarrow> dropDeadHead eID | DoorSoldOut \<Rightarrow> closeLine eID)) u"
    proof (rule keeps_andThen [OF keeps_askStock])
      fix st v assume "reached u v"
      then have v: "ready v" using u by (rule reached_ready)
      have "keeps_run P (andThen (repo_GetProcessingCount eID) (\<lambda>inside.
            if admitCount (length ids) st inside = 0 then ret ()
            else admitBatch x (rNow w + 10 * second) eID (take (admitCount (length ids) st inside) ids))) v"
      proof (rule keeps_andThen [OF keeps_count])
        fix inside c assume "reached v c"
        then have "ready c" using v by (rule reached_ready)
        then show "keeps_run P (if admitCount (length ids) st inside = 0 then ret ()
            else admitBatch x (rNow w + 10 * second) eID (take (admitCount (length ids) st inside) ids)) c"
          using keeps_admitBatch assms(2-4) by (simp add: keeps_id)
      qed
      then show "keeps_run P (case stDoor st of
          DoorOpen \<Rightarrow> andThen (repo_GetProcessingCount eID) (\<lambda>inside.
            if admitCount (length ids) st inside = 0 then ret ()
            else admitBatch x (rNow w + 10 * second) eID (take (admitCount (length ids) st inside) ids))
        | DoorPaused \<Rightarrow> dropDeadHead eID | DoorSoldOut \<Rightarrow> closeLine eID) v"
        using keeps_closeLine [OF v assms(2)] keeps_dropDeadHead by (cases "stDoor st") simp_all
    qed
    then show ?thesis using False by simp
  qed
qed

end

end
