(* ===== verification/Waitroom_Admission.thy ===== *)
theory Waitroom_Admission
  imports Waitroom_Tick Waitroom_Demo
begin

text \<open>
  How many buyers a tick lets in. The holders of an event's checkout slots are the sessions
  whose slot has not expired. While other processes only free slots, a tick's run stays inside
  the observation \<open>slots_within\<close>: holders are added only from the batch.
\<close>

definition holders :: "time \<Rightarrow> wr_store \<Rightarrow> string \<Rightarrow> string set" where
  "holders now s e = {m. \<exists>sc. (sc, m) \<in> set (slots now s e) \<and> unix_milli now < sc}"

definition slots_within :: "string \<Rightarrow> string set \<Rightarrow> moment \<Rightarrow> moment \<Rightarrow> bool" where
  "slots_within e X l m \<longleftrightarrow> (own_ids (snd l) \<longrightarrow> own_ids (snd m)) \<and>
     holders (fst m) (snd m) e \<subseteq> holders (fst l) (snd l) e \<union> X"

section \<open>Commands on slots\<close>

lemma slotKey_later: "0 \<le> d \<Longrightarrow> set (fst (slotKey (t + d) k)) \<subseteq> set (fst (slotKey t k))"
  by (auto simp: slotKey_def split: option.splits)

lemma slotKey_slotKey:
  "fst (slotKey now (putSlots (z, snd (slotKey now k)))) = z"
  "fst (slotKey now (z, snd (slotKey now k))) = z"
  by (auto simp: slotKey_def putSlots_def split: option.splits)

lemma slots_claim [simp]:
  "slots t (claimSlotAt e k T t s) e' = (if e' = e then zadd (unix_milli T) k (slots t s e) else slots t s e')"
  by (auto simp: slots_def claimSlotAt_def slotKey_slotKey Let_def split_beta)

lemma slots_expire [simp]:
  "slots t (expireSlots e ttl t s) e' =
     (if e' = e then if ttl \<le> 0 then [] else slots t s e else slots t s e')"
  by (auto simp: slots_def expireSlots_def slotKey_def putSlots_def Let_def split_beta split: option.splits)

lemma slots_free [simp]:
  "slots t (freeSlot e k t s) e' = (if e' = e then zrem [k] (slots t s e) else slots t s e')"
  by (auto simp: slots_def freeSlot_def slotKey_slotKey Let_def split_beta)

lemma slots_reap [simp]:
  "slots t (reapSlots e b t s) e' = (if e' = e then zremrange_upto b (slots t s e) else slots t s e')"
  by (auto simp: slots_def reapSlots_def slotKey_slotKey Let_def split_beta)

lemma slot_commands_frame [simp]:
  "wsSessions (claimSlotAt e k T t s) = wsSessions s"
  "wsSessions (expireSlots e ttl t s) = wsSessions s"
  "wsSessions (freeSlot e k t s) = wsSessions s"
  "wsSessions (reapSlots e b t s) = wsSessions s"
  "wsQueue (claimSlotAt e k T t s) = wsQueue s"
  "wsQueue (expireSlots e ttl t s) = wsQueue s"
  "wsQueue (freeSlot e k t s) = wsQueue s"
  "wsQueue (reapSlots e b t s) = wsQueue s"
  by (simp_all add: claimSlotAt_def expireSlots_def freeSlot_def reapSlots_def split_beta Let_def)

lemma slots_frame [simp]:
  "slots t (s\<lparr>wsSessions := a\<rparr>) e = slots t s e"
  "slots t (s\<lparr>wsUserIndex := b\<rparr>) e = slots t s e"
  "slots t (s\<lparr>wsBlacklist := c\<rparr>) e = slots t s e"
  "slots t (s\<lparr>wsQueue := d\<rparr>) e = slots t s e"
  "slots t (s\<lparr>wsBuffer := f\<rparr>) e = slots t s e"
  "slots t (s\<lparr>wsActive := g\<rparr>) e = slots t s e"
  "slots t (s\<lparr>wsKafka := h\<rparr>) e = slots t s e"
  "slots t (setSession k ss ttl now s) e = slots t s e"
  "slots t (leaveQueue e' ids now s) e = slots t s e"
  by (simp_all add: slots_def setSession_def leaveQueue_def)

lemma own_ids_setSession: "own_ids s \<Longrightarrow> ssID ss = k \<Longrightarrow> own_ids (setSession k ss ttl now s)"
  by (simp add: own_ids_def setSession_def)

lemma own_ids_cong: "wsSessions s = wsSessions s' \<Longrightarrow> own_ids s = own_ids s'"
  by (simp add: own_ids_def)

lemma own_ids_frame [simp]:
  "own_ids (claimSlotAt e k T t s) = own_ids s"
  "own_ids (expireSlots e ttl t s) = own_ids s"
  "own_ids (reapSlots e b t s) = own_ids s"
  "own_ids (freeSlot e k t s) = own_ids s"
  "own_ids (s\<lparr>wsKafka := l\<rparr>) = own_ids s"
  "own_ids (s\<lparr>wsBuffer := c\<rparr>) = own_ids s"
  "own_ids (leaveQueue e ids now s) = own_ids s"
  by (rule own_ids_cong, simp add: leaveQueue_def)+

lemma unix_milli_mono: "t \<le> t' \<Longrightarrow> unix_milli t \<le> unix_milli t'"
  by (simp add: unix_milli_def zdiv_mono1)

lemma holders_later: "0 \<le> d \<Longrightarrow> holders (t + d) s e \<subseteq> holders t s e"
  using slotKey_later [of d t "wsCheckouts s e"] unix_milli_mono [of t "t + d"]
  by (fastforce simp: holders_def slots_def)

lemma finite_holders [simp]: "finite (holders t s e)"
  by (rule finite_subset [of _ "snd ` set (slots t s e)"]) (force simp: holders_def)+

lemma holders_setSession [simp]: "holders t (setSession k ss ttl now s) e = holders t s e"
  by (simp add: holders_def)

lemma holders_claim: "holders t (claimSlotAt e k T t s) e' \<subseteq> insert k (holders t s e')"
  by (auto simp: holders_def line.entries_add)

interpretation slots_seen: observation "slots_within e X" for e X
proof
  show "slots_within e X (t, s) (t + d, s)" if "0 \<le> d" for d t s
    using holders_later [OF that, of t s e] by (auto simp: slots_within_def)
qed (auto simp: slots_within_def)

interpretation slots_batch: ticking "slots_within e X" e s0 UNIV X for e X s0
proof
  show "obeys (slots_within e X) t (claimSlotAt e k T)" if "k \<in> X" for t k T
    unfolding obeys_def
  proof (intro allI impI)
    fix t' s
    show "slots_within e X (t', s) (t', claimSlotAt e k T t' s)"
      using that holders_claim [of t' e k T s e] by (auto simp: slots_within_def)
  qed
qed (auto simp: slots_within_def obeys_def own_ids_setSession holders_def zremrange_upto_def split: if_splits)

section \<open>A tick\<close>

lemma env_slots_mono: "env_in (slots_within e {}) w \<Longrightarrow> env_in (slots_within e X) w"
  unfolding env_in_def slots_within_def by fastforce

text \<open>The count is of every holder at the moment it is taken, if not of more.\<close>

lemma count_covers:
  assumes "repo_GetProcessingCount e w = (w', Inr inside)"
  shows "int (card (holders (rNow w') (rSt w') e)) \<le> inside"
proof -
  have "inside = zcard (slots (rNow w') (rSt w') e)"
    using assms unfolding repo_GetProcessingCount_def withNow_simp
    by (cases rule: rcall_cases) auto
  moreover have "card (holders (rNow w') (rSt w') e) \<le> card (snd ` set (slots (rNow w') (rSt w') e))"
    by (rule card_mono) (force simp: holders_def)+
  moreover have "\<dots> \<le> length (slots (rNow w') (rSt w') e)"
    by (rule order_trans [OF card_image_le card_length]) simp
  ultimately show ?thesis by (simp add: zcard_def)
qed

lemma batch_capped:
  assumes "repo_GetProcessingCount e v = (c, Inr inside)" and "env_in (slots_within e {}) c"
    and "slots_batch.ready s0 c" and "0 \<le> xExpiry x" and "stCounted st"
    and "admitCount (length ids) st inside \<noteq> 0"
    and "admitBatch x deadline e (take (admitCount (length ids) st inside) ids) c = (w', r)"
  shows "int (card (holders (rNow w') (rSt w') e)) \<le> stAvailable st"
proof -
  let ?n = "admitCount (length ids) st inside"
  let ?X = "set (take ?n ids)"
  have "env_in (slots_within e ?X) c" using assms(2) by (rule env_slots_mono)
  then have "slots_seen.reached e ?X c w'"
    using slots_seen.keeps_reached [OF slots_batch.keeps_admitBatch [of s0 c "take ?n ids" ?X x e]] assms(3,4,7)
    by (metis Int_UNIV_left fst_conv order_refl)
  then have "holders (rNow w') (rSt w') e \<subseteq> holders (rNow c) (rSt c) e \<union> ?X"
    by (simp add: slots_seen.reached_def slots_within_def now_at_def)
  then have "card (holders (rNow w') (rSt w') e) \<le> card (holders (rNow c) (rSt c) e \<union> ?X)"
    by (intro card_mono) simp_all
  also have "\<dots> \<le> card (holders (rNow c) (rSt c) e) + card ?X" by (rule card_Un_le)
  also have "card ?X \<le> ?n" by (rule order_trans [OF card_length]) simp
  finally have "int (card (holders (rNow w') (rSt w') e))
      \<le> int (card (holders (rNow c) (rSt c) e)) + int ?n" by simp
  moreover have "int (card (holders (rNow c) (rSt c) e)) \<le> inside"
    using assms(1) by (rule count_covers)
  moreover have "int ?n \<le> stAvailable st - inside"
    using assms(5,6) by (simp add: admitCount_def split: if_splits)
  ultimately show ?thesis by simp
qed

lemma fewer_holders:
  "slots_seen.reached e {} u u' \<Longrightarrow>
     int (card (holders (rNow u') (rSt u') e)) \<le> int (card (holders (rNow u) (rSt u) e))"
  by (auto simp: slots_seen.reached_def slots_within_def now_at_def intro!: card_mono)

lemma reached_next:
  assumes "slots_seen.reached e X w v" and "keeps (slots_within e X) f v"
  shows "slots_seen.reached e X w (f v)"
proof -
  have "env_in (slots_within e X) v" using assms(1) by (simp add: slots_seen.reached_def)
  from slots_seen.keeps_reached [OF assms(2) this] show ?thesis
    by (rule slots_seen.reached_trans [OF assms(1)])
qed

lemma capped:
  assumes "env_in (slots_within e {}) w" and "own_ids (rSt w)" and "0 \<le> xExpiry x"
    and "stockGate_Stock x e (fst (svc_PeekQueue e (xBatchSize x) w)) = (v, st)" and "stCounted st"
    and "ProcessEventQueue x e w = (w', r)"
  shows "int (card (holders (rNow w') (rSt w') e))
    \<le> max (int (card (holders (rNow w) (rSt w) e))) (stAvailable st)"
proof -
  let ?more = "slots_seen.reached e {}"
  obtain u q where peek: "svc_PeekQueue e (xBatchSize x) w = (u, q)"
    by (cases "svc_PeekQueue e (xBatchSize x) w")
  have ask: "askStock x e u = (v, Inr st)" using assms(4) by (simp add: peek askStock_def)
  have u: "?more w u"
    using slots_seen.keeps_reached [OF slots_batch.keeps_Peek assms(1), of e "xBatchSize x"] by (simp add: peek)
  then have v: "?more w v" using reached_next [OF _ slots_batch.keeps_askStock] by (metis ask fst_conv)
  have ready: "slots_batch.ready (rNow w) w" using assms(2) by (simp add: slots_batch.ready_def)
  obtain c n where count: "repo_GetProcessingCount e v = (c, n)"
    by (cases "repo_GetProcessingCount e v")
  have c: "?more w c" using reached_next [OF v slots_batch.keeps_count] by (simp add: count)
  have "?more w w' \<or> (\<exists>ids inside. n = Inr inside \<and> admitCount (length ids) st inside \<noteq> 0 \<and>
      admitBatch x (rNow w + 10 * second) e (take (admitCount (length ids) st inside) ids) c = (w', r))"
  proof (cases "stDoor st")
    case DoorOpen
    with assms(6) u c show ?thesis
      by (cases q; cases n) (auto simp: ProcessEventQueue_def Let_def andThen_def peek ask count split: if_splits)
  next
    case DoorPaused
    have "?more w (fst (dropDeadHead e v))" by (rule reached_next [OF v slots_batch.keeps_dropDeadHead])
    with assms(6) u DoorPaused show ?thesis
      by (cases q) (auto simp: ProcessEventQueue_def Let_def andThen_def peek ask split: if_splits)
  next
    case DoorSoldOut
    have "slots_batch.ready (rNow w) v" using v ready by (rule slots_batch.reached_ready)
    then have "?more w (fst (closeLine e v))" by (intro reached_next [OF v] slots_batch.keeps_closeLine) simp_all
    with assms(6) u DoorSoldOut show ?thesis
      by (cases q) (auto simp: ProcessEventQueue_def Let_def andThen_def peek ask split: if_splits)
  qed
  then show ?thesis
  proof (elim disjE exE conjE)
    assume "?more w w'"
    then show ?thesis using fewer_holders by force
  next
    fix ids inside
    assume n: "n = Inr inside" "admitCount (length ids) st inside \<noteq> 0"
      and run: "admitBatch x (rNow w + 10 * second) e (take (admitCount (length ids) st inside) ids) c = (w', r)"
    have "env_in (slots_within e {}) c" using c by (simp add: slots_seen.reached_def)
    moreover have "slots_batch.ready (rNow w) c" using c ready by (rule slots_batch.reached_ready)
    ultimately have "int (card (holders (rNow w') (rSt w') e)) \<le> stAvailable st"
      using batch_capped [OF count [unfolded n(1)]] assms(3,5) n(2) run by blast
    then show ?thesis by simp
  qed
qed

text \<open>
  C9. A tick that is given a count of the available tickets lets in no more buyers than there are
  tickets for them. A gate that cannot reach inventory fails open and gives no count; a tick it
  answers with one, whatever other calls are lost and however often they are retried, while other
  processes only free slots, keeps to it: the buyers inside after the tick are no
  more than were inside before it or than the available tickets.
\<close>

theorem admission_capped:
  assumes "env_in (slots_within e {}) w" and "own_ids (rSt w)" and "0 \<le> xExpiry x"
    and "stockGate_Stock x e (fst (svc_PeekQueue e (xBatchSize x) w)) = (v, st)" and "stCounted st"
    and "ProcessEventQueue x e w = (w', r)"
  shows "int (card (holders (rNow w') (rSt w') e))
    \<le> max (int (card (holders (rNow w) (rSt w) e))) (stAvailable st)"
  using assms by (rule capped)

lemma wr_own_ids: "own_ids wr_store0"
  by (auto simp: own_ids_def wr_demo_defs)

lemma wr_peek:
  "svc_PeekQueue ''e'' 10 wr_room0 = (wr_room0, Inr [''s1'', ''s2''])"
  by (simp add: svc_PeekQueue_def repo_GetQueueMembers_def rcall_calm unix_def float64_seconds
      zrange_below_def)
    (simp add: wr_store0_def score_unit_def second_def)

lemma wr_holders: "holders (100 * second) wr_store0 ''e'' = {''s3''}"
  by (auto simp: holders_def slots_def slotKey_def wr_store0_def unix_milli_def second_def hour_def minute_def)

text \<open>A gate with nothing cached asks inventory.\<close>

lemma cold_Stock:
  assumes "rEnv w = []" and "stockGate_lookup e w = None" and "e \<noteq> []"
  shows "stockGate_Stock x e w =
    (stockGate_store e (stock_of (GetEventStock e (rNow w) (wsInv (rSt w)))) (rNow w + xStockTTL x) w,
     stock_of (GetEventStock e (rNow w) (wsInv (rSt w))))"
  using assms
  by (simp add: stockGate_Stock_def stockGate_fetch_def rcall_calm rpc_GetEventStock_def validate_id_def)

lemma calm_Peek: "rEnv w = [] \<Longrightarrow> fst (svc_PeekQueue e n w) = w"
  by (simp add: svc_PeekQueue_def repo_GetQueueMembers_def rcall_calm)

text \<open>
  C25. The waiting room against inventory. A tick that loses no call, has no cached answer and so
  asks inventory, about an event whose classes on sale have a capacity above zero, leaves no more
  buyers inside than were inside before, or than the tickets that a Reserve would still sell at
  that moment, in the classes of the event that are on sale. With no class on sale the count says
  nothing, and the tick admits whoever is due.
\<close>

theorem tick_within_stock:
  assumes "rEnv w = []" and "own_ids (rSt w)" and "0 \<le> xExpiry x"
    and "stockGate_lookup e w = None" and "e \<noteq> []" and "wf_db (wsInv (rSt w))"
    and "0 < esTotal (GetEventStock e (rNow w) (wsInv (rSt w)))"
    and "ProcessEventQueue x e w = (w', r)"
  shows "int (card (holders (rNow w') (rSt w') e))
    \<le> max (int (card (holders (rNow w) (rSt w) e)))
        (sum_where (\<lambda>tc. tcEventID tc = e \<and> onSale tc (rNow w))
          (\<lambda>tc. tcTotal tc - tcReserved tc - tcSold tc) (ticket_class_table (wsInv (rSt w))))"
proof -
  have "wf_db (wsInv (rSt w)) \<Longrightarrow> stAvailable (stock_of (GetEventStock e (rNow w) (wsInv (rSt w)))) =
      sum_where (\<lambda>tc. tcEventID tc = e \<and> onSale tc (rNow w))
        (\<lambda>tc. tcTotal tc - tcReserved tc - tcSold tc) (ticket_class_table (wsInv (rSt w)))"
    using event_stock_sells by (simp add: stock_of_def)
  moreover have "stCounted (stock_of (GetEventStock e (rNow w) (wsInv (rSt w))))"
    using assms(7) by (simp add: stock_of_def)
  ultimately show ?thesis
    using assms(6) capped [OF env_empty [OF assms(1)] assms(2,3) _ _ assms(8),
      unfolded calm_Peek [OF assms(1)], OF cold_Stock [OF assms(1,4,5)]]
    by simp
qed

lemma wr_cold: "stockGate_lookup ''e'' wr_room0 = None"
  by (simp add: stockGate_lookup_def)

lemma wr_stock:
  "GetEventStock ''e'' (100 * second) wr_db = \<lparr>esTotal = 10, esSold = 2, esAvailable = 5\<rparr>"
  by (simp add: GetEventStock_def wr_db_def demo_defs)

lemma admission_capped_witness:
  "int (card (holders (rNow (fst (ProcessEventQueue wr_ext0 ''e'' wr_room0)))
     (rSt (fst (ProcessEventQueue wr_ext0 ''e'' wr_room0))) ''e'')) \<le> 5"
proof -
  have st: "stockGate_Stock wr_ext0 ''e'' (fst (svc_PeekQueue ''e'' (xBatchSize wr_ext0) wr_room0)) =
      (stockGate_store ''e'' (stock_of \<lparr>esTotal = 10, esSold = 2, esAvailable = 5\<rparr>)
        (100 * second + xStockTTL wr_ext0) wr_room0, stock_of \<lparr>esTotal = 10, esSold = 2, esAvailable = 5\<rparr>)"
    unfolding calm_Peek [OF wr_room0_simps(1)] by (simp add: cold_Stock wr_cold wr_stock)
  have "int (card (holders (rNow (fst (ProcessEventQueue wr_ext0 ''e'' wr_room0)))
     (rSt (fst (ProcessEventQueue wr_ext0 ''e'' wr_room0))) ''e''))
     \<le> max (int (card (holders (rNow wr_room0) (rSt wr_room0) ''e'')))
         (stAvailable (stock_of \<lparr>esTotal = 10, esSold = 2, esAvailable = 5\<rparr>))"
    by (rule admission_capped [OF _ _ _ st _ surjective_pairing])
      (simp_all add: env_empty wr_own_ids stock_of_def)
  then show ?thesis by (simp add: wr_holders stock_of_def)
qed

lemma tick_within_stock_witness:
  "int (card (holders (rNow (fst (ProcessEventQueue wr_ext0 ''e'' wr_room0)))
     (rSt (fst (ProcessEventQueue wr_ext0 ''e'' wr_room0))) ''e''))
   \<le> max 1 (sum_where (\<lambda>tc. tcEventID tc = ''e'' \<and> onSale tc (100 * second))
       (\<lambda>tc. tcTotal tc - tcReserved tc - tcSold tc) (ticket_class_table wr_db))"
proof -
  have "int (card (holders (rNow (fst (ProcessEventQueue wr_ext0 ''e'' wr_room0)))
     (rSt (fst (ProcessEventQueue wr_ext0 ''e'' wr_room0))) ''e''))
   \<le> max (int (card (holders (rNow wr_room0) (rSt wr_room0) ''e'')))
      (sum_where (\<lambda>tc. tcEventID tc = ''e'' \<and> onSale tc (rNow wr_room0))
       (\<lambda>tc. tcTotal tc - tcReserved tc - tcSold tc) (ticket_class_table (wsInv (rSt wr_room0))))"
    by (rule tick_within_stock [OF _ _ _ wr_cold _ _ _ surjective_pairing])
      (simp_all add: wr_own_ids wr_db_wf wr_stock)
  then show ?thesis by (simp add: wr_holders)
qed

end
