(* ===== verification/Waitroom_Safety.thy ===== *)
theory Waitroom_Safety
  imports Waitroom_Admission
begin

text \<open>
  Nobody is lost. The processor's stated invariant is that a session in the line is never dropped
  between the line and the checkout slots. \<open>settled\<close> is what a session may be when it leaves the
  line: gone, ended, expired, or admitted with its slot taken or its checkout over. The
  observation \<open>line_watch\<close> follows one session \<open>k\<close> during a tick that began at \<open>s0\<close>: other
  processes leave its session, its entry and its slot alone (flags \<open>q\<close> and \<open>b\<close> for the entry,
  and for the session and slot), and the slots' key does not expire in the tick's hour.
\<close>

definition settled :: "string \<Rightarrow> string \<Rightarrow> time \<Rightarrow> wr_store \<Rightarrow> bool" where
  "settled e k t s \<longleftrightarrow>
     (case liveKey t (wsSessions s k) of
        None \<Rightarrow> True
      | Some ss \<Rightarrow> IsTerminal ss \<or> ssExpiresAt ss \<le> t \<or>
          (ssStatus ss = SessionStatusAdmitted \<and>
            (k \<in> members (slots t s e) \<or> ssCheckoutToken ss = [] \<or>
             (case ssCheckoutExpiresAt ss of None \<Rightarrow> True | Some T \<Rightarrow> T < t))))"

definition key_ok :: "string \<Rightarrow> time \<Rightarrow> wr_store \<Rightarrow> bool" where
  "key_ok e s0 s \<longleftrightarrow> (case snd (wsCheckouts s e) of None \<Rightarrow> True | Some t \<Rightarrow> s0 + hour \<le> t)"

definition line_watch :: "bool \<Rightarrow> bool \<Rightarrow> string \<Rightarrow> string \<Rightarrow> time \<Rightarrow> moment \<Rightarrow> moment \<Rightarrow> bool" where
  "line_watch q b e k s0 l m \<longleftrightarrow>
     fst l \<le> fst m \<and> (own_ids (snd l) \<longrightarrow> own_ids (snd m)) \<and>
     (wf_zset (wsQueue (snd l) e) \<longrightarrow> wf_zset (wsQueue (snd m) e)) \<and>
     (fst m < s0 + hour \<and> key_ok e s0 (snd l) \<longrightarrow>
        key_ok e s0 (snd m) \<and>
        (q \<and> k \<in> members (wsQueue (snd l) e) \<longrightarrow> k \<in> members (wsQueue (snd m) e)) \<and>
        (b \<longrightarrow> (k \<in> members (slots (fst l) (snd l) e) \<longrightarrow> k \<in> members (slots (fst m) (snd m) e)) \<and>
               wsSessions (snd m) k = wsSessions (snd l) k))"

lemma key_ok_alive:
  assumes "key_ok e s0 s" and "t < s0 + hour"
  shows "slotKey t (wsCheckouts s e) = wsCheckouts s e" and "slots t s e = fst (wsCheckouts s e)"
  using assms by (auto simp: key_ok_def slots_def slotKey_def split: option.splits)

lemma key_ok_claim: "key_ok e s0 s \<Longrightarrow> t < s0 + hour \<Longrightarrow> key_ok e s0 (claimSlotAt e k T t s)"
  by (simp add: claimSlotAt_def key_ok_alive split_beta Let_def) (simp add: key_ok_def)

lemma key_ok_expire: "s0 + hour \<le> t + ttl \<Longrightarrow> key_ok e s0 (expireSlots e ttl t s)"
  by (simp add: expireSlots_def putSlots_def split_beta Let_def key_ok_def)

lemma key_ok_reap: "key_ok e s0 s \<Longrightarrow> t < s0 + hour \<Longrightarrow> key_ok e s0 (reapSlots e b t s)"
  by (simp add: reapSlots_def key_ok_alive split_beta Let_def putSlots_def) (simp add: key_ok_def)

lemma key_ok_frame [simp]:
  "key_ok e s0 (setSession k ss ttl now s) = key_ok e s0 s"
  "key_ok e s0 (leaveQueue e' ids now s) = key_ok e s0 s"
  "key_ok e s0 (s\<lparr>wsKafka := l\<rparr>) = key_ok e s0 s"
  "key_ok e s0 (s\<lparr>wsBuffer := c\<rparr>) = key_ok e s0 s"
  by (simp_all add: key_ok_def setSession_def leaveQueue_def)

lemma queue_frame [simp]: "wsQueue (setSession k ss ttl now s) = wsQueue s"
  by (simp add: setSession_def)

lemma sessions_set [simp]: "wsSessions (setSession k ss ttl now s) = (wsSessions s)(k := Some (ss, now + ttl))"
  by (simp add: setSession_def)

lemma session_frame [simp]: "wsSessions (leaveQueue e ids now s) = wsSessions s"
  by (simp add: leaveQueue_def)

interpretation watch: observation "line_watch q b e k s0" for q b e k s0
proof
  show "line_watch q b e k s0 (t, s) (t + d, s)" if "0 \<le> d" for d t s
    using that key_ok_alive(2) [of e s0 s t] key_ok_alive(2) [of e s0 s "t + d"]
    by (auto simp: line_watch_def)
  show "line_watch q b e k s0 l n" if "line_watch q b e k s0 l m" "line_watch q b e k s0 m n" for l m n
    using that by (auto simp: line_watch_def)
qed (auto simp: line_watch_def)

interpretation watch_batch: admitting "line_watch q b e k s0" e s0 "if b then - {k} else UNIV" UNIV
  for q b e k s0
proof
  show "obeys (line_watch q b e k s0) t (claimSlotAt e k' T)" for t k' T
    by (auto simp: obeys_def line_watch_def key_ok_claim)
  show "obeys (line_watch q b e k s0) t (expireSlots e (T - t + processingKeyGrace))"
    if "s0 \<le> t" "s0 \<le> T" for t T
    using that by (auto simp: obeys_def line_watch_def processingKeyGrace_def hour_def minute_def
        second_def intro!: key_ok_expire)
  show "obeys (line_watch q b e k s0) t (setSession k' ss ttl)"
    if "k' \<in> (if b then - {k} else UNIV)" "ssID ss = k'" for k' ss t ttl
    using that by (auto simp: obeys_def line_watch_def own_ids_setSession split: if_splits)
qed (auto simp: line_watch_def)

section \<open>What stays settled\<close>

lemma env_watch: "env_in (line_watch True True e k s0) w \<Longrightarrow> env_in (line_watch q b e k s0) w"
  unfolding env_in_def line_watch_def by fastforce

lemma liveKey_later: "t \<le> t' \<Longrightarrow> liveKey t' p = Some y \<Longrightarrow> liveKey t p = Some y"
  by (auto simp: liveKey_def split: option.splits if_splits)

lemma settled_mono:
  assumes "settled e k t s" and "t \<le> t'" and "wsSessions s' k = wsSessions s k"
    and "k \<in> members (slots t s e) \<Longrightarrow> k \<in> members (slots t' s' e)"
  shows "settled e k t' s'"
proof (cases "liveKey t' (wsSessions s' k)")
  case None
  then show ?thesis by (simp add: settled_def)
next
  case (Some ss)
  have "liveKey t (wsSessions s k) = Some ss"
    using liveKey_later [OF assms(2) Some] by (simp add: assms(3))
  with assms(1,2,4) Some show ?thesis
    by (auto simp: settled_def split: option.splits)
qed

lemma settled_kept:
  assumes "line_watch q True e k s0 (t, s) (t', s')" and "t' < s0 + hour" and "key_ok e s0 s"
    and "settled e k t s"
  shows "settled e k t' s'"
  using assms by (intro settled_mono [OF assms(4)]) (auto simp: line_watch_def)

lemma reached_watch:
  assumes "watch.reached q b e k s0 w w'" and "rNow w' < s0 + hour" and "key_ok e s0 (rSt w)"
  shows "key_ok e s0 (rSt w')"
    and "q \<Longrightarrow> k \<in> members (wsQueue (rSt w) e) \<Longrightarrow> k \<in> members (wsQueue (rSt w') e)"
    and "b \<Longrightarrow> wsSessions (rSt w') k = wsSessions (rSt w) k"
    and "b \<Longrightarrow> settled e k (rNow w) (rSt w) \<Longrightarrow> settled e k (rNow w') (rSt w')"
proof -
  have l: "line_watch q b e k s0 (rNow w, rSt w) (rNow w', rSt w')"
    using assms(1) by (simp add: watch.reached_def now_at_def)
  then show "key_ok e s0 (rSt w')"
    "q \<Longrightarrow> k \<in> members (wsQueue (rSt w) e) \<Longrightarrow> k \<in> members (wsQueue (rSt w') e)"
    "b \<Longrightarrow> wsSessions (rSt w') k = wsSessions (rSt w) k"
    using assms(2,3) by (simp_all add: line_watch_def)
  show "settled e k (rNow w') (rSt w')" if b and "settled e k (rNow w) (rSt w)"
    by (rule settled_kept [OF _ assms(2,3) that(2)]) (use l that(1) in simp)
qed

lemma reached_time: "watch.reached q b e k s0 w w' \<Longrightarrow> rNow w \<le> rNow w'"
  by (simp add: watch.reached_def onward_def)

lemma reached_env: "watch.reached q b e k s0 w w' \<Longrightarrow> env_in P w \<Longrightarrow> env_in P w'"
  unfolding watch.reached_def onward_def env_in_def by blast

section \<open>The slot\<close>

lemma rcall_Inl: "rcall cmds ans w = (w', Inl err) \<Longrightarrow> err = ErrRemote \<or> ans (rNow w') (rSt w') = Inl err"
  by (erule rcall_cases) simp_all

lemma AddToProcessing_takes:
  assumes "repo_AddToProcessing e k ttl w = (w', Inr u)" and "0 < ttl + hour"
  shows "k \<in> members (slots (rNow w') (rSt w') e)"
  using assms(1) unfolding repo_AddToProcessing_def withNow_simp
proof (cases rule: rcall_cases)
  case (1 d g)
  with assms(2) show ?thesis by (simp add: processingKeyGrace_def)
next
  case (2 d g a n)
  then show ?thesis by simp
qed

lemma claimSlot_settles:
  assumes "claimSlot e ss token T w = (w', r)" and "ssID ss = k"
    and "env_in (line_watch True True e k s0) w" and "watch_batch.ready s0 w" and "s0 \<le> T"
    and "rNow w' < s0 + hour" and "key_ok e s0 (rSt w)"
    and "\<exists>t. wsSessions (rSt w) k = Some (sk, t)" and "ssStatus sk = SessionStatusAdmitted"
    and "r = Inr u \<or> r = Inl ErrSessionNotAdmittable"
  shows "settled e k (rNow w') (rSt w')"
proof -
  let ?rest = "\<lambda>_ :: unit. withNow (\<lambda>now.
     let ev = \<lparr>qrSessionID = ssID ss, qrUserID = ssUserID ss, qrEventID = e,
              qrCheckoutToken = token, qrAdmittedAt = now, qrExpiresAt = T, qrTimestamp = now\<rparr>
     in settle (prod_PublishQueueReady ev) (\<lambda>r. case r of Inl _ \<Rightarrow> bufferQueueReady ev | Inr _ \<Rightarrow> ret ()))"
  have run: "andThen (repo_AddToProcessing e (ssID ss) (T - rNow w)) ?rest w = (w', r)"
    using assms(1) by (simp add: claimSlot_def)
  have all: "watch.reached True True e k s0 w w'"
    using watch.keeps_reached [OF watch_batch.keeps_claimSlot [of ss s0 w T True True e k token] assms(3)]
      assms(1,4,5) by simp
  have time: "rNow w \<le> rNow w'" using all by (rule reached_time)
  from run show ?thesis
  proof (cases rule: andThen_cases)
    case (1 err)
    have "err = ErrRemote" using 1(1) by (auto simp: repo_AddToProcessing_def dest!: rcall_Inl)
    with 1(2) assms(10) show ?thesis by simp
  next
    case (2 v z)
    have keeps: "keeps_run (line_watch True True e k s0) (repo_AddToProcessing e k (T - rNow w)) w"
      unfolding repo_AddToProcessing_def using assms(4,5)
      by (intro watch.keeps_withNow watch.keeps_rcall)
        (auto intro: watch_batch.a_claim watch_batch.a_expire simp: watch_batch.ready_def)
    have v: "watch.reached True True e k s0 w v"
      using watch.keeps_reached [OF keeps assms(3)] 2(1) by (simp add: assms(2))
    have rest: "keeps_run (line_watch True True e k s0) (?rest z) v"
      unfolding Let_def
      by (intro watch.keeps_withNow watch.keeps_settle watch_batch.keeps_publish)
        (simp add: watch.keeps_id watch_batch.keeps_buffer split: sum.split)
    have vw: "watch.reached True True e k s0 v w'"
      using watch.keeps_reached [OF rest] v 2(2) by (simp add: watch.reached_def)
    have before: "rNow v < s0 + hour" using reached_time [OF vw] assms(6) by simp
    have "0 < T - rNow w + hour" using assms(5,6) time by simp
    with 2(1) have "k \<in> members (slots (rNow v) (rSt v) e)"
      by (simp add: assms(2) AddToProcessing_takes)
    moreover have "wsSessions (rSt v) k = wsSessions (rSt w) k"
      by (rule reached_watch(3) [OF v before assms(7)]) simp
    ultimately have "settled e k (rNow v) (rSt v)"
      using assms(8,9) by (auto simp: settled_def liveKey_def)
    then show ?thesis
      by (rule reached_watch(4) [OF vw assms(6) reached_watch(1) [OF v before assms(7)], rotated]) simp
  qed
qed

section \<open>The session's own turn\<close>

lemma GetSession_outcome:
  assumes "svc_GetSession k w = (w', r)"
  shows "(\<forall>ss. r = Inr ss \<longrightarrow> liveKey (rNow w') (wsSessions (rSt w') k) = Some ss) \<and>
    (r = Inl ErrSessionNotFound \<longrightarrow> liveKey (rNow w') (wsSessions (rSt w') k) = None) \<and>
    r \<noteq> Inl ErrSessionNotAdmittable"
  using assms
  by (auto simp: svc_GetSession_def notFoundIfNil_def settle_def repo_Get_def
      split: prod.splits sum.splits option.splits if_splits dest!: rcall_Inr rcall_Inl)

lemma Update_outcome:
  assumes "repo_Update k ss w = (w', r)"
  shows "(\<forall>u. r = Inr u \<longrightarrow> (\<exists>t t'. wsSessions (rSt w') k = Some (ss\<lparr>ssUpdatedAt := t\<rparr>, t'))) \<and>
    r \<noteq> Inl ErrSessionNotAdmittable"
proof -
  let ?ss = "ss\<lparr>ssUpdatedAt := rNow w\<rparr>"
  have "andThen (getTTL k) (\<lambda>ttl.
      rcall [setSession k ?ss (if ttl \<le> 0 then sessionTTL else ttl)] (\<lambda>_ _. Inr ())) w = (w', r)"
    using assms by (simp add: repo_Update_def)
  then show ?thesis
  proof (cases rule: andThen_cases)
    case (1 err)
    then show ?thesis by (auto simp: getTTL_def dest!: rcall_Inl)
  next
    case (2 v ttl)
    from 2(2) show ?thesis
    proof (cases rule: rcall_cases)
      case (1 d g)
      have "wsSessions (rSt w') k = Some (?ss, rNow w' + (if ttl \<le> 0 then sessionTTL else ttl))"
        using 1(3) by simp
      with 1(4) show ?thesis by blast
    next
      case (2 d g a n)
      then show ?thesis by simp
    qed
  qed
qed

lemma UpdateToken_outcome:
  assumes "svc_UpdateCheckoutToken k token T w = (w', r)"
  shows "(\<forall>u. r = Inr u \<longrightarrow> (\<exists>ss t. wsSessions (rSt w') k = Some (ss, t) \<and>
      ssStatus ss = SessionStatusAdmitted \<and> ssCheckoutExpiresAt ss = Some T \<and> ssCheckoutToken ss = token)) \<and>
    r \<noteq> Inl ErrSessionNotAdmittable"
proof -
  from assms have "andThen (repo_Get k) (\<lambda>ss. withNow (\<lambda>now. repo_Update k
      (ss\<lparr>ssCheckoutToken := token, ssCheckoutExpiresAt := Some T, ssAdmittedAt := Some now,
        ssStatus := SessionStatusAdmitted, ssUpdatedAt := now\<rparr>))) w = (w', r)"
    by (simp add: svc_UpdateCheckoutToken_def repo_UpdateCheckoutToken_def)
  then show ?thesis
  proof (cases rule: andThen_cases)
    case (1 e)
    then show ?thesis by (auto simp: repo_Get_def dest!: rcall_Inl split: option.splits)
  next
    case (2 v ss)
    from Update_outcome [OF 2(2) [unfolded withNow_simp]] show ?thesis by auto
  qed
qed

lemma IsProcessing_outcome:
  assumes "repo_IsProcessing e k w = (w', r)"
  shows "(r = Inr True \<longrightarrow> k \<in> members (slots (rNow w') (rSt w') e)) \<and> r \<noteq> Inl ErrSessionNotAdmittable"
  using assms zscore_None_iff [of k "slots (rNow w') (rSt w') e"]
  by (auto simp: repo_IsProcessing_def andThen_def split: prod.splits sum.splits option.splits
      dest!: rcall_Inr rcall_Inl)

lemma resume_settles:
  assumes "resumeOrReject e ss w = (w', r)" and "ssID ss = k"
    and "liveKey (rNow w) (wsSessions (rSt w) k) = Some ss" and "\<not> CanAdmit (rNow w) ss"
    and "env_in (line_watch True True e k s0) w" and "watch_batch.ready s0 w"
    and "rNow w' < s0 + hour" and "key_ok e s0 (rSt w)"
    and "r = Inr u \<or> r = Inl ErrSessionNotAdmittable"
  shows "settled e k (rNow w') (rSt w')"
proof (cases "ssStatus ss \<noteq> SessionStatusAdmitted \<or> IsExpired (rNow w) ss \<or> HasCheckoutExpired (rNow w) ss
    \<or> ssCheckoutToken ss = [] \<or> ssCheckoutExpiresAt ss = None")
  case True
  then have "w' = w" using assms(1) by (auto simp: resumeOrReject_def split: if_splits option.splits)
  moreover have "settled e k (rNow w) (rSt w)"
    using True assms(3,4)
    by (cases "ssStatus ss")
      (auto simp: settled_def IsExpired_def HasCheckoutExpired_def CanAdmit_def IsTerminal_def split: option.splits)
  ultimately show ?thesis by simp
next
  case False
  then obtain T where T: "ssCheckoutExpiresAt ss = Some T" "rNow w \<le> T"
    by (auto simp: HasCheckoutExpired_def)
  have s: "\<exists>t. wsSessions (rSt w) k = Some (ss, t)" "ssStatus ss = SessionStatusAdmitted"
    using assms(3) False by (auto simp: liveKey_def split: option.splits if_splits)
  have run: "andThen (repo_IsProcessing e k) (\<lambda>holding. if holding then fail ErrSessionNotAdmittable
      else claimSlot e ss (ssCheckoutToken ss) T) w = (w', r)"
    using assms(1,2) False T(1) by (auto simp: resumeOrReject_def split: if_splits)
  have keeps: "keeps_run (line_watch True True e k s0) (repo_IsProcessing e k) w"
    unfolding repo_IsProcessing_def
    by (intro watch.keeps_andThen watch.keeps_read watch.keeps_withNow) (simp add: watch.keeps_id)
  from run show ?thesis
  proof (cases rule: andThen_cases)
    case (1 err)
    then show ?thesis using IsProcessing_outcome [OF 1(1)] assms(9) by auto
  next
    case (2 v holding)
    have v: "watch.reached True True e k s0 w v"
      using watch.keeps_reached [OF keeps assms(5)] 2(1) by simp
    have ready: "watch_batch.ready s0 v" using v assms(6) by (rule watch_batch.reached_ready)
    show ?thesis
    proof (cases holding)
      case True
      then have w': "w' = v" using 2(2) by simp
      have "wsSessions (rSt v) k = wsSessions (rSt w) k"
        by (rule reached_watch(3) [OF v _ assms(8)]) (use assms(7) w' in simp_all)
      then show ?thesis
        using s IsProcessing_outcome [OF 2(1)] True by (auto simp: w' settled_def liveKey_def)
    next
      case False
      then have claim: "claimSlot e ss (ssCheckoutToken ss) T v = (w', r)" using 2(2) by simp
      have s0T: "s0 \<le> T" using T(2) assms(6) by (simp add: watch_batch.ready_def)
      have env: "env_in (line_watch True True e k s0) v" using v by (simp add: watch.reached_def)
      have "watch.reached True True e k s0 v w'"
        using watch.keeps_reached [OF watch_batch.keeps_claimSlot [OF _ ready s0T] env,
            of ss "ssCheckoutToken ss"] by (simp add: claim)
      then have before: "rNow v < s0 + hour" using reached_time assms(7) by fastforce
      have "wsSessions (rSt v) k = wsSessions (rSt w) k"
        by (rule reached_watch(3) [OF v before assms(8)]) simp
      then have "\<exists>t. wsSessions (rSt v) k = Some (ss, t)" using s(1) by simp
      then show ?thesis
        using claimSlot_settles [OF claim assms(2) env ready s0T assms(7)
            reached_watch(1) [OF v before assms(8)] _ s(2) assms(9)] by simp
    qed
  qed
qed

lemma doAdmit_settles:
  assumes "doAdmitUserToCheckout x e k w = (w', r)"
    and "env_in (line_watch True True e k s0) w" and "watch_batch.ready s0 w" and "0 \<le> xExpiry x"
    and "rNow w' < s0 + hour" and "key_ok e s0 (rSt w)"
    and "r = Inr u \<or> r = Inl ErrSessionNotAdmittable"
  shows "settled e k (rNow w') (rSt w')"
proof -
  obtain v q where get: "svc_GetSession k w = (v, q)" by (cases "svc_GetSession k w")
  note out = GetSession_outcome [OF get]
  have v: "watch.reached True True e k s0 w v"
    using watch.keeps_reached [OF watch_batch.keeps_GetSession assms(2), of k] by (simp add: get)
  have ready: "watch_batch.ready s0 v" using v assms(3) by (rule watch_batch.reached_ready)
  have env: "env_in (line_watch True True e k s0) v" using v by (simp add: watch.reached_def)
  show ?thesis
  proof (cases q)
    case (Inl err)
    then have "w' = v" "err = ErrSessionNotFound"
      using assms(1,7) get out by (auto simp: doAdmitUserToCheckout_def settle_def split: if_splits)
    then show ?thesis using out Inl by (simp add: settled_def)
  next
    case (Inr ss)
    have got: "liveKey (rNow v) (wsSessions (rSt v) k) = Some ss" using out Inr by simp
    have id: "ssID ss = k" using get ready by (auto simp: Inr GetSession_Inr watch_batch.ready_def intro: Get_own)
    show ?thesis
    proof (cases "CanAdmit (rNow v) ss")
      case False
      then have run: "resumeOrReject e ss v = (w', r)"
        using assms(1) by (simp add: doAdmitUserToCheckout_def settle_def get Inr)
      have "watch.reached True True e k s0 v w'"
        using watch.keeps_reached [OF watch_batch.keeps_resume [OF _ ready] env, of ss] run by simp
      then have "rNow v < s0 + hour" using reached_time assms(5) by fastforce
      then have "key_ok e s0 (rSt v)" using reached_watch(1) [OF v _ assms(6)] by simp
      then show ?thesis by (rule resume_settles [OF run id got False env ready assms(5) _ assms(7)])
    next
      case True
      show ?thesis
      proof (cases "xSign x (rNow v + xExpiry x) (rNow v) ss")
        case None
        then show ?thesis using assms(1,7) True
          by (auto simp: doAdmitUserToCheckout_def settle_def get Inr andThen_def svc_GenerateCheckoutToken_def)
      next
        case (Some token)
        let ?T = "rNow v + xExpiry x"
        have T: "s0 \<le> ?T" using ready assms(4) by (simp add: watch_batch.ready_def)
        have "andThen (svc_UpdateCheckoutToken k token ?T) (\<lambda>_. claimSlot e ss token ?T) v = (w', r)"
          using assms(1) True Some
          by (simp add: doAdmitUserToCheckout_def settle_def get Inr andThen_def svc_GenerateCheckoutToken_def Let_def)
        then show ?thesis
        proof (cases rule: andThen_cases)
          case (1 err)
          then show ?thesis using UpdateToken_outcome [OF 1(1)] assms(7) by auto
        next
          case (2 y z)
          have keep: "keeps_run (line_watch True False e k s0) (svc_UpdateCheckoutToken k token ?T) v"
            by (rule watch_batch.keeps_UpdateCheckoutToken [OF _ ready]) simp
          have weak: "watch.reached True False e k s0 v y"
            using watch.keeps_reached [OF keep env_watch [OF env]] 2(1) by simp
          have ready_y: "watch_batch.ready s0 y" using weak ready by (rule watch_batch.reached_ready)
          have env_y: "env_in (line_watch True True e k s0) y"
            using weak env by (rule reached_env)
          have claim: "claimSlot e ss token ?T y = (w', r)" using 2(2) by simp
          have "watch.reached True True e k s0 y w'"
            using watch.keeps_reached [OF watch_batch.keeps_claimSlot [OF _ ready_y T] env_y, of ss token]
            by (simp add: claim)
          then have y: "rNow y < s0 + hour" using reached_time assms(5) by fastforce
          have "rNow v < s0 + hour" using reached_time [OF weak] y by simp
          then have "key_ok e s0 (rSt v)" using reached_watch(1) [OF v _ assms(6)] by simp
          then have "key_ok e s0 (rSt y)" by (rule reached_watch(1) [OF weak y])
          moreover obtain sk t where "wsSessions (rSt y) k = Some (sk, t)" "ssStatus sk = SessionStatusAdmitted"
            using UpdateToken_outcome [OF 2(1)] by blast
          ultimately show ?thesis
            using claimSlot_settles [OF claim id env_y ready_y T assms(5) _ _ _ assms(7)] by blast
        qed
      qed
    qed
  qed
qed

lemma retry_settles:
  assumes "retryLoop (doAdmitUserToCheckout x e k) dl n a e0 w = (w', r)"
    and "env_in (line_watch True True e k s0) w" and "watch_batch.ready s0 w" and "0 \<le> xExpiry x"
    and "rNow w' < s0 + hour" and "key_ok e s0 (rSt w)" and "e0 \<noteq> ErrSessionNotAdmittable"
    and "r = Inr () \<or> r = Inl ErrSessionNotAdmittable"
  shows "settled e k (rNow w') (rSt w')"
  using assms(1-3,6,7)
proof (induction n arbitrary: a e0 w)
  case 0
  then show ?case using assms(8) by auto
next
  case (Suc n)
  let ?op = "doAdmitUserToCheckout x e k"
  let ?wait = "if a = 0 then ret () else waitUntil dl (retryDelay * int a)"
  obtain v c where wait: "?wait w = (v, c)" by (cases "?wait w")
  have keep: "keeps_run (line_watch True False e k s0) ?wait w"
    using watch.keeps_wait [of "retryDelay * int a" True False e k s0 dl w]
    by (simp add: watch.keeps_id retryDelay_def second_def)
  have v: "watch.reached True False e k s0 w v"
    using watch.keeps_reached [OF keep env_watch [OF Suc.prems(2)]] by (simp add: wait)
  have st: "rSt v = rSt w" using wait by (auto simp: waitUntil_def split: if_splits)
  have env: "env_in (line_watch True True e k s0) v" using v Suc.prems(2) by (rule reached_env)
  have ready: "watch_batch.ready s0 v" using v Suc.prems(3) by (rule watch_batch.reached_ready)
  show ?case
  proof (cases c)
    case (Inl err)
    then have "err = ErrContext" using wait by (auto simp: waitUntil_def split: if_splits)
    then show ?thesis using Suc.prems(1) assms(8) wait Inl by (auto split: if_splits)
  next
    case (Inr u)
    obtain y q where op: "?op v = (y, q)" by (cases "?op v")
    have "keeps_run (line_watch True False e k s0) ?op v"
      by (rule watch_batch.keeps_doAdmit [OF _ _ ready assms(4)]) simp_all
    then have y: "watch.reached True False e k s0 v y"
      using watch.keeps_reached [OF _ env_watch [OF env]] by (force simp: op)
    show ?thesis
    proof (cases "q = Inr () \<or> q = Inl ErrSessionNotAdmittable")
      case True
      then have "y = w'" using Suc.prems(1) wait Inr op by (auto split: if_splits sum.splits)
      then show ?thesis
        using doAdmit_settles [OF op env ready assms(4) _ _ True] assms(5) Suc.prems(4) st by simp
    next
      case False
      then obtain e2 where e2: "q = Inl e2" "e2 \<noteq> ErrSessionNotAdmittable" by (cases q) auto
      then have rest: "retryLoop ?op dl n (Suc a) e2 y = (w', r)"
        using Suc.prems(1) wait Inr op by (auto split: if_splits)
      have env_y: "env_in (line_watch True True e k s0) y" using y env by (rule reached_env)
      have ready_y: "watch_batch.ready s0 y" using y ready by (rule watch_batch.reached_ready)
      have "keeps_run (line_watch True False e k s0) (retryLoop ?op dl n (Suc a) e2) y"
        by (rule watch_batch.keeps_retry [OF watch_batch.keeps_doAdmit [OF _ _ _ assms(4)] ready_y]) simp_all
      from watch.keeps_reached [OF this env_watch [OF env_y]]
      have "rNow y \<le> rNow w'" using reached_time by (simp add: rest)
      then have "key_ok e s0 (rSt y)"
        using reached_watch(1) [OF y] assms(5) Suc.prems(4) st by simp
      then show ?thesis by (rule Suc.IH [OF rest env_y ready_y _ e2(2)])
    qed
  qed
qed

lemma admitAll_members:
  "admitAll x dl e ks w = (w', ad, st) \<Longrightarrow> set ad \<union> set st \<subseteq> set ks"
  by (induction ks arbitrary: w w' ad st) (fastforce split: prod.splits sum.splits if_splits)+

text \<open>After the batch, whoever is let go is settled.\<close>

lemma admitAll_settles:
  assumes "admitAll x dl e ks w = (w', ad, st)"
    and "env_in (line_watch True True e k s0) w" and "watch_batch.ready s0 w" and "0 \<le> xExpiry x"
    and "rNow w' < s0 + hour" and "key_ok e s0 (rSt w)" and "distinct ks"
    and "k \<in> set ad \<union> set st"
  shows "settled e k (rNow w') (rSt w')"
  using assms(1-3,6-8)
proof (induction ks arbitrary: w ad st)
  case Nil
  then show ?case by auto
next
  case (Cons k' ks)
  obtain v r where one: "admitUserToCheckout x dl e k' w = (v, r)"
    by (cases "admitUserToCheckout x dl e k' w")
  obtain ad2 st2 where rest: "admitAll x dl e ks v = (w', ad2, st2)"
    using Cons.prems(1) one by (auto split: prod.splits sum.splits if_splits)
  have "keeps_run (line_watch True False e k s0) (admitUserToCheckout x dl e k') w"
    by (rule watch_batch.keeps_admitUser [OF _ _ Cons.prems(3) assms(4)]) simp_all
  then have v: "watch.reached True False e k s0 w v"
    using watch.keeps_reached [OF _ env_watch [OF Cons.prems(2)]] by (force simp: one)
  have env: "env_in (line_watch True True e k s0) v" using v Cons.prems(2) by (rule reached_env)
  have ready: "watch_batch.ready s0 v" using v Cons.prems(3) by (rule watch_batch.reached_ready)
  have "keeps (line_watch True False e k s0) (\<lambda>w. fst (admitAll x dl e ks w)) v"
    by (rule watch_batch.keeps_admitAll [OF _ ready assms(4)]) simp
  then have weak: "watch.reached True False e k s0 v w'"
    using watch.keeps_reached [OF _ env_watch [OF env]] by (force simp: rest)
  have before: "rNow v < s0 + hour" using reached_time [OF weak] assms(5) by simp
  have key: "key_ok e s0 (rSt v)" by (rule reached_watch(1) [OF v before Cons.prems(4)])
  show ?case
  proof (cases "k' = k")
    case True
    have "k \<notin> set ad2 \<union> set st2"
    proof
      assume "k \<in> set ad2 \<union> set st2"
      then have "k \<in> set ks" using rest admitAll_members by blast
      with Cons.prems(5) True show False by simp
    qed
    then have "r = Inr () \<or> r = Inl ErrSessionNotAdmittable"
      using Cons.prems(1,6) one rest by (auto split: sum.splits if_splits)
    then have "settled e k (rNow v) (rSt v)"
      using retry_settles [OF one [unfolded admitUserToCheckout_def withRetry_def True]
          Cons.prems(2,3) assms(4) before Cons.prems(4)] by simp
    moreover have "keeps (line_watch True True e k s0) (\<lambda>w. fst (admitAll x dl e ks w)) v"
      using Cons.prems(5) True by (intro watch_batch.keeps_admitAll [OF _ ready assms(4)]) auto
    then have "watch.reached True True e k s0 v w'"
      using watch.keeps_reached [OF _ env] by (force simp: rest)
    ultimately show ?thesis using reached_watch(4) [OF _ assms(5) key] by simp
  next
    case False
    then have "k \<in> set ad2 \<union> set st2"
      using Cons.prems(1,6) one rest by (auto split: sum.splits if_splits)
    then show ?thesis using Cons.IH [OF rest env ready key] Cons.prems(5) by simp
  qed
qed

section \<open>The other doors\<close>

lemma UpdateSessionStatus_outcome:
  assumes "svc_UpdateSessionStatus k st w = (w', Inr u)"
  shows "\<exists>ss t. wsSessions (rSt w') k = Some (ss, t) \<and> ssStatus ss = st"
proof -
  have "repo_UpdateStatus k st w = (w', Inr u)"
    using assms by (auto simp: svc_UpdateSessionStatus_def notFoundIfNil_def settle_def
        split: prod.splits sum.splits)
  then have "andThen (repo_Get k) (\<lambda>ss. withNow (\<lambda>now.
      repo_Update k (ss\<lparr>ssStatus := st, ssUpdatedAt := now\<rparr>))) w = (w', Inr u)"
    by (simp add: repo_UpdateStatus_def)
  then show ?thesis
  proof (cases rule: andThen_cases)
    case (1 e)
    then show ?thesis by simp
  next
    case (2 v ss)
    then show ?thesis using Update_outcome [OF 2(2) [unfolded withNow_simp]] by auto
  qed
qed

text \<open>What \<open>closeLoop\<close> does with one session: the room after it, and whether it lets it go.\<close>

definition closeOne :: "string \<Rightarrow> room \<Rightarrow> room \<times> bool" where
  "closeOne k w =
     (case svc_GetSession k w of
        (w', Inl e) \<Rightarrow> (w', e = ErrSessionNotFound)
      | (w', Inr ss) \<Rightarrow>
          if ssStatus ss = SessionStatusQueued
          then (case svc_UpdateSessionStatus k SessionStatusSoldOut w' of
                  (w2, Inl _) \<Rightarrow> (w2, False) | (w2, Inr _) \<Rightarrow> (w2, True))
          else (w', IsTerminal ss))"

lemma closeLoop_Cons:
  "closeLoop (k # ks) w =
     (case closeOne k w of (v, goes) \<Rightarrow>
        (case closeLoop ks v of (w', ls) \<Rightarrow> (w', if goes then k # ls else ls)))"
  by (auto simp: closeOne_def split: prod.split sum.split)

lemma closeOne_settles:
  assumes "closeOne k w = (v, True)" shows "settled e k (rNow v) (rSt v)"
proof -
  obtain y r where get: "svc_GetSession k w = (y, r)" by (cases "svc_GetSession k w")
  show ?thesis
    using assms GetSession_outcome [OF get]
    by (auto simp: closeOne_def get settled_def IsTerminal_def liveKey_def split: sum.splits if_splits prod.splits
        dest!: UpdateSessionStatus_outcome)
qed

lemma closeLoop_members: "closeLoop ks w = (w', ls) \<Longrightarrow> set ls \<subseteq> set ks"
  by (induction ks arbitrary: w w' ls) (fastforce simp: closeLoop_Cons simp del: closeLoop.simps(2)
      split: prod.splits if_splits)+

lemma closeLoop_single: "fst (closeOne k w) = fst (closeLoop [k] w)"
  by (simp add: closeLoop_Cons del: closeLoop.simps(2) split: prod.splits)

lemma closeLoop_settles:
  assumes "closeLoop ks w = (w', ls)"
    and "env_in (line_watch True True e k s0) w" and "watch_batch.ready s0 w"
    and "rNow w' < s0 + hour" and "key_ok e s0 (rSt w)" and "distinct ks" and "k \<in> set ls"
  shows "settled e k (rNow w') (rSt w')"
  using assms(1-3,5-7)
proof (induction ks arbitrary: w ls)
  case Nil
  then show ?case by auto
next
  case (Cons k' ks)
  obtain v goes where one: "closeOne k' w = (v, goes)" by (cases "closeOne k' w")
  obtain ls2 where rest: "closeLoop ks v = (w', ls2)" and ls: "ls = (if goes then k' # ls2 else ls2)"
    using Cons.prems(1) by (auto simp: closeLoop_Cons one simp del: closeLoop.simps(2) split: prod.splits)
  have "keeps (line_watch True False e k s0) (\<lambda>w. fst (closeLoop [k'] w)) w"
    by (rule watch_batch.keeps_closeLoop [OF Cons.prems(3)]) simp
  then have v: "watch.reached True False e k s0 w v"
    using watch.keeps_reached [OF _ env_watch [OF Cons.prems(2)]]
    by (force simp: closeLoop_single [symmetric] one simp del: closeLoop.simps)
  have env: "env_in (line_watch True True e k s0) v" using v Cons.prems(2) by (rule reached_env)
  have ready: "watch_batch.ready s0 v" using v Cons.prems(3) by (rule watch_batch.reached_ready)
  have "keeps (line_watch True False e k s0) (\<lambda>w. fst (closeLoop ks w)) v"
    by (rule watch_batch.keeps_closeLoop [OF ready]) simp
  then have weak: "watch.reached True False e k s0 v w'"
    using watch.keeps_reached [OF _ env_watch [OF env]] by (force simp: rest)
  have before: "rNow v < s0 + hour" using reached_time [OF weak] assms(4) by simp
  have key: "key_ok e s0 (rSt v)" by (rule reached_watch(1) [OF v before Cons.prems(4)])
  show ?case
  proof (cases "k' = k")
    case True
    have "k \<notin> set ls2" using closeLoop_members [OF rest] Cons.prems(5) True by auto
    then have "goes" using Cons.prems(6) ls by (cases goes) auto
    then have "settled e k (rNow v) (rSt v)" using closeOne_settles [of k w v e] one True by simp
    moreover have "keeps (line_watch True True e k s0) (\<lambda>w. fst (closeLoop ks w)) v"
      using Cons.prems(5) True by (intro watch_batch.keeps_closeLoop [OF ready]) auto
    then have "watch.reached True True e k s0 v w'"
      using watch.keeps_reached [OF _ env] by (force simp: rest)
    ultimately show ?thesis using reached_watch(4) [OF _ assms(4) key] by simp
  next
    case False
    then have "k \<in> set ls2" using Cons.prems(6) ls by (auto split: if_splits)
    then show ?thesis using Cons.IH [OF rest env ready key] Cons.prems(5) by simp
  qed
qed

lemma deadLoop_settles:
  assumes "deadLoop ks w = (w', ds)" and "env_in (line_watch True True e k s0) w"
    and "rNow w' < s0 + hour" and "key_ok e s0 (rSt w)" and "k \<in> set ds"
  shows "settled e k (rNow w') (rSt w')"
  using assms(1,2,4,5)
proof (induction ks arbitrary: w ds)
  case Nil
  then show ?case by auto
next
  case (Cons k' ks)
  obtain v r where get: "svc_GetSession k' w = (v, r)" by (cases "svc_GetSession k' w")
  have v: "watch.reached True True e k s0 w v"
    using watch.keeps_reached [OF watch_batch.keeps_GetSession Cons.prems(2), of k'] by (simp add: get)
  have env: "env_in (line_watch True True e k s0) v" using v by (simp add: watch.reached_def)
  obtain ds2 where rest: "deadLoop ks v = (w', ds2)" and ds: "ds = k' # ds2"
    and dead: "r = Inl ErrSessionNotFound \<or> (\<exists>ss. r = Inr ss \<and> (IsTerminal ss \<or> IsExpired (rNow v) ss))"
    using Cons.prems(1,4) by (auto simp: get split: sum.splits if_splits prod.splits)
  have vw: "watch.reached True True e k s0 v w'"
    using watch.keeps_reached [OF watch_batch.keeps_deadLoop env, of ks] by (simp add: rest)
  have before: "rNow v < s0 + hour" using reached_time [OF vw] assms(3) by simp
  have key: "key_ok e s0 (rSt v)" by (rule reached_watch(1) [OF v before Cons.prems(3)])
  show ?case
  proof (cases "k' = k")
    case True
    have "settled e k (rNow v) (rSt v)"
      using dead GetSession_outcome [OF get] True by (auto simp: settled_def IsExpired_def)
    then show ?thesis using reached_watch(4) [OF vw assms(3) key] by simp
  next
    case False
    then show ?thesis using Cons.IH [OF rest env key] Cons.prems(4) ds by simp
  qed
qed

section \<open>A tick\<close>

text \<open>Standing in the line, while nobody else moves one's entry, session or slot.\<close>

definition standing :: "string \<Rightarrow> string \<Rightarrow> time \<Rightarrow> room \<Rightarrow> bool" where
  "standing e k s0 w \<longleftrightarrow> env_in (line_watch True True e k s0) w \<and> own_ids (rSt w) \<and> s0 \<le> rNow w \<and>
     wf_zset (wsQueue (rSt w) e) \<and> key_ok e s0 (rSt w) \<and> k \<in> members (wsQueue (rSt w) e)"

lemma standing_parts:
  assumes "standing e k s0 w"
  shows "env_in (line_watch True True e k s0) w" and "watch_batch.ready s0 w"
    and "wf_zset (wsQueue (rSt w) e)" and "key_ok e s0 (rSt w)" and "k \<in> members (wsQueue (rSt w) e)"
  using assms by (simp_all add: standing_def watch_batch.ready_def)

lemma standing_on:
  assumes "standing e k s0 w" and "watch.reached True False e k s0 w w'" and "rNow w' < s0 + hour"
  shows "standing e k s0 w'"
proof -
  note p = standing_parts [OF assms(1)]
  have "env_in (line_watch True True e k s0) w'" using assms(2) p(1) by (rule reached_env)
  moreover have "watch_batch.ready s0 w'" using assms(2) p(2) by (rule watch_batch.reached_ready)
  moreover have "wf_zset (wsQueue (rSt w') e)"
    using assms(2) p(3) by (simp add: watch.reached_def line_watch_def now_at_def)
  moreover have "key_ok e s0 (rSt w')" by (rule reached_watch(1) [OF assms(2,3) p(4)])
  moreover have "k \<in> members (wsQueue (rSt w') e)"
    by (rule reached_watch(2) [OF assms(2,3) p(4)]) (simp_all add: p(5))
  ultimately show ?thesis by (simp add: standing_def watch_batch.ready_def)
qed

lemma standing_step:
  assumes "standing e k s0 w" and "keeps (line_watch True False e k s0) f w" and "f w = w'"
  shows "watch.reached True False e k s0 w w'"
  using watch.keeps_reached [OF assms(2) env_watch [OF standing_parts(1) [OF assms(1)]]] assms(3) by simp

lemma keeps_letGo_watch:
  assumes "q \<Longrightarrow> k \<notin> set ids"
  shows "keeps_run (line_watch q b e k s0) (letGo e ids) w"
proof -
  have "obeys (line_watch q b e k s0) t (leaveQueue e ids)" for t
    using assms by (auto simp: obeys_def line_watch_def leaveQueue_def own_ids_def)
      (auto simp: key_ok_def slots_def)
  then show ?thesis
    unfolding letGo_def repo_RemoveFromQueue_def
    by (auto simp: watch.keeps_id intro!: watch.keeps_settle watch.keeps_rcall)
qed

text \<open>Whoever is let go was settled; whoever was not is still in the line.\<close>

lemma letGo_safe:
  assumes "standing e k s0 w" and "watch.reached True False e k s0 w y" and "letGo e ids y = (w', r)"
    and "rNow w' < s0 + hour"
    and "k \<in> set ids \<Longrightarrow> rNow y < s0 + hour \<Longrightarrow> settled e k (rNow y) (rSt y)"
  shows "k \<in> members (wsQueue (rSt w') e) \<or> settled e k (rNow w') (rSt w')"
proof -
  have env: "env_in (line_watch True True e k s0) y"
    using assms(2) standing_parts(1) [OF assms(1)] by (rule reached_env)
  have step: "watch.reached q b e k s0 y w'" if "q \<Longrightarrow> k \<notin> set ids" for q b
    using watch.keeps_reached [OF keeps_letGo_watch [OF that] env_watch [OF env]] by (simp add: assms(3))
  have "rNow y \<le> rNow w'" using reached_time [OF step [of False False]] by simp
  then have y: "rNow y < s0 + hour" using assms(4) by simp
  note p = standing_parts [OF standing_on [OF assms(1,2) y]]
  show ?thesis
  proof (cases "k \<in> set ids")
    case True
    have "settled e k (rNow w') (rSt w')"
      by (rule reached_watch(4) [OF step [of False True] assms(4) p(4)]) (use assms(5) True y in simp_all)
    then show ?thesis ..
  next
    case False
    then show ?thesis using reached_watch(2) [OF step [of True False] assms(4) p(4)] p(5) by simp
  qed
qed

lemma Peek_distinct:
  assumes "svc_PeekQueue e n w = (w', Inr ids)" and "wf_zset (wsQueue (rSt w') e)"
  shows "distinct ids"
  using assms
  by (auto simp: svc_PeekQueue_def repo_GetQueueMembers_def distinct_zrange_below split: if_splits
      dest!: rcall_Inr)

lemma closeLine_safe:
  assumes "standing e k s0 w" and "closeLine e w = (w', r)" and "rNow w' < s0 + hour"
  shows "k \<in> members (wsQueue (rSt w') e) \<or> settled e k (rNow w') (rSt w')"
proof -
  obtain u q where peek: "svc_PeekQueue e sweepBatchSize w = (u, q)"
    by (cases "svc_PeekQueue e sweepBatchSize w")
  have u: "watch.reached True False e k s0 w u"
    by (rule standing_step [OF assms(1) watch_batch.keeps_Peek [where e' = e and n = sweepBatchSize]]) (simp add: peek)
  show ?thesis
  proof (cases q)
    case (Inl err)
    then have "w' = u" using assms(2) by (simp add: closeLine_def andThen_def peek)
    then show ?thesis using standing_parts(5) [OF standing_on [OF assms(1) u]] assms(3) by simp
  next
    case (Inr ids)
    obtain y ls where close: "closeLoop ids u = (y, ls)" by (cases "closeLoop ids u")
    have go: "letGo e ls y = (w', r)"
      using assms(2) by (simp add: closeLine_def andThen_def peek Inr close)
    have "keeps (line_watch True False e k s0) (\<lambda>w. fst (closeLoop ids w)) u"
      by (rule watch_batch.keeps_closeLoop [OF watch_batch.reached_ready [OF u standing_parts(2) [OF assms(1)]]])
        simp
    moreover have "env_in (line_watch True False e k s0) u" using u by (simp add: watch.reached_def)
    ultimately have y': "watch.reached True False e k s0 u y" using watch.keeps_reached by (force simp: close)
    then have y: "watch.reached True False e k s0 w y" by (rule watch.reached_trans [OF u])
    show ?thesis
    proof (rule letGo_safe [OF assms(1) y go assms(3)])
      assume k: "k \<in> set ls" and before: "rNow y < s0 + hour"
      have "rNow u < s0 + hour" using reached_time [OF y'] before by simp
      note p = standing_parts [OF standing_on [OF assms(1) u this]]
      show "settled e k (rNow y) (rSt y)"
        by (rule closeLoop_settles [OF close p(1,2) before p(4) Peek_distinct [OF peek [unfolded Inr] p(3)] k])
    qed
  qed
qed

lemma dropDeadHead_safe:
  assumes "standing e k s0 w" and "dropDeadHead e w = (w', r)" and "rNow w' < s0 + hour"
  shows "k \<in> members (wsQueue (rSt w') e) \<or> settled e k (rNow w') (rSt w')"
proof -
  obtain u q where peek: "svc_PeekQueue e sweepBatchSize w = (u, q)"
    by (cases "svc_PeekQueue e sweepBatchSize w")
  have u: "watch.reached True False e k s0 w u"
    by (rule standing_step [OF assms(1) watch_batch.keeps_Peek [where e' = e and n = sweepBatchSize]])
      (simp add: peek)
  show ?thesis
  proof (cases q)
    case (Inl err)
    then have "w' = u" using assms(2) by (simp add: dropDeadHead_def andThen_def peek)
    then show ?thesis using standing_parts(5) [OF standing_on [OF assms(1) u]] assms(3) by simp
  next
    case (Inr ids)
    obtain y ds where dead: "deadLoop ids u = (y, ds)" by (cases "deadLoop ids u")
    have go: "letGo e ds y = (w', r)"
      using assms(2) by (simp add: dropDeadHead_def andThen_def peek Inr dead)
    have "env_in (line_watch True False e k s0) u" using u by (simp add: watch.reached_def)
    then have y': "watch.reached True False e k s0 u y"
      using watch.keeps_reached [OF watch_batch.keeps_deadLoop, of True False e k s0 u ids] by (simp add: dead)
    then have y: "watch.reached True False e k s0 w y" by (rule watch.reached_trans [OF u])
    show ?thesis
    proof (rule letGo_safe [OF assms(1) y go assms(3)])
      assume k: "k \<in> set ds" and before: "rNow y < s0 + hour"
      have "rNow u < s0 + hour" using reached_time [OF y'] before by simp
      note p = standing_parts [OF standing_on [OF assms(1) u this]]
      show "settled e k (rNow y) (rSt y)" by (rule deadLoop_settles [OF dead p(1) before p(4) k])
    qed
  qed
qed

lemma admitBatch_safe:
  assumes "standing e k s0 w" and "admitBatch x dl e ids w = (w', r)" and "rNow w' < s0 + hour"
    and "0 \<le> xExpiry x" and "distinct ids"
  shows "k \<in> members (wsQueue (rSt w') e) \<or> settled e k (rNow w') (rSt w')"
proof -
  obtain y ad st where all: "admitAll x dl e ids w = (y, ad, st)" by (cases "admitAll x dl e ids w")
  obtain v c where go: "letGo e (ad @ st) y = (v, c)" by (cases "letGo e (ad @ st) y")
  have w': "rNow w' = rNow v" "rSt w' = rSt v" using assms(2) by (auto simp: admitBatch_def all go)
  note p = standing_parts [OF assms(1)]
  have "keeps (line_watch True False e k s0) (\<lambda>w. fst (admitAll x dl e ids w)) w"
    by (rule watch_batch.keeps_admitAll [OF _ p(2) assms(4)]) simp
  then have y: "watch.reached True False e k s0 w y"
    by (rule standing_step [OF assms(1)]) (simp add: all)
  have "k \<in> members (wsQueue (rSt v) e) \<or> settled e k (rNow v) (rSt v)"
  proof (rule letGo_safe [OF assms(1) y go])
    show "rNow v < s0 + hour" using assms(3) by (simp add: w')
    assume k: "k \<in> set (ad @ st)" and before: "rNow y < s0 + hour"
    show "settled e k (rNow y) (rSt y)"
      by (rule admitAll_settles [OF all p(1,2) assms(4) before p(4) assms(5)]) (use k in simp)
  qed
  then show ?thesis by (simp add: w')
qed

lemma keeps_count_watch: "keeps_run (line_watch True False e k s0) (repo_GetProcessingCount e) w"
proof -
  have "obeys (line_watch True False e k s0) t (reapSlots e b)" for t b
    by (auto simp: obeys_def line_watch_def key_ok_reap)
  then show ?thesis
    unfolding repo_GetProcessingCount_def
    by (intro watch.keeps_withNow watch.keeps_rcall) auto
qed

text \<open>Time goes on in each of the three doors.\<close>

lemma standing_time:
  assumes "standing e k s0 u" and "watch.reached True False e k s0 u w" and "0 \<le> xExpiry x"
  shows "rNow w \<le> rNow (fst (closeLine e w))" and "rNow w \<le> rNow (fst (dropDeadHead e w))"
    and "rNow w \<le> rNow (fst (admitBatch x dl e ids w))"
proof -
  have env: "env_in (slots_within e UNIV) w"
    using reached_env [OF assms(2) standing_parts(1) [OF assms(1)]]
    unfolding env_in_def line_watch_def slots_within_def by fastforce
  have ready: "slots_batch.ready s0 w"
    using watch_batch.reached_ready [OF assms(2) standing_parts(2) [OF assms(1)]]
    by (simp add: watch_batch.ready_def slots_batch.ready_def)
  show "rNow w \<le> rNow (fst (closeLine e w))"
    using slots_batch.keeps_closeLine [OF ready, of e UNIV e] env by (simp add: keeps_def onward_def)
  show "rNow w \<le> rNow (fst (dropDeadHead e w))"
    using slots_batch.keeps_dropDeadHead [of e UNIV e w] env by (simp add: keeps_def onward_def)
  show "rNow w \<le> rNow (fst (admitBatch x dl e ids w))"
    using slots_batch.keeps_admitBatch [OF ready, of ids UNIV x e dl] env assms(3) by (simp add: keeps_def onward_def)
qed

text \<open>How a tick ends, by what it learns of the line, the stock and the slots taken.\<close>

lemma ProcessEventQueue_cases:
  assumes "ProcessEventQueue x e w = (w', r)" and "svc_PeekQueue e (xBatchSize x) w = (u, q)"
    and "askStock x e u = (v, a)" and "repo_GetProcessingCount e v = (c, n)"
  obtains (idle) "w' = u \<or> w' = c"
  | (shut) d where "a = Inr d" "stDoor d = DoorSoldOut" "closeLine e v = (w', r)"
  | (paused) d where "a = Inr d" "stDoor d = DoorPaused" "dropDeadHead e v = (w', r)"
  | (batch) d i ids where "q = Inr ids"
      "admitBatch x (rNow w + 10 * second) e (take (admitCount (length ids) d i) ids) c = (w', r)"
proof -
  obtain d where a: "a = Inr d" using assms(3) by (auto simp: askStock_def split: prod.splits)
  show thesis
  proof (cases q)
    case (Inl err)
    then show thesis using assms(1) by (intro idle) (simp add: ProcessEventQueue_def andThen_def assms(2))
  next
    case (Inr ids)
    have "(if ids = [] then (u, Inr ()) else case stDoor d of
          DoorPaused \<Rightarrow> dropDeadHead e v | DoorSoldOut \<Rightarrow> closeLine e v
        | DoorOpen \<Rightarrow> (case n of Inl err \<Rightarrow> (c, Inl err) | Inr i \<Rightarrow>
            if admitCount (length ids) d i = 0 then (c, Inr ())
            else admitBatch x (rNow w + 10 * second) e (take (admitCount (length ids) d i) ids) c)) = (w', r)"
      using assms(1)
      by (auto simp: ProcessEventQueue_def Let_def andThen_def assms(2) Inr assms(3)[unfolded a] assms(4) split: door.splits sum.splits)
    then show thesis
      using idle shut [OF a] paused [OF a] batch [OF Inr] by (auto split: if_splits door.splits sum.splits)
  qed
qed

text \<open>
  C2. Nobody is lost. A session standing in the line of an event, which no other process
  touches meanwhile, is after a tick still in the line, or it is settled: its key is gone, it
  has ended or expired, or it was admitted, with its slot taken, or its checkout over. This
  holds whatever call of the tick is lost or cut, however often it is retried, whatever other
  processes do to other sessions, and wherever the tick stops.
\<close>

theorem nobody_lost:
  assumes "env_in (line_watch True True e k (rNow w)) w" and "own_ids (rSt w)"
    and "wf_zset (wsQueue (rSt w) e)" and "key_ok e (rNow w) (rSt w)" and "0 \<le> xExpiry x"
    and "k \<in> members (wsQueue (rSt w) e)"
    and "ProcessEventQueue x e w = (w', r)" and "rNow w' < rNow w + hour"
  shows "k \<in> members (wsQueue (rSt w') e) \<or> settled e k (rNow w') (rSt w')"
proof -
  let ?s0 = "rNow w" and ?more = "watch.reached True False e k (rNow w)"
  have st: "standing e k ?s0 w" using assms(1-4,6) by (simp add: standing_def)
  have stays: ?thesis if "?more w w'" using standing_parts(5) [OF standing_on [OF st that assms(8)]] ..
  obtain u q where peek: "svc_PeekQueue e (xBatchSize x) w = (u, q)"
    by (cases "svc_PeekQueue e (xBatchSize x) w")
  obtain v a where ask: "askStock x e u = (v, a)" by (cases "askStock x e u")
  obtain c n where count: "repo_GetProcessingCount e v = (c, n)" by (cases "repo_GetProcessingCount e v")
  have u: "?more w u"
    by (rule standing_step [OF st watch_batch.keeps_Peek [where e' = e and n = "xBatchSize x"]])
      (simp add: peek)
  have next1: "?more w z" if "?more w y" "keeps (line_watch True False e k ?s0) f y" "f y = z" for f y z
    using watch.reached_trans [OF that(1)] watch.keeps_reached [OF that(2)] that(1,3)
    by (simp add: watch.reached_def)
  have v: "?more w v" by (rule next1 [OF u watch_batch.keeps_askStock]) (rule arg_cong [OF ask, of fst, simplified])
  have c: "?more w c" by (rule next1 [OF v keeps_count_watch]) (simp add: count)
  have standing: "standing e k ?s0 z" if "?more w z" "rNow z \<le> rNow w'" for z
    using standing_on [OF st that(1)] that(2) assms(8) by simp
  from assms(7) peek ask count show ?thesis
  proof (cases rule: ProcessEventQueue_cases)
    case idle
    then show ?thesis using stays u c by auto
  next
    case (shut d)
    have "standing e k ?s0 v" using standing [OF v] standing_time(1) [OF st v assms(5)] by (simp add: shut)
    then show ?thesis by (rule closeLine_safe [OF _ shut(3) assms(8)])
  next
    case (paused d)
    have "standing e k ?s0 v" using standing [OF v] standing_time(2) [OF st v assms(5)] by (simp add: paused)
    then show ?thesis by (rule dropDeadHead_safe [OF _ paused(3) assms(8)])
  next
    case (batch d i ids)
    have "standing e k ?s0 c"
      by (rule standing [OF c]) (use standing_time(3) [OF st c assms(5)] batch(2) in \<open>metis fst_conv\<close>)
    moreover have "wf_zset (wsQueue (rSt u) e)"
      using u assms(3) by (simp add: watch.reached_def line_watch_def now_at_def)
    then have "distinct ids" by (rule Peek_distinct [OF peek [unfolded batch(1)]])
    ultimately show ?thesis using admitBatch_safe [OF _ batch(2) assms(8,5)] by simp
  qed
qed

text \<open>The demo's tick, when inventory has just answered that the event is sold out.\<close>

definition wr_closing :: room where
  "wr_closing = wr_room0\<lparr>rStockGate := (\<lambda>_. Some (\<lparr>stDoor = DoorSoldOut, stAvailable = 0, stCounted = True\<rparr>,
     200 * second))\<rparr>"

lemma wr_closing_simps [simp]:
  "rEnv wr_closing = []" "rNow wr_closing = 100 * second" "rSt wr_closing = wr_store0"
  "rStockGate wr_closing = (\<lambda>_. Some (\<lparr>stDoor = DoorSoldOut, stAvailable = 0, stCounted = True\<rparr>, 200 * second))"
  by (simp_all add: wr_closing_def)

definition calm :: "room \<Rightarrow> room \<Rightarrow> bool" where
  "calm w w' \<longleftrightarrow> rNow w' = rNow w \<and> rEnv w' = []"

lemma calm_rcall: "rEnv w = [] \<Longrightarrow> calm w (fst (rcall cmds ans w))"
  by (simp add: rcall_calm calm_def)

lemma calm_andThen:
  assumes "calm w (fst (m w))" and "\<And>y v. calm w v \<Longrightarrow> calm v (fst (k y v))"
  shows "calm w (fst (andThen m k w))"
  using assms by (auto simp: andThen_def calm_def split: prod.splits sum.splits)

lemma calm_sessions:
  assumes "rEnv w = []"
  shows "calm w (fst (svc_GetSession k w))" and "calm w (fst (svc_UpdateSessionStatus k st w))"
  using assms
  by (auto simp: svc_GetSession_def svc_UpdateSessionStatus_def notFoundIfNil_def settle_def repo_Get_def
      repo_UpdateStatus_def repo_Update_def getTTL_def andThen_def Let_def rcall_calm calm_def
      split: option.splits sum.splits prod.splits)

lemma calm_closeLoop: "rEnv w = [] \<Longrightarrow> calm w (fst (closeLoop ks w))"
proof (induction ks arbitrary: w)
  case Nil
  then show ?case by (simp add: calm_def)
next
  case (Cons k ks)
  obtain v r where get: "svc_GetSession k w = (v, r)" by (cases "svc_GetSession k w")
  have v: "calm w v" using calm_sessions(1) [OF Cons.prems, of k] by (simp add: get)
  obtain y c where upd: "svc_UpdateSessionStatus k SessionStatusSoldOut v = (y, c)"
    by (cases "svc_UpdateSessionStatus k SessionStatusSoldOut v")
  have y: "calm v y" using calm_sessions(2) [of v k SessionStatusSoldOut] v by (simp add: upd calm_def)
  show ?case
    using v y Cons.IH [of v] Cons.IH [of y] by (auto simp: get upd calm_def split: sum.split prod.split)
qed

lemma calm_closeLine: "rEnv w = [] \<Longrightarrow> calm w (fst (closeLine e w))"
  unfolding closeLine_def
proof (rule calm_andThen)
  assume w: "rEnv w = []"
  show "calm w (fst (svc_PeekQueue e sweepBatchSize w))"
    using w by (simp add: svc_PeekQueue_def sweepBatchSize_def repo_GetQueueMembers_def calm_rcall)
  fix ids v assume "calm w v"
  then have v: "rEnv v = []" by (simp add: calm_def)
  obtain y ls where close: "closeLoop ids v = (y, ls)" by (cases "closeLoop ids v")
  have "calm v y" using calm_closeLoop [OF v, of ids] by (simp add: close)
  then show "calm v (fst (case closeLoop ids v of (w', leaving) \<Rightarrow> letGo e leaving w'))"
    by (simp add: close letGo_def repo_RemoveFromQueue_def settle_def rcall_calm calm_def)
qed

lemma wr_closing_time: "rNow (fst (ProcessEventQueue wr_ext0 ''e'' wr_closing)) = 100 * second"
proof -
  have "svc_PeekQueue ''e'' 10 wr_closing = (wr_closing, Inr [''s1'', ''s2''])"
    by (simp add: svc_PeekQueue_def repo_GetQueueMembers_def rcall_calm unix_def float64_seconds zrange_below_def)
      (simp add: wr_store0_def score_unit_def second_def)
  moreover have "stockGate_lookup ''e'' wr_closing =
      Some \<lparr>stDoor = DoorSoldOut, stAvailable = 0, stCounted = True\<rparr>"
    by (simp add: stockGate_lookup_def second_def)
  moreover have "calm wr_closing (fst (closeLine ''e'' wr_closing))" by (rule calm_closeLine) simp
  ultimately show ?thesis
    by (simp add: ProcessEventQueue_def andThen_def askStock_def stockGate_Stock_def calm_def Let_def)
qed

lemma nobody_lost_witness:
  "''s2'' \<in> members (wsQueue (rSt (fst (ProcessEventQueue wr_ext0 ''e'' wr_closing))) ''e'') \<or>
   settled ''e'' ''s2'' (rNow (fst (ProcessEventQueue wr_ext0 ''e'' wr_closing)))
     (rSt (fst (ProcessEventQueue wr_ext0 ''e'' wr_closing)))"
  by (rule nobody_lost [OF _ _ _ _ _ _ surjective_pairing])
    (simp_all add: env_empty wr_own_ids wr_closing_time hour_def minute_def second_def key_ok_def,
     simp_all add: wr_store0_def wf_zset_def score_unit_def second_def minute_def hour_def)

end
