(* ===== verification/Waitroom_Delivery.thy ===== *)
theory Waitroom_Delivery
  imports Waitroom_Processor
begin

text \<open>
  The waiting room's delivery layers. gRPC (\<open>waitroom-svc/internal/delivery/grpc\<close>): the three
  RPCs, their messages and the status of every error. Kafka
  (\<open>waitroom-svc/internal/delivery/kafka\<close>): the consumer of finished checkouts, which tries a
  message a few times, parks it on its dead-letter topic, and marks it only once it is handled or
  parked. Times are formatted and parsed by parameters; a dead letter's reason and time
  headers are left out.
\<close>

section \<open>Status codes\<close>

definition wrErr :: "grpc_code \<Rightarrow> string \<Rightarrow> string \<Rightarrow> delivery_error" where
  "wrErr c code msg = GRPCError c (code @ '' - '' @ msg)"

definition mapGRPCError :: "wr_error \<Rightarrow> delivery_error" where
  "mapGRPCError e =
     (case e of
        ErrSessionNotFound \<Rightarrow> wrErr NotFound ''WTR001'' ''Session not found''
      | ErrSessionExpired \<Rightarrow> wrErr FailedPrecondition ''WTR002'' ''Session expired''
      | ErrSessionAlreadyExists \<Rightarrow> wrErr AlreadyExists ''WTR003'' ''Session already exists''
      | ErrInvalidSessionStatus \<Rightarrow> wrErr FailedPrecondition ''WTR004'' ''Invalid session status''
      | ErrQueueFull \<Rightarrow> wrErr FailedPrecondition ''WTR005'' ''Queue is full''
      | ErrEventNotFound \<Rightarrow> wrErr NotFound ''WTR006'' ''Event not found''
      | ErrEventConfigNotFound \<Rightarrow> wrErr NotFound ''WTR008'' ''Event config not found''
      | ErrWaitRoomNotAllowed \<Rightarrow> wrErr FailedPrecondition ''WTR009'' ''Wait room is not allowed''
      | ErrSoldOut \<Rightarrow> wrErr FailedPrecondition ''WTR012'' ''Sold out''
      | ErrEventServiceUnavailable \<Rightarrow> wrErr Unavailable ''WTR010'' ''Event service unavailable''
      | ErrEventServiceTimeout \<Rightarrow> wrErr DeadlineExceeded ''WTR011'' ''Event service timed out''
      | _ \<Rightarrow> PlainError ''waitroom'')"

definition isFault :: "grpc_code \<Rightarrow> bool" where
  "isFault c \<longleftrightarrow> c = Internal \<or> c = Unknown \<or> c = Unavailable \<or> c = DeadlineExceeded \<or> c = DataLoss"

definition failed :: "wr_error \<Rightarrow> grpc_status" where
  "failed e = GrpcError (mapGRPCError e)"

definition wireReply :: "('a \<Rightarrow> 'b) \<Rightarrow> 'a wr \<Rightarrow> room \<Rightarrow> room \<times> (grpc_status + 'b)" where
  "wireReply f m w = (case m w of (w', Inl e) \<Rightarrow> (w', Inl (failed e)) | (w', Inr y) \<Rightarrow> (w', Inr (f y)))"

section \<open>The RPCs\<close>

record pb_join_response =
  pjSessionId :: string
  pjPosition :: int
  pjQueueLength :: int
  pjQueuedAt :: string
  pjExpiresAt :: string

datatype pb_session_status =
  SESSION_STATUS_UNSPECIFIED | SESSION_STATUS_QUEUED | SESSION_STATUS_PROCESSING
  | SESSION_STATUS_READY | SESSION_STATUS_ACTIVE | SESSION_STATUS_COMPLETED
  | SESSION_STATUS_FAILED | SESSION_STATUS_EXPIRED | SESSION_STATUS_CANCELLED

record pb_queue_status =
  pqSessionId :: string
  pqStatus :: pb_session_status
  pqPosition :: int
  pqQueueLength :: int
  pqQueuedAt :: string
  pqExpiresAt :: string
  pqCheckoutToken :: string
  pqCheckoutUrl :: string
  pqPaused :: bool
  pqCheckoutExpiresAt :: string
  pqAdmittedAt :: string

definition convertSessionStatusToProto :: "session_status \<Rightarrow> pb_session_status" where
  "convertSessionStatusToProto st =
     (case st of
        SessionStatusQueued \<Rightarrow> SESSION_STATUS_QUEUED
      | SessionStatusAdmitted \<Rightarrow> SESSION_STATUS_READY
      | SessionStatusCompleted \<Rightarrow> SESSION_STATUS_COMPLETED
      | SessionStatusExpired \<Rightarrow> SESSION_STATUS_EXPIRED
      | SessionStatusFailed \<Rightarrow> SESSION_STATUS_FAILED
      | SessionStatusAbandoned \<Rightarrow> SESSION_STATUS_CANCELLED
      | _ \<Rightarrow> SESSION_STATUS_UNSPECIFIED)"

definition grpc_JoinQueue ::
  "(time \<Rightarrow> string) \<Rightarrow> wr_ext \<Rightarrow> string \<Rightarrow> int \<Rightarrow> join_input \<Rightarrow> room \<Rightarrow> room \<times> (grpc_status + pb_join_response)" where
  "grpc_JoinQueue fmt x k lot req =
     wireReply (\<lambda>out. \<lparr>pjSessionId = joSessionID out, pjPosition = joPosition out,
         pjQueueLength = joQueueLength out, pjQueuedAt = fmt (joQueuedAt out),
         pjExpiresAt = fmt (joExpiresAt out)\<rparr>)
       (wr_JoinQueue x k lot req)"

definition grpc_GetQueueStatus ::
  "(time \<Rightarrow> string) \<Rightarrow> wr_ext \<Rightarrow> string \<Rightarrow> string \<Rightarrow> room \<Rightarrow> room \<times> (grpc_status + pb_queue_status)" where
  "grpc_GetQueueStatus fmt x k userID =
     wireReply (\<lambda>out. \<lparr>pqSessionId = qsSessionID out, pqStatus = convertSessionStatusToProto (qsStatus out),
         pqPosition = qsPosition out, pqQueueLength = qsQueueLength out,
         pqQueuedAt = fmt (qsQueuedAt out), pqExpiresAt = fmt (qsExpiresAt out),
         pqCheckoutToken = qsCheckoutToken out, pqCheckoutUrl = qsCheckoutURL out,
         pqPaused = qsPaused out,
         pqCheckoutExpiresAt = (case qsCheckoutExpiresAt out of None \<Rightarrow> [] | Some t \<Rightarrow> fmt t),
         pqAdmittedAt = (case qsAdmittedAt out of None \<Rightarrow> [] | Some t \<Rightarrow> fmt t)\<rparr>)
       (wr_GetQueueStatus x k userID)"

definition grpc_LeaveQueue :: "string \<Rightarrow> string \<Rightarrow> room \<Rightarrow> room \<times> (grpc_status + string \<times> string)" where
  "grpc_LeaveQueue k userID =
     wireReply (\<lambda>_. (k, ''Queue left successfully'')) (wr_LeaveQueue k userID)"

section \<open>The consumer of finished checkouts\<close>

definition TopicCheckoutCompleted :: string where "TopicCheckoutCompleted = ''checkout.completed''"
definition TopicCheckoutFailed :: string where "TopicCheckoutFailed = ''checkout.failed''"
definition TopicCheckoutExpired :: string where "TopicCheckoutExpired = ''checkout.expired''"
definition DLQTopic :: "string \<Rightarrow> string" where "DLQTopic topic = topic @ ''.dlq''"

definition decodeEventTime :: "(string \<Rightarrow> time option) \<Rightarrow> string option \<Rightarrow> time" where
  "decodeEventTime parse raw =
     (case raw of
        None \<Rightarrow> zero_time
      | Some s \<Rightarrow> if TrimSpace s = [] then zero_time
                  else case parse s of None \<Rightarrow> zero_time | Some t \<Rightarrow> t)"

definition OrElse :: "time \<Rightarrow> time \<Rightarrow> time" where
  "OrElse t fallback = (if t = zero_time then fallback else t)"

datatype consumer_error = Permanent | Failed wr_error

definition handled :: "wr_ext \<Rightarrow> (checkout_input \<Rightarrow> unit wr) \<Rightarrow> checkout_message
    \<Rightarrow> room \<Rightarrow> room \<times> (consumer_error + unit)" where
  "handled x handler msg w =
     (case cmBody msg of
        None \<Rightarrow> (w, Inl Permanent)
      | Some e \<Rightarrow>
          (case handler \<lparr>ciSessionID = ceSessionID e, ciUserID = ceUserID e, ciEventID = ceEventID e,
                  ciTimestamp = OrElse (decodeEventTime (xParseISO x) (ceTimestamp e)) (cmTimestamp msg)\<rparr> w of
             (w', Inl err) \<Rightarrow> (w', Inl (Failed err))
           | (w', Inr _) \<Rightarrow> (w', Inr ())))"

definition processMessage :: "wr_ext \<Rightarrow> checkout_message \<Rightarrow> room \<Rightarrow> room \<times> (consumer_error + unit)" where
  "processMessage x msg =
     (if cmTopic msg = TopicCheckoutCompleted then handled x (wr_HandleCheckoutCompleted x) msg
      else if cmTopic msg = TopicCheckoutFailed then handled x (wr_HandleCheckoutFailed x) msg
      else if cmTopic msg = TopicCheckoutExpired then handled x (wr_HandleCheckoutExpired x) msg
      else (\<lambda>w. (w, Inr ())))"

fun delayFor :: "duration \<Rightarrow> nat \<Rightarrow> duration" where
  "delayFor base 0 = base"
| "delayFor base (Suc 0) = base"
| "delayFor base (Suc (Suc n)) = 2 * delayFor base (Suc n)"

definition PublishDeadLetter :: "checkout_message \<Rightarrow> nat \<Rightarrow> unit wr" where
  "PublishDeadLetter msg attempts = rcall
     [\<lambda>_ s. s\<lparr>wsDeadLetters := wsDeadLetters s @
        [\<lparr>dlTopic = DLQTopic (cmTopic msg), dlMessage = msg, dlAttempts = attempts\<rparr>]\<rparr>]
     (\<lambda>_ _. Inr ())"

text \<open>\<open>stop\<close>: when the session's context is done, if it will be; a wait that it cuts short commits nothing.\<close>

definition park :: "checkout_message \<Rightarrow> nat \<Rightarrow> bool wr" where
  "park msg attempts = andThen (PublishDeadLetter msg attempts) (\<lambda>_. ret True)"

fun deliverLoop ::
  "wr_ext \<Rightarrow> time option \<Rightarrow> duration \<Rightarrow> checkout_message \<Rightarrow> nat \<Rightarrow> nat \<Rightarrow> bool wr" where
  "deliverLoop x stop base msg 0 attempt w = park msg attempt w"
| "deliverLoop x stop base msg (Suc n) attempt w =
     (case processMessage x msg w of
        (w', Inr _) \<Rightarrow> (w', Inr True)
      | (w', Inl e) \<Rightarrow>
          if e = Permanent \<or> n = 0 then park msg (Suc attempt) w'
          else let t = rNow w' + max 0 (delayFor base (Suc attempt))
               in case stop of
                    Some c \<Rightarrow> if c \<le> t then (w'\<lparr>rNow := max (rNow w') c\<rparr>, Inr False)
                              else deliverLoop x stop base msg n (Suc attempt) (w'\<lparr>rNow := t\<rparr>)
                  | None \<Rightarrow> deliverLoop x stop base msg n (Suc attempt) (w'\<lparr>rNow := t\<rparr>))"

definition deliver :: "wr_ext \<Rightarrow> time option \<Rightarrow> nat \<Rightarrow> duration \<Rightarrow> checkout_message \<Rightarrow> bool wr" where
  "deliver x stop maxAttempts base msg = deliverLoop x stop base msg (max maxAttempts 1) 0"

text \<open>
  One session on a partition, over the messages still to come; the session's context ends it
  before any message from \<open>stop\<close> on. The result lists the messages marked.
\<close>

fun consumeClaim ::
  "wr_ext \<Rightarrow> time option \<Rightarrow> nat \<Rightarrow> duration \<Rightarrow> checkout_message list \<Rightarrow> room
     \<Rightarrow> room \<times> checkout_message list \<times> wr_error option" where
  "consumeClaim x stop maxA base [] w = (w, [], None)"
| "consumeClaim x stop maxA base (m # ms) w =
     (if (case stop of None \<Rightarrow> False | Some c \<Rightarrow> c \<le> rNow w) then (w, [], None)
      else case deliver x stop maxA base m w of
        (w', Inl e) \<Rightarrow> (w', [], Some e)
      | (w', Inr commit) \<Rightarrow>
          if commit
          then (case consumeClaim x stop maxA base ms w' of (w2, marked, e) \<Rightarrow> (w2, m # marked, e))
          else (w', [], None))"

text \<open>How long \<open>Start\<close> waits before it joins the group again.\<close>

definition maxRejoinBackoff :: duration where
  "maxRejoinBackoff = 30 * second"

definition rejoinBackoff :: "duration \<Rightarrow> bool \<Rightarrow> duration \<Rightarrow> duration" where
  "rejoinBackoff base ended_in_error backoff =
     (if ended_in_error then min (backoff * 2) maxRejoinBackoff else base)"

end
