(* ===== verification/Waitroom_Delivery_Props.thy ===== *)
theory Waitroom_Delivery_Props
  imports Waitroom_Delivery Waitroom_Safety
begin

text \<open>
  What becomes of a finished checkout. A session is \<open>finished\<close> when its key is gone or its
  status is terminal. \<open>checkout_watch X\<close> is the observation that finished sessions outside
  \<open>X\<close> stay finished, that no dead letter disappears, and that a session stays under its id.
\<close>

definition finished :: "string \<Rightarrow> moment \<Rightarrow> bool" where
  "finished k m \<longleftrightarrow>
     (case liveKey (fst m) (wsSessions (snd m) k) of None \<Rightarrow> True | Some ss \<Rightarrow> IsTerminal ss)"

definition checkout_watch :: "string set \<Rightarrow> moment \<Rightarrow> moment \<Rightarrow> bool" where
  "checkout_watch X l m \<longleftrightarrow> fst l \<le> fst m \<and> (own_ids (snd l) \<longrightarrow> own_ids (snd m)) \<and>
     set (wsDeadLetters (snd l)) \<subseteq> set (wsDeadLetters (snd m)) \<and>
     (\<forall>k. k \<notin> X \<and> finished k l \<longrightarrow> finished k m)"

lemma finished_later: "0 \<le> d \<Longrightarrow> finished k (t, s) \<Longrightarrow> finished k (t + d, s)"
  using liveKey_later [of t "t + d" "wsSessions s k"]
  by (fastforce simp: finished_def split: option.splits)

interpretation ends: observation "checkout_watch X" for X
  by unfold_locales (auto simp: checkout_watch_def finished_later)

lemma watch_weaker: "env_in (checkout_watch {}) w \<Longrightarrow> env_in (checkout_watch X) w"
  unfolding env_in_def checkout_watch_def by fastforce

lemma onward_env: "onward w w' \<Longrightarrow> env_in P w \<Longrightarrow> env_in P w'"
  unfolding onward_def env_in_def by blast

section \<open>The commands of a handler\<close>

lemma obeys_session:
  assumes "ssID ss = k" and "k \<in> X \<or> IsTerminal ss"
  shows "obeys (checkout_watch X) t (setSession k ss ttl)"
  unfolding obeys_def
proof (intro allI impI)
  fix t' s
  have "finished k' (t', setSession k ss ttl t' s)" if "k' \<notin> X" "finished k' (t', s)" for k'
    using that assms(2) by (auto simp: finished_def liveKey_def)
  then show "checkout_watch X (t', s) (t', setSession k ss ttl t' s)"
    using own_ids_setSession [OF _ assms(1)] by (simp add: checkout_watch_def setSession_def)
qed

lemma obeys_sameSessions:
  assumes "\<And>t s. wsSessions (c t s) = wsSessions s" and "\<And>t s. wsDeadLetters (c t s) = wsDeadLetters s"
  shows "obeys (checkout_watch X) t0 c"
  using assms own_ids_cong [OF assms(1)] by (auto simp: obeys_def checkout_watch_def finished_def)

lemma obeys_freeSlot: "obeys (checkout_watch X) t (freeSlot e k)"
  by (rule obeys_sameSessions) (simp_all add: freeSlot_def Let_def split_beta)

lemma keeps_getTTL: "keeps_run (checkout_watch X) (getTTL k) w"
  unfolding getTTL_def by (rule ends.keeps_read)

lemma keeps_repo_Get: "keeps_run (checkout_watch X) (repo_Get k) w"
  unfolding repo_Get_def by (rule ends.keeps_read)

lemma keeps_svc_Get: "keeps_run (checkout_watch X) (svc_GetSession k) w"
  unfolding svc_GetSession_def notFoundIfNil_def
  by (rule ends.keeps_settle [OF keeps_repo_Get]) (simp add: ends.keeps_id split: sum.split)

lemma keeps_UpdateSession:
  assumes "ssID ss \<in> X \<or> IsTerminal ss"
  shows "keeps_run (checkout_watch X) (svc_UpdateSession ss) w"
  unfolding svc_UpdateSession_def repo_Update_def Let_def
  using assms
  by (intro ends.keeps_withNow ends.keeps_andThen keeps_getTTL ends.keeps_rcall)
    (auto intro!: obeys_session simp: IsTerminal_def)

text \<open>What is read of a session that is finished is terminal.\<close>

lemma Get_terminal:
  assumes "repo_Get k w = (w', Inr ss)" and "ends.reached {} w w' \<or> ends.reached X w w' \<and> k \<notin> X"
    and "finished k (now_at w)"
  shows "IsTerminal ss"
proof -
  have "finished k (now_at w')"
    using assms(2,3) by (auto simp: ends.reached_def checkout_watch_def)
  moreover have "liveKey (rNow w') (wsSessions (rSt w') k) = Some ss"
    using rcall_Inr [OF assms(1) [unfolded repo_Get_def]] by (auto split: option.splits)
  ultimately show ?thesis by (simp add: finished_def now_at_def)
qed

lemma reached_own: "ends.reached X w w' \<Longrightarrow> own_ids (rSt w) \<Longrightarrow> own_ids (rSt w')"
  by (simp add: ends.reached_def checkout_watch_def now_at_def)

lemma keeps_InvalidateToken:
  assumes "own_ids (rSt w)" and "k \<in> X \<or> finished k (now_at w)"
  shows "keeps_run (checkout_watch X) (repo_InvalidateToken h k reason) w"
  unfolding repo_InvalidateToken_def
proof (rule ends.keeps_andThen [OF keeps_repo_Get])
  fix ss v assume got: "repo_Get k w = (v, Inr ss)" and v: "ends.reached X w v"
  have id: "ssID ss = k" using Get_own [OF got reached_own [OF v assms(1)]] .
  have "k \<in> X \<or> IsTerminal ss" using Get_terminal [OF got] v assms(2) by blast
  then have "obeys (checkout_watch X) t (setSession k (ss\<lparr>ssTokenInvalidated := True,
      ssTokenInvalidatedAt := Some now, ssTokenInvalidationReason := reason, ssUpdatedAt := now\<rparr>) ttl)"
    for t now ttl using id by (intro obeys_session) (auto simp: IsTerminal_def)
  moreover have "obeys (checkout_watch X) t (\<lambda>t s. s\<lparr>wsBlacklist := f t s\<rparr>)" for t f
    by (rule obeys_sameSessions) simp_all
  ultimately show "keeps_run (checkout_watch X) (if ssCheckoutToken ss = [] then ret ()
       else withNow (\<lambda>now.
         let ss' = ss\<lparr>ssTokenInvalidated := True, ssTokenInvalidatedAt := Some now,
                      ssTokenInvalidationReason := reason, ssUpdatedAt := now\<rparr>
         in settle (getTTL k) (\<lambda>r.
              let ttl = (case r of Inl e \<Rightarrow> 0 | Inr t \<Rightarrow> t)
              in rcall
                   [\<lambda>t s. s\<lparr>wsBlacklist := (wsBlacklist s)(h (ssCheckoutToken ss) := Some (t + blacklistTTL now ss))\<rparr>,
                    setSession k ss' (if ttl \<le> 0 then sessionTTL else ttl)]
                   (\<lambda>_ _. Inr ())))) v"
    by (cases "ssCheckoutToken ss = []")
      (simp add: ends.keeps_id,
       simp only: if_False Let_def, rule ends.keeps_withNow, rule ends.keeps_settle [OF keeps_getTTL],
       rule ends.keeps_rcall, auto)
qed

section \<open>A handler\<close>

text \<open>The end of a checkout whose session is \<open>k\<close>, whatever is lost: others' sessions stay finished.\<close>

definition ends_checkout :: "(session \<Rightarrow> session) \<Rightarrow> bool" where
  "ends_checkout f \<longleftrightarrow> (\<forall>ss. ssID (f ss) = ssID ss \<and> IsTerminal (f ss))"

lemma keeps_endCheckout_from:
  assumes "ends_checkout f" and "own_ids (rSt w)" and "ciSessionID inp \<in> X \<or> finished (ciSessionID inp) (now_at w)"
  shows "keeps_run (checkout_watch X) (endCheckout x reason f inp) w"
  unfolding endCheckout_def
proof (rule ends.keeps_settle [OF keeps_svc_Get])
  let ?k = "ciSessionID inp"
  fix r v assume got: "svc_GetSession ?k w = (v, r)" and v: "ends.reached X w v"
  have own: "own_ids (rSt v)" using v assms(2) by (rule reached_own)
  have fin: "?k \<in> X \<or> finished ?k (now_at v)"
    using v assms(3) by (auto simp: ends.reached_def checkout_watch_def)
  show "keeps_run (checkout_watch X) (case r of
       Inl e \<Rightarrow> if e = ErrSessionNotFound then ret () else fail e
     | Inr ss \<Rightarrow>
         settle (svc_InvalidateCheckoutToken x ?k reason) (\<lambda>_.
         settle (repo_RemoveFromProcessing (ciEventID inp) ?k) (\<lambda>_.
         svc_UpdateSession (f ss)))) v"
  proof (cases r)
    case (Inl e)
    then show ?thesis by (simp add: ends.keeps_id)
  next
    case (Inr ss)
    have "keeps_run (checkout_watch X) (settle (svc_InvalidateCheckoutToken x ?k reason) (\<lambda>_.
         settle (repo_RemoveFromProcessing (ciEventID inp) ?k) (\<lambda>_.
         svc_UpdateSession (f ss)))) v"
      unfolding svc_InvalidateCheckoutToken_def repo_RemoveFromProcessing_def
    proof (intro ends.keeps_settle keeps_InvalidateToken [OF own fin] ends.keeps_rcall keeps_UpdateSession)
      show "obeys (checkout_watch X) t c" if "c \<in> set [freeSlot (ciEventID inp) ?k]" for t c
        using that by (simp add: obeys_freeSlot)
      show "ssID (f ss) \<in> X \<or> IsTerminal (f ss)" using assms(1) by (simp add: ends_checkout_def)
    qed
    then show ?thesis by (simp add: Inr)
  qed
qed

lemma keeps_endCheckout:
  assumes "ends_checkout f" and "own_ids (rSt w)"
  shows "keeps_run (checkout_watch {}) (endCheckout x reason f inp) w"
proof (cases "finished (ciSessionID inp) (now_at w)")
  case True
  then show ?thesis by (intro keeps_endCheckout_from assms) simp
next
  case False
  let ?k = "ciSessionID inp" and ?w = "fst (endCheckout x reason f inp w)"
  show ?thesis
    unfolding keeps_def
  proof
    assume env: "env_in (checkout_watch {}) w"
    have "keeps_run (checkout_watch {?k}) (endCheckout x reason f inp) w"
      by (rule keeps_endCheckout_from [OF assms]) simp
    then have "ends.reached {?k} w ?w"
      by (rule ends.keeps_reached) (rule watch_weaker [OF env])
    then have to: "onward w ?w" and p: "checkout_watch {?k} (now_at w) (now_at ?w)"
      by (simp_all add: ends.reached_def)
    have "env_in (checkout_watch {}) ?w"
      using to env by (rule onward_env)
    moreover have "checkout_watch {} (now_at w) (now_at ?w)"
      unfolding checkout_watch_def
    proof (intro conjI allI impI)
      show "finished k (now_at ?w)" if "k \<notin> {} \<and> finished k (now_at w)" for k
        using p that False by (cases "k = ?k") (simp_all add: checkout_watch_def)
    qed (use p in \<open>simp_all add: checkout_watch_def\<close>)
    ultimately show "checkout_watch {} (now_at w) (now_at ?w) \<and> env_in (checkout_watch {}) ?w \<and> onward w ?w"
      using to by simp
  qed
qed

lemma endCheckout_finishes:
  assumes "endCheckout x reason f inp w = (w', Inr u)" and "ends_checkout f"
    and "env_in (checkout_watch {}) w" and "own_ids (rSt w)"
  shows "finished (ciSessionID inp) (now_at w')"
proof -
  let ?k = "ciSessionID inp"
  obtain v r where get: "svc_GetSession ?k w = (v, r)" by (cases "svc_GetSession ?k w")
  show ?thesis
  proof (cases r)
    case (Inl e)
    then show ?thesis
      using assms(1) GetSession_outcome [OF get]
      by (auto simp: endCheckout_def settle_def get finished_def now_at_def split: if_splits)
  next
    case (Inr ss)
    have v: "ends.reached {} w v"
      using ends.keeps_reached [OF keeps_svc_Get assms(3), of ?k] by (simp add: get)
    have "ssID ss = ?k"
      using get Inr reached_own [OF v assms(4)] by (auto simp: GetSession_Inr intro: Get_own)
    moreover obtain y where "svc_UpdateSession (f ss) y = (w', Inr u)"
      using assms(1) by (auto simp: endCheckout_def settle_def get Inr split: prod.splits)
    ultimately show ?thesis
      using assms(2) Update_outcome [of "ssID (f ss)" "f ss" y w' "Inr u"]
      by (auto simp: svc_UpdateSession_def ends_checkout_def finished_def now_at_def liveKey_def IsTerminal_def
          split: option.splits if_splits)
  qed
qed

section \<open>A message\<close>

text \<open>A message is dealt with: it is none of this consumer's, or its session is finished, or it is parked.\<close>

definition dealt_with :: "checkout_message \<Rightarrow> room \<Rightarrow> bool" where
  "dealt_with m w \<longleftrightarrow>
     cmTopic m \<notin> {TopicCheckoutCompleted, TopicCheckoutFailed, TopicCheckoutExpired} \<or>
     (\<exists>n. \<lparr>dlTopic = DLQTopic (cmTopic m), dlMessage = m, dlAttempts = n\<rparr> \<in> set (wsDeadLetters (rSt w))) \<or>
     (\<exists>e. cmBody m = Some e \<and> finished (ceSessionID e) (now_at w))"

lemma dealt_with_later: "ends.reached {} w w' \<Longrightarrow> dealt_with m w \<Longrightarrow> dealt_with m w'"
  unfolding dealt_with_def ends.reached_def checkout_watch_def now_at_def by (auto simp: subset_iff)

lemma checkout_endings:
  "ends_checkout (\<lambda>ss. ss\<lparr>ssStatus := SessionStatusCompleted, ssCompletedAt := t\<rparr>)"
  "ends_checkout (\<lambda>ss. ss\<lparr>ssStatus := SessionStatusFailed\<rparr>)"
  "ends_checkout (\<lambda>ss. ss\<lparr>ssStatus := SessionStatusExpired\<rparr>)"
  by (simp_all add: ends_checkout_def IsTerminal_def)

text \<open>What the consumer relies on of a handler.\<close>

definition sound_handler :: "(checkout_input \<Rightarrow> unit wr) \<Rightarrow> bool" where
  "sound_handler h \<longleftrightarrow> (\<forall>inp w. own_ids (rSt w) \<longrightarrow> keeps_run (checkout_watch {}) (h inp) w) \<and>
     (\<forall>inp w w' u. h inp w = (w', Inr u) \<longrightarrow> env_in (checkout_watch {}) w \<longrightarrow> own_ids (rSt w) \<longrightarrow>
        finished (ciSessionID inp) (now_at w'))"

lemma handlers_sound:
  "sound_handler (wr_HandleCheckoutCompleted x)"
  "sound_handler (wr_HandleCheckoutFailed x)"
  "sound_handler (wr_HandleCheckoutExpired x)"
  unfolding sound_handler_def wr_HandleCheckoutCompleted_def wr_HandleCheckoutFailed_def
    wr_HandleCheckoutExpired_def
  using keeps_endCheckout endCheckout_finishes checkout_endings by blast+

lemma handled_safe:
  assumes "sound_handler h" and "handled x h m w = (w', r)" and "env_in (checkout_watch {}) w"
    and "own_ids (rSt w)"
  shows "ends.reached {} w w' \<and> (r = Inr u \<longrightarrow> dealt_with m w')"
proof (cases "cmBody m")
  case None
  then show ?thesis using assms(2,3) by (auto simp: handled_def ends.reached_refl)
next
  case (Some e)
  let ?in = "\<lparr>ciSessionID = ceSessionID e, ciUserID = ceUserID e, ciEventID = ceEventID e,
      ciTimestamp = OrElse (decodeEventTime (xParseISO x) (ceTimestamp e)) (cmTimestamp m)\<rparr>"
  obtain v q where run: "h ?in w = (v, q)" by (cases "h ?in w")
  have v: "v = w'" "r = Inr u \<Longrightarrow> q = Inr u"
    using assms(2) by (auto simp: handled_def Some run split: sum.splits)
  have "ends.reached {} w v"
    using ends.keeps_reached [of "{}" "\<lambda>w. fst (h ?in w)" w] assms(1,3,4)
    by (simp add: run sound_handler_def)
  moreover have "finished (ceSessionID e) (now_at w')" if "r = Inr u"
    using assms(1,3,4) run v that unfolding sound_handler_def by fastforce
  ultimately show ?thesis using Some v(1) by (auto simp: dealt_with_def)
qed

lemma processMessage_safe:
  assumes "processMessage x m w = (w', r)" and "env_in (checkout_watch {}) w" and "own_ids (rSt w)"
  shows "ends.reached {} w w' \<and> (r = Inr u \<longrightarrow> dealt_with m w')"
proof (cases "cmTopic m \<in> {TopicCheckoutCompleted, TopicCheckoutFailed, TopicCheckoutExpired}")
  case True
  then show ?thesis
    using assms handled_safe [OF handlers_sound(1)] handled_safe [OF handlers_sound(2)]
      handled_safe [OF handlers_sound(3)]
    by (auto simp: processMessage_def split: if_splits)
next
  case False
  then show ?thesis using assms(1,2) by (auto simp: processMessage_def dealt_with_def ends.reached_refl)
qed

lemma park_safe:
  assumes "park m n w = (w', r)" and "env_in (checkout_watch {}) w"
  shows "ends.reached {} w w' \<and> (r = Inr True \<longrightarrow> dealt_with m w')"
proof -
  let ?d = "\<lparr>dlTopic = DLQTopic (cmTopic m), dlMessage = m, dlAttempts = n\<rparr>"
  let ?pub = "PublishDeadLetter m n"
  obtain v q where pub: "?pub w = (v, q)" by (cases "?pub w")
  have v: "v = w'" "r = Inr True \<Longrightarrow> q = Inr ()"
    using assms(1) by (auto simp: park_def andThen_def pub split: sum.splits)
  have "obeys (checkout_watch {}) t (\<lambda>_ s. s\<lparr>wsDeadLetters := wsDeadLetters s @ [?d]\<rparr>)" for t
    by (auto simp: obeys_def checkout_watch_def finished_def own_ids_def)
  then have "keeps_run (checkout_watch {}) ?pub w"
    unfolding PublishDeadLetter_def by (intro ends.keeps_rcall) simp
  then have "ends.reached {} w w'" using ends.keeps_reached [OF _ assms(2)] v(1) by (force simp: pub)
  moreover have "?d \<in> set (wsDeadLetters (rSt w'))" if "r = Inr True"
    using pub v that unfolding PublishDeadLetter_def by (auto elim!: rcall_cases)
  ultimately show ?thesis by (auto simp: dealt_with_def)
qed

lemma reached_wait: "ends.reached {} w w' \<Longrightarrow> rNow w' \<le> t \<Longrightarrow> ends.reached {} w (w'\<lparr>rNow := t\<rparr>)"
  using ends.passing [of "t - rNow w'" "{}" "rNow w'" "rSt w'"]
  by (auto simp: ends.reached_def now_at_def env_in_def onward_def intro: ends.trans)

lemma deliverLoop_safe:
  assumes "deliverLoop x stop base m n a w = (w', r)" and "env_in (checkout_watch {}) w" and "own_ids (rSt w)"
  shows "ends.reached {} w w' \<and> (r = Inr True \<longrightarrow> dealt_with m w')"
  using assms
proof (induction n arbitrary: a w)
  case 0
  then show ?case using park_safe by simp
next
  case (Suc n)
  obtain v q where one: "processMessage x m w = (v, q)" by (cases "processMessage x m w")
  have v: "ends.reached {} w v" "q = Inr () \<Longrightarrow> dealt_with m v"
    using processMessage_safe [OF one Suc.prems(2,3)] by simp_all
  have on: "env_in (checkout_watch {}) v" "own_ids (rSt v)"
    using v(1) reached_own [OF v(1) Suc.prems(3)] by (simp_all add: ends.reached_def)
  let ?t = "rNow v + max 0 (delayFor base (Suc a))"
  show ?case
  proof (cases q)
    case (Inr u)
    then show ?thesis using Suc.prems(1) one v by auto
  next
    case (Inl e)
    consider (park) "park m (Suc a) v = (w', r)"
      | (cut) c where "w' = v\<lparr>rNow := max (rNow v) c\<rparr>" "r = Inr False"
      | (again) "deliverLoop x stop base m n (Suc a) (v\<lparr>rNow := ?t\<rparr>) = (w', r)"
      using Suc.prems(1) by (auto simp: one Inl Let_def split: if_splits option.splits)
    then show ?thesis
    proof cases
      case park
      then show ?thesis using park_safe [OF park on(1)] ends.reached_trans [OF v(1)] by blast
    next
      case cut
      then show ?thesis using reached_wait [OF v(1)] by simp
    next
      case again
      have y: "ends.reached {} w (v\<lparr>rNow := ?t\<rparr>)" by (rule reached_wait [OF v(1)]) simp
      then have "env_in (checkout_watch {}) (v\<lparr>rNow := ?t\<rparr>)" by (simp add: ends.reached_def)
      from Suc.IH [OF again this] on(2) show ?thesis using ends.reached_trans [OF y] by simp
    qed
  qed
qed

lemma cut_only_on_stop: "deliverLoop x stop base m n a w = (v, Inr False) \<Longrightarrow> stop \<noteq> None"
  by (induction n arbitrary: a w)
    (auto simp: park_def andThen_def Let_def split: prod.splits sum.splits if_splits option.splits)

lemma claim_safe:
  assumes "consumeClaim x stop maxA base ms w = (w', marked, e)" and "env_in (checkout_watch {}) w"
    and "own_ids (rSt w)"
  shows "ends.reached {} w w' \<and> (\<exists>rest. ms = marked @ rest \<and> (stop = None \<and> e = None \<longrightarrow> rest = [])) \<and>
    (\<forall>m\<in>set marked. dealt_with m w')"
  using assms
proof (induction ms arbitrary: w marked)
  case Nil
  then show ?case by (simp add: ends.reached_refl)
next
  case (Cons m ms)
  show ?case
  proof (cases "case stop of None \<Rightarrow> False | Some c \<Rightarrow> c \<le> rNow w")
    case True
    then show ?thesis using Cons.prems by (auto simp: ends.reached_refl split: option.splits)
  next
    case False
    obtain v r where one: "deliver x stop maxA base m w = (v, r)" by (cases "deliver x stop maxA base m w")
    have v: "ends.reached {} w v" "r = Inr True \<Longrightarrow> dealt_with m v"
      using deliverLoop_safe [OF one [unfolded deliver_def] Cons.prems(2,3)] by simp_all
    show ?thesis
    proof (cases "r = Inr True")
      case True
      obtain marked2 where rest: "consumeClaim x stop maxA base ms v = (w', marked2, e)"
        and marked: "marked = m # marked2"
        using Cons.prems(1) False one True by (auto split: prod.splits)
      have "env_in (checkout_watch {}) v" using v(1) by (simp add: ends.reached_def)
      from Cons.IH [OF rest this reached_own [OF v(1) Cons.prems(3)]]
      show ?thesis using marked ends.reached_trans [OF v(1)] dealt_with_later v(2) [OF True] by auto
    next
      case not_kept: False
      then have "marked = []" "w' = v" "r = Inr False \<and> e = None \<or> (\<exists>err. r = Inl err \<and> e = Some err)"
        using Cons.prems(1) False one by (auto split: sum.splits if_splits prod.splits)
      moreover have "stop \<noteq> None" if "r = Inr False"
        using one that cut_only_on_stop by (auto simp: deliver_def)
      ultimately show ?thesis using v(1) by auto
    qed
  qed
qed

section \<open>Without faults\<close>

lemma blacklist_frame:
  "wsBlacklist (setSession k ss ttl now s) = wsBlacklist s"
  "wsBlacklist (freeSlot e k now s) = wsBlacklist s"
  by (simp_all add: setSession_def freeSlot_def Let_def split_beta)

lemma calm_repo_Update:
  assumes "rEnv w = []"
  shows "\<exists>ttl. repo_Update k ss w = (w\<lparr>rSt := setSession k (ss\<lparr>ssUpdatedAt := rNow w\<rparr>) ttl (rNow w) (rSt w)\<rparr>, Inr ())"
  using assms by (simp add: repo_Update_def getTTL_def rcall_calm andThen_def Let_def) blast

text \<open>Nothing but the session \<open>k\<close> and the slots of the event \<open>e\<close> differs in lines, sessions and slots.\<close>

definition spares_others :: "string \<Rightarrow> string \<Rightarrow> wr_store \<Rightarrow> wr_store \<Rightarrow> bool" where
  "spares_others k e s s' \<longleftrightarrow> wsQueue s' = wsQueue s \<and> (\<forall>j. j \<noteq> k \<longrightarrow> wsSessions s' j = wsSessions s j) \<and>
     (\<forall>d. d \<noteq> e \<longrightarrow> wsCheckouts s' d = wsCheckouts s d)"

lemma calm_InvalidateToken:
  assumes "rEnv w = []" and "liveKey (rNow w) (wsSessions (rSt w) k) = Some ss"
  shows "\<exists>s. repo_InvalidateToken h k reason w = (w\<lparr>rSt := s\<rparr>, Inr ()) \<and>
     wsCheckouts s = wsCheckouts (rSt w) \<and> wsQueue s = wsQueue (rSt w) \<and>
     (\<forall>j. j \<noteq> k \<longrightarrow> wsSessions s j = wsSessions (rSt w) j) \<and>
     (ssCheckoutToken ss \<noteq> [] \<longrightarrow>
        wsBlacklist s (h (ssCheckoutToken ss)) = Some (rNow w + blacklistTTL (rNow w) ss))"
proof (cases "ssCheckoutToken ss = []")
  case True
  then show ?thesis
    using assms by (intro exI [of _ "rSt w"]) (simp add: repo_InvalidateToken_def repo_Get_def rcall_calm andThen_def)
next
  case False
  then show ?thesis
    using assms
    by (intro exI [of _ "rSt (fst (repo_InvalidateToken h k reason w))"])
      (simp add: repo_InvalidateToken_def repo_Get_def rcall_calm andThen_def settle_def getTTL_def Let_def
        setSession_def)
qed

lemma ends_admission:
  assumes "rEnv w = []" and "liveKey (rNow w) (wsSessions (rSt w) (ciSessionID inp)) = Some ss"
    and "ssID ss = ciSessionID inp"
    and "(h, st) \<in> {(wr_HandleCheckoutCompleted x, SessionStatusCompleted),
      (wr_HandleCheckoutFailed x, SessionStatusFailed), (wr_HandleCheckoutExpired x, SessionStatusExpired)}"
  shows "\<exists>w' ss' t. h inp w = (w', Inr ()) \<and> wsSessions (rSt w') (ciSessionID inp) = Some (ss', t) \<and>
    ssStatus ss' = st \<and> ssTokenInvalidated ss' = ssTokenInvalidated ss \<and>
    slots (rNow w) (rSt w') (ciEventID inp) = zrem [ciSessionID inp] (slots (rNow w) (rSt w) (ciEventID inp)) \<and>
    (ssCheckoutToken ss \<noteq> [] \<longrightarrow>
       wsBlacklist (rSt w') (xHash x (ssCheckoutToken ss)) = Some (rNow w + blacklistTTL (rNow w) ss)) \<and>
    spares_others (ciSessionID inp) (ciEventID inp) (rSt w) (rSt w')"
proof -
  let ?k = "ciSessionID inp"
  obtain reason f where h: "h inp = endCheckout x reason f inp" and f: "\<And>ss. ssStatus (f ss) = st"
      "\<And>ss. ssTokenInvalidated (f ss) = ssTokenInvalidated ss" "\<And>ss. ssID (f ss) = ssID ss"
  proof -
    consider "h = wr_HandleCheckoutCompleted x" "st = SessionStatusCompleted"
      | "h = wr_HandleCheckoutFailed x" "st = SessionStatusFailed"
      | "h = wr_HandleCheckoutExpired x" "st = SessionStatusExpired"
      using assms(4) by auto
    then show thesis
    proof cases
      case 1
      then show thesis
        by (intro that [of "''completed''" "\<lambda>ss. ss\<lparr>ssStatus := SessionStatusCompleted, ssCompletedAt := Some (ciTimestamp inp)\<rparr>"])
          (simp_all add: wr_HandleCheckoutCompleted_def)
    next
      case 2
      then show thesis
        by (intro that [of "''failed''" "\<lambda>ss. ss\<lparr>ssStatus := SessionStatusFailed\<rparr>"])
          (simp_all add: wr_HandleCheckoutFailed_def)
    next
      case 3
      then show thesis
        by (intro that [of "''expired''" "\<lambda>ss. ss\<lparr>ssStatus := SessionStatusExpired\<rparr>"])
          (simp_all add: wr_HandleCheckoutExpired_def)
    qed
  qed
  obtain s where inv: "repo_InvalidateToken (xHash x) ?k reason w = (w\<lparr>rSt := s\<rparr>, Inr ())"
    and s: "wsCheckouts s = wsCheckouts (rSt w)" "wsQueue s = wsQueue (rSt w)"
      "\<forall>j. j \<noteq> ?k \<longrightarrow> wsSessions s j = wsSessions (rSt w) j" "ssCheckoutToken ss \<noteq> [] \<longrightarrow>
        wsBlacklist s (xHash x (ssCheckoutToken ss)) = Some (rNow w + blacklistTTL (rNow w) ss)"
    using calm_InvalidateToken [OF assms(1,2)] by metis
  let ?s = "freeSlot (ciEventID inp) ?k (rNow w) s"
  obtain ttl where upd: "repo_Update ?k (f ss) (w\<lparr>rSt := ?s\<rparr>) =
      (w\<lparr>rSt := setSession ?k ((f ss)\<lparr>ssUpdatedAt := rNow w\<rparr>) ttl (rNow w) ?s\<rparr>, Inr ())"
    using calm_repo_Update [of "w\<lparr>rSt := ?s\<rparr>" ?k "f ss"] assms(1) by auto
  have get: "svc_GetSession ?k w = (w, Inr ss)"
    using assms(1,2) by (simp add: svc_GetSession_def notFoundIfNil_def repo_Get_def rcall_calm settle_def)
  have "h inp w = (w\<lparr>rSt := setSession ?k ((f ss)\<lparr>ssUpdatedAt := rNow w\<rparr>) ttl (rNow w) ?s\<rparr>, Inr ())"
    using inv upd assms(1,3)
    by (simp add: h endCheckout_def settle_def get svc_InvalidateCheckoutToken_def repo_RemoveFromProcessing_def
        rcall_calm svc_UpdateSession_def f(3))
  moreover have "slots (rNow w) s e = slots (rNow w) (rSt w) e" for e by (simp add: slots_def s(1))
  moreover have "spares_others ?k (ciEventID inp) (rSt w)
      (setSession ?k ((f ss)\<lparr>ssUpdatedAt := rNow w\<rparr>) ttl (rNow w) ?s)"
    using s(1-3) by (simp add: spares_others_def setSession_def freeSlot_def Let_def split_beta)
  ultimately show ?thesis
    using s(4) f(1,2) by (simp add: blacklist_frame)
qed

section \<open>No checkout is lost\<close>

text \<open>
  C8. No finished checkout is lost. Whatever calls fail and however often, while other processes
  keep finished sessions finished: the messages a session marks on its partition are a prefix of
  those it was given, all of them unless it was told to stop or ended in an error, and each
  marked message is dealt with: its session is finished, or it is parked with its body on its
  dead-letter topic.
\<close>

theorem no_checkout_lost:
  assumes "consumeClaim x stop maxA base ms w = (w', marked, e)" and "env_in (checkout_watch {}) w"
    and "own_ids (rSt w)"
  shows "(\<exists>rest. ms = marked @ rest \<and> (stop = None \<and> e = None \<longrightarrow> rest = [])) \<and>
    (\<forall>m\<in>set marked. dealt_with m w')"
  using claim_safe [OF assms] by blast

definition wr_message :: "string \<Rightarrow> checkout_event option \<Rightarrow> checkout_message" where
  "wr_message topic body = \<lparr>cmTopic = topic, cmPartition = 0, cmOffset = 7, cmTimestamp = 99 * second,
     cmBody = body\<rparr>"

definition wr_paid :: checkout_message where
  "wr_paid = wr_message TopicCheckoutCompleted
     (Some \<lparr>ceSessionID = ''s3'', ceUserID = ''u3'', ceEventID = ''e'', ceTimestamp = None\<rparr>)"

text \<open>The store refuses the first message's read; the second message has no readable body.\<close>

definition wr_claiming :: room where
  "wr_claiming = wr_room0\<lparr>rEnv := [(0, id, Cut 0)]\<rparr>"

lemma no_checkout_lost_witness:
  "dealt_with wr_paid (fst (consumeClaim wr_ext0 None 5 second [wr_paid] wr_claiming))"
proof -
  let ?run = "consumeClaim wr_ext0 None 5 second [wr_paid] wr_claiming"
  let ?in = "\<lparr>ciSessionID = ''s3'', ciUserID = ''u3'', ciEventID = ''e'', ciTimestamp = 99 * second\<rparr>"
  let ?later = "wr_room0\<lparr>rNow := 101 * second\<rparr>"
  obtain w' marked e where run: "?run = (w', marked, e)" by (cases ?run)
  have live: "liveKey (rNow ?later) (wsSessions (rSt ?later) (ciSessionID ?in)) = Some wr_s3"
    by (simp add: wr_store0_def liveKey_def second_def hour_def minute_def)
  have own: "ssID wr_s3 = ciSessionID ?in" by (simp add: wr_s3_def wr_session_def)
  obtain y where paid: "wr_HandleCheckoutCompleted wr_ext0 ?in ?later = (y, Inr ())"
    using ends_admission [OF _ live own, of "wr_HandleCheckoutCompleted wr_ext0" SessionStatusCompleted wr_ext0]
    by auto
  have first: "processMessage wr_ext0 wr_paid wr_claiming = (wr_room0, Inl (Failed ErrRemote))"
    by (simp add: processMessage_def wr_paid_def wr_message_def handled_def wr_HandleCheckoutCompleted_def
        endCheckout_def settle_def svc_GetSession_def notFoundIfNil_def repo_Get_def rcall_def wr_claiming_def)
  have second: "processMessage wr_ext0 wr_paid ?later = (y, Inr ())"
    using paid by (simp add: processMessage_def wr_paid_def wr_message_def handled_def decodeEventTime_def OrElse_def
        zero_time_def second_def)
  have "deliver wr_ext0 None 5 second wr_paid wr_claiming = (y, Inr True)"
    using first second by (simp add: deliver_def eval_nat_numeral second_def)
  then have "marked = [wr_paid]" using run by simp
  moreover have "env_in (checkout_watch {}) wr_claiming"
    by (simp add: env_in_def wr_claiming_def checkout_watch_def)
  ultimately show ?thesis
    using no_checkout_lost [OF run] wr_own_ids unfolding run by (simp add: wr_claiming_def)
qed

section \<open>The token of a finished checkout\<close>

text \<open>
  A finished session's token is dead: whatever fails and whatever other processes do but
  reopen finished sessions, no token that names a finished session is ever accepted.
\<close>

theorem finished_token_dead:
  assumes "finished k (now_at w)" and "env_in (checkout_watch {}) w"
    and "\<And>t. xParseToken x t token = Inr (Some k) \<or> (\<exists>err. xParseToken x t token = Inl err)"
    and "svc_ValidateCheckoutToken x token w = (w', r)"
  shows "\<exists>err. r = Inl err"
proof (cases "token = [] \<or> (\<exists>err. xParseToken x (rNow w) token = Inl err)")
  case True
  then show ?thesis using assms(4) by (auto simp: svc_ValidateCheckoutToken_def split: if_splits)
next
  case False
  then have claim: "xParseToken x (rNow w) token = Inr (Some k)" "token \<noteq> []" using assms(3) by blast+
  let ?black = "repo_IsTokenInvalidated (xHash x) token"
  obtain v b where black: "?black w = (v, b)" by (cases "?black w")
  have "keeps_run (checkout_watch {}) ?black w"
    using claim(2) by (simp add: repo_IsTokenInvalidated_def ends.keeps_read)
  then have "ends.reached {} w v" using ends.keeps_reached [OF _ assms(2)] black by force
  then have v: "finished k (now_at v)" "env_in (checkout_watch {}) v"
    using assms(1) by (auto simp: ends.reached_def checkout_watch_def)
  obtain y g where get: "repo_Get k v = (y, g)" by (cases "repo_Get k v")
  have y: "ends.reached {} v y" using ends.keeps_reached [OF keeps_repo_Get v(2), of k] by (simp add: get)
  show ?thesis
  proof (cases g)
    case (Inl err)
    then show ?thesis using assms(4) claim black get
      by (auto simp: svc_ValidateCheckoutToken_def andThen_def notFoundIfNil_def settle_def
          split: sum.splits if_splits)
  next
    case (Inr ss)
    then have "IsTerminal ss" using Get_terminal [OF get [unfolded Inr]] y v(1) by blast
    then have "ssStatus ss \<noteq> SessionStatusAdmitted" by (auto simp: IsTerminal_def)
    then show ?thesis using assms(4) claim black get Inr
      by (auto simp: svc_ValidateCheckoutToken_def andThen_def notFoundIfNil_def settle_def
          split: sum.splits if_splits)
  qed
qed

definition wr_paid_room :: room where
  "wr_paid_room = wr_room0\<lparr>rSt := wr_store0\<lparr>wsSessions := (wsSessions wr_store0)(''s3'' :=
     Some (wr_s3\<lparr>ssStatus := SessionStatusCompleted\<rparr>, 30 * second + 2 * hour))\<rparr>\<rparr>"

lemma finished_token_dead_witness:
  "\<exists>err. snd (svc_ValidateCheckoutToken wr_ext0 ''token of s3'' wr_paid_room) = Inl err"
proof (rule finished_token_dead [of "''s3''" wr_paid_room])
  show "finished ''s3'' (now_at wr_paid_room)"
    by (simp add: finished_def now_at_def wr_paid_room_def IsTerminal_def liveKey_def)
  show "env_in (checkout_watch {}) wr_paid_room" by (rule env_empty) (simp add: wr_paid_room_def)
  show "svc_ValidateCheckoutToken wr_ext0 ''token of s3'' wr_paid_room =
      (fst (svc_ValidateCheckoutToken wr_ext0 ''token of s3'' wr_paid_room),
       snd (svc_ValidateCheckoutToken wr_ext0 ''token of s3'' wr_paid_room))"
    by (rule surjective_pairing)
qed (simp add: wr_ext0_def)

text \<open>
  C34. A finished checkout ends the admission. Without faults, each of the three handlers leaves
  the live session with its own final status, frees exactly its slot, and puts its token on the
  blacklist for as long as the token could still be used; but what it wrote of the token's
  invalidation into the session is overwritten by the session it had read before.
\<close>

theorem checkout_ends_admission:
  assumes "rEnv w = []" and "liveKey (rNow w) (wsSessions (rSt w) (ciSessionID inp)) = Some ss"
    and "ssID ss = ciSessionID inp"
    and "(h, st) \<in> {(wr_HandleCheckoutCompleted x, SessionStatusCompleted),
      (wr_HandleCheckoutFailed x, SessionStatusFailed), (wr_HandleCheckoutExpired x, SessionStatusExpired)}"
  shows "\<exists>w' ss' t. h inp w = (w', Inr ()) \<and> wsSessions (rSt w') (ciSessionID inp) = Some (ss', t) \<and>
    ssStatus ss' = st \<and> ssTokenInvalidated ss' = ssTokenInvalidated ss \<and>
    slots (rNow w) (rSt w') (ciEventID inp) = zrem [ciSessionID inp] (slots (rNow w) (rSt w) (ciEventID inp)) \<and>
    (ssCheckoutToken ss \<noteq> [] \<longrightarrow>
       wsBlacklist (rSt w') (xHash x (ssCheckoutToken ss)) = Some (rNow w + blacklistTTL (rNow w) ss))"
  using ends_admission [OF assms] by blast

lemma checkout_ends_admission_witness:
  "\<exists>w' ss' t. wr_HandleCheckoutCompleted wr_ext0
       \<lparr>ciSessionID = ''s3'', ciUserID = ''u3'', ciEventID = ''e'', ciTimestamp = 99 * second\<rparr> wr_room0 = (w', Inr ()) \<and>
     wsSessions (rSt w') ''s3'' = Some (ss', t) \<and> ssStatus ss' = SessionStatusCompleted \<and>
     \<not> ssTokenInvalidated ss' \<and> slots (100 * second) (rSt w') ''e'' = []"
proof -
  let ?in = "\<lparr>ciSessionID = ''s3'', ciUserID = ''u3'', ciEventID = ''e'', ciTimestamp = 99 * second\<rparr>"
  have live: "liveKey (rNow wr_room0) (wsSessions (rSt wr_room0) (ciSessionID ?in)) = Some wr_s3"
    by (simp add: wr_store0_def liveKey_def second_def hour_def minute_def)
  have "ssID wr_s3 = ciSessionID ?in" "\<not> ssTokenInvalidated wr_s3" by (simp_all add: wr_s3_def wr_session_def)
  moreover have "zrem [''s3''] (slots (100 * second) wr_store0 ''e'') = []"
    by (simp add: slots_def slotKey_def wr_store0_def zrem_def)
  ultimately show ?thesis
    using checkout_ends_admission [OF wr_room0_simps(1) live, of "wr_HandleCheckoutCompleted wr_ext0"
        SessionStatusCompleted wr_ext0] by simp blast
qed

end
