(* ===== verification/Waitroom_Drain.thy ===== *)
theory Waitroom_Drain
  imports Waitroom_Demo
begin

text \<open>
  Announcements that could not be published wait in a buffer, which every tick drains from its
  front. \<open>drain_watch\<close> is the observation that the buffer and the Kafka log only grow at
  their ends, which is what other processes do to them; \<open>spoken p w\<close> says that the announcement
  \<open>p\<close> needs no further publishing.
\<close>

definition grows :: "'a list \<Rightarrow> 'a list \<Rightarrow> bool" where
  "grows xs ys \<longleftrightarrow> (\<exists>zs. ys = xs @ zs)"

definition drain_watch :: "moment \<Rightarrow> moment \<Rightarrow> bool" where
  "drain_watch l m \<longleftrightarrow> fst l \<le> fst m \<and> grows (wsBuffer (snd l)) (wsBuffer (snd m)) \<and>
     grows (wsKafka (snd l)) (wsKafka (snd m))"

lemma grows_refl [simp]: "grows xs xs"
  by (simp add: grows_def)

lemma grows_append [simp]: "grows xs (xs @ ys)"
  by (simp add: grows_def)

lemma grows_trans: "grows xs ys \<Longrightarrow> grows ys zs \<Longrightarrow> grows xs zs"
  by (auto simp: grows_def)

lemma grows_set: "grows xs ys \<Longrightarrow> set xs \<subseteq> set ys"
  by (auto simp: grows_def)

interpretation drain: observation drain_watch
  by unfold_locales (auto simp: drain_watch_def intro: grows_trans)

definition spoken :: "queue_ready_event option \<Rightarrow> room \<Rightarrow> bool" where
  "spoken p w \<longleftrightarrow>
     (case p of
        None \<Rightarrow> True
      | Some e \<Rightarrow> qrExpiresAt e \<noteq> zero_time \<and> qrExpiresAt e < rNow w \<or>
          (\<exists>t. QueueReady (e\<lparr>qrTimestamp := t\<rparr>) \<in> set (wsKafka (rSt w))))"

lemma spoken_mono:
  "rNow w \<le> rNow w' \<Longrightarrow> grows (wsKafka (rSt w)) (wsKafka (rSt w')) \<Longrightarrow> spoken p w \<Longrightarrow> spoken p w'"
  using grows_set by (fastforce simp: spoken_def split: option.splits)

lemma spoken_later: "drain.reached w w' \<Longrightarrow> spoken p w \<Longrightarrow> spoken p w'"
  by (rule spoken_mono) (simp_all add: drain.reached_def drain_watch_def now_at_def)

lemma Publish_safe:
  assumes "prod_PublishQueueReady e w = (w', r)" and "env_in drain_watch w"
  shows "drain.reached w w' \<and> (r = Inr u \<longrightarrow> spoken (Some e) w') \<and>
    (rEnv w = [] \<longrightarrow> r = Inr u \<and> rEnv w' = [])"
proof -
  have "keeps_run drain_watch (prod_PublishQueueReady e) w"
    unfolding prod_PublishQueueReady_def
    by (rule drain.keeps_withNow, rule drain.keeps_rcall) (simp add: obeys_def drain_watch_def)
  then have "drain.reached w w'" using drain.keeps_reached [OF _ assms(2)] assms(1) by force
  moreover have "spoken (Some e) w'" if "r = Inr u"
    using assms(1) that by (auto simp: prod_PublishQueueReady_def spoken_def elim!: rcall_cases)
  moreover have "r = Inr u \<and> rEnv w' = []" if "rEnv w = []"
    using assms(1) that by (auto simp: prod_PublishQueueReady_def rcall_calm)
  ultimately show ?thesis by blast
qed

lemma publishBuffered_safe:
  assumes "publishBuffered ps w = (w', n)" and "env_in drain_watch w"
  shows "drain.reached w w' \<and> n \<le> length ps \<and> (\<forall>p\<in>set (take n ps). spoken p w') \<and>
    (rEnv w = [] \<longrightarrow> n = length ps \<and> rEnv w' = [])"
  using assms
proof (induction ps arbitrary: w n)
  case Nil
  then show ?case by (simp add: drain.reached_refl)
next
  case (Cons p ps)
  have step: ?case if pub: "publishBuffered (p # ps) w = (case publishBuffered ps v of (w', n) \<Rightarrow> (w', Suc n))"
    and v: "drain.reached w v" and p: "spoken p v" and calm: "rEnv w = [] \<Longrightarrow> rEnv v = []" for v
  proof -
    obtain n' where rest: "publishBuffered ps v = (w', n')" and n: "n = Suc n'"
      using Cons.prems(1) pub by (auto split: prod.splits)
    have "env_in drain_watch v" using v by (simp add: drain.reached_def)
    from Cons.IH [OF rest this] show ?thesis
      using n calm drain.reached_trans [OF v] spoken_later p by auto
  qed
  show ?case
  proof (cases p)
    case None
    have "set_local countError" by (simp add: set_local_def countError_def)
    then have "drain.reached w (countError w)"
      using drain.keeps_reached [OF drain.keeps_local Cons.prems(2)] by blast
    then show ?thesis by (rule step [rotated]) (simp_all add: None spoken_def countError_def)
  next
    case (Some e)
    show ?thesis
    proof (cases "qrExpiresAt e \<noteq> zero_time \<and> qrExpiresAt e < rNow w")
      case True
      show ?thesis
        by (rule step [OF _ drain.reached_refl [OF Cons.prems(2)]]) (use True in \<open>simp_all add: Some spoken_def\<close>)
    next
      case False
      obtain v r where pub: "prod_PublishQueueReady e w = (v, r)" by (cases "prod_PublishQueueReady e w")
      note safe = Publish_safe [OF pub Cons.prems(2)]
      show ?thesis
      proof (cases r)
        case (Inl err)
        then have "w' = v" "n = 0" using Cons.prems(1) False pub by (simp_all add: Some)
        moreover have "rEnv w \<noteq> []" using safe Inl by auto
        ultimately show ?thesis using safe by simp
      next
        case (Inr u)
        have "publishBuffered (p # ps) w = (case publishBuffered ps v of (w', n) \<Rightarrow> (w', Suc n))"
          using False pub Inr by (auto simp: Some)
        then show ?thesis by (rule step) (use safe Inr in \<open>simp_all add: Some\<close>)
      qed
    qed
  qed
qed

text \<open>The buffer only grows while a drain runs beside others.\<close>

lemma reached_buffer:
  assumes "drain.reached w u"
  obtains more where "wsBuffer (rSt u) = wsBuffer (rSt w) @ more"
  using assms by (auto simp: drain.reached_def drain_watch_def now_at_def grows_def)

lemma peek_buffered:
  assumes "env_in drain_watch w" and "repo_PeekBufferedQueueReady N w = (u, q)"
  shows "drain.reached w u"
    and "q = Inr ps \<Longrightarrow> ps = take (nat N) (wsBuffer (rSt u))"
    and "rEnv w = [] \<Longrightarrow> rEnv u = [] \<and> rSt u = rSt w \<and> (\<exists>ps. q = Inr ps)"
proof -
  have "keeps_run drain_watch (repo_PeekBufferedQueueReady N) w"
    unfolding repo_PeekBufferedQueueReady_def
    by (cases "N \<le> 0") (simp_all only: if_True if_False drain.keeps_ret drain.keeps_read)
  then show "drain.reached w u" using drain.keeps_reached [OF _ assms(1)] assms(2) by force
  show "ps = take (nat N) (wsBuffer (rSt u))" if "q = Inr ps"
    using assms(2) that by (auto simp: repo_PeekBufferedQueueReady_def dest: rcall_Inr split: if_splits)
  show "rEnv u = [] \<and> rSt u = rSt w \<and> (\<exists>ps. q = Inr ps)" if "rEnv w = []"
    using assms(2) that by (auto simp: repo_PeekBufferedQueueReady_def rcall_calm split: if_splits)
qed

text \<open>A trim drops the front of the buffer that it finds, or its call is lost.\<close>

lemma trim_buffered:
  assumes "env_in drain_watch v" and "0 < n" and "w' = fst (repo_TrimBufferedQueueReady (int n) v)"
  obtains more b where "wsBuffer (rSt w') = drop (if b then n else 0) (wsBuffer (rSt v) @ more)"
    and "\<And>p. spoken p v \<Longrightarrow> spoken p w'" and "rEnv v = [] \<Longrightarrow> b"
proof -
  have "rcall [\<lambda>_ s. s\<lparr>wsBuffer := drop n (wsBuffer s)\<rparr>] (\<lambda>_ _. Inr ()) v = repo_TrimBufferedQueueReady (int n) v"
    using assms(2) by (simp add: repo_TrimBufferedQueueReady_def)
  then obtain r where cut: "rcall [\<lambda>_ s. s\<lparr>wsBuffer := drop n (wsBuffer s)\<rparr>] (\<lambda>_ _. Inr () :: wr_error + unit) v = (w', r)"
    using assms(3) by (metis prod.collapse)
  obtain g b where w': "rNow v \<le> rNow w'" "drain_watch (rNow v, rSt v) (rNow w', g (rSt v))"
    "rSt w' = (if b then (g (rSt v))\<lparr>wsBuffer := drop n (wsBuffer (g (rSt v)))\<rparr> else g (rSt v))"
    "rEnv v = [] \<longrightarrow> b"
    using cut
  proof (cases rule: rcall_cases)
    case (1 d g)
    then show thesis using assms(1) by (intro that [of g True]) (auto simp: env_in_def drain_watch_def)
  next
    case (2 d g a k)
    then show thesis using assms(1)
      by (intro that [of g "k \<noteq> 0"]) (auto simp: env_in_def drain_watch_def take_Cons')
  qed
  obtain more where "wsBuffer (g (rSt v)) = wsBuffer (rSt v) @ more"
    using w'(2) by (auto simp: drain_watch_def grows_def)
  moreover have "spoken p w'" if "spoken p v" for p
    by (rule spoken_mono [OF w'(1) _ that]) (use w'(2,3) in \<open>simp add: drain_watch_def\<close>)
  ultimately show thesis using w'(3,4) by (intro that [of b more]) auto
qed

text \<open>
  C24. Draining loses no announcement. While other processes only append, and the Redis client
  sends no command a second time, a drain takes a front
  part off the buffer and keeps the rest in its order: everything it took off was published,
  or had expired, or could not be read, whatever calls were lost. Without faults it takes off
  as many as a batch holds.
\<close>

theorem drain_loses_nothing:
  assumes "env_in drain_watch w" and "drainBufferedQueueReady x w = w'"
  shows "\<exists>n more. n \<le> length (wsBuffer (rSt w)) \<and>
    wsBuffer (rSt w') = drop n (wsBuffer (rSt w)) @ more \<and>
    (\<forall>p\<in>set (take n (wsBuffer (rSt w))). spoken p w') \<and>
    (rEnv w = [] \<longrightarrow> n = min (nat (xBatchSize x)) (length (wsBuffer (rSt w))))"
proof -
  let ?bs = "wsBuffer (rSt w)"
  obtain u q where peek: "repo_PeekBufferedQueueReady (xBatchSize x) w = (u, q)"
    by (cases "repo_PeekBufferedQueueReady (xBatchSize x) w")
  note u = peek_buffered [OF assms(1) peek]
  have stay: ?thesis if "w' = z" "drain.reached w z" "rEnv w \<noteq> [] \<or> min (nat (xBatchSize x)) (length ?bs) = 0" for z
    by (rule reached_buffer [OF that(2)]) (use that(1,3) in \<open>auto intro: exI [of _ 0]\<close>)
  show ?thesis
  proof (cases q)
    case (Inl err)
    then show ?thesis
      using assms(2) peek u(3) by (intro stay [OF _ u(1)]) (auto simp: drainBufferedQueueReady_def)
  next
    case (Inr ps)
    obtain v n where pub: "publishBuffered ps u = (v, n)" by (cases "publishBuffered ps u")
    have "env_in drain_watch u" using u(1) by (simp add: drain.reached_def)
    note safe = publishBuffered_safe [OF pub this] and ps = u(2) [OF Inr]
    have v: "drain.reached w v" using safe drain.reached_trans [OF u(1)] by blast
    obtain m m' where m: "wsBuffer (rSt u) = ?bs @ m" and m': "wsBuffer (rSt v) = ?bs @ m'"
      using reached_buffer [OF u(1)] reached_buffer [OF v] by metis
    have n: "n \<le> nat (xBatchSize x)" "n \<le> length ps" using safe by (simp_all add: ps)
    have "take n ps = take n (?bs @ m)" unfolding ps m take_take by (simp only: min_absorb1 [OF n(1)])
    then have taken: "\<forall>p\<in>set (take n ?bs). spoken p v" using safe by simp
    have len: "min n (length ?bs) = min (nat (xBatchSize x)) (length ?bs)" if "rEnv w = []"
      using safe u(3) [OF that] by (auto simp: ps)
    show ?thesis
    proof (cases "n = 0")
      case True
      then have "w' = v" using assms(2) peek Inr pub by (simp add: drainBufferedQueueReady_def)
      then show ?thesis using v True len by (intro stay [of v]) auto
    next
      case False
      then have trim: "w' = fst (repo_TrimBufferedQueueReady (int n) v)"
        using assms(2) peek Inr pub by (simp add: drainBufferedQueueReady_def)
      have "env_in drain_watch v" "0 < n" using v False by (simp_all add: drain.reached_def)
      from trim_buffered [OF this trim] obtain more b where w':
        "wsBuffer (rSt w') = drop (if b then n else 0) ((?bs @ m') @ more)"
        "\<And>p. spoken p v \<Longrightarrow> spoken p w'" "rEnv v = [] \<Longrightarrow> b" unfolding m' by blast
      let ?n = "if b then min n (length ?bs) else 0"
      have "drop (if b then n else 0) ((?bs @ m') @ more) = drop ?n ?bs @ drop (if b then n - length ?bs else 0) (m' @ more)"
        by (cases "n \<le> length ?bs") simp_all
      moreover have "set (take ?n ?bs) \<subseteq> set (take n ?bs)" by (auto simp: min_def)
      moreover have "rEnv w = [] \<longrightarrow> ?n = min (nat (xBatchSize x)) (length ?bs)"
        using len w'(3) safe u(3) by auto
      ultimately show ?thesis using w'(1,2) taken by (intro exI [of _ ?n]) auto
    qed
  qed
qed

definition wr_ready :: "string \<Rightarrow> time \<Rightarrow> queue_ready_event" where
  "wr_ready k t = \<lparr>qrSessionID = k, qrUserID = ''u'', qrEventID = ''e'', qrCheckoutToken = ''t'',
     qrAdmittedAt = 10 * second, qrExpiresAt = t, qrTimestamp = 10 * second\<rparr>"

definition wr_buffered :: room where
  "wr_buffered = wr_room0\<lparr>rSt := wr_store0\<lparr>wsBuffer :=
     [Some (wr_ready ''s1'' (50 * second)), None, Some (wr_ready ''s2'' (900 * second))]\<rparr>\<rparr>"

lemma drain_loses_nothing_witness:
  "spoken (Some (wr_ready ''s1'' (50 * second))) (drainBufferedQueueReady wr_ext0 wr_buffered) \<and>
   spoken (Some (wr_ready ''s2'' (900 * second))) (drainBufferedQueueReady wr_ext0 wr_buffered)"
proof -
  have "rEnv wr_buffered = []" by (simp add: wr_buffered_def)
  then show ?thesis
    using drain_loses_nothing [OF env_empty refl, of wr_buffered wr_ext0]
    by (auto simp: wr_buffered_def)
qed

end
