(* ===== verification/Waitroom_Leave.thy ===== *)
theory Waitroom_Leave
  imports Waitroom_Safety
begin

text \<open>
  Leaving: what a buyer's LeaveQueue does to the session, the line and the slots, and how the
  last leaver of a line can take the event of a newcomer out of the active events.
\<close>

lemma leaveQueue_queue: "wsQueue (leaveQueue e ids now s) = (wsQueue s)(e := zrem ids (wsQueue s e))"
  by (simp add: leaveQueue_def)

lemma calm_Dequeue:
  assumes "rEnv w = []"
  shows "\<exists>s. svc_DequeueSession e k w = (w\<lparr>rSt := s\<rparr>, Inr ()) \<and>
    wsQueue s = (wsQueue (rSt w))(e := zrem [k] (wsQueue (rSt w) e)) \<and>
    wsSessions s = wsSessions (rSt w) \<and> wsCheckouts s = wsCheckouts (rSt w) \<and> wsKafka s = wsKafka (rSt w) \<and>
    set (wsActive s) = set (wsActive (rSt w)) - (if zrem [k] (wsQueue (rSt w) e) = [] then {e} else {})"
  using assms
  by (auto simp: svc_DequeueSession_def repo_RemoveFromQueue_def repo_GetQueueLength_def repo_RemoveActiveEvent_def
      removeActive_def rcall_calm andThen_def settle_def leaveQueue_def zcard_def)

lemma calm_UpdateStatus:
  assumes "rEnv w = []" and "liveKey (rNow w) (wsSessions (rSt w) k) = Some ss"
  shows "\<exists>ttl. svc_UpdateSessionStatus k st w =
    (w\<lparr>rSt := setSession k (ss\<lparr>ssStatus := st, ssUpdatedAt := rNow w\<rparr>) ttl (rNow w) (rSt w)\<rparr>, Inr ())"
  using assms
  by (simp add: svc_UpdateSessionStatus_def notFoundIfNil_def repo_UpdateStatus_def repo_Update_def repo_Get_def
      getTTL_def rcall_calm settle_def andThen_def Let_def) blast

text \<open>
  C35. Leaving, without faults. A stranger is told that the session does not exist and changes
  nothing. The owner's session leaves the line, which stays active unless nobody is left in it,
  and becomes abandoned, whatever it was before, also when its checkout was paid; the checkout
  slots of every event stay as they were, the leaver's own included; and the announced
  time of leaving is that of the session's last update before it.
\<close>

theorem leave_exact:
  assumes "rEnv w = []" and "liveKey (rNow w) (wsSessions (rSt w) k) = Some ss"
  shows "if ssUserID ss \<noteq> userID then wr_LeaveQueue k userID w = (w, Inl ErrSessionNotFound)
    else \<exists>w' t. wr_LeaveQueue k userID w = (w', Inr ()) \<and>
      wsSessions (rSt w') = (wsSessions (rSt w))
        (k := Some (ss\<lparr>ssStatus := SessionStatusAbandoned, ssUpdatedAt := rNow w\<rparr>, t)) \<and>
      wsQueue (rSt w') = (wsQueue (rSt w))(ssEventID ss := zrem [k] (wsQueue (rSt w) (ssEventID ss))) \<and>
      wsCheckouts (rSt w') = wsCheckouts (rSt w) \<and>
      set (wsActive (rSt w')) = set (wsActive (rSt w)) -
        (if zrem [k] (wsQueue (rSt w) (ssEventID ss)) = [] then {ssEventID ss} else {}) \<and>
      wsKafka (rSt w') = wsKafka (rSt w) @ [QueueLeft \<lparr>qlSessionID = k, qlUserID = userID,
        qlEventID = ssEventID ss, qlReason = ''user_left'', qlLeftAt = ssUpdatedAt ss, qlTimestamp = rNow w\<rparr>]"
proof -
  have get: "svc_GetSession k w = (w, Inr ss)"
    using assms by (simp add: svc_GetSession_def notFoundIfNil_def repo_Get_def rcall_calm settle_def)
  show ?thesis
  proof (cases "ssUserID ss = userID")
    case False
    then show ?thesis by (simp add: wr_LeaveQueue_def andThen_def get)
  next
    case True
    let ?e = "ssEventID ss"
    obtain s where deq: "svc_DequeueSession ?e k w = (w\<lparr>rSt := s\<rparr>, Inr ())"
      and s: "wsQueue s = (wsQueue (rSt w))(?e := zrem [k] (wsQueue (rSt w) ?e))"
        "wsSessions s = wsSessions (rSt w)" "wsCheckouts s = wsCheckouts (rSt w)" "wsKafka s = wsKafka (rSt w)"
        "set (wsActive s) = set (wsActive (rSt w)) - (if zrem [k] (wsQueue (rSt w) ?e) = [] then {?e} else {})"
      using calm_Dequeue [OF assms(1), of ?e k] by blast
    let ?ss = "\<lambda>ttl. setSession k (ss\<lparr>ssStatus := SessionStatusAbandoned, ssUpdatedAt := rNow w\<rparr>) ttl (rNow w) s"
    obtain ttl where upd: "svc_UpdateSessionStatus k SessionStatusAbandoned (w\<lparr>rSt := s\<rparr>) =
        (w\<lparr>rSt := ?ss ttl\<rparr>, Inr ())"
      using calm_UpdateStatus [of "w\<lparr>rSt := s\<rparr>" k ss SessionStatusAbandoned] assms s(2) by auto
    show ?thesis
      using True assms(1) s
      by (simp add: wr_LeaveQueue_def andThen_def get deq upd settle_def prod_PublishQueueLeft_def rcall_calm
          setSession_def) blast
  qed
qed

lemma wr_live: "liveKey (100 * second) (wsSessions wr_store0 ''s3'') = Some wr_s3"
  by (simp add: wr_store0_def liveKey_def second_def hour_def minute_def)

lemma leave_exact_witness:
  "\<exists>w' t. wr_LeaveQueue ''s3'' ''u3'' wr_room0 = (w', Inr ()) \<and>
     wsSessions (rSt w') ''s3'' = Some (wr_s3\<lparr>ssStatus := SessionStatusAbandoned, ssUpdatedAt := 100 * second\<rparr>, t) \<and>
     slots (100 * second) (rSt w') ''e'' = [(990000, ''s3'')]"
proof -
  have "ssUserID wr_s3 = ''u3''" by (simp add: wr_s3_def wr_session_def)
  moreover have "slots (100 * second) s ''e'' = [(990000, ''s3'')]" if "wsCheckouts s = wsCheckouts wr_store0" for s
    using that by (simp add: slots_def slotKey_def wr_store0_def second_def hour_def minute_def)
  ultimately show ?thesis
    using leave_exact [of wr_room0 "''s3''" wr_s3 "''u3''"] wr_live by auto
qed

section \<open>The last leaver and a newcomer\<close>

text \<open>What another process's join does to the line and the active events.\<close>

definition joins :: "string \<Rightarrow> int \<Rightarrow> string \<Rightarrow> wr_store \<Rightarrow> wr_store" where
  "joins e sc m s = addActive e 0 (s\<lparr>wsQueue := (wsQueue s)(e := zadd sc m (wsQueue s e))\<rparr>)"

text \<open>
  A newcomer can be stranded. When the last session leaves a line while another joins it
  between the leaver's two last calls, the newcomer ends up in a line whose event is not
  active, where no tick looks, although no call failed.
\<close>

theorem leaver_strands_joiner:
  assumes "rEnv w = [(d1, id, Answered), (d2, id, Answered), (d3, joins e sc m, Answered)]"
    and "members (wsQueue (rSt w) e) \<subseteq> {k}"
  shows "\<exists>w'. svc_DequeueSession e k w = (w', Inr ()) \<and> m \<in> members (wsQueue (rSt w') e) \<and>
    (\<exists>v. repo_GetActiveEvents w' = (v, Inr (wsActive (rSt w'))) \<and> e \<notin> set (wsActive (rSt w')))"
proof -
  have "zrem [k] (wsQueue (rSt w) e) = []"
    using assms(2) by (auto simp: zrem_def members_def filter_empty_conv)
  then show ?thesis
    using assms(1)
    by (simp add: svc_DequeueSession_def repo_RemoveFromQueue_def repo_GetQueueLength_def repo_RemoveActiveEvent_def
        removeActive_def joins_def addActive_def rcall_def andThen_def settle_def leaveQueue_def zcard_def
        repo_GetActiveEvents_def Let_def)
qed

lemma leaver_strands_joiner_witness:
  "\<exists>w'. svc_DequeueSession ''f'' ''s9''
       (wr_room0\<lparr>rEnv := [(1, id, Answered), (1, id, Answered), (1, joins ''f'' 7 ''s1'', Answered)]\<rparr>) = (w', Inr ()) \<and>
     ''s1'' \<in> members (wsQueue (rSt w') ''f'') \<and> ''f'' \<notin> set (wsActive (rSt w'))"
proof -
  let ?w = "wr_room0\<lparr>rEnv := [(1, id, Answered), (1, id, Answered), (1, joins ''f'' 7 ''s1'', Answered)]\<rparr>"
  have "members (wsQueue (rSt ?w) ''f'') \<subseteq> {''s9''}" by (simp add: wr_store0_def)
  then show ?thesis using leaver_strands_joiner [of ?w 1 1 1 "''f''" 7 "''s1''" "''s9''"] by auto
qed

end
