(* ===== verification/Waitroom_Gates.thy ===== *)
theory Waitroom_Gates
  imports Waitroom_Demo
begin

text \<open>
  The two gates as caches with a time to live. The locale \<open>ttl_cache\<close> is what both share:
  an entry is served until its expiry, and storing one touches no other. Its lemmas bound how old
  an answer may be; the event gate and the stock gate are instances.
\<close>

text \<open>Each entry was stored at some moment \<open>t0\<close>, \<open>ttl\<close> before its expiry, when \<open>S\<close> held of it.\<close>

definition cache_fresh ::
  "(string \<Rightarrow> room \<Rightarrow> ('v \<times> time) option) \<Rightarrow> duration \<Rightarrow> (time \<Rightarrow> string \<Rightarrow> 'v \<Rightarrow> bool) \<Rightarrow> room \<Rightarrow> bool" where
  "cache_fresh entry ttl S w \<longleftrightarrow>
     (\<forall>k v t. entry k w = Some (v, t) \<longrightarrow> (\<exists>t0 \<le> rNow w. t = t0 + ttl \<and> S t0 k v))"

locale ttl_cache =
  fixes entry :: "string \<Rightarrow> room \<Rightarrow> ('v \<times> time) option"
    and look_up :: "string \<Rightarrow> room \<Rightarrow> 'v option"
    and store :: "string \<Rightarrow> 'v \<Rightarrow> time \<Rightarrow> room \<Rightarrow> room"
  assumes served: "look_up k w =
      (case entry k w of None \<Rightarrow> None | Some (v, t) \<Rightarrow> if t < rNow w then None else Some v)"
    and entry_store: "entry k' (store k v t w) = (if k' = k then Some (v, t) else entry k' w)"
    and now_store: "rNow (store k v t w) = rNow w"
begin

lemma fresh_later:
  assumes "cache_fresh entry ttl S w" and "rNow w \<le> rNow w'" and "\<And>k. entry k w' = entry k w"
  shows "cache_fresh entry ttl S w'"
  using assms by (fastforce simp: cache_fresh_def)

lemma fresh_store:
  assumes "cache_fresh entry ttl S w" and "S (rNow w) k v"
  shows "cache_fresh entry ttl S (store k v (rNow w + ttl) w)"
  using assms by (auto simp: cache_fresh_def entry_store now_store)

lemma served_fresh:
  assumes "cache_fresh entry ttl S w" and "look_up k w = Some v"
  shows "\<exists>t0. rNow w - ttl \<le> t0 \<and> t0 \<le> rNow w \<and> S t0 k v"
proof -
  from assms(2) obtain t where t: "entry k w = Some (v, t)" "\<not> t < rNow w"
    by (auto simp: served split: option.splits prod.splits if_splits)
  with assms(1) obtain t0 where "t0 \<le> rNow w" "t = t0 + ttl" "S t0 k v"
    unfolding cache_fresh_def by blast
  with t(2) show ?thesis by (intro exI [of _ t0]) simp
qed

text \<open>After more than the time to live without a store, nothing is served.\<close>

lemma served_out:
  assumes "cache_fresh entry ttl S w" and "rNow w + ttl < rNow w'" and "entry k w' = entry k w"
  shows "look_up k w' = None"
  using assms by (fastforce simp: cache_fresh_def served split: option.splits)

end

interpretation events: ttl_cache "\<lambda>e w. rEventGate w e" eventGate_lookup eventGate_store
  by unfold_locales (simp_all add: eventGate_lookup_def eventGate_store_def split: option.split)

interpretation stocks: ttl_cache "\<lambda>e w. rStockGate w e" stockGate_lookup stockGate_store
  by unfold_locales (simp_all add: stockGate_lookup_def stockGate_store_def split: option.split)

section \<open>Event rules\<close>

text \<open>The verdict that event-svc gives on an event at one moment.\<close>

definition event_truth :: "wr_ext \<Rightarrow> time \<Rightarrow> string \<Rightarrow> wr_error + wr_event_info \<Rightarrow> bool" where
  "event_truth x t e v \<longleftrightarrow>
     (case v of
        Inr info \<Rightarrow> \<exists>start. xGetConfig x t e = Inr (Some (eiAllowWaitRoom info, start)) \<and>
          eiSaleStartAt info = (case xParseISO x start of None \<Rightarrow> zero_time | Some T \<Rightarrow> T)
      | Inl err \<Rightarrow> err = ErrEventNotFound \<and> xFindOne x t e \<in> {Inr False, Inl NotFound} \<or>
          err = ErrEventConfigNotFound \<and> xGetConfig x t e \<in> {Inr None, Inl NotFound})"

definition gate_fresh :: "wr_ext \<Rightarrow> room \<Rightarrow> bool" where
  "gate_fresh x w \<longleftrightarrow> cache_fresh (\<lambda>e w. rEventGate w e) (xEventTTL x)
     (\<lambda>t e v. isEventVerdict v \<and> event_truth x t e v) w"

lemma verdict_codes:
  "isEventVerdict (Inl (eventServiceError c ErrEventNotFound)) \<longleftrightarrow> c = NotFound"
  "isEventVerdict (Inl (eventServiceError c ErrEventConfigNotFound)) \<longleftrightarrow> c = NotFound"
  by (cases c; simp add: isEventVerdict_def eventServiceError_def)+

lemma not_found_codes [simp]: "eventServiceError NotFound nf = nf"
  by (simp add: eventServiceError_def)

lemma rcall_read_frame:
  assumes "rcall [] ans w = (w', r)"
  shows "rEventGate w' = rEventGate w" and "rNow w \<le> rNow w'"
  using assms by (auto simp: rcall_def Let_def split: list.splits prod.splits answer.splits)

lemma callEvent_outcome:
  assumes "callEvent f notFound w = (w', r)"
  shows "rEventGate w' = rEventGate w \<and> rNow w \<le> rNow w' \<and>
    (case r of Inr y \<Rightarrow> f (rNow w') = Inr y
     | Inl e \<Rightarrow> \<exists>c. e = eventServiceError c notFound \<and> (c = NotFound \<longrightarrow> f (rNow w') = Inl NotFound))"
proof -
  obtain v q where call: "rcall [] (\<lambda>now _. Inr (f now)) w = (v, q)"
    by (cases "rcall [] (\<lambda>now _. Inr (f now)) w :: room \<times> (wr_error + _)")
  have v: "v = w'" using assms call
    by (auto simp: callEvent_def settle_def split: sum.splits)
  note frame = rcall_read_frame [OF call]
  from call show ?thesis
    using assms frame v
    by (cases rule: rcall_cases) (auto simp: callEvent_def settle_def call split: sum.splits)
qed

lemma fetch_outcome:
  assumes "eventGate_fetch x e w = (w', r)"
  shows "rEventGate w' = rEventGate w \<and> rNow w \<le> rNow w' \<and> (isEventVerdict r \<longrightarrow> event_truth x (rNow w') e r)"
proof -
  obtain v q where one: "callEvent (\<lambda>now. xFindOne x now e) ErrEventNotFound w = (v, q)"
    by (cases "callEvent (\<lambda>now. xFindOne x now e) ErrEventNotFound w")
  note o1 = callEvent_outcome [OF one]
  obtain y c where two: "callEvent (\<lambda>now. xGetConfig x now e) ErrEventConfigNotFound v = (y, c)"
    by (cases "callEvent (\<lambda>now. xGetConfig x now e) ErrEventConfigNotFound v")
  note o2 = callEvent_outcome [OF two]
  show ?thesis
    using assms o1 o2
    by (auto simp: eventGate_fetch_def andThen_def one two event_truth_def verdict_codes
        split: sum.splits if_splits option.splits)
qed

text \<open>
  C36. The event gate answers with the truth, at most one time to live old, and never
  remembers an outage: a verdict it gives is what event-svc says at some moment within the last
  time to live, and when it has to report that event-svc cannot be asked, its cache is as it was,
  so the next caller asks again. Its cache keeps to that.
\<close>

theorem event_gate_fresh:
  assumes "gate_fresh x w" and "0 \<le> xEventTTL x" and "eventGate_Get x e w = (w', r)"
  shows "gate_fresh x w' \<and>
    (isEventVerdict r \<longrightarrow> (\<exists>t0. rNow w' - xEventTTL x \<le> t0 \<and> t0 \<le> rNow w' \<and> event_truth x t0 e r)) \<and>
    (\<not> isEventVerdict r \<longrightarrow> rEventGate w' = rEventGate w)"
proof (cases "eventGate_lookup e w")
  case (Some v)
  then have "w' = w" "r = v" using assms(3) by (simp_all add: eventGate_Get_def)
  then show ?thesis
    using assms(1) events.served_fresh [OF assms(1) [unfolded gate_fresh_def] Some] by blast
next
  case None
  obtain v q where fetch: "eventGate_fetch x e w = (v, q)" by (cases "eventGate_fetch x e w")
  note out = fetch_outcome [OF fetch]
  have v: "gate_fresh x v"
    using events.fresh_later [OF assms(1) [unfolded gate_fresh_def], of v] out by (simp add: gate_fresh_def)
  show ?thesis
  proof (cases "isEventVerdict q")
    case True
    then have w': "w' = eventGate_store e q (rNow v + xEventTTL x) v" "r = q"
      using assms(3) None fetch by (auto simp: eventGate_Get_def)
    have "gate_fresh x w'"
      using v out True events.fresh_store unfolding gate_fresh_def w' by blast
    moreover have "rNow w' = rNow v" by (simp add: w' eventGate_store_def)
    ultimately show ?thesis using out True w'(2) assms(2) by (auto intro!: exI [of _ "rNow v"])
  next
    case False
    then show ?thesis using assms(3) None fetch v out by (simp add: eventGate_Get_def)
  qed
qed

lemma event_gate_fresh_witness:
  "gate_fresh wr_ext0 (fst (eventGate_Get wr_ext0 ''e'' wr_room0)) \<and>
   rEventGate (fst (eventGate_Get wr_ext0 ''e'' wr_room0)) ''e'' \<noteq> None"
proof
  have "gate_fresh wr_ext0 wr_room0" by (simp add: gate_fresh_def cache_fresh_def)
  moreover have "0 \<le> xEventTTL wr_ext0" by (simp add: wr_ext0_def second_def)
  ultimately show "gate_fresh wr_ext0 (fst (eventGate_Get wr_ext0 ''e'' wr_room0))"
    using event_gate_fresh [OF _ _ surjective_pairing] by blast
  show "rEventGate (fst (eventGate_Get wr_ext0 ''e'' wr_room0)) ''e'' \<noteq> None"
    by (simp add: eventGate_Get_def eventGate_lookup_def eventGate_fetch_def callEvent_def settle_def rcall_calm
        andThen_def wr_ext0_def isEventVerdict_def eventGate_store_def)
qed

end
