(* ===== verification/Waitroom_Lifecycle.thy ===== *)
theory Waitroom_Lifecycle
  imports Waitroom_Processor
begin

text \<open>
  Starting and stopping the queue processor (\<open>queue_processor.go\<close>: \<open>NewQueueProcessor\<close>,
  \<open>Start\<close>, \<open>Stop\<close>, \<open>processLoop\<close>, and the places of a tick that take the mutex). A \<open>proc\<close>
  is the processor's mutex, wait group, stop channel and ticker, with its loop goroutines, each
  either in its select or inside a tick. \<open>act a p\<close> is one atomic action of some goroutine, if
  it can run now: an action that needs the mutex waits while a \<open>Stop\<close> holds it. When several
  cases of a select are ready, any may run. A ticker fires at any time between its making and its stopping (a
  stopped one delivers nothing any more), so the interval is not modelled; what a tick does is \<open>processAllQueues\<close> of \<open>Waitroom_Processor\<close>.
\<close>

section \<open>Configuration\<close>

record processor_config =
  pcProcessInterval :: duration
  pcBatchSize :: int
  pcRetryAttempts :: nat
  pcRetryDelay :: duration
  pcCheckoutTTL :: duration
  pcShutdownTimeout :: duration
  pcEnableMetrics :: bool
  pcMaxProcessingDuration :: duration

definition processorConfig :: "duration \<Rightarrow> int \<Rightarrow> duration \<Rightarrow> processor_config" where
  "processorConfig interval releaseRate expiry =
     \<lparr>pcProcessInterval = interval, pcBatchSize = releaseRate, pcRetryAttempts = retryAttempts,
      pcRetryDelay = retryDelay, pcCheckoutTTL = expiry, pcShutdownTimeout = 30 * second,
      pcEnableMetrics = True, pcMaxProcessingDuration = 30 * second\<rparr>"

section \<open>State\<close>

datatype goroutine = Selecting | InTick

datatype outcome = Graceful | TimedOut

record proc =
  pRunning :: bool
  pStopClosed :: bool
  pTicker :: bool
  pFired :: bool
  pCancelled :: bool
  pLoops :: "goroutine list"
  pWaiting :: "time option"
  pOutcome :: "outcome option"
  pPanicked :: bool
  pClock :: time
  pErrors :: int
  pTicks :: nat

definition NewQueueProcessor :: "time \<Rightarrow> proc" where
  "NewQueueProcessor now =
     \<lparr>pRunning = False, pStopClosed = False, pTicker = False, pFired = False, pCancelled = False,
      pLoops = [], pWaiting = None, pOutcome = None, pPanicked = False, pClock = now,
      pErrors = 0, pTicks = 0\<rparr>"

text \<open>\<open>Stop\<close> is the only call that keeps the mutex over more than one action.\<close>

definition muFree :: "proc \<Rightarrow> bool" where
  "muFree p \<longleftrightarrow> pWaiting p = None"

section \<open>Actions\<close>

datatype action =
  Pass nat
  | Cancel
  | CallStart
  | CallStop
  | StopDone
  | StopTimeout
  | Fire
  | Take nat
  | Leave nat
  | CountError nat
  | EndTick nat
  | CallGetStatus

definition startProc :: "proc \<Rightarrow> proc" where
  "startProc p =
     (if pRunning p then p
      else p\<lparr>pRunning := True, pTicker := True, pFired := False, pLoops := pLoops p @ [Selecting]\<rparr>)"

definition stopProc :: "proc \<Rightarrow> proc" where
  "stopProc p =
     (if \<not> pRunning p then p
      else if pStopClosed p then p\<lparr>pPanicked := True\<rparr>
      else p\<lparr>pStopClosed := True, pTicker := False, pFired := False, pWaiting := Some (pClock p)\<rparr>)"

definition stopped :: "outcome \<Rightarrow> proc \<Rightarrow> proc" where
  "stopped r p = p\<lparr>pRunning := False, pWaiting := None, pOutcome := Some r\<rparr>"

definition loopAt :: "nat \<Rightarrow> goroutine \<Rightarrow> proc \<Rightarrow> bool" where
  "loopAt i g p \<longleftrightarrow> i < length (pLoops p) \<and> pLoops p ! i = g"

definition dropLoop :: "nat \<Rightarrow> 'a list \<Rightarrow> 'a list" where
  "dropLoop i gs = take i gs @ drop (Suc i) gs"

fun able :: "action \<Rightarrow> proc \<Rightarrow> bool" where
  "able (Pass d) p = True"
| "able Cancel p = True"
| "able CallStart p = muFree p"
| "able CallStop p = muFree p"
| "able StopDone p = (pWaiting p \<noteq> None \<and> pLoops p = [])"
| "able StopTimeout p = (case pWaiting p of None \<Rightarrow> False
     | Some t \<Rightarrow> t + pcShutdownTimeout (processorConfig 0 0 0) \<le> pClock p)"
| "able Fire p = pTicker p"
| "able (Take i) p = (loopAt i Selecting p \<and> pFired p)"
| "able (Leave i) p = (loopAt i Selecting p \<and> (pStopClosed p \<or> pCancelled p))"
| "able (CountError i) p = (loopAt i InTick p \<and> muFree p)"
| "able (EndTick i) p = (loopAt i InTick p \<and> muFree p)"
| "able CallGetStatus p = muFree p"

fun perform :: "action \<Rightarrow> proc \<Rightarrow> proc" where
  "perform (Pass d) p = p\<lparr>pClock := pClock p + int d\<rparr>"
| "perform Cancel p = p\<lparr>pCancelled := True\<rparr>"
| "perform CallStart p = startProc p"
| "perform CallStop p = stopProc p"
| "perform StopDone p = stopped Graceful p"
| "perform StopTimeout p = stopped TimedOut p"
| "perform Fire p = p\<lparr>pFired := True\<rparr>"
| "perform (Take i) p = p\<lparr>pFired := False, pLoops := (pLoops p)[i := InTick]\<rparr>"
| "perform (Leave i) p = p\<lparr>pLoops := dropLoop i (pLoops p)\<rparr>"
| "perform (CountError i) p = p\<lparr>pErrors := pErrors p + 1\<rparr>"
| "perform (EndTick i) p = p\<lparr>pTicks := pTicks p + 1, pLoops := (pLoops p)[i := Selecting]\<rparr>"
| "perform CallGetStatus p = p"

definition act :: "action \<Rightarrow> proc \<Rightarrow> proc option" where
  "act a p = (if \<not> pPanicked p \<and> able a p then Some (perform a p) else None)"

fun acts :: "action list \<Rightarrow> proc \<Rightarrow> proc option" where
  "acts [] p = Some p"
| "acts (a # as) p = (case act a p of None \<Rightarrow> None | Some p' \<Rightarrow> acts as p')"

inductive leads :: "proc \<Rightarrow> proc \<Rightarrow> bool" where
  leads_refl: "leads p p"
| leads_act: "leads p q \<Longrightarrow> act a q = Some r \<Longrightarrow> leads p r"

lemma leads_acts: "acts as p = Some q \<Longrightarrow> leads r p \<Longrightarrow> leads r q"
  by (induction as arbitrary: p) (auto split: option.splits intro: leads_act)

lemma act_cases:
  assumes "act a p = Some q"
  shows "\<not> pPanicked p" and "able a p" and "q = perform a p"
  using assms by (auto simp: act_def split: if_splits)

section \<open>What holds of every processor\<close>

text \<open>
  The stop channel is closed from the first Stop on, no Stop waits after one has returned, and a
  graceful outcome means that every loop had ended.
\<close>

definition proc_ok :: "proc \<Rightarrow> bool" where
  "proc_ok p \<longleftrightarrow> (pWaiting p \<noteq> None \<longrightarrow> pStopClosed p \<and> pOutcome p = None) \<and>
     (pOutcome p \<noteq> None \<longrightarrow> pStopClosed p) \<and>
     (pOutcome p = Some Graceful \<and> \<not> pRunning p \<longrightarrow> pLoops p = [])"

lemma proc_ok_new: "proc_ok (NewQueueProcessor now)"
  by (simp add: proc_ok_def NewQueueProcessor_def)

lemma proc_ok_act:
  assumes "proc_ok p" and "act a p = Some q"
  shows "proc_ok q"
proof -
  have a: "able a p" "q = perform a p" using act_cases [OF assms(2)] by simp_all
  show ?thesis
  proof (cases a)
    case CallStart
    with a assms(1) show ?thesis by (simp add: proc_ok_def startProc_def)
  next
    case CallStop
    with a assms(1) show ?thesis by (auto simp: proc_ok_def stopProc_def muFree_def)
  next
    case StopDone
    with a assms(1) show ?thesis by (simp add: proc_ok_def stopped_def)
  next
    case StopTimeout
    with a assms(1) show ?thesis by (auto simp: proc_ok_def stopped_def split: option.splits)
  next
    case (Leave i)
    with a assms(1) show ?thesis by (auto simp: proc_ok_def loopAt_def)
  qed (use a assms(1) in \<open>auto simp: proc_ok_def\<close>)
qed

lemma proc_ok_leads: "leads p q \<Longrightarrow> proc_ok p \<Longrightarrow> proc_ok q"
  by (induction rule: leads.induct) (auto dest: proc_ok_act)

lemma outcome_kept: "act a p = Some q \<Longrightarrow> pOutcome p \<noteq> None \<Longrightarrow> pOutcome q \<noteq> None"
  by (drule act_cases(3); cases a) (simp_all add: startProc_def stopProc_def stopped_def)

lemma outcome_leads: "leads p q \<Longrightarrow> pOutcome p \<noteq> None \<Longrightarrow> pOutcome q \<noteq> None"
  by (induction rule: leads.induct) (auto dest: outcome_kept)

section \<open>Stopping\<close>

text \<open>A loop inside a tick needs the mutex to leave it, and the waiting Stop holds the mutex.\<close>

definition stuck :: "time \<Rightarrow> proc \<Rightarrow> bool" where
  "stuck t p \<longleftrightarrow> pWaiting p = Some t \<and> InTick \<in> set (pLoops p)"

lemma dropLoop_keeps: "g \<in> set gs \<Longrightarrow> gs ! i \<noteq> g \<Longrightarrow> i < length gs \<Longrightarrow> g \<in> set (dropLoop i gs)"
  using id_take_nth_drop [of i gs] by (metis Un_iff dropLoop_def set_ConsD set_append)

lemma stuck_act:
  assumes "stuck t p" and "act a p = Some q"
  shows "stuck t q \<or> t + 30 * second \<le> pClock q"
proof -
  have a: "able a p" "q = perform a p" using act_cases [OF assms(2)] by simp_all
  show ?thesis
  proof (cases a)
    case StopDone
    with a assms(1) show ?thesis by (simp add: stuck_def)
  next
    case StopTimeout
    with a assms(1) show ?thesis by (simp add: stuck_def stopped_def processorConfig_def)
  next
    case (Take i)
    with a assms(1) show ?thesis
      by (auto simp: stuck_def loopAt_def set_update_memI)
  next
    case (Leave i)
    with a assms(1) show ?thesis by (auto simp: stuck_def loopAt_def intro!: dropLoop_keeps)
  qed (use a assms(1) in \<open>auto simp: stuck_def muFree_def\<close>)
qed

lemma clock_act: "act a p = Some q \<Longrightarrow> pClock p \<le> pClock q"
  by (drule act_cases(3); cases a) (simp_all add: startProc_def stopProc_def stopped_def)

text \<open>
  C33. A Stop that comes while a tick runs never stops gracefully: it holds the mutex that the
  tick needs to end, so it returns, if it does, only after the whole shutdown timeout of 30
  seconds, however short the tick is.
\<close>

theorem stop_outwaits_tick:
  assumes "leads p q" and "pWaiting p = Some t" and "InTick \<in> set (pLoops p)"
    and "pWaiting q \<noteq> Some t"
  shows "t + 30 * second \<le> pClock q"
proof -
  have "stuck t q \<or> t + 30 * second \<le> pClock q"
    using assms(1-3)
  proof (induction rule: leads.induct)
    case (leads_refl p)
    then show ?case by (simp add: stuck_def)
  next
    case (leads_act p q a r)
    then show ?case using stuck_act clock_act by fastforce
  qed
  with assms(4) show ?thesis by (auto simp: stuck_def)
qed

definition demo_proc :: proc where
  "demo_proc = the (acts [CallStart, Fire, Take 0, CallStop] (NewQueueProcessor 0))"

lemma stop_outwaits_tick_witness:
  "0 + 30 * second \<le> pClock (the (acts [Pass 30000000000, StopTimeout] demo_proc))"
proof (rule stop_outwaits_tick [of demo_proc])
  show "leads demo_proc (the (acts [Pass 30000000000, StopTimeout] demo_proc))"
    by (rule leads_acts [OF _ leads_refl, of "[Pass 30000000000, StopTimeout]"])
      (simp add: demo_proc_def act_def NewQueueProcessor_def muFree_def loopAt_def startProc_def
        stopProc_def processorConfig_def second_def)
qed (simp_all add: demo_proc_def act_def NewQueueProcessor_def muFree_def loopAt_def startProc_def
    stopProc_def stopped_def processorConfig_def second_def)

text \<open>
  A processor stops once. Once a Stop has returned, no later Stop ever gets to wait for a
  loop: of a processor that is started again, the next Stop panics on the closed channel. And
  once a Stop has returned gracefully, no goroutine is left that could start a tick, until the
  processor is started again.
\<close>

theorem processor_stops_once:
  assumes "leads (NewQueueProcessor now) p" and "pOutcome p \<noteq> None" and "leads p q"
  shows "pWaiting q = None \<and>
    (pRunning q \<and> \<not> pPanicked q \<longrightarrow> (\<exists>r. act CallStop q = Some r \<and> pPanicked r)) \<and>
    (pOutcome q = Some Graceful \<and> \<not> pRunning q \<longrightarrow> act (Take i) q = None \<and> act (EndTick i) q = None)"
proof -
  have ok: "proc_ok q" using proc_ok_leads [OF assms(3) proc_ok_leads [OF assms(1) proc_ok_new]] .
  have out: "pOutcome q \<noteq> None" using outcome_leads [OF assms(3,2)] .
  have w: "pWaiting q = None" using ok out by (auto simp: proc_ok_def)
  moreover have "\<exists>r. act CallStop q = Some r \<and> pPanicked r" if "pRunning q" "\<not> pPanicked q"
    using that ok out w by (simp add: proc_ok_def act_def muFree_def stopProc_def)
  moreover have "act (Take i) q = None \<and> act (EndTick i) q = None"
    if "pOutcome q = Some Graceful" "\<not> pRunning q"
    using that ok by (simp add: proc_ok_def act_def loopAt_def)
  ultimately show ?thesis by blast
qed

definition demo_restarted :: proc where
  "demo_restarted = the (acts [CallStart, CallStop, Leave 0, StopDone] (NewQueueProcessor 0))"

lemma processor_stops_once_witness:
  "\<exists>r. act CallStop (the (act CallStart demo_restarted)) = Some r \<and> pPanicked r"
proof -
  note run = demo_restarted_def act_def NewQueueProcessor_def muFree_def loopAt_def startProc_def
    stopProc_def stopped_def dropLoop_def
  have "leads (NewQueueProcessor 0) demo_restarted"
    by (rule leads_acts [OF _ leads_refl, of "[CallStart, CallStop, Leave 0, StopDone]"]) (simp add: run)
  moreover have "leads demo_restarted (the (act CallStart demo_restarted))"
    by (rule leads_acts [OF _ leads_refl, of "[CallStart]"]) (simp add: run)
  moreover have "pOutcome demo_restarted \<noteq> None" by (simp add: run)
  moreover have "pRunning (the (act CallStart demo_restarted))" "\<not> pPanicked (the (act CallStart demo_restarted))"
    by (simp_all add: run)
  ultimately show ?thesis using processor_stops_once [of 0 demo_restarted] by blast
qed

end
