(* ===== verification/Service_Config_Props.thy ===== *)
theory Service_Config_Props
  imports Service_Config
begin

text \<open>
  What the configuration guarantees the services, and what it does not: when a service starts at
  all, how a duration is read, and which secret signs and checks the tokens in production.
\<close>

section \<open>Starting\<close>

lemma getEnv_set: "defaultValue \<noteq> [] \<Longrightarrow> getEnv env key defaultValue \<noteq> []"
  by (simp add: getEnv_def)

lemma wr_settings_simps [simp]:
  "wrEnv (wr_settings env) = getEnv env ''ENV'' ''development''"
  "wrServerGRpcPort (wrServer (wr_settings env)) = getEnvAsInt env ''SERVER_GRPC_PORT'' 50056"
  "wrRedisAddr (wrRedis (wr_settings env)) = getEnv env ''REDIS_ADDR'' ''localhost:6379''"
  "wrJWTSecret (wrJWT (wr_settings env)) = getEnv env ''JWT_SECRET'' ''jwt-secret''"
  by (simp_all add: wr_settings_def)

lemma ord_settings_simps [simp]:
  "ordEnv (ord_settings env) = getEnv env ''ENV'' ''development''"
  "ordServerGRpcPort (ordServer (ord_settings env)) = getEnvAsInt env ''SERVER_GRPC_PORT'' 50054"
  "ordJWTSecret (ordJWT (ord_settings env)) = getEnv env ''JWT_SECRET'' placeholder_secret"
  by (simp_all add: ord_settings_def)

lemma production_iff: "getEnv env ''ENV'' ''development'' = ''production'' \<longleftrightarrow> env ''ENV'' = ''production''"
  by (simp add: getEnv_def)

lemma placeholder_set: "placeholder_secret \<noteq> []" "placeholder_secret \<noteq> ''jwt-secret''"
  by (simp_all add: placeholder_secret_def)

text \<open>
  A waiting room starts exactly with a port between 1 and 65535 and, in production, with a
  secret other than the placeholder; it then runs with the settings as read. So a missing Redis
  address or an empty secret never stops it: both have a default by the time they are checked.
\<close>

theorem waitroom_starts_iff:
  "wr_Load env = Inr c \<longleftrightarrow> c = wr_settings env \<and>
     0 < getEnvAsInt env ''SERVER_GRPC_PORT'' 50056 \<and> getEnvAsInt env ''SERVER_GRPC_PORT'' 50056 \<le> 65535 \<and>
     (env ''ENV'' = ''production'' \<longrightarrow> env ''JWT_SECRET'' \<noteq> placeholder_secret)"
proof -
  have "getEnv env ''JWT_SECRET'' ''jwt-secret'' = placeholder_secret \<longleftrightarrow> env ''JWT_SECRET'' = placeholder_secret"
    using placeholder_set by (auto simp: getEnv_def)
  then show ?thesis
    by (auto simp: wr_Load_def wr_Validate_def Let_def getEnv_set production_iff)
qed

lemma waitroom_starts_iff_witness:
  "\<exists>c. wr_Load (\<lambda>_. []) = Inr c \<and> wr_Load (\<lambda>k. if k = ''SERVER_GRPC_PORT'' then ''65536'' else []) \<noteq> Inr c"
proof -
  have "wr_Load (\<lambda>_. []) = Inr (wr_settings (\<lambda>_. []))"
    unfolding waitroom_starts_iff by (simp add: getEnvAsInt_def readEnv_def getEnv_def)
  moreover have "wr_Load (\<lambda>k. if k = ''SERVER_GRPC_PORT'' then ''65536'' else []) \<noteq> Inr c" for c
    unfolding waitroom_starts_iff
    by (simp add: getEnvAsInt_def readEnv_def getEnv_def parseInt_def digit_val_def in_i64_def min_i64_def max_i64_def)
  ultimately show ?thesis by blast
qed

text \<open>
  The secret in production. Without \<open>JWT_SECRET\<close> the order service refuses to start in
  production, as its check means to; the waiting room, whose default is not the placeholder
  that its check looks for, starts and signs the checkout tokens with a secret that is in its source.
\<close>

theorem public_secret_in_production:
  assumes "env ''ENV'' = ''production''" and "env ''JWT_SECRET'' = []"
  shows "(\<exists>e. ord_Load env = Inl e) \<and>
    (\<forall>c. wr_Load env = Inr c \<longrightarrow> wrEnv c = ''production'' \<and> wrJWTSecret (wrJWT c) = ''jwt-secret'') \<and>
    (env ''SERVER_GRPC_PORT'' = [] \<longrightarrow> (\<exists>c. wr_Load env = Inr c))"
proof (intro conjI allI impI)
  have "getEnv env ''JWT_SECRET'' placeholder_secret = placeholder_secret" by (simp add: getEnv_def assms(2))
  then show "\<exists>e. ord_Load env = Inl e"
    by (auto simp: ord_Load_def ord_Validate_def Let_def production_iff assms(1))
  fix c assume "wr_Load env = Inr c"
  then have c: "c = wr_settings env" by (auto simp: wr_Load_def Let_def split: option.splits)
  show "wrEnv c = ''production''" by (simp add: c production_iff assms(1))
  show "wrJWTSecret (wrJWT c) = ''jwt-secret''" by (simp add: c getEnv_def assms(2))
next
  assume "env ''SERVER_GRPC_PORT'' = []"
  then show "\<exists>c. wr_Load env = Inr c"
    using placeholder_set assms(2)
    by (simp add: wr_Load_def wr_Validate_def Let_def getEnvAsInt_def readEnv_def getEnv_def)
qed

lemma public_secret_in_production_witness:
  "\<exists>c. wr_Load (\<lambda>k. if k = ''ENV'' then ''production'' else []) = Inr c \<and> wrJWTSecret (wrJWT c) = ''jwt-secret''"
  using public_secret_in_production [of "\<lambda>k. if k = ''ENV'' then ''production'' else []"] by auto

section \<open>Durations\<close>

lemma digit_val_bound: "digit_val c = Some d \<Longrightarrow> 0 \<le> d"
  by (auto simp: digit_val_def Let_def split: if_splits)

lemma parse_digits_grows: "parse_digits ds x = Some n \<Longrightarrow> 0 \<le> x \<Longrightarrow> x \<le> n"
proof (induction ds x rule: parse_digits.induct)
  case (2 c cs acc)
  then show ?case by (force split: option.splits dest: digit_val_bound)
qed simp

lemma leadingInt_digits:
  assumes "parse_digits ds x = Some n" and "0 \<le> x" and "n \<le> 2 ^ 63" and "\<forall>c cs. rest = c # cs \<longrightarrow> digit_val c = None"
  shows "leadingInt (ds @ rest) x = Some (n, rest)"
  using assms
proof (induction ds x rule: parse_digits.induct)
  case (1 acc)
  then show ?case by (cases rest) auto
next
  case (2 c cs acc)
  then obtain d where d: "digit_val c = Some d" "parse_digits cs (10 * acc + d) = Some n"
    by (auto split: option.splits)
  have "0 \<le> d" by (rule digit_val_bound [OF d(1)])
  then have le: "10 * acc + d \<le> 2 ^ 63"
    using parse_digits_grows [OF d(2)] 2 by simp
  then have "acc \<le> 2 ^ 63 div 10" using \<open>0 \<le> d\<close> by simp
  then show ?case
    using 2(1) [OF d(1)] d le 2 \<open>0 \<le> d\<close> by simp
qed

lemma unit_chars:
  assumes "unitMap u = Some unit"
  shows "0 < unit" and "u \<noteq> []" and "\<forall>c\<in>set u. c \<noteq> CHR ''.'' \<and> digit_val c = None"
  using assms
  by (auto simp: unitMap_def digit_val_def second_def minute_def hour_def split: if_splits)

lemma show_nat_digit: "\<exists>c cs. show_nat n = c # cs \<and> is_digit c"
proof (induction n rule: show_nat.induct)
  case (1 n)
  show ?case
  proof (cases "n < 10")
    case True
    then show ?thesis by (subst show_nat.simps) (simp add: is_digit_def digit_val_char)
  next
    case False
    then show ?thesis using 1 by (subst show_nat.simps) auto
  qed
qed

lemma parse_whole:
  assumes "unitMap u = Some unit" and "int n * unit \<le> 2 ^ 63"
  shows "parse_parts (show_nat n @ u) 0 = Some (int n * unit)"
proof -
  note u = unit_chars [OF assms(1)]
  obtain c cs where c: "show_nat n = c # cs" "is_digit c" using show_nat_digit by blast
  have "int n * 1 \<le> int n * unit" by (rule mult_left_mono) (use u(1) in simp_all)
  then have n: "int n \<le> 2 ^ 63" using assms(2) by simp
  obtain a as where a: "u = a # as" "a \<noteq> CHR ''.''" "digit_val a = None" using u by (cases u) auto
  have lead: "leadingInt (show_nat n @ u) 0 = Some (int n, u)"
    by (rule leadingInt_digits [OF parse_show_nat _ n]) (auto simp: a)
  have "takeWhile (\<lambda>c. \<not> (c = CHR ''.'' \<or> is_digit c)) u = u"
    using u(3) by (simp add: takeWhile_eq_all_conv is_digit_def)
  moreover have "int n \<le> 2 ^ 63 div unit"
    using zdiv_mono1 [OF assms(2) u(1)] u(1) by simp
  moreover have "int n * unit mod 2 ^ 64 = int n * unit"
    using assms(2) u(1) by (intro mod_pos_pos_trivial) auto
  ultimately have "parse_part (show_nat n @ u) 0 = Some (int n * unit, [])"
    using lead c a assms by (simp add: parse_part_def Let_def)
  moreover have "show_nat n @ u \<noteq> []" using c by simp
  ultimately show ?thesis
    using u(2) by (subst parse_parts.simps) (simp add: parse_parts.simps [of "[]"])
qed

text \<open>
  A setting written as a whole number of nanoseconds, microseconds, milliseconds, seconds,
  minutes or hours is read as just that duration, of either sign, if it fits into 63 bits.
\<close>

theorem duration_setting_roundtrip:
  assumes "unitMap u = Some unit" and "env key = formatInt n @ u" and "\<bar>n * unit\<bar> < 2 ^ 63"
  shows "getEnvAsDuration env key defaultValue = n * unit"
proof -
  note u = unit_chars [OF assms(1)]
  let ?n = "nat \<bar>n\<bar>"
  obtain c cs where c: "show_nat ?n = c # cs" "is_digit c" using show_nat_digit by blast
  have sign: "c \<noteq> CHR ''-''" "c \<noteq> CHR ''+''" using c(2) by (auto simp: is_digit_def digit_val_def)
  have abs: "int ?n * unit = \<bar>n * unit\<bar>" using u(1) by (simp add: abs_mult)
  have parts: "parse_parts (show_nat ?n @ u) 0 = Some \<bar>n * unit\<bar>"
    using parse_whole [OF assms(1), of ?n] assms(3) by (simp only: abs)
  have long: "show_nat ?n @ u \<noteq> ''0''" "show_nat ?n @ u \<noteq> []" using c u(2) by (auto simp: Cons_eq_append_conv)
  have "ParseDuration (formatInt n @ u) = Some (n * unit)"
  proof (cases "n < 0")
    case True
    then have "n * unit < 0" using u(1) by (simp add: mult_neg_pos)
    then show ?thesis using True parts long by (simp add: ParseDuration_def formatInt_def Let_def)
  next
    case False
    then have "0 \<le> n * unit" using u(1) by simp
    then have "parse_parts (show_nat ?n @ u) 0 = Some (n * unit)" "n * unit \<le> 2 ^ 63 - 1"
      using parts assms(3) by simp_all
    moreover have "formatInt n @ u = show_nat ?n @ u" using False by (simp add: formatInt_def)
    ultimately show ?thesis
      using long c(1) sign u(2) by (simp add: ParseDuration_def)
  qed
  then show ?thesis using u(2) by (simp add: getEnvAsDuration_def readEnv_def getEnv_def assms(2))
qed

lemma duration_setting_roundtrip_witness:
  "getEnvAsDuration (\<lambda>_. ''-90s'') ''JWT_EXPIRY'' minute = - 90 * second"
proof (rule duration_setting_roundtrip [of "''s''"])
  show "unitMap ''s'' = Some second" by (simp add: unitMap_def)
  show "''-90s'' = formatInt (- 90) @ ''s''"
    by (simp add: formatInt_def show_nat.simps digit_char_def)
qed (simp add: second_def)

end
