(* ===== verification/Checkout_Flow.thy ===== *)
theory Checkout_Flow
  imports Order_Expiry Waitroom_Delivery_Props
begin

text \<open>
  From the order service to the waiting room. The messages of the order service's Kafka
  producer (\<open>order-svc/internal/order/delivery/kafka/producer/producer.go\<close>, \<open>presenter.go\<close>),
  a JSON object of strings being the list of its fields; how the waiting room reads them; and
  what an expired order does to the buyer's seat in checkout.
\<close>

section \<open>The producer\<close>

record producer_message =
  pmTopic :: string
  pmKey :: string
  pmFields :: "(string \<times> string) list"
  pmHeaders :: "(string \<times> string) list"

definition checkout_fields :: "string \<Rightarrow> string \<Rightarrow> string \<Rightarrow> (string \<times> string) list" where
  "checkout_fields ss u e = [(''session_id'', ss), (''user_id'', u), (''event_id'', e)]"

definition PublishCheckoutCompleted :: "(time \<Rightarrow> string) \<Rightarrow> time \<Rightarrow> string \<Rightarrow> string \<Rightarrow> string \<Rightarrow> producer_message" where
  "PublishCheckoutCompleted fmt now ss u e =
     \<lparr>pmTopic = ''checkout.completed'', pmKey = e,
      pmFields = checkout_fields ss u e @ [(''timestamp'', fmt now)], pmHeaders = [(''timestamp'', fmt now)]\<rparr>"

definition PublishCheckoutFailed :: "(time \<Rightarrow> string) \<Rightarrow> time \<Rightarrow> string \<Rightarrow> string \<Rightarrow> string \<Rightarrow> producer_message" where
  "PublishCheckoutFailed fmt now ss u e =
     \<lparr>pmTopic = ''checkout.failed'', pmKey = e,
      pmFields = checkout_fields ss u e @ [(''timestamp'', fmt now)], pmHeaders = [(''timestamp'', fmt now)]\<rparr>"

definition PublishCheckoutExpired ::
  "(time \<Rightarrow> string) \<Rightarrow> time \<Rightarrow> string \<Rightarrow> string \<Rightarrow> string \<Rightarrow> string \<Rightarrow> producer_message" where
  "PublishCheckoutExpired fmt now ss u e expiredAt =
     \<lparr>pmTopic = ''checkout.expired'', pmKey = e,
      pmFields = checkout_fields ss u e @
        [(''expired_at'', if expiredAt = [] then fmt now else expiredAt), (''timestamp'', fmt now)],
      pmHeaders = [(''timestamp'', fmt now)]\<rparr>"

definition PublishRefundRequired ::
  "(time \<Rightarrow> string) \<Rightarrow> time \<Rightarrow> string \<Rightarrow> string \<Rightarrow> string \<Rightarrow> string \<Rightarrow> producer_message" where
  "PublishRefundRequired fmt now code u e reason =
     \<lparr>pmTopic = ''order.refund_required'', pmKey = e,
      pmFields = [(''order_code'', code), (''user_id'', u), (''event_id'', e), (''reason'', reason),
        (''timestamp'', fmt now)],
      pmHeaders = [(''timestamp'', fmt now)]\<rparr>"

definition produced :: "(time \<Rightarrow> string) \<Rightarrow> time \<Rightarrow> publication \<Rightarrow> producer_message" where
  "produced fmt now p =
     (case p of
        CheckoutCompleted ss u e \<Rightarrow> PublishCheckoutCompleted fmt now ss u e
      | CheckoutFailed ss u e \<Rightarrow> PublishCheckoutFailed fmt now ss u e
      | CheckoutExpired ss u e \<Rightarrow> PublishCheckoutExpired fmt now ss u e []
      | RefundRequired code u e reason \<Rightarrow> PublishRefundRequired fmt now code u e reason)"

section \<open>The reader\<close>

text \<open>\<open>json.Unmarshal\<close> leaves a missing field empty.\<close>

definition field :: "string \<Rightarrow> (string \<times> string) list \<Rightarrow> string" where
  "field k fs = (case map_of fs k of None \<Rightarrow> [] | Some v \<Rightarrow> v)"

definition read_checkout :: "(string \<times> string) list \<Rightarrow> checkout_event" where
  "read_checkout fs = \<lparr>ceSessionID = field ''session_id'' fs, ceUserID = field ''user_id'' fs,
     ceEventID = field ''event_id'' fs, ceTimestamp = map_of fs ''timestamp''\<rparr>"

definition received :: "int \<Rightarrow> int \<Rightarrow> time \<Rightarrow> producer_message \<Rightarrow> checkout_message" where
  "received part off t pm = \<lparr>cmTopic = pmTopic pm, cmPartition = part, cmOffset = off,
     cmTimestamp = t, cmBody = Some (read_checkout (pmFields pm))\<rparr>"

lemma produced_read [simp]:
  "received part off t (produced fmt now (CheckoutCompleted ss u e)) =
     \<lparr>cmTopic = TopicCheckoutCompleted, cmPartition = part, cmOffset = off, cmTimestamp = t,
      cmBody = Some \<lparr>ceSessionID = ss, ceUserID = u, ceEventID = e, ceTimestamp = Some (fmt now)\<rparr>\<rparr>"
  "received part off t (produced fmt now (CheckoutFailed ss u e)) =
     \<lparr>cmTopic = TopicCheckoutFailed, cmPartition = part, cmOffset = off, cmTimestamp = t,
      cmBody = Some \<lparr>ceSessionID = ss, ceUserID = u, ceEventID = e, ceTimestamp = Some (fmt now)\<rparr>\<rparr>"
  "received part off t (produced fmt now (CheckoutExpired ss u e)) =
     \<lparr>cmTopic = TopicCheckoutExpired, cmPartition = part, cmOffset = off, cmTimestamp = t,
      cmBody = Some \<lparr>ceSessionID = ss, ceUserID = u, ceEventID = e, ceTimestamp = Some (fmt now)\<rparr>\<rparr>"
  by (simp_all add: received_def produced_def PublishCheckoutCompleted_def PublishCheckoutFailed_def
      PublishCheckoutExpired_def read_checkout_def field_def checkout_fields_def TopicCheckoutCompleted_def
      TopicCheckoutFailed_def TopicCheckoutExpired_def)

section \<open>An order that nobody paid\<close>

lemma calm_expired_message:
  assumes "rEnv v = []" and "liveKey (rNow v) (wsSessions (rSt v) ss) = Some sess" and "ssID sess = ss"
    and "m = received part off t (produced fmt now (CheckoutExpired ss u e))"
    and "consumeClaim x None n base [m] v = (v', marked, err)"
  shows "marked = [m] \<and> err = None \<and> (\<exists>ss' T. wsSessions (rSt v') ss = Some (ss', T) \<and>
      ssStatus ss' = SessionStatusExpired) \<and>
    slots (rNow v) (rSt v') e = zrem [ss] (slots (rNow v) (rSt v) e) \<and>
    spares_others ss e (rSt v) (rSt v')"
proof -
  let ?in = "\<lparr>ciSessionID = ss, ciUserID = u, ciEventID = e,
      ciTimestamp = OrElse (decodeEventTime (xParseISO x) (Some (fmt now))) t\<rparr>"
  have live: "liveKey (rNow v) (wsSessions (rSt v) (ciSessionID ?in)) = Some sess"
    and own: "ssID sess = ciSessionID ?in" using assms(2,3) by simp_all
  obtain y ss' T where run: "wr_HandleCheckoutExpired x ?in v = (y, Inr ())"
    and y: "wsSessions (rSt y) ss = Some (ss', T)" "ssStatus ss' = SessionStatusExpired"
      "slots (rNow v) (rSt y) e = zrem [ss] (slots (rNow v) (rSt v) e)" "spares_others ss e (rSt v) (rSt y)"
    using ends_admission [OF assms(1) live own, of "wr_HandleCheckoutExpired x" SessionStatusExpired x] by auto
  have topics: "TopicCheckoutExpired \<noteq> TopicCheckoutCompleted" "TopicCheckoutExpired \<noteq> TopicCheckoutFailed"
    by (simp_all add: TopicCheckoutCompleted_def TopicCheckoutFailed_def TopicCheckoutExpired_def)
  have one: "Waitroom_Delivery.processMessage x m v = (y, Inr ())"
    using run by (simp add: Waitroom_Delivery.processMessage_def handled_def assms(4) topics)
  have "deliver x None n base m v = (y, Inr True)"
    unfolding deliver_def by (cases "max n 1") (simp_all add: one max_def split: if_splits)
  then show ?thesis using assms(5) y by auto
qed

text \<open>
  C18. An order that nobody paid gives everything back. When a PENDING order of a waiting-room
  session, all of whose reservations are active, expires with no call lost, all its reservations
  are cancelled and none of its tickets is sold; and when the waiting room, which still has the
  session, then reads the message that the order service sent, losing no call of its own, it marks
  the message, the session becomes expired, and its seat in checkout is free for the next in line.
  No other session, no line and no slot of another event is touched.
\<close>

theorem expired_order_frees_seat:
  assumes "consistent (wInv w)" and "wEnv w = []" and "order_at code (wTable w) = Some ord"
    and "oCode ord = code" and "code \<noteq> []" and "oStatus ord = OrderStatusPending"
    and "\<forall>r \<in> set (orderRows (wInv w) code). rStatus r = ReservationStatusActive"
    and "oSessionID ord \<noteq> []" and "ExpireOrder code w = (w1, r1)"
    and "rEnv v = []" and "liveKey (rNow v) (wsSessions (rSt v) (oSessionID ord)) = Some sess"
    and "ssID sess = oSessionID ord"
    and "consumeClaim x None n base [received part off t (produced fmt now (last (wPub w1)))] v = (v', marked, e)"
  shows "r1 = Inr () \<and> consistent (wInv w1) \<and> paid (wInv w1) = paid (wInv w) \<and>
    orderRows (wInv w1) code =
      map (\<lambda>r. r\<lparr>rStatus := ReservationStatusCancelled\<rparr>) (orderRows (wInv w) code) \<and>
    length marked = 1 \<and> e = None \<and>
    (\<exists>ss' T. wsSessions (rSt v') (oSessionID ord) = Some (ss', T) \<and> ssStatus ss' = SessionStatusExpired) \<and>
    slots (rNow v) (rSt v') (oEventID ord) =
      zrem [oSessionID ord] (slots (rNow v) (rSt v) (oEventID ord)) \<and>
    spares_others (oSessionID ord) (oEventID ord) (rSt v) (rSt v')"
proof -
  have "\<not> has_confirmed (wInv w) code" using assms(7) by (auto simp: has_confirmed_def)
  then obtain db where rel: "rpc_Release code (wInv w) = (db, Inr ())" and ok: "consistent db"
    "paid db = paid (wInv w)" "orderRows db code = map given_back (orderRows (wInv w) code)"
    using rpc_Release_rows [OF assms(1) _ assms(5)] by metis
  have "map given_back (orderRows (wInv w) code) =
      map (\<lambda>r. r\<lparr>rStatus := ReservationStatusCancelled\<rparr>) (orderRows (wInv w) code)"
    using assms(7) by (intro map_cong) (simp_all add: given_back_def)
  then have rows: "orderRows db code =
      map (\<lambda>r. r\<lparr>rStatus := ReservationStatusCancelled\<rparr>) (orderRows (wInv w) code)" using ok(3) by simp
  have w1: "r1 = Inr ()" "wInv w1 = db"
    "last (wPub w1) = CheckoutExpired (oSessionID ord) (oUserID ord) (oEventID ord)"
    using calm_expire_pending [OF assms(2,3,4,6) rel] assms(8,9) by (auto simp: announce_expired_def)
  show ?thesis
    using calm_expired_message [OF assms(10-12) _ assms(13) [unfolded w1(3)]] w1 ok rows by auto
qed

definition wr_inside :: room where
  "wr_inside = wr_room0\<lparr>rSt := wr_store0\<lparr>
     wsSessions := (wsSessions wr_store0)
       (''s1'' := Some (wr_s1\<lparr>ssStatus := SessionStatusAdmitted\<rparr>, 40 * second + 2 * hour)),
     wsCheckouts := (wsCheckouts wr_store0)(''e'' := ([(990000, ''s1'')], Some (990 * second + hour)))\<rparr>\<rparr>"

lemma expired_order_frees_seat_witness:
  "\<exists>v'. fst (consumeClaim wr_ext0 None 5 second [received 0 7 (99 * second) (produced (\<lambda>_. ''now'') 8
       (last (wPub (fst (ExpireOrder ''A'' (demo_world\<lparr>wEnv := []\<rparr>))))))] wr_inside) = v' \<and>
     slots (100 * second) (rSt v') ''e'' = []"
proof -
  let ?w = "demo_world\<lparr>wEnv := []\<rparr>"
  obtain w1 r1 where ex: "ExpireOrder ''A'' ?w = (w1, r1)" by (cases "ExpireOrder ''A'' ?w")
  obtain v' marked e where run: "consumeClaim wr_ext0 None 5 second
      [received 0 7 (99 * second) (produced (\<lambda>_. ''now'') 8 (last (wPub w1)))] wr_inside = (v', marked, e)"
    by (metis prod_cases3)
  have rows: "list_all (\<lambda>r. rStatus r = ReservationStatusActive) (orderRows demo_db ''A'')"
    by code_simp
  then have w: "consistent (wInv ?w)" "wEnv ?w = []" "order_at ''A'' (wTable ?w) = Some demo_order"
    "\<forall>r \<in> set (orderRows (wInv ?w) ''A''). rStatus r = ReservationStatusActive"
    using demo_consistent demo_order_at by (simp_all add: demo_world_def list_all_iff)
  have ord: "oSessionID demo_order = ''s1''" "oEventID demo_order = ''e''"
    by (simp_all add: demo_order_def buildOrderModel_def demo_option_def)
  have v: "rEnv wr_inside = []" "rNow wr_inside = 100 * second"
    "liveKey (rNow wr_inside) (wsSessions (rSt wr_inside) (oSessionID demo_order)) =
       Some (wr_s1\<lparr>ssStatus := SessionStatusAdmitted\<rparr>)"
    "ssID (wr_s1\<lparr>ssStatus := SessionStatusAdmitted\<rparr>) = oSessionID demo_order"
    by (simp_all add: ord wr_inside_def liveKey_def second_def hour_def minute_def wr_s1_def wr_session_def)
  have "zrem [''s1''] (slots (100 * second) (rSt wr_inside) ''e'') = []"
    by (simp add: wr_inside_def slots_def slotKey_def zrem_def)
  moreover have "slots (rNow wr_inside) (rSt v') (oEventID demo_order) =
      zrem [oSessionID demo_order] (slots (rNow wr_inside) (rSt wr_inside) (oEventID demo_order))"
    using expired_order_frees_seat [OF w(1-3) demo_order_fields(2) _ demo_order_fields(3) w(4) _ ex v(1,3,4) run]
    by (simp add: ord)
  ultimately show ?thesis using run by (simp add: ex v(2) ord)
qed

end
