(* ===== verification/Checkout_Token.thy ===== *)
theory Checkout_Token
  imports Order_Service_Props Waitroom_Delivery_Props
begin

text \<open>
  The checkout token, from the waiting room to the order service. The waiting room signs it
  (\<open>waitroom-svc/internal/service/session_service.go\<close>), the order service verifies it
  (\<open>order-svc/pkg/jwt/jwt.go\<close>). The two golang-jwt libraries are parameters: signing takes the
  method, the secret and the claims; parsing takes the key function, the time and the token.
\<close>

section \<open>Claims\<close>

datatype claim_value = ClaimString string | ClaimNumber int

type_synonym claims = "(string \<times> claim_value) list"
type_synonym jwt_sign = "string \<Rightarrow> string \<Rightarrow> claims \<Rightarrow> string option"
type_synonym jwt_parse = "(string \<Rightarrow> string option) \<Rightarrow> time \<Rightarrow> string \<Rightarrow> claims option"

text \<open>Both services take a key only for the HMAC methods.\<close>

definition hmac_key :: "string \<Rightarrow> string \<Rightarrow> string option" where
  "hmac_key secret alg = (if alg \<in> {''HS256'', ''HS384'', ''HS512''} then Some secret else None)"

definition checkout_claims :: "time \<Rightarrow> time \<Rightarrow> session \<Rightarrow> claims" where
  "checkout_claims expAt now ss =
     [(''session_id'', ClaimString (ssID ss)), (''user_id'', ClaimString (ssUserID ss)),
      (''event_id'', ClaimString (ssEventID ss)), (''exp'', ClaimNumber (expAt div second)),
      (''iat'', ClaimNumber (now div second))]"

definition session_claim :: "jwt_parse \<Rightarrow> string \<Rightarrow> time \<Rightarrow> string \<Rightarrow> wr_error + string option" where
  "session_claim parse secret now token =
     (case parse (hmac_key secret) now token of
        None \<Rightarrow> Inl ErrTokenInvalid
      | Some cs \<Rightarrow> Inr (case map_of cs ''session_id'' of Some (ClaimString k) \<Rightarrow> Some k | _ \<Rightarrow> None))"

text \<open>The waiting room over a library and its secret.\<close>

definition token_ext :: "jwt_sign \<Rightarrow> jwt_parse \<Rightarrow> string \<Rightarrow> wr_ext \<Rightarrow> wr_ext" where
  "token_ext sign parse secret x =
     x\<lparr>xSign := (\<lambda>expAt now ss. sign ''HS256'' secret (checkout_claims expAt now ss)),
       xParseToken := session_claim parse secret\<rparr>"

text \<open>A field of the order service's payload: a missing one is empty, a number does not unmarshal.\<close>

definition string_claim :: "string \<Rightarrow> claims \<Rightarrow> string option" where
  "string_claim k cs =
     (case map_of cs k of None \<Rightarrow> Some [] | Some (ClaimString s) \<Rightarrow> Some s | Some (ClaimNumber _) \<Rightarrow> None)"

definition Verify :: "jwt_parse \<Rightarrow> string \<Rightarrow> time \<Rightarrow> string \<Rightarrow> checkout_token_claim option" where
  "Verify parse secret now token =
     (if token = [] then None
      else case parse (hmac_key secret) now token of
             None \<Rightarrow> None
           | Some cs \<Rightarrow>
               (case (string_claim ''session_id'' cs, string_claim ''user_id'' cs, string_claim ''event_id'' cs) of
                  (Some ss, Some u, Some e) \<Rightarrow> Some \<lparr>ctSessionID = ss, ctUserID = u, ctEventID = e\<rparr>
                | _ \<Rightarrow> None))"

section \<open>What is relied on\<close>

text \<open>
  golang-jwt gives back what was signed, under the key it was signed with and while the claims
  are valid. The order service's version 3 checks \<open>exp\<close> and \<open>iat\<close> in whole seconds, both
  inclusively; the waiting room's version 5 checks that \<open>exp\<close> has not come.
\<close>

definition reads_signed :: "jwt_sign \<Rightarrow> jwt_parse \<Rightarrow> (claims \<Rightarrow> time \<Rightarrow> bool) \<Rightarrow> bool" where
  "reads_signed sign parse valid \<longleftrightarrow>
     (\<forall>alg secret cs token key now. sign alg secret cs = Some token \<and> key alg = Some secret \<longrightarrow>
        token \<noteq> [] \<and> parse key now token = (if valid cs now then Some cs else None))"

definition number_claim :: "string \<Rightarrow> claims \<Rightarrow> int" where
  "number_claim k cs = (case map_of cs k of Some (ClaimNumber n) \<Rightarrow> n | _ \<Rightarrow> 0)"

definition valid_v3 :: "claims \<Rightarrow> time \<Rightarrow> bool" where
  "valid_v3 cs now \<longleftrightarrow> number_claim ''iat'' cs \<le> now div second \<and> now div second \<le> number_claim ''exp'' cs"

definition valid_v5 :: "claims \<Rightarrow> time \<Rightarrow> bool" where
  "valid_v5 cs now \<longleftrightarrow> now < number_claim ''exp'' cs * second"

lemma reads_signedD:
  assumes "reads_signed sign parse valid" and "sign alg secret cs = Some token" and "key alg = Some secret"
  shows "token \<noteq> []" and "parse key now token = (if valid cs now then Some cs else None)"
  using assms unfolding reads_signed_def by blast+

lemma reads_hmac:
  assumes "reads_signed sign parse valid" and "sign ''HS256'' secret cs = Some token"
  shows "token \<noteq> []" and "parse (hmac_key secret) now token = (if valid cs now then Some cs else None)"
  using reads_signedD [OF assms, of "hmac_key secret"] by (simp_all add: hmac_key_def)

lemma checkout_claims_simps [simp]:
  "string_claim ''session_id'' (checkout_claims expAt now ss) = Some (ssID ss)"
  "string_claim ''user_id'' (checkout_claims expAt now ss) = Some (ssUserID ss)"
  "string_claim ''event_id'' (checkout_claims expAt now ss) = Some (ssEventID ss)"
  "number_claim ''exp'' (checkout_claims expAt now ss) = expAt div second"
  "number_claim ''iat'' (checkout_claims expAt now ss) = now div second"
  "map_of (checkout_claims expAt now ss) ''session_id'' = Some (ClaimString (ssID ss))"
  by (simp_all add: checkout_claims_def string_claim_def number_claim_def)

lemma generated:
  assumes "svc_GenerateCheckoutToken (token_ext sign parse secret x) ss w = (w', Inr token)"
  shows "w' = w" and "sign ''HS256'' secret (checkout_claims (rNow w + xExpiry x) (rNow w) ss) = Some token"
  using assms by (auto simp: svc_GenerateCheckoutToken_def token_ext_def withNow_def fail_def ret_def
      split: option.splits)

lemma generated_verify:
  assumes "reads_signed sign parse valid_v3" and "sign ''HS256'' secret (checkout_claims expAt t0 ss) = Some token"
  shows "Verify parse secret now token =
    (if t0 div second \<le> now div second \<and> now div second \<le> expAt div second
     then Some \<lparr>ctSessionID = ssID ss, ctUserID = ssUserID ss, ctEventID = ssEventID ss\<rparr> else None)"
  using reads_hmac [OF assms] by (simp add: Verify_def valid_v3_def)

lemma generated_session:
  assumes "reads_signed sign parse valid" and "sign ''HS256'' secret (checkout_claims expAt t0 ss) = Some token"
  shows "xParseToken (token_ext sign parse secret x) now token =
    (if valid (checkout_claims expAt t0 ss) now then Inr (Some (ssID ss)) else Inl ErrTokenInvalid)"
  using reads_hmac [OF assms] by (simp add: token_ext_def session_claim_def)

section \<open>A token opens an order\<close>

text \<open>
  C19. The token admits exactly its owner. Whatever token the waiting room generates for a session,
  the order service that shares its secret accepts it, from the second it was signed to the second
  it expires by the order service's own clock, for an order of that user and that event, and reads
  back that session; in every other case it refuses the order.
\<close>

theorem token_admits_owner:
  assumes "reads_signed sign parse valid_v3"
    and "svc_GenerateCheckoutToken (token_ext sign anyParse secret x) ss w = (w', Inr token)"
    and "ordCheckoutToken i = token"
  shows "validateCheckoutToken (y\<lparr>sVerify := Verify parse secret now\<rparr>) i =
    (if rNow w div second \<le> now div second \<and> now div second \<le> (rNow w + xExpiry x) div second
        \<and> ordUserID i = ssUserID ss \<and> ordEventID i = ssEventID ss
     then Inr \<lparr>ctSessionID = ssID ss, ctUserID = ssUserID ss, ctEventID = ssEventID ss\<rparr>
     else Inl ErrInvalidCheckoutToken)"
proof -
  note signed = generated(2) [OF assms(2)]
  show ?thesis
    using generated_verify [OF assms(1) signed, of now] reads_hmac(1) [OF assms(1) signed]
    by (auto simp: validateCheckoutToken_def assms(3))
qed

section \<open>A finished checkout\<close>

text \<open>
  C10. A finished checkout keeps its token at the order service. Once a session is finished, the
  waiting room refuses every token it ever generated for it, whatever calls fail and whatever other
  processes do; the order service accepts the same token for as long as it runs, since it never
  asks whether the token was invalidated. So a buyer whose seat was freed and given to the next in
  line can still order.
\<close>

theorem finished_checkout_still_orders:
  assumes "reads_signed sign parse5 valid_v5" and "reads_signed sign parse3 valid_v3"
    and "svc_GenerateCheckoutToken (token_ext sign parse5 secret x) ss w0 = (w1, Inr token)"
    and "finished (ssID ss) (now_at w)" and "env_in (checkout_watch {}) w"
    and "ordCheckoutToken i = token" and "ordUserID i = ssUserID ss" and "ordEventID i = ssEventID ss"
    and "rNow w0 div second \<le> now div second" and "now div second \<le> (rNow w0 + xExpiry x) div second"
  shows "(\<exists>err. snd (svc_ValidateCheckoutToken (token_ext sign parse5 secret x) token w) = Inl err) \<and>
    validateCheckoutToken (y\<lparr>sVerify := Verify parse3 secret now\<rparr>) i =
      Inr \<lparr>ctSessionID = ssID ss, ctUserID = ssUserID ss, ctEventID = ssEventID ss\<rparr>"
proof
  let ?x = "token_ext sign parse5 secret x"
  note signed = generated(2) [OF assms(3)]
  have "xParseToken ?x t token = Inr (Some (ssID ss)) \<or> (\<exists>err. xParseToken ?x t token = Inl err)" for t
    using generated_session [OF assms(1) signed, of x t] by simp
  then show "\<exists>err. snd (svc_ValidateCheckoutToken ?x token w) = Inl err"
    using finished_token_dead [OF assms(4,5)] by (metis prod.collapse)
  show "validateCheckoutToken (y\<lparr>sVerify := Verify parse3 secret now\<rparr>) i =
      Inr \<lparr>ctSessionID = ssID ss, ctUserID = ssUserID ss, ctEventID = ssEventID ss\<rparr>"
    using generated_verify [OF assms(2) signed, of now] reads_hmac(1) [OF assms(2) signed] assms(6-10)
    by (simp add: validateCheckoutToken_def)
qed

section \<open>Witnesses\<close>

definition one_claims :: claims where
  "one_claims = checkout_claims (1000 * second) (100 * second) wr_s3"

definition one_sign :: jwt_sign where
  "one_sign alg secret cs =
     (if alg = ''HS256'' \<and> secret = ''k'' \<and> cs = one_claims then Some ''signed'' else None)"

definition one_parse :: "(claims \<Rightarrow> time \<Rightarrow> bool) \<Rightarrow> jwt_parse" where
  "one_parse valid key now token =
     (if key ''HS256'' = Some ''k'' \<and> token = ''signed'' \<and> valid one_claims now then Some one_claims else None)"

definition one_order :: create_order_input where
  "one_order = (demo_request [''1''])\<lparr>ordCheckoutToken := ''signed'', ordUserID := ''u3'', ordEventID := ''e''\<rparr>"

lemma one_reads: "reads_signed one_sign (one_parse valid) valid"
  by (auto simp: reads_signed_def one_sign_def one_parse_def split: if_splits)

lemma one_generated:
  "svc_GenerateCheckoutToken (token_ext one_sign parse ''k'' wr_ext0) wr_s3 wr_room0 = (wr_room0, Inr ''signed'')"
  by (simp add: svc_GenerateCheckoutToken_def token_ext_def withNow_def ret_def one_sign_def one_claims_def
      wr_ext0_def minute_def second_def)

lemma one_fields:
  "ssID wr_s3 = ''s3''" "ssUserID wr_s3 = ''u3''" "ssEventID wr_s3 = ''e''"
  "rNow wr_room0 div second = 100" "(rNow wr_room0 + xExpiry wr_ext0) div second = 1000"
  by (simp_all add: wr_s3_def wr_session_def wr_ext0_def minute_def second_def)

lemma token_admits_owner_witness:
  "validateCheckoutToken (demo_svc\<lparr>sVerify := Verify (one_parse valid_v3) ''k'' (1000 * second)\<rparr>) one_order =
     Inr \<lparr>ctSessionID = ''s3'', ctUserID = ''u3'', ctEventID = ''e''\<rparr> \<and>
   validateCheckoutToken (demo_svc\<lparr>sVerify := Verify (one_parse valid_v3) ''k'' (1001 * second)\<rparr>) one_order =
     Inl ErrInvalidCheckoutToken"
proof -
  have i: "ordCheckoutToken one_order = ''signed''" "ordUserID one_order = ''u3''" "ordEventID one_order = ''e''"
    by (simp_all add: one_order_def)
  have at: "(1000 * second) div second = (1000::int)" "(1001 * second) div second = (1001::int)"
    by (simp_all add: second_def)
  show ?thesis
    using token_admits_owner [OF one_reads one_generated i(1)] i by (simp only: one_fields at) simp
qed

lemma finished_checkout_still_orders_witness:
  "(\<exists>err. snd (svc_ValidateCheckoutToken (token_ext one_sign (one_parse valid_v5) ''k'' wr_ext0) ''signed'' wr_paid_room) = Inl err) \<and>
   validateCheckoutToken (demo_svc\<lparr>sVerify := Verify (one_parse valid_v3) ''k'' (150 * second)\<rparr>) one_order =
     Inr \<lparr>ctSessionID = ''s3'', ctUserID = ''u3'', ctEventID = ''e''\<rparr>"
proof -
  have "finished (ssID wr_s3) (now_at wr_paid_room)"
    by (simp add: one_fields finished_def now_at_def wr_paid_room_def IsTerminal_def liveKey_def)
  moreover have "env_in (checkout_watch {}) wr_paid_room" by (rule env_empty) (simp add: wr_paid_room_def)
  moreover have "ordCheckoutToken one_order = ''signed''" "ordUserID one_order = ssUserID wr_s3"
    "ordEventID one_order = ssEventID wr_s3"
    by (simp_all add: one_order_def one_fields)
  moreover have "rNow wr_room0 div second \<le> 150 * second div second"
    "150 * second div second \<le> (rNow wr_room0 + xExpiry wr_ext0) div second"
    unfolding one_fields by (simp_all add: second_def)
  ultimately show ?thesis
    using finished_checkout_still_orders [OF one_reads one_reads one_generated] one_fields(1-3) by metis
qed

end
