(* ===== verification/Order_Cursor.thy ===== *)
theory Order_Cursor
  imports Order_Delivery_Props
begin

text \<open>
  The cursors of paged queries as the client sees them
  (\<open>order-svc/pkg/dynamodb/helpers.go\<close>): the key of the last evaluated row as JSON in base64,
  with the parts of Go's \<open>encoding/base64\<close> and \<open>encoding/json\<close> they use. Key attributes of
  this table are strings, which DynamoDB keeps as valid UTF-8; a string is its bytes. Following cursor strings through the
  RPC then visits every matching order once.
\<close>

section \<open>Base64\<close>

definition b64_char :: "nat \<Rightarrow> char" where
  "b64_char n = (if n < 26 then char_of (n + 65) else if n < 52 then char_of (n + 71)
     else if n < 62 then char_of (n - 4) else if n = 62 then CHR ''+'' else CHR ''/'')"

definition b64_val :: "char \<Rightarrow> nat option" where
  "b64_val c =
     (let n = of_char c in
      if 65 \<le> n \<and> n \<le> 90 then Some (n - 65) else if 97 \<le> n \<and> n \<le> 122 then Some (n - 71)
      else if 48 \<le> n \<and> n \<le> 57 then Some (n + 4) else if n = 43 then Some 62
      else if n = 47 then Some 63 else None)"

fun b64_encode :: "nat list \<Rightarrow> string" where
  "b64_encode [] = []"
| "b64_encode [a] = [b64_char (a div 4), b64_char (a mod 4 * 16), CHR ''='', CHR ''='']"
| "b64_encode [a, b] =
     [b64_char (a div 4), b64_char (a mod 4 * 16 + b div 16), b64_char (b mod 16 * 4), CHR ''='']"
| "b64_encode (a # b # c # bs) =
     b64_char (a div 4) # b64_char (a mod 4 * 16 + b div 16) # b64_char (b mod 16 * 4 + c div 64)
       # b64_char (c mod 64) # b64_encode bs"

text \<open>Padding may only end the text, and the bits it leaves over are not looked at.\<close>

fun b64_groups :: "string \<Rightarrow> nat list option" where
  "b64_groups [] = Some []"
| "b64_groups (p # q # r # s # t) =
     (case (b64_val p, b64_val q) of
        (Some x, Some y) \<Rightarrow>
          if s = CHR ''='' then
            (if t \<noteq> [] then None
             else if r = CHR ''='' then Some [x * 4 + y div 16]
             else case b64_val r of None \<Rightarrow> None
                  | Some z \<Rightarrow> Some [x * 4 + y div 16, y mod 16 * 16 + z div 4])
          else (case (b64_val r, b64_val s) of
                  (Some z, Some u) \<Rightarrow>
                    map_option (\<lambda>bs. (x * 4 + y div 16) # (y mod 16 * 16 + z div 4) # (z mod 4 * 64 + u) # bs)
                      (b64_groups t)
                | _ \<Rightarrow> None)
      | _ \<Rightarrow> None)"
| "b64_groups cs = None"

text \<open>Line breaks are skipped.\<close>

definition b64_decode :: "string \<Rightarrow> nat list option" where
  "b64_decode s = b64_groups (filter (\<lambda>c. of_char c \<noteq> (10::nat) \<and> of_char c \<noteq> (13::nat)) s)"

lemma of_char_b64:
  assumes "n < 64"
  shows "(of_char (b64_char n) :: nat) =
    (if n < 26 then n + 65 else if n < 52 then n + 71 else if n < 62 then n - 4 else if n = 62 then 43 else 47)"
  using assms by (simp add: b64_char_def)

lemma b64_val_char [simp]: "n < 64 \<Longrightarrow> b64_val (b64_char n) = Some n"
  by (auto simp: b64_val_def Let_def of_char_b64)

lemma b64_char_plain:
  assumes "n < 64"
  shows "b64_char n \<noteq> CHR ''=''" and "of_char (b64_char n) \<noteq> (10::nat)" and "of_char (b64_char n) \<noteq> (13::nat)"
proof -
  have "of_char (b64_char n) \<noteq> (61::nat)" using assms by (auto simp: of_char_b64)
  then show "b64_char n \<noteq> CHR ''=''" by auto
qed (use assms in \<open>auto simp: of_char_b64\<close>)

lemma sextets:
  "a < (256::nat) \<Longrightarrow> a div 4 < 64" "b < (256::nat) \<Longrightarrow> a mod 4 * 16 + b div 16 < 64"
  "b mod 16 * 4 < (64::nat)" "c < (256::nat) \<Longrightarrow> b mod 16 * 4 + c div 64 < 64" "c mod 64 < (64::nat)"
proof -
  have "a mod 4 \<le> 3" "b mod 16 \<le> 15" by simp_all
  then show "b < 256 \<Longrightarrow> a mod 4 * 16 + b div 16 < 64" "c < 256 \<Longrightarrow> b mod 16 * 4 + c div 64 < 64"
    using less_mult_imp_div_less [of b 16 16] less_mult_imp_div_less [of c 4 64] by linarith+
qed simp_all

lemma b64_groups_encode:
  assumes "\<forall>b \<in> set bs. b < 256"
  shows "b64_groups (b64_encode bs) = Some bs"
  using assms
proof (induction bs rule: b64_encode.induct)
  case (4 a b c bs)
  then have "b64_groups (b64_encode bs) = Some bs" "a < 256" "b < 256" "c < 256" by simp_all
  then show ?case by (simp add: sextets b64_char_plain)
qed (auto simp: sextets b64_char_plain)

lemma b64_filter_encode:
  assumes "\<forall>b \<in> set bs. b < 256"
  shows "filter (\<lambda>c. of_char c \<noteq> (10::nat) \<and> of_char c \<noteq> (13::nat)) (b64_encode bs) = b64_encode bs"
  using assms by (induction bs rule: b64_encode.induct) (simp_all add: sextets b64_char_plain)

lemma b64_roundtrip: "\<forall>b \<in> set bs. b < 256 \<Longrightarrow> b64_decode (b64_encode bs) = Some bs"
  by (simp add: b64_decode_def b64_filter_encode b64_groups_encode)

section \<open>JSON strings\<close>

definition hex_char :: "nat \<Rightarrow> char" where
  "hex_char n = (if n < 10 then char_of (n + 48) else char_of (n + 87))"

definition hex_val :: "char \<Rightarrow> nat option" where
  "hex_val c =
     (let n = of_char c in
      if 48 \<le> n \<and> n \<le> 57 then Some (n - 48) else if 97 \<le> n \<and> n \<le> 102 then Some (n - 87)
      else if 65 \<le> n \<and> n \<le> 70 then Some (n - 55) else None)"

text \<open>
  How many bytes the first character of a text takes, if they are valid UTF-8: neither too long
  a form nor a surrogate (\<open>unicode/utf8\<close>).
\<close>

definition byte_in :: "nat \<Rightarrow> nat \<Rightarrow> char \<Rightarrow> bool" where
  "byte_in lo hi c \<longleftrightarrow> lo \<le> of_char c \<and> of_char c \<le> hi"

definition lead_width :: "nat \<Rightarrow> nat" where
  "lead_width b = (if b < 0x80 then 1 else if 0xC2 \<le> b \<and> b < 0xE0 then 2 else if 0xE0 \<le> b \<and> b < 0xF0 then 3
     else if 0xF0 \<le> b \<and> b \<le> 0xF4 then 4 else 0)"

definition second_byte :: "nat \<Rightarrow> char \<Rightarrow> bool" where
  "second_byte b = byte_in (if b = 0xE0 then 0xA0 else if b = 0xF0 then 0x90 else 0x80)
     (if b = 0xED then 0x9F else if b = 0xF4 then 0x8F else 0xBF)"

fun rune_width :: "string \<Rightarrow> nat option" where
  "rune_width [] = None"
| "rune_width (c # cs) =
     (let n = lead_width (of_char c)
      in if n = 0 \<or> length cs < n - 1 then None
         else if n = 1 then Some 1
         else if second_byte (of_char c) (hd cs) \<and> list_all (byte_in 0x80 0xBF) (take (n - 2) (tl cs))
         then Some n else None)"

lemma lead_width_one: "lead_width b = 1 \<longleftrightarrow> b < 0x80"
  by (simp add: lead_width_def)

lemma rune_width_bounds:
  assumes "rune_width (c # cs) = Some n"
  shows "n = lead_width (of_char c)" and "1 \<le> n" and "n \<le> length (c # cs)"
    and "of_char c < (128::nat) \<longleftrightarrow> n = 1"
proof -
  show n: "n = lead_width (of_char c)" and "1 \<le> n" "n \<le> length (c # cs)"
    using assms by (auto simp: Let_def split: if_splits)
  show "of_char c < (128::nat) \<longleftrightarrow> n = 1" using lead_width_one [of "of_char c"] by (simp add: n)
qed

lemma rune_width_ascii [simp]: "of_char c < (128::nat) \<Longrightarrow> rune_width (c # cs) = Some 1"
  using lead_width_one [of "of_char c"] by simp

declare rune_width.simps(2) [simp del]

lemma rune_width_prefix:
  assumes "rune_width (c # cs) = Some n"
  shows "rune_width (c # take (n - 1) cs @ rest) = Some n"
proof (cases "n = 1")
  case True
  then have "of_char c < (128::nat)" using rune_width_bounds(4) [OF assms] by simp
  then show ?thesis by (simp add: True)
next
  case False
  then obtain m where n: "n = Suc (Suc m)" using rune_width_bounds(2) [OF assms]
    by (cases n; cases "n - 1") auto
  then obtain d ds where cs: "cs = d # ds" using rune_width_bounds(3) [OF assms] by (cases cs) auto
  have "m \<le> length ds" using rune_width_bounds(3) [OF assms] by (simp add: n cs)
  then have "take m (take m ds @ rest) = take m ds" "m \<le> length (take m ds @ rest)" by simp_all
  moreover have "lead_width (of_char c) = Suc (Suc m)" using rune_width_bounds(1) [OF assms] by (simp add: n)
  ultimately show ?thesis using assms unfolding n cs
    by (simp add: rune_width.simps(2) split: if_splits)
qed

function valid_utf8 :: "string \<Rightarrow> bool" where
  "valid_utf8 [] = True"
| "valid_utf8 (c # cs) =
     (case rune_width (c # cs) of None \<Rightarrow> False | Some n \<Rightarrow> valid_utf8 (drop (n - 1) cs))"
  by pat_completeness auto
termination by (relation "measure length") simp_all

lemma valid_utf8_ascii [simp]: "of_char c < (128::nat) \<Longrightarrow> valid_utf8 (c # cs) = valid_utf8 cs"
  by simp

declare valid_utf8.simps(2) [simp del]

text \<open>What the encoder writes for a character of one byte, HTML's special ones included.\<close>

definition json_escape :: "char \<Rightarrow> string" where
  "json_escape c =
     (let n = of_char c :: nat in
      if n = 34 \<or> n = 92 then [CHR 0x5C, c]
      else if n = 8 then [CHR 0x5C, CHR ''b''] else if n = 12 then [CHR 0x5C, CHR ''f'']
      else if n = 10 then [CHR 0x5C, CHR ''n''] else if n = 13 then [CHR 0x5C, CHR ''r'']
      else if n = 9 then [CHR 0x5C, CHR ''t'']
      else if n < 32 \<or> n = 60 \<or> n = 62 \<or> n = 38
      then CHR 0x5C # ''u00'' @ [hex_char (n div 16), hex_char (n mod 16)]
      else [c])"

definition utf8 :: "nat \<Rightarrow> string" where
  "utf8 n =
     (if n < 0x80 then [char_of n]
      else if n < 0x800 then [char_of (0xC0 + n div 64), char_of (0x80 + n mod 64)]
      else if n < 0x10000
      then [char_of (0xE0 + n div 4096), char_of (0x80 + n div 64 mod 64), char_of (0x80 + n mod 64)]
      else [char_of (0xF0 + n div 262144), char_of (0x80 + n div 4096 mod 64),
            char_of (0x80 + n div 64 mod 64), char_of (0x80 + n mod 64)])"

text \<open>
  A longer character is written as it is, but for the line and the paragraph separator; bytes
  that are no UTF-8 become U+FFFD, one for each.
\<close>

definition json_rune :: "string \<Rightarrow> string" where
  "json_rune r = (if r = utf8 0x2028 then CHR 0x5C # ''u2028'' else if r = utf8 0x2029 then CHR 0x5C # ''u2029'' else r)"

function json_chars :: "string \<Rightarrow> string" where
  "json_chars [] = []"
| "json_chars (c # cs) =
     (if of_char c < (128::nat) then json_escape c @ json_chars cs
      else case rune_width (c # cs) of
             None \<Rightarrow> CHR 0x5C # ''ufffd'' @ json_chars cs
           | Some n \<Rightarrow> json_rune (c # take (n - 1) cs) @ json_chars (drop (n - 1) cs))"
  by pat_completeness auto
termination by (relation "measure length") simp_all

declare json_chars.simps(2) [simp del]

definition json_quote :: "string \<Rightarrow> string" where
  "json_quote s = CHR 0x22 # json_chars s @ [CHR 0x22]"

fun hex4 :: "string \<Rightarrow> nat option" where
  "hex4 (a # b # c # d # cs) =
     (case (hex_val a, hex_val b, hex_val c, hex_val d) of
        (Some w, Some x, Some y, Some z) \<Rightarrow> Some (((w * 16 + x) * 16 + y) * 16 + z)
      | _ \<Rightarrow> None)"
| "hex4 cs = None"

text \<open>A low surrogate right after a high one; a surrogate without its other half reads as U+FFFD.\<close>

definition low_surrogate :: "string \<Rightarrow> nat option" where
  "low_surrogate cs =
     (if take 2 cs = [CHR 0x5C, CHR ''u'']
      then case hex4 (drop 2 cs) of
             Some n \<Rightarrow> if 0xDC00 \<le> n \<and> n < 0xE000 then Some (n - 0xDC00) else None
           | None \<Rightarrow> None
      else None)"

definition escaped_char :: "char \<Rightarrow> char option" where
  "escaped_char c =
     (if c \<in> {CHR 0x22, CHR 0x5C, CHR ''/''} then Some c
      else if c = CHR ''b'' then Some (CHR 0x08) else if c = CHR ''f'' then Some (CHR 0x0C)
      else if c = CHR ''n'' then Some (CHR 0x0A) else if c = CHR ''r'' then Some (CHR 0x0D)
      else if c = CHR ''t'' then Some (CHR 0x09) else None)"

definition prefixing :: "string \<Rightarrow> (string \<times> string) option \<Rightarrow> (string \<times> string) option" where
  "prefixing p r = map_option (\<lambda>(s, rest). (p @ s, rest)) r"

text \<open>The rest of a string after its opening quote: its contents, and what follows it.\<close>

function json_unquote :: "string \<Rightarrow> (string \<times> string) option" where
  "json_unquote [] = None"
| "json_unquote (c # cs) =
     (if c = CHR 0x22 then Some ([], cs)
      else if c \<noteq> CHR 0x5C
      then (if of_char c < (32::nat) then None
            else if of_char c < (128::nat) then prefixing [c] (json_unquote cs)
            else case rune_width (c # cs) of
                   None \<Rightarrow> prefixing (utf8 0xFFFD) (json_unquote cs)
                 | Some n \<Rightarrow> prefixing (c # take (n - 1) cs) (json_unquote (drop (n - 1) cs)))
      else if cs = [] then None
      else if hd cs \<noteq> CHR ''u''
      then (case escaped_char (hd cs) of None \<Rightarrow> None | Some e \<Rightarrow> prefixing [e] (json_unquote (tl cs)))
      else case hex4 (tl cs) of
             None \<Rightarrow> None
           | Some n \<Rightarrow>
               if n < 0xD800 \<or> 0xE000 \<le> n then prefixing (utf8 n) (json_unquote (drop 5 cs))
               else if 0xDC00 \<le> n then prefixing (utf8 0xFFFD) (json_unquote (drop 5 cs))
               else (case low_surrogate (drop 5 cs) of
                       None \<Rightarrow> prefixing (utf8 0xFFFD) (json_unquote (drop 5 cs))
                     | Some l \<Rightarrow>
                         prefixing (utf8 (0x10000 + (n - 0xD800) * 1024 + l)) (json_unquote (drop 11 cs))))"
  by pat_completeness auto

lemma shorter:
  "length cs < length (c # cs)" "length (tl cs) < length (c # cs)" "length (drop n cs) < length (c # cs)"
  by simp_all

termination json_unquote
  by (relation "measure length") (simp_all only: in_measure shorter wf_measure)

lemma hex_val_char [simp]: "d < 16 \<Longrightarrow> hex_val (hex_char d) = Some d"
  by (auto simp: hex_val_def hex_char_def Let_def)

declare json_unquote.simps(2) [simp del]

lemma json_unquote_steps:
  "json_unquote (CHR 0x22 # cs) = Some ([], cs)"
  "c \<noteq> CHR 0x22 \<Longrightarrow> c \<noteq> CHR 0x5C \<Longrightarrow> 32 \<le> (of_char c :: nat) \<Longrightarrow> of_char c < (128::nat) \<Longrightarrow>
    json_unquote (c # cs) = prefixing [c] (json_unquote cs)"
  "e \<noteq> CHR ''u'' \<Longrightarrow> escaped_char e = Some d \<Longrightarrow>
    json_unquote (CHR 0x5C # e # cs) = prefixing [d] (json_unquote cs)"
  "hex4 cs = Some n \<Longrightarrow> n < 0xD800 \<Longrightarrow>
    json_unquote (CHR 0x5C # CHR ''u'' # cs) = prefixing (utf8 n) (json_unquote (drop 4 cs))"
  by (subst json_unquote.simps(2); simp)+

lemma json_escape_pairs:
  "json_escape (CHR 0x22) = [CHR 0x5C, CHR 0x22]" "json_escape (CHR 0x5C) = [CHR 0x5C, CHR 0x5C]"
  "json_escape (CHR 0x08) = [CHR 0x5C, CHR ''b'']" "json_escape (CHR 0x0C) = [CHR 0x5C, CHR ''f'']"
  "json_escape (CHR 0x0A) = [CHR 0x5C, CHR ''n'']" "json_escape (CHR 0x0D) = [CHR 0x5C, CHR ''r'']"
  "json_escape (CHR 0x09) = [CHR 0x5C, CHR ''t'']"
  by (simp_all add: json_escape_def Let_def)

lemma char_codes:
  "of_char c = (34::nat) \<longleftrightarrow> c = CHR 0x22" "of_char c = (92::nat) \<longleftrightarrow> c = CHR 0x5C"
  "of_char c = (8::nat) \<longleftrightarrow> c = CHR 0x08" "of_char c = (12::nat) \<longleftrightarrow> c = CHR 0x0C"
  "of_char c = (10::nat) \<longleftrightarrow> c = CHR 0x0A" "of_char c = (13::nat) \<longleftrightarrow> c = CHR 0x0D"
  "of_char c = (9::nat) \<longleftrightarrow> c = CHR 0x09"
  using of_char_eq_iff [of c "CHR 0x22", where ?'a = nat] of_char_eq_iff [of c "CHR 0x5C", where ?'a = nat]
    of_char_eq_iff [of c "CHR 0x08", where ?'a = nat] of_char_eq_iff [of c "CHR 0x0C", where ?'a = nat]
    of_char_eq_iff [of c "CHR 0x0A", where ?'a = nat] of_char_eq_iff [of c "CHR 0x0D", where ?'a = nat]
    of_char_eq_iff [of c "CHR 0x09", where ?'a = nat]
  by simp_all

lemma json_unquote_char:
  assumes "of_char c < (128::nat)"
  shows "json_unquote (json_escape c @ cs) = prefixing [c] (json_unquote cs)"
proof (cases "c \<in> {CHR 0x22, CHR 0x5C, CHR 0x08, CHR 0x0C, CHR 0x0A, CHR 0x0D, CHR 0x09}")
  case True
  then consider "c = CHR 0x22" | "c = CHR 0x5C" | "c = CHR 0x08" | "c = CHR 0x0C" | "c = CHR 0x0A"
    | "c = CHR 0x0D" | "c = CHR 0x09" by blast
  then show ?thesis
    by cases (simp_all add: json_escape_pairs json_unquote_steps(3) escaped_char_def)
next
  case False
  let ?n = "of_char c :: nat"
  have plain: "?n \<noteq> 34" "?n \<noteq> 92" "?n \<noteq> 8" "?n \<noteq> 12" "?n \<noteq> 10" "?n \<noteq> 13" "?n \<noteq> 9"
    using False by (simp_all add: char_codes)
  show ?thesis
  proof (cases "?n < 32 \<or> ?n = 60 \<or> ?n = 62 \<or> ?n = 38")
    case hex: True
    have "?n div 16 < 16" "?n mod 16 < 16" using assms by simp_all
    then have "hex_val (hex_char (?n div 16)) = Some (?n div 16)" "hex_val (hex_char (?n mod 16)) = Some (?n mod 16)"
      by simp_all
    moreover have "hex_val (CHR ''0'') = Some 0" by (simp add: hex_val_def)
    ultimately have h: "hex4 (''00'' @ [hex_char (?n div 16), hex_char (?n mod 16)] @ cs) = Some ?n"
      by simp
    have "json_escape c = CHR 0x5C # ''u00'' @ [hex_char (?n div 16), hex_char (?n mod 16)]"
      using plain hex by (simp add: json_escape_def Let_def)
    moreover have "utf8 ?n = [c]" using assms by (simp add: utf8_def)
    ultimately show ?thesis using assms json_unquote_steps(4) [OF h] by simp
  next
    case no: False
    then have "json_escape c = [c]" using plain by (simp add: json_escape_def Let_def)
    with False no assms show ?thesis by (simp add: json_unquote_steps(2))
  qed
qed

lemma json_unquote_rune:
  assumes "rune_width (c # cs) = Some n" and "\<not> of_char c < (128::nat)"
  shows "json_unquote (json_rune (c # take (n - 1) cs) @ rest) = prefixing (c # take (n - 1) cs) (json_unquote rest)"
proof -
  let ?r = "c # take (n - 1) cs"
  have sep: "hex4 (''2028'' @ rest) = Some 0x2028" "hex4 (''2029'' @ rest) = Some 0x2029"
    by (simp_all add: hex_val_def)
  have len: "length (take (n - 1) cs) = n - 1" using rune_width_bounds(3) [OF assms(1)] by simp
  show ?thesis
  proof (cases "?r = utf8 0x2028 \<or> ?r = utf8 0x2029")
    case True
    moreover have "utf8 0x2028 \<noteq> utf8 0x2029" by (simp add: utf8_def)
    ultimately show ?thesis
      using json_unquote_steps(4) [OF sep(1)] json_unquote_steps(4) [OF sep(2)] by (auto simp: json_rune_def)
  next
    case False
    have "of_char c \<noteq> (34::nat)" "of_char c \<noteq> (92::nat)" using assms(2) by auto
    then have c: "c \<noteq> CHR 0x22" "c \<noteq> CHR 0x5C" by (simp_all add: char_codes)
    have "json_unquote (?r @ rest) = prefixing ?r (json_unquote rest)"
      using rune_width_prefix [OF assms(1), of rest] c assms(2) len
      by (simp add: json_unquote.simps(2))
    then show ?thesis using False by (simp add: json_rune_def)
  qed
qed

lemma json_unquote_chars:
  assumes "valid_utf8 s"
  shows "json_unquote (json_chars s @ CHR 0x22 # cs) = Some (s, cs)"
  using assms
proof (induction s rule: valid_utf8.induct)
  case 1
  then show ?case by (simp add: json_unquote_steps(1))
next
  case (2 c ds)
  obtain n where n: "rune_width (c # ds) = Some n" "valid_utf8 (drop (n - 1) ds)"
    using 2(2) by (auto simp: valid_utf8.simps(2) split: option.splits)
  note ih = 2(1) [OF n]
  show ?case
  proof (cases "of_char c < (128::nat)")
    case True
    then have "n = 1" using rune_width_bounds(4) [OF n(1)] by simp
    then show ?thesis using ih json_unquote_char [OF True] True by (simp add: json_chars.simps(2) prefixing_def)
  next
    case False
    then show ?thesis using ih json_unquote_rune [OF n(1) False] n(1) by (simp add: json_chars.simps(2) prefixing_def)
  qed
qed

lemma json_unquote_quote: "valid_utf8 s \<Longrightarrow> json_unquote (tl (json_quote s) @ cs) = Some (s, cs)"
  by (simp add: json_quote_def json_unquote_chars)

section \<open>JSON objects of strings\<close>

definition skip_ws :: "string \<Rightarrow> string" where
  "skip_ws s = dropWhile (\<lambda>c. c \<in> {CHR '' '', CHR 0x09, CHR 0x0A, CHR 0x0D}) s"

definition json_string :: "string \<Rightarrow> (string \<times> string) option" where
  "json_string s = (case skip_ws s of [] \<Rightarrow> None | c # cs \<Rightarrow> if c = CHR 0x22 then json_unquote cs else None)"

definition json_token :: "char \<Rightarrow> string \<Rightarrow> string option" where
  "json_token t s = (case skip_ws s of [] \<Rightarrow> None | c # cs \<Rightarrow> if c = t then Some cs else None)"

definition json_member :: "string \<Rightarrow> ((string \<times> string) \<times> string) option" where
  "json_member s =
     (case json_string s of
        None \<Rightarrow> None
      | Some (k, r) \<Rightarrow>
          (case json_token (CHR '':'') r of
             None \<Rightarrow> None
           | Some r2 \<Rightarrow> map_option (\<lambda>(v, r3). ((k, v), r3)) (json_string r2)))"

lemma skip_ws_length: "length (skip_ws s) \<le> length s"
  by (simp add: skip_ws_def length_dropWhile_le)

lemma prefixing_Some: "prefixing p r = Some (s, t) \<longleftrightarrow> (\<exists>s'. r = Some (s', t) \<and> s = p @ s')"
  by (auto simp: prefixing_def)

lemma json_unquote_length: "json_unquote s = Some (x, r) \<Longrightarrow> length r \<le> length s"
proof (induction s arbitrary: x r rule: length_induct)
  case (1 s)
  then have IH: "json_unquote t = Some (y, r) \<Longrightarrow> length t < length s \<Longrightarrow> length r \<le> length s" for t y
    by force
  show ?case
  proof (cases s)
    case (Cons c cs)
    then have rest: "\<And>y. json_unquote cs = Some (y, r) \<Longrightarrow> length r \<le> length s"
      "\<And>y. json_unquote (tl cs) = Some (y, r) \<Longrightarrow> length r \<le> length s"
      "\<And>n y. json_unquote (drop n cs) = Some (y, r) \<Longrightarrow> length r \<le> length s"
      using Cons IH by simp_all
    have "json_unquote (c # cs) = Some (x, r)" "length cs \<le> length s" using 1(2) Cons by simp_all
    then show ?thesis
      by (auto simp only: json_unquote.simps(2) prefixing_Some dest: rest split: if_splits option.splits)
  qed (use 1(2) in simp)
qed

lemma json_token_length: "json_token c s = Some r \<Longrightarrow> length r < length s"
  using skip_ws_length [of s] by (auto simp: json_token_def split: list.splits if_splits)

lemma json_string_length: "json_string s = Some (x, r) \<Longrightarrow> length r < length s"
  using skip_ws_length [of s] json_unquote_length by (fastforce simp: json_string_def split: list.splits if_splits)

lemma json_member_length: "json_member s = Some (kv, r) \<Longrightarrow> length r < length s"
  by (auto simp: json_member_def split: option.splits dest!: json_token_length json_string_length)

function json_members :: "string \<Rightarrow> ((string \<times> string) list \<times> string) option" where
  "json_members s =
     (case json_member s of
        None \<Rightarrow> None
      | Some (kv, r) \<Rightarrow>
          (case json_token (CHR ''}'') r of
             Some r2 \<Rightarrow> Some ([kv], r2)
           | None \<Rightarrow>
               (case json_token (CHR '','') r of
                  None \<Rightarrow> None
                | Some r2 \<Rightarrow> map_option (\<lambda>(kvs, r3). (kv # kvs, r3)) (json_members r2))))"
  by pat_completeness auto
termination by (relation "measure length") (auto dest!: json_member_length json_token_length)

declare json_members.simps [simp del]

text \<open>
  An object whose members are strings, and nothing after it. Any other JSON text is refused here; the code
  hands it on, and DynamoDB refuses it as a start key, the key attributes being strings.
\<close>

definition json_object :: "string \<Rightarrow> (string \<times> string) list option" where
  "json_object s =
     (case json_token (CHR ''{'') s of
        None \<Rightarrow> None
      | Some r \<Rightarrow>
          (case (case json_token (CHR ''}'') r of Some r2 \<Rightarrow> Some ([], r2) | None \<Rightarrow> json_members r) of
             None \<Rightarrow> None
           | Some (kvs, r3) \<Rightarrow> if skip_ws r3 = [] then Some kvs else None))"

definition json_render :: "(string \<times> string) list \<Rightarrow> string" where
  "json_render kvs =
     CHR ''{'' # (case kvs of
        [] \<Rightarrow> []
      | kv # rest \<Rightarrow>
          (json_quote (fst kv) @ '':'' @ json_quote (snd kv)) @
          concat (map (\<lambda>(k, v). '','' @ json_quote k @ '':'' @ json_quote v) rest)) @ ''}''"

lemma json_token_eq [simp]:
  "c \<notin> {CHR '' '', CHR 0x09, CHR 0x0A, CHR 0x0D} \<Longrightarrow> json_token t (c # cs) = (if c = t then Some cs else None)"
  by (simp add: json_token_def skip_ws_def)

lemma json_string_quote: "valid_utf8 s \<Longrightarrow> json_string (json_quote s @ cs) = Some (s, cs)"
  using json_unquote_quote [of s cs] by (simp add: json_string_def skip_ws_def json_quote_def)

lemma json_member_render:
  assumes "valid_utf8 k" and "valid_utf8 v"
  shows "json_member (json_quote k @ '':'' @ json_quote v @ cs) = Some ((k, v), cs)"
  using json_string_quote [OF assms(1), of "'':'' @ json_quote v @ cs"] json_string_quote [OF assms(2), of cs]
  by (simp add: json_member_def)

lemma json_members_render:
  assumes "\<forall>(k, v) \<in> set ((k0, v0) # kvs). valid_utf8 k \<and> valid_utf8 v"
  shows "json_members (json_quote k0 @ '':'' @ json_quote v0 @
      concat (map (\<lambda>(k, v). '','' @ json_quote k @ '':'' @ json_quote v) kvs) @ ''}'' @ cs) =
    Some ((k0, v0) # kvs, cs)"
  using assms
proof (induction kvs arbitrary: k0 v0)
  case Nil
  then show ?case
    using json_member_render [of k0 v0 "''}'' @ cs"] by (subst json_members.simps) simp
next
  case (Cons kv kvs)
  obtain k v where kv: "kv = (k, v)" by fastforce
  have "json_members (json_quote k @ '':'' @ json_quote v @
      concat (map (\<lambda>(k, v). '','' @ json_quote k @ '':'' @ json_quote v) kvs) @ ''}'' @ cs) = Some ((k, v) # kvs, cs)"
    using Cons.IH [of k v] Cons.prems by (simp add: kv)
  then show ?case
    using Cons.prems json_member_render [of k0 v0 "'','' @ json_quote k @ '':'' @ json_quote v @
        concat (map (\<lambda>(k, v). '','' @ json_quote k @ '':'' @ json_quote v) kvs) @ ''}'' @ cs"]
    by (subst json_members.simps) (simp add: kv)
qed

lemma json_object_render:
  assumes "\<forall>(k, v) \<in> set kvs. valid_utf8 k \<and> valid_utf8 v"
  shows "json_object (json_render kvs) = Some kvs"
proof (cases kvs)
  case Nil
  then show ?thesis by (simp add: json_object_def json_render_def skip_ws_def)
next
  case (Cons kv rest)
  obtain k v where kv: "kv = (k, v)" by fastforce
  have open_quote: "json_token (CHR ''}'') (json_quote k @ cs) = None" for cs
    by (simp add: json_quote_def)
  show ?thesis
    using json_members_render [of k v rest "[]"] assms
    by (simp add: json_object_def json_render_def Cons kv open_quote skip_ws_def)
qed

section \<open>Cursors\<close>

text \<open>
  A key is the list of its attributes, in the order of their names, which is how
  \<open>encoding/json\<close> writes a map. Of a member that comes twice the later value counts.
\<close>

definition EncodeCursor :: "(string \<times> string) list option \<Rightarrow> string" where
  "EncodeCursor lastKey =
     (case lastKey of None \<Rightarrow> [] | Some kvs \<Rightarrow> b64_encode (map of_char (json_render (sort_key fst kvs))))"

definition DecodeCursor :: "string \<Rightarrow> unit + (string \<times> string) list option" where
  "DecodeCursor cursor =
     (if cursor = [] then Inr None
      else case b64_decode cursor of
             None \<Rightarrow> Inl ()
           | Some bs \<Rightarrow>
               (case json_object (map char_of bs) of
                  None \<Rightarrow> Inl ()
                | Some kvs \<Rightarrow> Inr (Some (fold (\<lambda>(k, v). AList.update k v) kvs []))))"

lemma fold_update_distinct:
  assumes "distinct (map fst (acc @ kvs))"
  shows "fold (\<lambda>(k, v). AList.update k v) kvs acc = acc @ kvs"
  using assms
proof (induction kvs arbitrary: acc)
  case (Cons kv kvs)
  obtain k v where kv: "kv = (k, v)" by fastforce
  have "k \<notin> fst ` set acc" using Cons.prems by (auto simp: kv)
  then have "AList.update k v acc = acc @ [(k, v)]" by (induction acc) auto
  with Cons show ?case by (simp add: kv)
qed simp

lemma b64_encode_nil: "b64_encode bs = [] \<longleftrightarrow> bs = []"
  by (cases bs rule: b64_encode.cases) simp_all

lemma cursor_decodes:
  assumes "distinct (map fst kvs)" and "\<forall>(k, v) \<in> set kvs. valid_utf8 k \<and> valid_utf8 v"
  shows "EncodeCursor (Some kvs) \<noteq> []" and "DecodeCursor (EncodeCursor (Some kvs)) = Inr (Some (sort_key fst kvs))"
proof -
  let ?j = "json_render (sort_key fst kvs)"
  show ne: "EncodeCursor (Some kvs) \<noteq> []" by (simp add: EncodeCursor_def b64_encode_nil json_render_def)
  have "b64_decode (b64_encode (map of_char ?j)) = Some (map of_char ?j)"
    by (rule b64_roundtrip) (auto simp: of_char_def)
  moreover have "map char_of (map of_char ?j :: nat list) = ?j" by (simp add: map_idI)
  moreover have "json_object ?j = Some (sort_key fst kvs)" using assms(2) by (simp add: json_object_render)
  moreover have "distinct (map fst (sort_key fst kvs))"
    using assms(1) by (metis mset_map mset_sort mset_eq_imp_distinct_iff)
  ultimately show "DecodeCursor (EncodeCursor (Some kvs)) = Inr (Some (sort_key fst kvs))"
    using ne fold_update_distinct [of "[]" "sort_key fst kvs"] by (simp add: DecodeCursor_def EncodeCursor_def)
qed

section \<open>Pages through the RPC\<close>

text \<open>
  The key attributes of a row: those of the index the query runs on, and the table's own. A
  cursor starts a query after the row it names.
\<close>

definition row_key :: "filter_order \<Rightarrow> otable \<Rightarrow> dkey \<Rightarrow> (string \<times> string) list" where
  "row_key f t k =
     (case (map_of t k, if fUserID f \<noteq> [] then Some (''GSI1'', oGSI1PK, oGSI1SK)
          else if fEventID f \<noteq> [] then Some (''GSI2'', oGSI2PK, oGSI2SK) else None) of
        (Some (DOrder ord), Some (index, pk, sk)) \<Rightarrow> [(index @ ''PK'', pk ord), (index @ ''SK'', sk ord)]
      | _ \<Rightarrow> []) @ [(''PK'', fst k), (''SK'', snd k)]"

definition cursor_of :: "filter_order \<Rightarrow> otable \<Rightarrow> dkey \<Rightarrow> string" where
  "cursor_of f t k = EncodeCursor (Some (row_key f t k))"

definition start_key :: "string \<Rightarrow> dkey option" where
  "start_key cursor =
     (case DecodeCursor cursor of
        Inr (Some kvs) \<Rightarrow>
          (case (map_of kvs ''PK'', map_of kvs ''SK'') of (Some p, Some s) \<Rightarrow> Some (p, s) | _ \<Rightarrow> None)
      | _ \<Rightarrow> None)"

definition utf8_row :: "dkey \<times> ditem \<Rightarrow> bool" where
  "utf8_row kv \<longleftrightarrow> valid_utf8 (fst (fst kv)) \<and> valid_utf8 (snd (fst kv)) \<and>
     (case snd kv of
        DOrder ord \<Rightarrow> valid_utf8 (oGSI1PK ord) \<and> valid_utf8 (oGSI1SK ord) \<and> valid_utf8 (oGSI2PK ord) \<and> valid_utf8 (oGSI2SK ord)
      | _ \<Rightarrow> True)"

lemma row_key_facts:
  shows "distinct (map fst (row_key f t k))"
    and "map_of (row_key f t k) ''PK'' = Some (fst k)" and "map_of (row_key f t k) ''SK'' = Some (snd k)"
  by (auto simp: row_key_def split: option.split ditem.split)

lemma row_key_utf8:
  assumes "list_all utf8_row t" and "k \<in> fst ` set t"
  shows "\<forall>(a, v) \<in> set (row_key f t k). valid_utf8 a \<and> valid_utf8 v"
proof -
  obtain it where it: "map_of t k = Some it" using assms(2) by (metis domD dom_map_of_conv_image_fst)
  then have "utf8_row (k, it)" using assms(1) map_of_SomeD by (fastforce simp: list_all_iff)
  then show ?thesis by (auto simp: row_key_def it utf8_row_def split: ditem.splits if_splits)
qed

lemma map_of_sort_key:
  assumes "distinct (map fst kvs)"
  shows "map_of (sort_key fst kvs) = map_of kvs"
  using assms by (subst map_of_inject_set) (metis mset_map mset_sort mset_eq_imp_distinct_iff, simp_all)

lemma start_cursor:
  assumes "list_all utf8_row t" and "k \<in> fst ` set t"
  shows "cursor_of f t k \<noteq> []" and "start_key (cursor_of f t k) = Some k"
  using cursor_decodes [OF row_key_facts(1) row_key_utf8 [OF assms]]
  by (simp_all add: cursor_of_def start_key_def map_of_sort_key row_key_facts)

lemma after_cursor_subset: "set (after_cursor c rows) \<subseteq> set rows"
proof (cases c)
  case (Some k)
  let ?rows = "dropWhile (\<lambda>kv. fst kv \<noteq> k) rows"
  have "set (tl xs) \<subseteq> set xs" for xs :: "(dkey \<times> ditem) list" by (cases xs) auto
  then have "set (tl ?rows) \<subseteq> set ?rows" .
  moreover have "set ?rows \<subseteq> set rows" by (auto dest: set_dropWhileD)
  ultimately have "set (tl ?rows) \<subseteq> set rows" by (rule subset_trans)
  then show ?thesis by (simp add: after_cursor_def Some)
qed (simp add: after_cursor_def)

lemma GetMany_cursor:
  assumes "GetManyOrders fits f pq t = Inr (os, pg)" and "pgNextCursor pg = Some k" and "\<And>rows. 1 \<le> fits rows"
  shows "k \<in> fst ` set t"
proof -
  let ?rows = "after_cursor (pqCursor (Adjust pq)) (query_rows f t)" and ?limit = "int32 (pqLimit (Adjust pq))"
  let ?seen = "take (min (nat ?limit) (fits ?rows)) ?rows"
  have lim: "\<not> ?limit < 1" and len: "length ?seen = nat ?limit \<or> length ?seen < length ?rows"
    and k: "k = fst (last ?seen)"
    using assms(1,2) by (auto simp: GetMany_page page_def Let_def split: if_splits)
  have "0 < min (nat ?limit) (fits ?rows)" using lim assms(3) [of ?rows] by simp
  moreover have "?rows \<noteq> []" using len lim by auto
  ultimately have "?seen \<noteq> []" by simp
  then have "last ?seen \<in> set ?rows" using last_in_set in_set_takeD by metis
  moreover have "set (query_rows f t) \<subseteq> set t" by (auto simp: query_rows_def index_rows_def)
  ultimately show ?thesis using after_cursor_subset k by blast
qed

text \<open>A client that asks for a page, then for the page after its cursor, until there is none.\<close>

fun follow ::
  "page_cut \<Rightarrow> nat \<Rightarrow> (time \<Rightarrow> string) \<Rightarrow> filter_order \<Rightarrow> string \<Rightarrow> int \<Rightarrow> pb_order_filter option \<Rightarrow> world \<Rightarrow> pb_order list option" where
  "follow fits 0 fmt f cursor pageSize fil w = None"
| "follow fits (Suc n) fmt f cursor pageSize fil w =
     (case rpc_GetManyOrders fits fmt start_key (cursor_of f (wTable w)) cursor pageSize fil w of
        (w', Inl e) \<Rightarrow> None
      | (w', Inr (os, pg)) \<Rightarrow>
          if ppNextCursor pg = [] then Some os
          else map_option (append os) (follow fits n fmt f (ppNextCursor pg) pageSize fil w'))"

lemma follow_walk:
  assumes "wEnv w = []" and "list_all utf8_row (wTable w)" and "validateFilterOption fil = None"
    and "0 < pageSize" and "f = newOrderFilter fil" and "\<forall>k. c = Some k \<longrightarrow> k \<in> fst ` set (wTable w)"
    and "cursor = (case c of None \<Rightarrow> [] | Some k \<Rightarrow> cursor_of f (wTable w) k)"
    and "walk_pages fits n f pageSize c (wTable w) = Some os" and "\<And>rows. 1 \<le> fits rows"
  shows "follow fits n fmt f cursor pageSize fil w = Some (map (newOrderResponse fmt) os)"
  using assms(6-8)
proof (induction n arbitrary: c cursor os)
  case 0
  then show ?case by simp
next
  case (Suc n)
  let ?t = "wTable w"
  have key: "(if cursor = [] then None else start_key cursor) = c" "\<not> (cursor \<noteq> [] \<and> start_key cursor = None)"
    using Suc.prems(1,2) start_cursor [OF assms(2)] by (auto split: option.splits)
  obtain os1 pg where page: "GetManyOrders fits f \<lparr>pqLimit = pageSize, pqCursor = c\<rparr> ?t = Inr (os1, pg)"
    using Suc.prems(3) by (auto split: sum.splits)
  have rpc: "rpc_GetManyOrders fits fmt start_key (cursor_of f ?t) cursor pageSize fil w =
      (w, Inr (map (newOrderResponse fmt) os1,
        \<lparr>ppNextCursor = (case pgNextCursor pg of None \<Rightarrow> [] | Some k \<Rightarrow> cursor_of f ?t k),
         ppPageSize = pgPageSize pg, ppCount = pgCount pg, ppHasNext = pgHasMore pg\<rparr>))"
    unfolding rpc_GetManyOrders_def if_not_P [OF key(2)]
    using assms(1,3,4) page key(1)
    by (simp add: validateGetManyOrdersRequest_def svc_GetMany_def svc_call_def reply_def assms(5) [symmetric])
  show ?case
  proof (cases "pgNextCursor pg")
    case None
    then show ?thesis using Suc.prems(3) page by (simp add: rpc)
  next
    case (Some k)
    then have k: "k \<in> fst ` set ?t" using GetMany_cursor [OF page _ assms(9)] by simp
    obtain os2 where os2: "walk_pages fits n f pageSize (Some k) ?t = Some os2" "os = os1 @ os2"
      using Suc.prems(3) page Some by auto
    have "follow fits n fmt f (cursor_of f ?t k) pageSize fil w = Some (map (newOrderResponse fmt) os2)"
      using Suc.IH [OF _ _ os2(1)] k by simp
    then show ?thesis using start_cursor(1) [OF assms(2) k] by (simp add: rpc Some os2(2))
  qed
qed

text \<open>
  C31. A cursor names its row. Every key whose attributes are strings of valid UTF-8, as
  DynamoDB keeps them, encoded for the client, is a text that is not empty and that decodes to the
  same attributes: so the first page's empty cursor is never the cursor of a later page.
\<close>

theorem cursor_roundtrip:
  assumes "distinct (map fst kvs)" and "\<forall>(k, v) \<in> set kvs. valid_utf8 k \<and> valid_utf8 v"
  shows "EncodeCursor (Some kvs) \<noteq> EncodeCursor None \<and>
    DecodeCursor (EncodeCursor (Some kvs)) = Inr (Some (sort_key fst kvs)) \<and>
    map_of (sort_key fst kvs) = map_of kvs"
  using cursor_decodes [OF assms] map_of_sort_key [OF assms(1)] by (simp add: EncodeCursor_def)

lemma cursor_roundtrip_witness:
  "DecodeCursor (EncodeCursor (Some [(''SK'', ''ORDER#<A>''), (''PK'', [CHR 0xC3, CHR 0xA9, CHR 0xE2, CHR 0x80, CHR 0xA8])])) =
     Inr (Some [(''PK'', [CHR 0xC3, CHR 0xA9, CHR 0xE2, CHR 0x80, CHR 0xA8]), (''SK'', ''ORDER#<A>'')])"
  using cursor_roundtrip [of "[(''SK'', ''ORDER#<A>''), (''PK'', [CHR 0xC3, CHR 0xA9, CHR 0xE2, CHR 0x80, CHR 0xA8])]"]
  by (simp add: less_eq_char_def valid_utf8.simps(2) rune_width.simps(2) lead_width_def second_byte_def byte_in_def)

text \<open>
  C30. Following cursor strings through the RPC visits every order once. Without a lost call, over a
  table with distinct keys in valid UTF-8, with any page size that fits an \<open>int32\<close>, and wherever
  DynamoDB cuts a page short at 1 MB, the pages a client gets by sending each page's cursor
  back, from the empty one to a page without one, hold together exactly the orders that match its
  filter, in the order of the index; one page more than there are rows is enough.
\<close>

theorem rpc_pages_complete:
  assumes "wEnv w = []" and "distinct (map fst (wTable w))" and "list_all utf8_row (wTable w)"
    and "validateFilterOption fil = None" and "1 \<le> pageSize" and "pageSize < 2 ^ 31"
    and "\<And>rows. 1 \<le> fits rows"
  shows "follow fits (Suc (length (query_rows (newOrderFilter fil) (wTable w)))) fmt
      (newOrderFilter fil) [] pageSize fil w =
    Some (map (newOrderResponse fmt) (matching (newOrderFilter fil) (wTable w)))"
proof (rule follow_walk [OF assms(1,3,4) _ refl _ _ _ assms(7)])
  show "walk_pages fits (Suc (length (query_rows (newOrderFilter fil) (wTable w))))
      (newOrderFilter fil) pageSize None (wTable w) = Some (matching (newOrderFilter fil) (wTable w))"
    unfolding matching_def
    by (rule walk_rest [OF distinct_query_rows [OF assms(2)] assms(5) _ assms(7), where pre = "[]"])
      (use assms(5,6) in \<open>simp_all add: in_i32_def\<close>)
qed (use assms(5) in simp_all)

lemma demo_table_rows:
  "demo_table = [(slot_key ''s1'', DClaim \<lparr>clOrderCode = ''A'', clClaimedAt = formatInt (unix 5),
     clExpiresAt = formatInt (unix (5 + purchaseSlotTTL))\<rparr>), (order_key ''A'', DOrder demo_order)]"
  by (simp add: demo_table_def ClaimPurchaseSlot_def put_new_def Let_def CreateOrderRow_def demo_order_def
      demo_option_def)

lemma rpc_pages_complete_witness:
  "\<exists>os. follow (\<lambda>rows. 1) 3 (\<lambda>t. ''t'') (newOrderFilter None) [] 1 None (demo_world\<lparr>wEnv := []\<rparr>) = Some os \<and>
     map poCode os = [''A'']"
proof -
  let ?w = "demo_world\<lparr>wEnv := []\<rparr>"
  have t: "wTable ?w = demo_table" by (simp add: demo_world_def)
  have "list_all utf8_row demo_table"
    by (simp add: demo_table_rows utf8_row_def slot_key_def order_key_def BuildPurchaseSlotKey_def BuildOrderPK_def
        BuildOrderSK_def prefix_defs demo_order_def buildOrderModel_def demo_option_def BuildUserGSI1PK_def
        BuildEventGSI2PK_def BuildOrderGSI1SK_def BuildOrderGSI2SK_def)
  then have "wEnv ?w = []" "distinct (map fst (wTable ?w))" "list_all utf8_row (wTable ?w)"
    "validateFilterOption None = None" "(1::int) \<le> 1" "(1::int) < 2 ^ 31"
    unfolding t by (simp_all add: demo_table_rows validateFilterOption_def)
  from rpc_pages_complete [OF this, where fits = "\<lambda>rows. 1" and fmt = "\<lambda>t. ''t''"] show ?thesis unfolding t
    by (simp add: query_rows_def demo_table_rows matching_def map_filter_simps as_order_def query_keeps_def live_order_def
        status_matches_def session_matches_def demo_order_def buildOrderModel_def numeral_eq_Suc newOrderFilter_def
        newOrderResponse_def demo_option_def)
qed

end
