(* ===== verification/Inventory_Lifecycle.thy ===== *)
theory Inventory_Lifecycle
  imports Inventory_Props
begin

text \<open>
  The goroutines of \<open>inventory-svc\<close>: the worker manager
  (\<open>internal/workers/worker_manager.go\<close>), the goroutines of each expiry worker
  (\<open>Start\<close>, \<open>Stop\<close> and the loop of \<open>reservation_exp_worker.go\<close>), and the RPCs that run beside them
  on the same tables. \<open>host_step\<close> is one atomic action of some goroutine; a batch of a
  worker is one transaction of the service. A ticker may fire at any time while it runs. When several
  cases of a select are ready, any may be taken.
\<close>

section \<open>State\<close>

text \<open>A job is the number of batches it has done.\<close>

datatype worker_loop = NoLoop | AtSelect | InJob nat | LoopEnded

record expirer =
  xwBatch :: int
  xwStarting :: bool
  xwTicker :: bool
  xwTick :: bool
  xwDone :: bool
  xwFirstJob :: "nat option"
  xwLoop :: worker_loop

datatype host_phase = Loaded | Serving | Draining time | Stopped bool | Crashed

record host =
  hWorkers :: "expirer list"
  hPhase :: host_phase
  hCancelled :: bool
  hClock :: time
  hDB :: invdb

definition new_expirer :: "expiry_worker \<Rightarrow> expirer" where
  "new_expirer w = \<lparr>xwBatch = wBatchSize w, xwStarting = False, xwTicker = False, xwTick = False,
     xwDone = False, xwFirstJob = None, xwLoop = NoLoop\<rparr>"

text \<open>The manager with its workers registered.\<close>

definition new_host :: "expiry_worker list \<Rightarrow> time \<Rightarrow> invdb \<Rightarrow> host" where
  "new_host ws now db = \<lparr>hWorkers = map new_expirer ws, hPhase = Loaded, hCancelled = False,
     hClock = now, hDB = db\<rparr>"

section \<open>Actions\<close>

text \<open>\<open>StartAll\<close> spawns a goroutine per worker, which the wait group counts until its \<open>Start\<close> returns.\<close>

definition spawn_start :: "expirer \<Rightarrow> expirer" where
  "spawn_start x = x\<lparr>xwStarting := True\<rparr>"

definition worker_start :: "expirer \<Rightarrow> expirer" where
  "worker_start x = x\<lparr>xwStarting := False, xwTicker := True, xwFirstJob := Some 0, xwLoop := AtSelect\<rparr>"

text \<open>A stopped ticker delivers nothing any more, not even a tick that had fired (as of Go 1.23).\<close>

definition worker_stop :: "expirer \<Rightarrow> expirer" where
  "worker_stop x = x\<lparr>xwTicker := False, xwTick := False, xwDone := True\<rparr>"

text \<open>Where a job goes on after a batch, if it does.\<close>

definition after_batch :: "int \<Rightarrow> nat \<Rightarrow> inv_error + nat \<Rightarrow> nat option" where
  "after_batch b i r =
     (case r of
        Inl e \<Rightarrow> None
      | Inr n \<Rightarrow> if int n < b \<or> drainMaxIterations \<le> Suc i then None else Some (Suc i))"

definition loop_after :: "nat option \<Rightarrow> worker_loop" where
  "loop_after j = (case j of None \<Rightarrow> AtSelect | Some i \<Rightarrow> InJob i)"

definition set_worker :: "nat \<Rightarrow> expirer \<Rightarrow> host \<Rightarrow> host" where
  "set_worker i x h = h\<lparr>hWorkers := (hWorkers h)[i := x]\<rparr>"

text \<open>What the goroutines of one worker do; a cancelled context fails every batch.\<close>

inductive worker_step :: "bool \<Rightarrow> time \<Rightarrow> expirer \<Rightarrow> invdb \<Rightarrow> expirer \<Rightarrow> invdb \<Rightarrow> bool" where
  do_start: "xwStarting x \<Longrightarrow> worker_step cancelled now x db (worker_start x) db"
| do_fire: "xwTicker x \<Longrightarrow> worker_step cancelled now x db (x\<lparr>xwTick := True\<rparr>) db"
| do_take: "xwLoop x = AtSelect \<Longrightarrow> xwTick x \<Longrightarrow>
    worker_step cancelled now x db (x\<lparr>xwTick := False, xwLoop := InJob 0\<rparr>) db"
| do_leave: "xwLoop x = AtSelect \<Longrightarrow> xwDone x \<or> cancelled \<Longrightarrow>
    worker_step cancelled now x db (x\<lparr>xwLoop := LoopEnded\<rparr>) db"
| do_first: "xwFirstJob x = Some i \<Longrightarrow> \<not> cancelled \<Longrightarrow>
    BatchExpireReservations now locked (xwBatch x) db = (db', r) \<Longrightarrow>
    worker_step cancelled now x db (x\<lparr>xwFirstJob := after_batch (xwBatch x) i r\<rparr>) db'"
| do_first_fails: "xwFirstJob x = Some i \<Longrightarrow> worker_step cancelled now x db (x\<lparr>xwFirstJob := None\<rparr>) db"
| do_batch: "xwLoop x = InJob i \<Longrightarrow> \<not> cancelled \<Longrightarrow>
    BatchExpireReservations now locked (xwBatch x) db = (db', r) \<Longrightarrow>
    worker_step cancelled now x db (x\<lparr>xwLoop := loop_after (after_batch (xwBatch x) i r)\<rparr>) db'"
| do_batch_fails: "xwLoop x = InJob i \<Longrightarrow> worker_step cancelled now x db (x\<lparr>xwLoop := AtSelect\<rparr>) db"

text \<open>\<open>StopAll\<close>: closing a closed channel panics; then it waits for the wait group or ten seconds.\<close>

definition stop_all :: "host \<Rightarrow> host" where
  "stop_all h =
     (if \<exists>x \<in> set (hWorkers h). xwDone x then h\<lparr>hPhase := Crashed\<rparr>
      else h\<lparr>hWorkers := map worker_stop (hWorkers h), hPhase := Draining (hClock h)\<rparr>)"

inductive host_step :: "host \<Rightarrow> host \<Rightarrow> bool" where
  host_pass: "0 \<le> d \<Longrightarrow> host_step h (h\<lparr>hClock := hClock h + d\<rparr>)"
| host_cancel: "host_step h (h\<lparr>hCancelled := True\<rparr>)"
| host_rpc: "hPhase h \<noteq> Crashed \<Longrightarrow> inv_step (hDB h) db \<Longrightarrow> host_step h (h\<lparr>hDB := db\<rparr>)"
| host_start: "hPhase h = Loaded \<Longrightarrow>
    host_step h (h\<lparr>hWorkers := map spawn_start (hWorkers h), hPhase := Serving\<rparr>)"
| host_work: "hPhase h \<noteq> Crashed \<Longrightarrow> i < length (hWorkers h) \<Longrightarrow>
    worker_step (hCancelled h) (hClock h) (hWorkers h ! i) (hDB h) x db \<Longrightarrow>
    host_step h (set_worker i x h\<lparr>hDB := db\<rparr>)"
| host_stop: "hPhase h = Serving \<or> (\<exists>b. hPhase h = Stopped b) \<Longrightarrow> host_step h (stop_all h)"
| host_waited: "hPhase h = Draining t \<Longrightarrow> \<forall>x \<in> set (hWorkers h). \<not> xwStarting x \<Longrightarrow>
    host_step h (h\<lparr>hPhase := Stopped True\<rparr>)"
| host_timeout: "hPhase h = Draining t \<Longrightarrow> t + 10 * second \<le> hClock h \<Longrightarrow>
    host_step h (h\<lparr>hPhase := Stopped False\<rparr>)"

inductive_cases worker_stepE: "worker_step cancelled now x db x' db'"
inductive_cases host_stepE: "host_step h h'"

abbreviation host_run :: "host \<Rightarrow> host \<Rightarrow> bool" where
  "host_run \<equiv> host_step\<^sup>*\<^sup>*"

section \<open>Invariant\<close>

definition job_ok :: "nat option \<Rightarrow> bool" where
  "job_ok j \<longleftrightarrow> (case j of None \<Rightarrow> True | Some i \<Rightarrow> i < drainMaxIterations)"

definition expirer_ok :: "expirer \<Rightarrow> bool" where
  "expirer_ok x \<longleftrightarrow> job_ok (xwFirstJob x) \<and>
     (case xwLoop x of InJob i \<Rightarrow> i < drainMaxIterations | _ \<Rightarrow> True) \<and>
     (xwStarting x \<longrightarrow> xwFirstJob x = None \<and> xwLoop x = NoLoop \<and> \<not> xwTicker x)"

definition host_ok :: "host \<Rightarrow> bool" where
  "host_ok h \<longleftrightarrow> consistent (hDB h) \<and> (\<forall>x \<in> set (hWorkers h). expirer_ok x) \<and>
     (\<forall>x \<in> set (hWorkers h). xwDone x \<longrightarrow> hPhase h \<noteq> Loaded \<and> hPhase h \<noteq> Serving) \<and>
     (hPhase h = Loaded \<longrightarrow> (\<forall>x \<in> set (hWorkers h). xwLoop x = NoLoop \<and> xwFirstJob x = None \<and>
        \<not> xwTicker x \<and> \<not> xwTick x \<and> \<not> xwStarting x))"

lemma after_batch_ok: "job_ok (after_batch b i r)"
  by (auto simp: job_ok_def after_batch_def split: sum.splits)

lemma loop_after_ok: "(case loop_after (after_batch b i r) of InJob i \<Rightarrow> i < drainMaxIterations | _ \<Rightarrow> True)"
  using after_batch_ok [of b i r] by (auto simp: loop_after_def job_ok_def split: option.splits)

lemma worker_step_ok:
  assumes "worker_step cancelled now x db x' db'" and "expirer_ok x" and "consistent db"
  shows "expirer_ok x' \<and> xwDone x' = xwDone x \<and> consistent db'"
proof -
  have batch: "consistent db'" if "BatchExpireReservations now locked b db = (db', r)" for locked b db' r
    using step_consistent [OF step_expire assms(3)] that by (metis fst_conv)
  from assms(1) show ?thesis
  proof cases
    case (do_first i locked r)
    then show ?thesis using assms(2) batch after_batch_ok by (auto simp: expirer_ok_def)
  next
    case (do_batch i locked r)
    then show ?thesis using assms(2) batch loop_after_ok by (auto simp: expirer_ok_def)
  qed (use assms(2,3) in \<open>auto simp: expirer_ok_def worker_start_def job_ok_def drainMaxIterations_def\<close>)
qed

lemma new_host_ok: "consistent db \<Longrightarrow> host_ok (new_host ws now db)"
  by (auto simp: host_ok_def new_host_def new_expirer_def expirer_ok_def job_ok_def)

lemma worker_idle:
  assumes "worker_step cancelled now x db x' db'" and "xwLoop x = NoLoop" and "xwFirstJob x = None"
    and "\<not> xwTicker x" and "\<not> xwStarting x"
  shows False
  using assms by cases simp_all

lemma in_set_update:
  assumes "y \<in> set (xs[i := x])"
  obtains "y = x" | "y \<in> set xs"
  using assms set_update_subset_insert [of xs i x] by blast

lemma host_step_ok:
  assumes "host_step h h'" and "host_ok h"
  shows "host_ok h'"
  using assms(1)
proof cases
  case (host_rpc db)
  then show ?thesis using assms(2) step_consistent by (auto simp: host_ok_def)
next
  case host_start
  then show ?thesis using assms(2) by (auto simp: host_ok_def spawn_start_def expirer_ok_def job_ok_def)
next
  case (host_work i x db)
  let ?y = "hWorkers h ! i"
  have y: "?y \<in> set (hWorkers h)" using host_work(3) by simp
  then have "expirer_ok ?y" "consistent (hDB h)" using assms(2) by (auto simp: host_ok_def)
  note x = worker_step_ok [OF host_work(4) this]
  have "hPhase h \<noteq> Loaded" using worker_idle [OF host_work(4)] assms(2) y by (auto simp: host_ok_def)
  then show ?thesis
    using assms(2) x y unfolding host_work(1) by (auto simp: host_ok_def set_worker_def elim!: in_set_update)
next
  case host_stop
  then show ?thesis using assms(2) by (auto simp: host_ok_def stop_all_def worker_stop_def expirer_ok_def)
qed (use assms(2) in \<open>auto simp: host_ok_def\<close>)

lemma host_run_ok: "host_run h h' \<Longrightarrow> host_ok h \<Longrightarrow> host_ok h'"
  by (induction rule: rtranclp_induct) (auto intro: host_step_ok)

text \<open>
  Workers and RPCs together keep the inventory right. However the goroutines of any number of
  expiry workers, the RPCs, a shutdown and a cancelled context interleave, the tables stay
  consistent: every counter equals what the reservations hold, within its capacity. And no job ever runs
  more than its 100 batches.
\<close>

theorem host_consistent:
  assumes "consistent db" and "host_run (new_host ws now db) h"
  shows "consistent (hDB h) \<and> (\<forall>x \<in> set (hWorkers h). expirer_ok x)"
  using host_run_ok [OF assms(2) new_host_ok [OF assms(1)]] by (auto simp: host_ok_def)

section \<open>Stopping\<close>

definition running :: "expirer \<Rightarrow> bool" where
  "running x \<longleftrightarrow> xwFirstJob x \<noteq> None \<or> (\<exists>i. xwLoop x = InJob i)"

text \<open>
  A graceful stop does not wait for the workers. The wait group counts the goroutines
  that call \<open>Start\<close>, which returns at once. So of a serving host whose workers have started, with
  jobs at any point, \<open>StopAll\<close> can report at once that all workers stopped gracefully
  while every one of these jobs still runs.
\<close>

theorem graceful_stop_leaves_jobs:
  assumes "consistent db" and "host_run (new_host ws now db) h" and "hPhase h = Serving"
    and "\<forall>x \<in> set (hWorkers h). \<not> xwStarting x"
  shows "\<exists>h'. host_run h h' \<and> hPhase h' = Stopped True \<and> hDB h' = hDB h \<and>
    map xwFirstJob (hWorkers h') = map xwFirstJob (hWorkers h) \<and>
    map xwLoop (hWorkers h') = map xwLoop (hWorkers h)"
proof -
  have "\<not> (\<exists>x \<in> set (hWorkers h). xwDone x)"
    using host_run_ok [OF assms(2) new_host_ok [OF assms(1)]] assms(3) by (auto simp: host_ok_def)
  then have stop: "stop_all h = h\<lparr>hWorkers := map worker_stop (hWorkers h), hPhase := Draining (hClock h)\<rparr>"
    by (simp add: stop_all_def)
  have "host_step h (stop_all h)" using assms(3) by (simp add: host_stop)
  moreover have "host_step (stop_all h) ((stop_all h)\<lparr>hPhase := Stopped True\<rparr>)"
    by (rule host_waited [where t = "hClock h"]) (use assms(4) in \<open>auto simp: stop worker_stop_def\<close>)
  ultimately have "host_run h ((stop_all h)\<lparr>hPhase := Stopped True\<rparr>)" by simp
  then show ?thesis
    by (intro exI [of _ "(stop_all h)\<lparr>hPhase := Stopped True\<rparr>"]) (auto simp: stop worker_stop_def)
qed

text \<open>What the goroutines of a stopped worker can still do.\<close>

definition job_left :: "nat option \<Rightarrow> nat" where
  "job_left j = (case j of None \<Rightarrow> 0 | Some i \<Rightarrow> drainMaxIterations - i)"

definition loop_left :: "worker_loop \<Rightarrow> nat" where
  "loop_left l = (case l of NoLoop \<Rightarrow> 0 | AtSelect \<Rightarrow> 1 | InJob i \<Rightarrow> Suc (drainMaxIterations - i) | LoopEnded \<Rightarrow> 0)"

definition work_left :: "expirer \<Rightarrow> nat" where
  "work_left x = job_left (xwFirstJob x) + loop_left (xwLoop x)"

definition settled :: "expirer \<Rightarrow> bool" where
  "settled x \<longleftrightarrow> xwDone x \<and> \<not> xwTicker x \<and> \<not> xwTick x \<and> \<not> xwStarting x"

definition shutdown_left :: "host \<Rightarrow> nat" where
  "shutdown_left h = sum_list (map work_left (hWorkers h))"

lemma after_batch_less: "i < drainMaxIterations \<Longrightarrow> job_left (after_batch b i r) < drainMaxIterations - i"
  by (auto simp: job_left_def after_batch_def split: sum.splits)

lemma loop_after_left: "loop_left (loop_after j) = Suc (job_left j)"
  by (auto simp: loop_left_def loop_after_def job_left_def split: option.splits)

lemma job_left_simps [simp]: "job_left None = 0" "job_left (Some i) = drainMaxIterations - i"
  by (simp_all add: job_left_def)

lemma settled_worker:
  assumes "worker_step cancelled now x db x' db'" and "settled x" and "expirer_ok x"
  shows "settled x' \<and> work_left x' < work_left x"
  using assms(1)
proof cases
  case (do_first i locked r)
  then have "i < drainMaxIterations" using assms(3) by (simp add: expirer_ok_def job_ok_def)
  then show ?thesis using do_first assms(2) after_batch_less [of i "xwBatch x" r]
    by (simp add: work_left_def settled_def)
next
  case (do_first_fails i)
  then have "i < drainMaxIterations" using assms(3) by (simp add: expirer_ok_def job_ok_def)
  then show ?thesis using do_first_fails assms(2) by (simp add: work_left_def settled_def)
next
  case (do_batch i locked r)
  then have "i < drainMaxIterations" using assms(3) by (simp add: expirer_ok_def)
  then show ?thesis using do_batch assms(2) after_batch_less [of i "xwBatch x" r]
    by (simp add: work_left_def settled_def loop_after_left) (simp add: loop_left_def)
next
  case (do_batch_fails i)
  then have "i < drainMaxIterations" using assms(3) by (simp add: expirer_ok_def)
  then show ?thesis using do_batch_fails assms(2) by (simp add: work_left_def settled_def loop_left_def)
qed (use assms(2) in \<open>auto simp: settled_def work_left_def loop_left_def\<close>)

lemma work_left_bound: "expirer_ok x \<Longrightarrow> work_left x \<le> 2 * drainMaxIterations + 1"
  by (auto simp: work_left_def loop_left_def job_left_def split: option.splits worker_loop.splits)

text \<open>A run from \<open>h\<close> in which workers take \<open>n\<close> actions.\<close>

inductive counted :: "host \<Rightarrow> nat \<Rightarrow> host \<Rightarrow> bool" where
  counted_none: "counted h 0 h"
| counted_work: "counted h n h' \<Longrightarrow> host_step h' h'' \<Longrightarrow> hWorkers h'' \<noteq> hWorkers h' \<Longrightarrow> counted h (Suc n) h''"
| counted_other: "counted h n h' \<Longrightarrow> host_step h' h'' \<Longrightarrow> hWorkers h'' = hWorkers h' \<Longrightarrow> counted h n h''"

lemma sum_list_update_less:
  assumes "i < length xs" and "f x < f (xs ! i)"
  shows "sum_list (map f (xs[i := x])) < (sum_list (map f xs) :: nat)"
proof -
  have "sum_list (map f xs) = sum_list (map f (take i xs)) + f (xs ! i) + sum_list (map f (drop (Suc i) xs))"
    by (subst id_take_nth_drop [OF assms(1)]) simp
  then show ?thesis using assms by (simp add: upd_conv_take_nth_drop)
qed

definition shut_down :: "host \<Rightarrow> bool" where
  "shut_down h \<longleftrightarrow> hPhase h \<noteq> Loaded \<and> hPhase h \<noteq> Serving \<and> (\<forall>x \<in> set (hWorkers h). settled x)"

lemma shut_down_step:
  assumes "host_step h h'" and "host_ok h" and "shut_down h"
  shows "shut_down h' \<and> (hWorkers h' = hWorkers h \<or> shutdown_left h' < shutdown_left h)"
  using assms(1)
proof cases
  case (host_work i x db)
  let ?y = "hWorkers h ! i"
  have "?y \<in> set (hWorkers h)" using host_work(3) by simp
  then have y: "settled ?y" "expirer_ok ?y" using assms(2,3) by (auto simp: host_ok_def shut_down_def)
  note x = settled_worker [OF host_work(4) y]
  have "shutdown_left h' < shutdown_left h"
    unfolding host_work(1) shutdown_left_def set_worker_def
    using sum_list_update_less [OF host_work(3), of work_left x] x by simp
  moreover have "shut_down h'"
    using assms(3) x unfolding host_work(1) by (auto simp: shut_down_def set_worker_def elim!: in_set_update)
  ultimately show ?thesis by simp
next
  case host_stop
  then show ?thesis using assms(3)
    by (cases "hWorkers h") (auto simp: stop_all_def shut_down_def settled_def)
qed (use assms(3) in \<open>auto simp: shut_down_def\<close>)

lemma counted_ok:
  assumes "counted h n h'" and "host_ok h" and "shut_down h"
  shows "host_ok h' \<and> shut_down h' \<and> n + shutdown_left h' \<le> shutdown_left h"
  using assms
proof induction
  case (counted_work h n h' h'')
  then show ?case using shut_down_step [of h' h''] host_step_ok [of h' h''] by fastforce
next
  case (counted_other h n h' h'')
  then have "shutdown_left h'' = shutdown_left h'" by (simp add: shutdown_left_def)
  then show ?case using counted_other shut_down_step [of h' h''] host_step_ok [of h' h''] by fastforce
qed simp


section \<open>Witnesses\<close>

definition demo_worker :: expiry_worker where
  "demo_worker = NewReservationExpiryWorker 0 2"

definition demo_serving :: host where
  "demo_serving = \<lparr>hWorkers = [worker_start (spawn_start (new_expirer demo_worker))], hPhase = Serving,
     hCancelled = False, hClock = 60, hDB = demo_db\<rparr>"

lemma demo_serving_run: "host_run (new_host [demo_worker] 60 demo_db) demo_serving"
proof -
  let ?h = "new_host [demo_worker] 60 demo_db"
  let ?s = "?h\<lparr>hWorkers := map spawn_start (hWorkers ?h), hPhase := Serving\<rparr>"
  have "host_step ?h ?s" by (rule host_start) (simp add: new_host_def)
  moreover have "host_step ?s (set_worker 0 (worker_start (hWorkers ?s ! 0)) ?s\<lparr>hDB := hDB ?s\<rparr>)"
    by (rule host_work) (auto simp: new_host_def spawn_start_def intro: do_start)
  moreover have "set_worker 0 (worker_start (hWorkers ?s ! 0)) ?s\<lparr>hDB := hDB ?s\<rparr> = demo_serving"
    by (simp add: demo_serving_def new_host_def set_worker_def)
  ultimately show ?thesis by simp
qed

lemma demo_serving_fields:
  "hPhase demo_serving = Serving" "length (hWorkers demo_serving) = 1"
  "\<forall>x \<in> set (hWorkers demo_serving). \<not> xwStarting x \<and> \<not> xwDone x"
  by (simp_all add: demo_serving_def worker_start_def spawn_start_def new_expirer_def)

lemma host_consistent_witness: "consistent (hDB demo_serving) \<and> hDB demo_serving = demo_db"
  using host_consistent [OF demo_consistent demo_serving_run] by (simp add: demo_serving_def)

lemma graceful_stop_leaves_jobs_witness:
  "\<exists>h' :: host. hPhase h' = Stopped True \<and> map xwFirstJob (hWorkers h') = [Some 0]"
proof -
  have "\<forall>x \<in> set (hWorkers demo_serving). \<not> xwStarting x" using demo_serving_fields(3) by blast
  from graceful_stop_leaves_jobs [OF demo_consistent demo_serving_run demo_serving_fields(1) this]
  obtain h' :: host where "hPhase h' = Stopped True" "map xwFirstJob (hWorkers h') = map xwFirstJob (hWorkers demo_serving)"
    by blast
  moreover have "map xwFirstJob (hWorkers demo_serving) = [Some 0]"
    by (simp add: demo_serving_def worker_start_def)
  ultimately show ?thesis by (intro exI [of _ h']) simp
qed


end
