(* ===== verification/Waitroom_Sampler.thy ===== *)
theory Waitroom_Sampler
  imports Waitroom_Demo
begin

text \<open>
  The sampler of the queue gauges (\<open>waitroom-svc/internal/metrics/sampler.go\<close>), wired as
  \<open>cmd/api/main.go\<close> wires it: it lists the active events and reads each one's queue depth and
  held slots. The two gauges are maps from events; the order in which Go ranges over
  the map of holding events is a parameter.
\<close>

record sampler =
  smHolding :: "string list"
  smDepth :: "string \<Rightarrow> int option"
  smSlots :: "string \<Rightarrow> int option"

definition NewQueueSampler :: sampler where
  "NewQueueSampler = \<lparr>smHolding = [], smDepth = (\<lambda>_. None), smSlots = (\<lambda>_. None)\<rparr>"

definition appendMissing :: "string list \<Rightarrow> string \<Rightarrow> string list" where
  "appendMissing ids e = (if e \<in> set ids then ids else ids @ [e])"

definition record_sample :: "string \<Rightarrow> int \<Rightarrow> int \<Rightarrow> sampler \<Rightarrow> sampler" where
  "record_sample e depth n s =
     s\<lparr>smDepth := (smDepth s)(e := Some depth), smSlots := (smSlots s)(e := Some n),
       smHolding := (if 0 < n then List.insert e (smHolding s) else removeAll e (smHolding s))\<rparr>"

fun sample_events :: "string list \<Rightarrow> sampler \<Rightarrow> room \<Rightarrow> room \<times> sampler" where
  "sample_events [] s w = (w, s)"
| "sample_events (e # es) s w =
     (case svc_GetQueueInfo e w of
        (w', Inl _) \<Rightarrow> sample_events es s w'
      | (w', Inr (depth, n)) \<Rightarrow> sample_events es (record_sample e depth n s) w')"

definition sampler_collect :: "(string list \<Rightarrow> string list) \<Rightarrow> sampler \<Rightarrow> room \<Rightarrow> room \<times> sampler" where
  "sampler_collect order s w =
     (case repo_GetActiveEvents w of
        (w', Inl _) \<Rightarrow> (w', s)
      | (w', Inr ids) \<Rightarrow>
          sample_events (foldl appendMissing ids (order (smHolding s)))
            (s\<lparr>smDepth := (\<lambda>_. None), smSlots := (\<lambda>_. None)\<rparr>) w')"

text \<open>\<open>Run\<close>: one collect per tick, each with its own range order.\<close>

fun sampler_run :: "(string list \<Rightarrow> string list) list \<Rightarrow> sampler \<Rightarrow> room \<Rightarrow> room \<times> sampler" where
  "sampler_run [] s w = (w, s)"
| "sampler_run (order # os) s w = (case sampler_collect order s w of (w', s') \<Rightarrow> sampler_run os s' w')"

lemma set_appendMissing: "set (foldl appendMissing ids es) = set ids \<union> set es"
  by (induction es arbitrary: ids) (auto simp: appendMissing_def)

text \<open>What a series of samples leaves of an event that was held, or not, before.\<close>

definition carried :: "string set \<Rightarrow> sampler \<Rightarrow> bool" where
  "carried H s \<longleftrightarrow> (\<forall>e. e \<in> set (smHolding s) \<longleftrightarrow>
     (case smSlots s e of None \<Rightarrow> e \<in> H | Some n \<Rightarrow> 0 < n)) \<and> dom (smDepth s) = dom (smSlots s)"

lemma carried_record: "carried H s \<Longrightarrow> carried H (record_sample e depth n s)"
  by (auto simp: carried_def record_sample_def)

lemma carried_samples:
  assumes "sample_events es s w = (w', s')" and "carried H s" and "dom (smSlots s) \<subseteq> X" and "set es \<subseteq> X"
  shows "carried H s' \<and> dom (smSlots s') \<subseteq> X"
  using assms
proof (induction es arbitrary: s w)
  case (Cons e es)
  obtain v r where info: "svc_GetQueueInfo e w = (v, r)" by fastforce
  show ?case
  proof (cases r)
    case (Inl err)
    then show ?thesis using Cons.IH [of s v] Cons.prems info by simp
  next
    case (Inr dn)
    obtain depth n where dn: "dn = (depth, n)" by fastforce
    have "dom (smSlots (record_sample e depth n s)) \<subseteq> X"
      using Cons.prems(3,4) by (auto simp: record_sample_def split: if_splits)
    then show ?thesis
      using Cons.IH [of "record_sample e depth n s" v] Cons.prems carried_record info by (simp add: Inr dn)
  qed
qed simp

text \<open>
  A collect forgets no buyer. Whatever calls fail and whatever other processes do: after a
  collect that could list the active events, an event is carried to the next one exactly if its
  sample shows held slots, or if it could not be sampled and was carried before; and
  no other event than an active or a carried one has a series.
\<close>

theorem collect_carries:
  assumes "repo_GetActiveEvents w = (w1, Inr ids)" and "set (order (smHolding s)) = set (smHolding s)"
    and "sampler_collect order s w = (w', s')"
  shows "(\<forall>e. e \<in> set (smHolding s') \<longleftrightarrow>
      (case smSlots s' e of None \<Rightarrow> e \<in> set (smHolding s) | Some n \<Rightarrow> 0 < n)) \<and>
    dom (smDepth s') = dom (smSlots s') \<and> dom (smSlots s') \<subseteq> set ids \<union> set (smHolding s)"
proof -
  let ?s = "s\<lparr>smDepth := (\<lambda>_. None), smSlots := (\<lambda>_. None)\<rparr>"
  have "sample_events (foldl appendMissing ids (order (smHolding s))) ?s w1 = (w', s')"
    using assms(1,3) by (simp add: sampler_collect_def)
  moreover have "carried (set (smHolding s)) ?s" by (simp add: carried_def)
  ultimately show ?thesis
    using carried_samples [of _ ?s w1 w' s' "set (smHolding s)" "set ids \<union> set (smHolding s)"] assms(2)
    by (simp add: set_appendMissing carried_def)
qed

lemma collect_carries_witness:
  "smSlots (snd (sampler_collect id (NewQueueSampler\<lparr>smHolding := [''h'']\<rparr>) wr_room0)) ''x'' = None \<and>
   dom (smSlots (snd (sampler_collect id (NewQueueSampler\<lparr>smHolding := [''h'']\<rparr>) wr_room0))) \<subseteq> {''e'', ''h''}"
proof -
  let ?s = "NewQueueSampler\<lparr>smHolding := [''h'']\<rparr>"
  have act: "repo_GetActiveEvents wr_room0 = (wr_room0, Inr [''e''])"
    by (simp add: repo_GetActiveEvents_def rcall_read_calm wr_store0_def)
  have "dom (smSlots (snd (sampler_collect id ?s wr_room0))) \<subseteq> set [''e''] \<union> set (smHolding ?s)"
    by (rule collect_carries [OF act _ surjective_pairing, THEN conjunct2, THEN conjunct2]) simp
  then show ?thesis by (auto simp: domIff)
qed

end
