(* ===== verification/Waitroom_Whole_Tick.thy ===== *)
theory Waitroom_Whole_Tick
  imports Waitroom_Tick
begin

text \<open>
  A whole tick of the queue processor, for a client that watches every line: the locale
  \<open>whole_tick\<close> asks that the observation is a \<open>ticking\<close> of every event, and carries it through
  the drain of the buffer and the events one after another. Clients interpret it on what
  they watch.
\<close>

locale whole_tick = observation +
  assumes each_event: "ticking P e s0 UNIV UNIV"
begin

lemma own_later: "P (now_at w) (now_at w') \<Longrightarrow> own_ids (rSt w) \<Longrightarrow> own_ids (rSt w')"
  using admitting.keeps_own [OF ticking.axioms(1) [OF each_event]] unfolding now_at_def by blast

lemma publishing: "keeps_run P (prod_PublishQueueReady e) w"
  by (rule admitting.keeps_publish [OF ticking.axioms(1) [OF each_event]])

lemma buffering: "obeys P t (\<lambda>_ s. s\<lparr>wsBuffer := f s\<rparr>)"
  by (rule admitting.buffer_obeys [OF ticking.axioms(1) [OF each_event]])

lemma one_event: "own_ids (rSt w) \<Longrightarrow> 0 \<le> xExpiry x \<Longrightarrow> keeps_run P (ProcessEventQueue x e) w"
  by (rule ticking.keeps_ProcessEventQueue [OF each_event [of e "rNow w"]])
    (simp_all add: admitting.ready_def [OF ticking.axioms(1) [OF each_event]])

lemma keeps_countError: "keeps P countError w"
  by (rule keeps_local) (simp add: set_local_def countError_def)

lemma keeps_publishBuffered: "keeps P (\<lambda>w. fst (publishBuffered ps w)) w"
proof (induction ps arbitrary: w)
  case Nil
  then show ?case by (simp add: keeps_id)
next
  case (Cons p ps)
  show ?case
  proof (cases p)
    case None
    show ?thesis
      by (rule keeps_via [OF keeps_countError Cons.IH]) (simp add: None split: prod.split)
  next
    case (Some e)
    show ?thesis
    proof (cases "qrExpiresAt e \<noteq> zero_time \<and> qrExpiresAt e < rNow w")
      case True
      show ?thesis
        by (rule keeps_via [OF keeps_id Cons.IH]) (use True in \<open>simp add: Some split: prod.split\<close>)
    next
      case False
      obtain v r where pub: "prod_PublishQueueReady e w = (v, r)" by (cases "prod_PublishQueueReady e w")
      have "fst (publishBuffered (p # ps) w) = v \<or> fst (publishBuffered (p # ps) w) = fst (publishBuffered ps v)"
        using False by (auto simp: Some pub split: sum.split prod.split)
      then show ?thesis
      proof
        assume "fst (publishBuffered (p # ps) w) = v"
        then show ?thesis
          by (intro keeps_via [OF publishing [of e] keeps_id]) (simp add: pub)
      next
        assume "fst (publishBuffered (p # ps) w) = fst (publishBuffered ps v)"
        then show ?thesis
          by (intro keeps_via [OF publishing [of e] Cons.IH]) (simp add: pub)
      qed
    qed
  qed
qed

lemma keeps_drain: "keeps P (drainBufferedQueueReady x) w"
proof -
  obtain u q where peek: "repo_PeekBufferedQueueReady (xBatchSize x) w = (u, q)"
    by (cases "repo_PeekBufferedQueueReady (xBatchSize x) w")
  have keep: "keeps_run P (repo_PeekBufferedQueueReady (xBatchSize x)) w"
    unfolding repo_PeekBufferedQueueReady_def by (intro keeps_if keeps_ret keeps_read)
  show ?thesis
  proof (cases q)
    case (Inl e)
    then show ?thesis
      by (intro keeps_via [OF keep keeps_id]) (simp add: drainBufferedQueueReady_def peek)
  next
    case (Inr ps)
    obtain v n where pub: "publishBuffered ps u = (v, n)" by (cases "publishBuffered ps u")
    have trim: "keeps_run P (repo_TrimBufferedQueueReady m) v" for m
      unfolding repo_TrimBufferedQueueReady_def by (intro keeps_if keeps_ret keeps_rcall) (simp add: buffering)
    have rest: "keeps P (\<lambda>u. if n = 0 then fst (publishBuffered ps u)
        else fst (repo_TrimBufferedQueueReady (int n) (fst (publishBuffered ps u)))) u"
      by (cases "n = 0")
        (simp add: keeps_publishBuffered,
         use keeps_via [OF keeps_publishBuffered [of ps u], where g = "\<lambda>v. fst (repo_TrimBufferedQueueReady (int n) v)"]
           trim in \<open>simp add: pub\<close>)
    show ?thesis
      by (rule keeps_after [OF peek keep rest]) (simp add: drainBufferedQueueReady_def peek Inr pub)
  qed
qed

lemma keeps_processEvents:
  assumes "own_ids (rSt w)" and "0 \<le> xExpiry x" shows "keeps P (processEvents x es) w"
  using assms(1)
proof (induction es arbitrary: w)
  case Nil
  have "processEvents x [] = (\<lambda>w. w)" by (rule ext) simp
  then show ?case by (simp add: keeps_id)
next
  case (Cons e es)
  obtain v r where one: "ProcessEventQueue x e w = (v, r)" by (cases "ProcessEventQueue x e w")
  have keep: "keeps_run P (ProcessEventQueue x e) w" using Cons.prems assms(2) by (rule one_event)
  show ?case
  proof (rule keeps_step [OF keep, where g = "\<lambda>v. processEvents x es
      ((case r of Inl _ \<Rightarrow> countError v | Inr _ \<Rightarrow> v))"])
    show "processEvents x (e # es) w = processEvents x es
        (case r of Inl _ \<Rightarrow> countError (fst (ProcessEventQueue x e w)) | Inr _ \<Rightarrow> fst (ProcessEventQueue x e w))"
      by (simp add: one split: sum.split)
    assume "env_in P w" "P (now_at w) (now_at (fst (ProcessEventQueue x e w)))"
    then have own: "own_ids (rSt v)" using Cons.prems own_later by (simp add: one)
    show "keeps P (\<lambda>v. processEvents x es (case r of Inl _ \<Rightarrow> countError v | Inr _ \<Rightarrow> v))
        (fst (ProcessEventQueue x e w))"
    proof (cases r)
      case (Inl err)
      have "own_ids (rSt (countError v))" using own by (simp add: countError_def)
      from keeps_via [OF keeps_countError Cons.IH [OF this]] show ?thesis by (simp add: Inl one)
    next
      case (Inr u)
      then show ?thesis using Cons.IH [OF own] by (simp add: one)
    qed
  qed
qed

lemma keeps_processAllQueues:
  assumes "own_ids (rSt w)" and "0 \<le> xExpiry x" shows "keeps P (processAllQueues x) w"
proof (rule keeps_step [OF keeps_drain [of x]])
  let ?v = "drainBufferedQueueReady x w"
  obtain u q where act: "repo_GetActiveEvents ?v = (u, q)" by (cases "repo_GetActiveEvents ?v")
  show "processAllQueues x w = (\<lambda>v. (case repo_GetActiveEvents v of (w', Inl _) \<Rightarrow> countError w'
      | (w', Inr es) \<Rightarrow> processEvents x es w')\<lparr>rLastProcessed := rNow (case repo_GetActiveEvents v of
        (w', Inl _) \<Rightarrow> countError w' | (w', Inr es) \<Rightarrow> processEvents x es w')\<rparr>) ?v"
    by (simp add: processAllQueues_def Let_def)
  assume env: "env_in P w" "P (now_at w) (now_at ?v)"
  then have own: "own_ids (rSt ?v)" using assms(1) own_later by blast
  have get: "keeps_run P repo_GetActiveEvents ?v" unfolding repo_GetActiveEvents_def by (rule keeps_read)
  have stamp: "keeps P (\<lambda>w. w\<lparr>rLastProcessed := rNow w\<rparr>) y" for y
    by (rule keeps_local) (simp add: set_local_def)
  show "keeps P (\<lambda>v. (case repo_GetActiveEvents v of (w', Inl _) \<Rightarrow> countError w'
      | (w', Inr es) \<Rightarrow> processEvents x es w')\<lparr>rLastProcessed := rNow (case repo_GetActiveEvents v of
        (w', Inl _) \<Rightarrow> countError w' | (w', Inr es) \<Rightarrow> processEvents x es w')\<rparr>) ?v"
  proof (rule keeps_step [OF get, where g = "\<lambda>u. (case q of Inl _ \<Rightarrow> countError u
      | Inr es \<Rightarrow> processEvents x es u)\<lparr>rLastProcessed := rNow (case q of Inl _ \<Rightarrow> countError u
      | Inr es \<Rightarrow> processEvents x es u)\<rparr>"])
    assume "env_in P ?v" "P (now_at ?v) (now_at (fst (repo_GetActiveEvents ?v)))"
    then have own2: "own_ids (rSt u)" using own own_later by (simp add: act)
    show "keeps P (\<lambda>u. (case q of Inl _ \<Rightarrow> countError u
      | Inr es \<Rightarrow> processEvents x es u)\<lparr>rLastProcessed := rNow (case q of Inl _ \<Rightarrow> countError u
      | Inr es \<Rightarrow> processEvents x es u)\<rparr>) (fst (repo_GetActiveEvents ?v))"
    proof (cases q)
      case (Inl e)
      show ?thesis by (rule keeps_via [OF keeps_countError stamp]) (simp add: Inl)
    next
      case (Inr es)
      show ?thesis
        by (rule keeps_via [OF _ stamp, where f = "processEvents x es"])
          (simp_all add: Inr act keeps_processEvents [OF own2 assms(2)])
    qed
  qed (simp add: act split: sum.split)
qed

end

end
