(* ===== verification/Waitroom_Active.thy ===== *)
theory Waitroom_Active
  imports Waitroom_Whole_Tick Waitroom_Admission
begin

text \<open>
  Which events a tick looks at: the set of active events, which joins fill and a tick only reads.
\<close>

definition active_watch :: "string set \<Rightarrow> moment \<Rightarrow> moment \<Rightarrow> bool" where
  "active_watch E l m \<longleftrightarrow> (own_ids (snd l) \<longrightarrow> own_ids (snd m)) \<and>
     set (wsActive (snd l)) \<inter> E \<subseteq> set (wsActive (snd m))"

lemma active_frame [simp]:
  "wsActive (setSession k ss ttl t s) = wsActive s" "wsActive (claimSlotAt e k T t s) = wsActive s"
  "wsActive (expireSlots e ttl t s) = wsActive s" "wsActive (reapSlots e b t s) = wsActive s"
  "wsActive (leaveQueue e ids t s) = wsActive s"
  by (simp_all add: setSession_def claimSlotAt_def expireSlots_def reapSlots_def leaveQueue_def Let_def split_beta)

interpretation actives: observation "active_watch E" for E
  by unfold_locales (auto simp: active_watch_def)

interpretation active_ticks: whole_tick "active_watch E" for E
proof
  show "own_ids s \<Longrightarrow> own_ids s'" if "active_watch E (t, s) (t', s')" for t s t' s'
    using that by (simp add: active_watch_def)
qed (auto simp: active_watch_def obeys_def own_ids_setSession)

text \<open>
  A tick never retires an event. Whatever calls it loses, while other processes do not take the
  events of \<open>E\<close> out of the active set: every event of \<open>E\<close> that was active is so after the tick, also one whose
  line is empty. Only the last leaver's \<open>DequeueSession\<close> retires an event.
\<close>

theorem tick_retires_no_event:
  assumes "own_ids (rSt w)" and "0 \<le> xExpiry x" and "env_in (active_watch E) w"
  shows "set (wsActive (rSt w)) \<inter> E \<subseteq> set (wsActive (rSt (processAllQueues x w)))"
proof -
  have "keeps (active_watch E) (processAllQueues x) w"
    using assms(1,2) by (rule active_ticks.keeps_processAllQueues)
  then show ?thesis using assms(3) by (simp add: keeps_def active_watch_def now_at_def)
qed

lemma tick_retires_no_event_witness:
  "''gone'' \<in> set (wsActive (rSt (processAllQueues wr_ext0 (wr_room0\<lparr>rSt := wr_store0\<lparr>wsActive := [''gone'']\<rparr>\<rparr>))))"
proof -
  let ?w = "wr_room0\<lparr>rSt := wr_store0\<lparr>wsActive := [''gone'']\<rparr>\<rparr>"
  have "own_ids (rSt ?w)"
    by (simp add: own_ids_def wr_store0_def wr_s1_def wr_s2_def wr_s3_def wr_session_def)
  moreover have "env_in (active_watch UNIV) ?w" by (rule env_empty) simp
  ultimately show ?thesis using tick_retires_no_event [of ?w wr_ext0 UNIV] by simp
qed

end
