(* ===== verification/Waitroom_Invariant.thy ===== *)
theory Waitroom_Invariant
  imports Waitroom_Delivery_Props Waitroom_Whole_Tick
begin

text \<open>
  The waiting room's store stays well formed, whatever it is asked and whatever calls are lost: a
  session is stored under its own id, every line and every set of checkout slots has one entry
  per session in the order of the scores, an empty set of slots is no key at all, and an
  event is active once. The observation \<open>wf_watch\<close> says that this is kept.
\<close>

definition wr_wf :: "wr_store \<Rightarrow> bool" where
  "wr_wf s \<longleftrightarrow> own_ids s \<and> (\<forall>e. wf_zset (wsQueue s e)) \<and>
     (\<forall>e. wf_zset (fst (wsCheckouts s e)) \<and> (fst (wsCheckouts s e) = [] \<longrightarrow> snd (wsCheckouts s e) = None)) \<and>
     distinct (wsActive s)"

definition wf_watch :: "moment \<Rightarrow> moment \<Rightarrow> bool" where
  "wf_watch l m \<longleftrightarrow> (own_ids (snd l) \<longrightarrow> own_ids (snd m)) \<and> (wr_wf (snd l) \<longrightarrow> wr_wf (snd m))"

lemma wf_slotKey:
  assumes "wr_wf s"
  shows "wf_zset (fst (slotKey t (wsCheckouts s e)))"
    and "fst (slotKey t (wsCheckouts s e)) = [] \<Longrightarrow> snd (slotKey t (wsCheckouts s e)) = None"
  using assms by (auto simp: wr_wf_def slotKey_def split: option.splits)

lemma wf_putSlots [simp]:
  "wf_zset (fst k) \<Longrightarrow> wf_zset (fst (putSlots k))"
  "fst (putSlots k) = [] \<Longrightarrow> snd (putSlots k) = None"
  by (auto simp: putSlots_def split: if_splits)

lemma zadd_nonempty [simp]: "zadd sc m z \<noteq> []"
  by (simp add: zadd_def)

lemma wf_commands:
  assumes "wr_wf s"
  shows "wr_wf (claimSlotAt e k T t s)" and "wr_wf (expireSlots e ttl t s)" and "wr_wf (freeSlot e k t s)"
    and "wr_wf (reapSlots e b t s)" and "wr_wf (leaveQueue e ids t s)" and "wr_wf (addActive e t s)"
    and "wr_wf (removeActive e t s)" and "ssID ss = k \<Longrightarrow> wr_wf (setSession k ss ttl t s)"
proof -
  note sl = wf_slotKey [OF assms] and w = assms [unfolded wr_wf_def]
  show "wr_wf (claimSlotAt e k T t s)"
    using sl w by (auto simp: wr_wf_def own_ids_frame(1)) (auto simp: claimSlotAt_def Let_def split_beta)
  show "wr_wf (expireSlots e ttl t s)"
    using sl w by (auto simp: wr_wf_def own_ids_frame(2)) (auto simp: expireSlots_def Let_def split_beta)
  show "wr_wf (freeSlot e k t s)"
    using sl w by (auto simp: wr_wf_def own_ids_frame(4)) (auto simp: freeSlot_def Let_def split_beta)
  show "wr_wf (reapSlots e b t s)"
    using sl w by (auto simp: wr_wf_def own_ids_frame(3)) (auto simp: reapSlots_def Let_def split_beta)
  show "wr_wf (leaveQueue e ids t s)" using w by (auto simp: wr_wf_def leaveQueue_def own_ids_def)
  show "wr_wf (addActive e t s)" using w by (auto simp: wr_wf_def addActive_def own_ids_def)
  show "wr_wf (removeActive e t s)" using w by (auto simp: wr_wf_def removeActive_def own_ids_def)
  show "ssID ss = k \<Longrightarrow> wr_wf (setSession k ss ttl t s)"
    using w by (auto simp: wr_wf_def setSession_def own_ids_def)
qed

lemma wf_other_fields [simp]:
  "wr_wf (s\<lparr>wsKafka := a\<rparr>) = wr_wf s" "wr_wf (s\<lparr>wsBuffer := b\<rparr>) = wr_wf s"
  "wr_wf (s\<lparr>wsBlacklist := c\<rparr>) = wr_wf s" "wr_wf (s\<lparr>wsUserIndex := d\<rparr>) = wr_wf s"
  "wr_wf (s\<lparr>wsDeadLetters := f\<rparr>) = wr_wf s"
  by (simp_all add: wr_wf_def own_ids_def)

lemma own_other_fields [simp]:
  "own_ids (s\<lparr>wsBlacklist := c\<rparr>) = own_ids s" "own_ids (s\<lparr>wsUserIndex := d\<rparr>) = own_ids s"
  "own_ids (s\<lparr>wsDeadLetters := f\<rparr>) = own_ids s" "own_ids (s\<lparr>wsQueue := q\<rparr>) = own_ids s"
  "own_ids (addActive e t s) = own_ids s" "own_ids (removeActive e t s) = own_ids s"
  by (simp_all add: own_ids_def addActive_def removeActive_def)

interpretation wfs: observation wf_watch
  by unfold_locales (auto simp: wf_watch_def)

interpretation wf_tick: ticking wf_watch e s0 UNIV UNIV for e s0
  by unfold_locales (auto simp: wf_watch_def obeys_def wf_commands own_ids_setSession)

section \<open>What a buyer calls\<close>

lemma wf_obeys [simp]:
  "obeys wf_watch t (freeSlot e k)" "obeys wf_watch t (leaveQueue e ids)" "obeys wf_watch t (addActive e)"
  "obeys wf_watch t (removeActive e)" "ssID ss = k \<Longrightarrow> obeys wf_watch t (setSession k ss ttl)"
  "obeys wf_watch t (\<lambda>t s. s\<lparr>wsKafka := a t s\<rparr>)" "obeys wf_watch t (\<lambda>t s. s\<lparr>wsBuffer := b t s\<rparr>)"
  "obeys wf_watch t (\<lambda>t s. s\<lparr>wsBlacklist := c t s\<rparr>)" "obeys wf_watch t (\<lambda>t s. s\<lparr>wsUserIndex := d t s\<rparr>)"
  "obeys wf_watch t (setUserIndex k v ttl)" "obeys wf_watch t (\<lambda>t s. s\<lparr>wsDeadLetters := f t s\<rparr>)"
  "obeys wf_watch t (\<lambda>t s. s\<lparr>wsQueue := (wsQueue s)(e := zadd sc k (wsQueue s e))\<rparr>)"
  by (auto simp: obeys_def wf_watch_def wf_commands own_ids_setSession setUserIndex_def)
    (auto simp: wr_wf_def)

lemma wf_reads:
  "keeps_run wf_watch (repo_GetQueueLength e) w" "keeps_run wf_watch (repo_GetQueuePosition e k) w"
  "keeps_run wf_watch (repo_GetQueuePositionAndLength e k) w" "keeps_run wf_watch (getTTL k) w"
  unfolding repo_GetQueueLength_def repo_GetQueuePosition_def repo_GetQueuePositionAndLength_def getTTL_def
  by (rule wfs.keeps_read)+

lemma wf_eventGate: "keeps_run wf_watch (eventGate_Get x e) w"
proof (cases "eventGate_lookup e w")
  case (Some v)
  then show ?thesis by (intro wfs.keeps_via [OF wfs.keeps_id wfs.keeps_id]) (simp add: eventGate_Get_def)
next
  case None
  obtain v r where f: "eventGate_fetch x e w = (v, r)" by (cases "eventGate_fetch x e w")
  have call: "keeps_run wf_watch (callEvent g nf) u" for g :: "time \<Rightarrow> grpc_code + 'b" and nf u
    unfolding callEvent_def by (rule wfs.keeps_settle [OF wfs.keeps_read]) (simp add: wfs.keeps_id split: sum.split)
  have fetch: "keeps_run wf_watch (eventGate_fetch x e) w"
    unfolding eventGate_fetch_def
    by (rule wfs.keeps_andThen [OF call])
      (auto intro!: wfs.keeps_andThen [OF call] simp: wfs.keeps_id split: option.split)
  have "set_local (\<lambda>w. if isEventVerdict r then eventGate_store e r (rNow v + xEventTTL x) w else w)"
    by (simp add: set_local_def eventGate_store_def)
  then show ?thesis
    by (rule wfs.keeps_via [OF fetch wfs.keeps_local]) (simp add: eventGate_Get_def None f)
qed

lemma wf_publish:
  "keeps_run wf_watch (prod_PublishQueueJoined ej) w" "keeps_run wf_watch (prod_PublishQueueLeft el) w"
  unfolding prod_PublishQueueJoined_def prod_PublishQueueLeft_def
  by (rule wfs.keeps_withNow, rule wfs.keeps_rcall, simp)+

lemma wf_Enqueue: "keeps_run wf_watch (svc_EnqueueSession ss) w"
proof -
  have "keeps_run wf_watch (repo_AddToQueue e ss) v" "keeps_run wf_watch (repo_AddActiveEvent e) v" for e v
    unfolding repo_AddToQueue_def repo_AddActiveEvent_def by (rule wfs.keeps_rcall, simp)+
  then show ?thesis
    unfolding svc_EnqueueSession_def
    by (intro wfs.keeps_andThen wfs.keeps_settle wf_reads) (simp_all add: wfs.keeps_id)
qed

lemma wf_Create: "keeps_run wf_watch (svc_CreateSession k lot u e ua ip start) w"
  unfolding svc_CreateSession_def Let_def repo_Create_def
  by (rule wfs.keeps_withNow, rule wfs.keeps_andThen, rule wfs.keeps_rcall) (auto simp: wfs.keeps_id)

lemma wf_QueueInfo: "keeps_run wf_watch (svc_GetQueueInfo e) w"
  unfolding svc_GetQueueInfo_def
  by (intro wfs.keeps_andThen wf_reads wf_tick.keeps_count) (simp add: wfs.keeps_id)

lemma wf_Join: "keeps_run wf_watch (wr_JoinQueue x k lot inp) w"
  unfolding wr_JoinQueue_def
  by (intro wfs.keeps_andThen wfs.keeps_settle wfs.keeps_if wfs.keeps_pair wfs.keeps_ret wfs.keeps_fail
      wf_eventGate wf_tick.keeps_askStock wf_Create wf_Enqueue wf_publish wf_QueueInfo)

lemma wf_ActiveSession: "keeps_run wf_watch (svc_ActiveSession k u) w"
  unfolding svc_ActiveSession_def
  by (intro wfs.keeps_andThen wfs.keeps_withNow wf_tick.keeps_GetSession wfs.keeps_if wfs.keeps_ret wfs.keeps_fail)

lemma wf_Status: "keeps_run wf_watch (wr_GetQueueStatus x k u) w"
proof -
  have "keeps_run wf_watch (svc_GetQueueStatus ss) v" for ss v
    unfolding svc_GetQueueStatus_def
    by (intro wfs.keeps_if wfs.keeps_andThen wfs.keeps_pair wf_reads wfs.keeps_ret)
  then show ?thesis
    unfolding wr_GetQueueStatus_def
    by (intro wfs.keeps_andThen wfs.keeps_if wfs.keeps_ret wfs.keeps_fail wf_ActiveSession wf_tick.keeps_askStock)
qed

lemma wf_Leave:
  assumes "own_ids (rSt w)" shows "keeps_run wf_watch (wr_LeaveQueue k u) w"
proof -
  have deq: "keeps_run wf_watch (svc_DequeueSession e k) v" for e v
  proof -
    have "keeps_run wf_watch (repo_RemoveFromQueue e [k]) y" "keeps_run wf_watch (repo_RemoveActiveEvent e) y" for y
      unfolding repo_RemoveFromQueue_def repo_RemoveActiveEvent_def
      by (auto intro!: wfs.keeps_rcall)
    then show ?thesis
      unfolding svc_DequeueSession_def
      by (intro wfs.keeps_andThen wfs.keeps_settle wf_reads)
        (auto simp: wfs.keeps_id intro!: wfs.keeps_settle split: sum.split)
  qed
  show ?thesis
    unfolding wr_LeaveQueue_def
  proof (rule wfs.keeps_andThen [OF wf_tick.keeps_GetSession], rule wfs.keeps_if)
    fix ss v assume v: "wfs.reached w v"
    show "keeps_run wf_watch (fail ErrSessionNotFound) v" by (rule wfs.keeps_fail)
    show "keeps_run wf_watch (andThen (svc_DequeueSession (ssEventID ss) k) (\<lambda>_.
       andThen (svc_UpdateSessionStatus k SessionStatusAbandoned) (\<lambda>_.
       settle (prod_PublishQueueLeft \<lparr>qlSessionID = k, qlUserID = ssUserID ss, qlEventID = ssEventID ss,
         qlReason = ''user_left'', qlLeftAt = ssUpdatedAt ss, qlTimestamp = zero_time\<rparr>) (\<lambda>_. ret ())))) v"
    proof (intro wfs.keeps_andThen deq wfs.keeps_settle wf_publish wfs.keeps_ret)
      fix y assume "wfs.reached v y"
      then have "own_ids (rSt y)"
        using v assms by (auto simp: wfs.reached_def wf_watch_def now_at_def)
      then have "wf_tick.ready (rNow y) y" by (simp add: wf_tick.ready_def)
      then show "keeps_run wf_watch (svc_UpdateSessionStatus k SessionStatusAbandoned) y"
        by (intro wf_tick.keeps_UpdateSessionStatus) simp_all
    qed
  qed
qed

section \<open>Finished checkouts\<close>

lemma wf_own: "wfs.reached w v \<Longrightarrow> own_ids (rSt w) \<Longrightarrow> own_ids (rSt v)"
  by (simp add: wfs.reached_def wf_watch_def now_at_def)

lemma wf_Invalidate:
  assumes "own_ids (rSt w)" shows "keeps_run wf_watch (repo_InvalidateToken h k reason) w"
  unfolding repo_InvalidateToken_def Let_def
proof (rule wfs.keeps_andThen [OF wf_tick.keeps_Get], rule wfs.keeps_if [OF wfs.keeps_ret], rule wfs.keeps_withNow,
    rule wfs.keeps_settle [OF wf_reads(4)], rule wfs.keeps_rcall)
  fix ss v r y c
  assume got: "repo_Get k w = (v, Inr ss)" and v: "wfs.reached w v"
    and c: "c \<in> set [\<lambda>t s. s\<lparr>wsBlacklist := (wsBlacklist s)(h (ssCheckoutToken ss) \<mapsto> t + blacklistTTL (rNow v) ss)\<rparr>,
      setSession k (ss\<lparr>ssTokenInvalidated := True, ssTokenInvalidatedAt := Some (rNow v),
        ssTokenInvalidationReason := reason, ssUpdatedAt := rNow v\<rparr>)
        (if (case r of Inl e \<Rightarrow> 0 | Inr t \<Rightarrow> t) \<le> 0 then sessionTTL else case r of Inl e \<Rightarrow> 0 | Inr t \<Rightarrow> t)]"
  have "ssID ss = k" by (rule Get_own [OF got wf_own [OF v assms]])
  then show "obeys wf_watch (rNow y) c" using c by auto
qed

lemma wf_endCheckout:
  assumes "ends_checkout f" and "own_ids (rSt w)"
  shows "keeps_run wf_watch (endCheckout x reason f inp) w"
  unfolding endCheckout_def
proof (rule wfs.keeps_settle [OF wf_tick.keeps_GetSession])
  let ?k = "ciSessionID inp"
  fix r v assume v: "wfs.reached w v"
  have free: "keeps_run wf_watch (repo_RemoveFromProcessing (ciEventID inp) ?k) y" for y
    unfolding repo_RemoveFromProcessing_def by (rule wfs.keeps_rcall) simp
  have upd: "keeps_run wf_watch (svc_UpdateSession ss) y" for ss y
    unfolding svc_UpdateSession_def by (rule wf_tick.keeps_Update) simp_all
  have "keeps_run wf_watch (settle (svc_InvalidateCheckoutToken x ?k reason) (\<lambda>_.
       settle (repo_RemoveFromProcessing (ciEventID inp) ?k) (\<lambda>_. svc_UpdateSession (f ss)))) v" for ss
    unfolding svc_InvalidateCheckoutToken_def
    by (intro wfs.keeps_settle wf_Invalidate free upd wf_own [OF v assms(2)])
  then show "keeps_run wf_watch (case r of Inl e \<Rightarrow> if e = ErrSessionNotFound then ret () else fail e
     | Inr ss \<Rightarrow> settle (svc_InvalidateCheckoutToken x ?k reason) (\<lambda>_.
         settle (repo_RemoveFromProcessing (ciEventID inp) ?k) (\<lambda>_. svc_UpdateSession (f ss)))) v"
    by (cases r) (simp_all add: wfs.keeps_id)
qed

lemma wf_processMessage:
  assumes "own_ids (rSt w)" shows "keeps wf_watch (\<lambda>w. fst (processMessage x m w)) w"
proof -
  have one: "keeps wf_watch (\<lambda>w. fst (handled x h m w)) w"
    if "\<And>inp. keeps_run wf_watch (h inp) w" for h :: "checkout_input \<Rightarrow> unit wr"
  proof (cases "cmBody m")
    case None
    then show ?thesis by (intro wfs.keeps_via [OF wfs.keeps_id wfs.keeps_id]) (simp add: handled_def)
  next
    case (Some e)
    let ?in = "\<lparr>ciSessionID = ceSessionID e, ciUserID = ceUserID e, ciEventID = ceEventID e,
      ciTimestamp = OrElse (decodeEventTime (xParseISO x) (ceTimestamp e)) (cmTimestamp m)\<rparr>"
    show ?thesis
      by (intro wfs.keeps_via [OF that [of ?in] wfs.keeps_id])
        (simp add: handled_def Some split: prod.split sum.split)
  qed
  show ?thesis
    unfolding processMessage_def wr_HandleCheckoutCompleted_def [abs_def] wr_HandleCheckoutFailed_def [abs_def]
      wr_HandleCheckoutExpired_def [abs_def]
    using one wf_endCheckout [OF checkout_endings(1) assms] wf_endCheckout [OF checkout_endings(2) assms]
      wf_endCheckout [OF checkout_endings(3) assms]
    by (auto simp: wfs.keeps_id)
qed

lemma wf_wait: "keeps wf_watch (\<lambda>w. w\<lparr>rNow := max (rNow w) t\<rparr>) w"
  by (auto simp: keeps_def wf_watch_def now_at_def env_in_def onward_def)

lemma wf_park: "keeps_run wf_watch (park m n) w"
  unfolding park_def PublishDeadLetter_def
  by (intro wfs.keeps_andThen wfs.keeps_ret wfs.keeps_rcall) simp

lemma wf_deliverLoop:
  assumes "own_ids (rSt w)" shows "keeps_run wf_watch (deliverLoop x stop base m n a) w"
  using assms
proof (induction n arbitrary: a w)
  case 0
  then show ?case using wf_park by simp
next
  case (Suc n)
  obtain v q where one: "processMessage x m w = (v, q)" by (cases "processMessage x m w")
  let ?t = "rNow v + max 0 (delayFor base (Suc a))"
  show ?case
  proof (rule wfs.keeps_step [OF wf_processMessage [OF Suc.prems], where g = "\<lambda>v. case q of Inr _ \<Rightarrow> v
      | Inl e \<Rightarrow> if e = Permanent \<or> n = 0 then fst (park m (Suc a) v)
          else case stop of
            Some c \<Rightarrow> if c \<le> ?t then v\<lparr>rNow := max (rNow v) c\<rparr>
              else fst (deliverLoop x stop base m n (Suc a) (v\<lparr>rNow := max (rNow v) ?t\<rparr>))
          | None \<Rightarrow> fst (deliverLoop x stop base m n (Suc a) (v\<lparr>rNow := max (rNow v) ?t\<rparr>))"])
    show "fst (deliverLoop x stop base m (Suc n) a w) = (\<lambda>v. case q of Inr _ \<Rightarrow> v
      | Inl e \<Rightarrow> if e = Permanent \<or> n = 0 then fst (park m (Suc a) v)
          else case stop of
            Some c \<Rightarrow> if c \<le> ?t then v\<lparr>rNow := max (rNow v) c\<rparr>
              else fst (deliverLoop x stop base m n (Suc a) (v\<lparr>rNow := max (rNow v) ?t\<rparr>))
          | None \<Rightarrow> fst (deliverLoop x stop base m n (Suc a) (v\<lparr>rNow := max (rNow v) ?t\<rparr>)))
        (fst (processMessage x m w))"
      by (simp add: one Let_def split: sum.split option.split)
    assume "env_in wf_watch w" "wf_watch (now_at w) (now_at (fst (processMessage x m w)))"
    then have own: "own_ids (rSt v)" using Suc.prems by (simp add: one wf_watch_def now_at_def)
    have again: "keeps wf_watch (\<lambda>v. fst (deliverLoop x stop base m n (Suc a) (v\<lparr>rNow := max (rNow v) ?t\<rparr>))) v"
      by (rule wfs.keeps_via [OF wf_wait [of ?t], where g = "\<lambda>w. fst (deliverLoop x stop base m n (Suc a) w)"],
          rule Suc.IH) (simp_all add: own)
    show "keeps wf_watch (\<lambda>v. case q of Inr _ \<Rightarrow> v
      | Inl e \<Rightarrow> if e = Permanent \<or> n = 0 then fst (park m (Suc a) v)
          else case stop of
            Some c \<Rightarrow> if c \<le> ?t then v\<lparr>rNow := max (rNow v) c\<rparr>
              else fst (deliverLoop x stop base m n (Suc a) (v\<lparr>rNow := max (rNow v) ?t\<rparr>))
          | None \<Rightarrow> fst (deliverLoop x stop base m n (Suc a) (v\<lparr>rNow := max (rNow v) ?t\<rparr>)))
        (fst (processMessage x m w))"
    proof (cases q)
      case (Inr u)
      then show ?thesis by (simp add: wfs.keeps_id)
    next
      case (Inl e)
      show ?thesis
      proof (cases "e = Permanent \<or> n = 0")
        case True
        then show ?thesis using wf_park by (simp add: Inl one)
      next
        case False
        then show ?thesis
          using again wf_wait by (cases stop; cases "the stop \<le> ?t") (simp_all add: Inl one)
      qed
    qed
  qed
qed

lemma wf_step_own:
  "keeps wf_watch f w \<Longrightarrow> env_in wf_watch w \<Longrightarrow> own_ids (rSt w) \<Longrightarrow> own_ids (rSt (f w)) \<and> env_in wf_watch (f w)"
  by (simp add: keeps_def wf_watch_def now_at_def)

lemma wf_consume:
  assumes "own_ids (rSt w)" shows "keeps wf_watch (\<lambda>w. fst (consumeClaim x stop n base ms w)) w"
  using assms
proof (induction ms arbitrary: w)
  case Nil
  then show ?case by (simp add: wfs.keeps_id)
next
  case (Cons m ms)
  show ?case
  proof (cases "case stop of None \<Rightarrow> False | Some c \<Rightarrow> c \<le> rNow w")
    case True
    then show ?thesis by (intro wfs.keeps_via [OF wfs.keeps_id wfs.keeps_id]) simp
  next
    case False
    obtain v r where one: "deliver x stop n base m w = (v, r)" by (cases "deliver x stop n base m w")
    have del: "keeps_run wf_watch (deliver x stop n base m) w"
      unfolding deliver_def by (rule wf_deliverLoop [OF Cons.prems])
    show ?thesis
    proof (rule wfs.keeps_step [OF del, where g = "\<lambda>v. if r = Inr True
        then fst (consumeClaim x stop n base ms v) else v"])
      show "fst (consumeClaim x stop n base (m # ms) w) = (if r = Inr True
        then fst (consumeClaim x stop n base ms (fst (deliver x stop n base m w)))
        else fst (deliver x stop n base m w))"
        using False by (auto simp: one split: sum.split prod.split option.splits)
      assume "env_in wf_watch w" "wf_watch (now_at w) (now_at (fst (deliver x stop n base m w)))"
      then have "own_ids (rSt v)" using Cons.prems by (simp add: one wf_watch_def now_at_def)
      then show "keeps wf_watch (\<lambda>v. if r = Inr True then fst (consumeClaim x stop n base ms v) else v)
          (fst (deliver x stop n base m w))"
        using Cons.IH by (cases "r = Inr True") (simp_all add: one wfs.keeps_id)
    qed
  qed
qed

section \<open>A tick\<close>

interpretation wf_whole: whole_tick wf_watch
  by unfold_locales

section \<open>Every operation\<close>

text \<open>What the process is asked to do, one after another.\<close>

datatype wr_op =
  Join string int join_input
  | Status string string
  | LeaveLine string string
  | Consume "time option" nat duration "checkout_message list"
  | Tick

fun run_op :: "wr_ext \<Rightarrow> wr_op \<Rightarrow> room \<Rightarrow> room" where
  "run_op x (Join k lot inp) w = fst (wr_JoinQueue x k lot inp w)"
| "run_op x (Status k u) w = fst (wr_GetQueueStatus x k u w)"
| "run_op x (LeaveLine k u) w = fst (wr_LeaveQueue k u w)"
| "run_op x (Consume stop n base ms) w = fst (consumeClaim x stop n base ms w)"
| "run_op x Tick w = processAllQueues x w"

fun run_ops :: "wr_ext \<Rightarrow> wr_op list \<Rightarrow> room \<Rightarrow> room" where
  "run_ops x [] w = w"
| "run_ops x (a # as) w = run_ops x as (run_op x a w)"

lemma wf_run_op:
  assumes "own_ids (rSt w)" and "0 \<le> xExpiry x" shows "keeps wf_watch (run_op x a) w"
proof (cases a)
  case (Join k lot inp)
  have "run_op x (Join k lot inp) = (\<lambda>w. fst (wr_JoinQueue x k lot inp w))" by (rule ext) simp
  then show ?thesis using wf_Join by (simp add: Join)
next
  case (Status k u)
  have "run_op x (Status k u) = (\<lambda>w. fst (wr_GetQueueStatus x k u w))" by (rule ext) simp
  then show ?thesis using wf_Status by (simp add: Status)
next
  case (LeaveLine k u)
  have "run_op x (LeaveLine k u) = (\<lambda>w. fst (wr_LeaveQueue k u w))" by (rule ext) simp
  then show ?thesis using wf_Leave [OF assms(1)] by (simp add: LeaveLine)
next
  case (Consume stop n base ms)
  have "run_op x (Consume stop n base ms) = (\<lambda>w. fst (consumeClaim x stop n base ms w))" by (rule ext) simp
  then show ?thesis using wf_consume [OF assms(1)] by (simp add: Consume)
next
  case Tick
  have "run_op x Tick = processAllQueues x" by (rule ext) simp
  then show ?thesis using wf_whole.keeps_processAllQueues [OF assms] by (simp add: Tick)
qed

text \<open>
  The waiting room's store stays well formed. Whatever the process is asked, in any order,
  whichever calls are lost or cut, while other processes keep the store well formed too: each
  session is stored under its own id; each line and each set of checkout slots is sorted by its
  scores with one entry per session; an empty set of slots has no expiry; and no event is
  listed as active twice.
\<close>

theorem room_stays_well_formed:
  assumes "wr_wf (rSt w)" and "env_in wf_watch w" and "0 \<le> xExpiry x"
  shows "wr_wf (rSt (run_ops x as w))"
  using assms(1,2)
proof (induction as arbitrary: w)
  case Nil
  then show ?case by simp
next
  case (Cons a as)
  have "own_ids (rSt w)" using Cons.prems(1) by (simp add: wr_wf_def)
  then have k: "keeps wf_watch (run_op x a) w" using assms(3) by (rule wf_run_op)
  then have "wr_wf (rSt (run_op x a w))" "env_in wf_watch (run_op x a w)"
    using Cons.prems by (auto simp: keeps_def wf_watch_def now_at_def)
  then show ?case using Cons.IH by simp
qed

lemma wr_store0_wf: "wr_wf wr_store0"
  using wr_own_ids by (simp add: wr_wf_def) (simp add: wr_store0_def wf_zset_def score_unit_def second_def)

lemma room_stays_well_formed_witness:
  "wr_wf (rSt (run_ops wr_ext0 [Join ''s9'' 5 \<lparr>jiUserID = ''u9'', jiEventID = ''e'', jiUserAgent = [],
       jiIPAddress = []\<rparr>, Tick, Consume None 5 second [wr_paid], LeaveLine ''s2'' ''u2'', Tick]
     (wr_room0\<lparr>rEnv := [(3, id, Answered), (0, \<lambda>s. s\<lparr>wsActive := []\<rparr>, Cut 1)]\<rparr>)))"
proof (rule room_stays_well_formed)
  have "wr_wf s \<Longrightarrow> wr_wf (s\<lparr>wsActive := []\<rparr>)" "own_ids s \<Longrightarrow> own_ids (s\<lparr>wsActive := []\<rparr>)" for s
    by (simp_all add: wr_wf_def own_ids_def)
  then show "env_in wf_watch (wr_room0\<lparr>rEnv := [(3, id, Answered), (0, \<lambda>s. s\<lparr>wsActive := []\<rparr>, Cut 1)]\<rparr>)"
    by (simp add: env_in_def wf_watch_def)
qed (simp_all add: wr_store0_wf)

end
