(* ===== verification/Order_Clock.thy ===== *)
theory Order_Clock
  imports Order_Service_Props
begin

text \<open>
  The checkout clock of an order: the delayed run of ExpireOrder that Create starts
  (\<open>startCheckoutClock\<close> of \<open>order-svc/internal/order/service/order.go\<close>) and Temporal
  fires. Which creates start it, and that an order nobody pays leaves nothing behind once it fires.
\<close>

section \<open>Who starts a clock\<close>

text \<open>
  Only the answer to a saga of its own starts a clock: a create that resumes the slot's order,
  fails, panics, or was abandoned by its caller leaves the clocks as they were.
\<close>

lemma svc_call_clocks:
  assumes "\<And>v. wClocks (fst (f v)) = wClocks v"
  shows "wClocks (fst (svc_call f w)) = wClocks w"
  using assms by (simp add: svc_call_def split: list.splits prod.splits fault.splits)

lemma releaseSlot_clocks [simp]: "wClocks (releasePurchaseSlot k c w) = wClocks w"
  unfolding releasePurchaseSlot_def by (rule svc_call_clocks) simp

lemma svc_read_clocks [simp]:
  "wClocks (fst (svc_GetByCode c w)) = wClocks w" "wClocks (fst (svc_ListItems c w)) = wClocks w"
  "wClocks (fst (svc_payment_url x c m w)) = wClocks w" "wClocks (fst (svc_FindMany x e ids w)) = wClocks w"
  "wClocks (fst (svc_Claim x n k c w)) = wClocks w"
  unfolding svc_GetByCode_def svc_ListItems_def svc_payment_url_def svc_FindMany_def svc_Claim_def
  by (rule svc_call_clocks, simp split: prod.splits)+

lemma resume_clocks [simp]: "wClocks (fst (resumeExistingOrder x k c t m w)) = wClocks w"
proof -
  have a: "wClocks w1 = wClocks w" if "svc_GetByCode c w = (w1, r)" for w1 r
    using svc_read_clocks(1) [of c w] that by simp
  have b: "wClocks w2 = wClocks w1" if "svc_ListItems d w1 = (w2, r)" for d w1 w2 r
    using svc_read_clocks(2) [of d w1] that by simp
  have d: "wClocks w2 = wClocks w1" if "svc_payment_url x d m w1 = (w2, r)" for d w1 w2 r
    using svc_read_clocks(3) [of x d m w1] that by simp
  show ?thesis
    unfolding resumeExistingOrder_def
    by (auto split: prod.splits sum.splits order_error.splits dest!: a b d)
qed

lemma claim_loop_clocks [simp]: "wClocks (fst (claim_loop x k c m n w)) = wClocks w"
proof (induction n arbitrary: w)
  case 0
  then show ?case by simp
next
  case (Suc n)
  have a: "wClocks w1 = wClocks w" if "svc_Claim x n k c w = (w1, r)" for w1 r
    using svc_read_clocks(5) [of x n k c w] that by simp
  have b: "wClocks w2 = wClocks w1" if "resumeExistingOrder x k d t m w1 = (w2, r)" for d t w1 w2 r
    using resume_clocks [of x k d t m w1] that by simp
  show ?case
    by (auto simp: Suc.IH split: prod.splits sum.splits claim_result.splits dest!: a b)
qed

lemma claimPurchaseSlot_clocks: "claimPurchaseSlot x k c m w = (w', r) \<Longrightarrow> wClocks w' = wClocks w"
  using claim_loop_clocks [of x k c m claimAttempts w] by (simp add: claimPurchaseSlot_def)

lemma startCheckoutClock_clocks:
  "wClocks (startCheckoutClock code w) = wClocks w \<or>
   (\<exists>t. wClocks (startCheckoutClock code w) =
      start_delayed (GetExpireOrderWorkflowID code) code (t + CheckoutLifetime) (wClocks w))"
  by (auto simp: startCheckoutClock_def svc_call_def split: list.splits prod.splits fault.splits)

definition answered :: "svc_ext \<Rightarrow> (order_error + create_order_output) outcome \<Rightarrow> bool" where
  "answered x oc \<longleftrightarrow> sRun x = Ran \<and> (\<exists>out. oc = Returned (Inr out))"

lemma create_under_slot_clocks:
  assumes "create_under_slot x i ev ss k code w = (w', oc)" and "\<And>v. wClocks (sLate x v) = wClocks v"
  shows "wClocks w' = wClocks w \<or> answered x oc \<and>
    (\<exists>t. wClocks w' = start_delayed (GetExpireOrderWorkflowID code) code (t + CheckoutLifetime) (wClocks w))"
proof -
  obtain w1 r where f: "svc_FindMany x (ordEventID i) (map oiTicketClassID (ordItems i)) w = (w1, r)"
    by (cases "svc_FindMany x (ordEventID i) (map oiTicketClassID (ordItems i)) w")
  have w1: "wClocks w1 = wClocks w"
    using svc_read_clocks(4) [of x "ordEventID i" "map oiTicketClassID (ordItems i)" w] f by simp
  have saga: "wClocks w2 = wClocks w1" if "CreateOrder y inp w1 = (w2, q)" for y inp w2 q
    using saga_still.saga [OF that] by (simp add: still_def)
  show ?thesis
    using assms(1) w1 assms(2)
    by (auto simp: create_under_slot_def f Let_def answered_def dest!: saga
        split: sum.splits option.splits saga_run.splits prod.splits if_splits)
      (metis startCheckoutClock_clocks)
qed

lemma Create_clocks:
  assumes "Create x i w = (w', oc)"
  shows "wClocks w' = wClocks w \<or> (\<exists>ev ss k code w1. create_under_slot x i ev ss k code w1 = (w', oc) \<and>
    wClocks w1 = wClocks w)"
  using assms
  by (auto simp: Create_def Let_def dest!: claimPurchaseSlot_clocks split: sum.splits prod.splits option.splits if_splits)

lemma clock_only_when_answered:
  assumes "Create x i w = (w', oc)" and "\<And>v. wClocks (sLate x v) = wClocks v"
  shows "wClocks w' = wClocks w \<or> answered x oc \<and>
    (\<exists>code t. wClocks w' = start_delayed (GetExpireOrderWorkflowID code) code (t + CheckoutLifetime) (wClocks w))"
  using Create_clocks [OF assms(1)] create_under_slot_clocks [OF _ assms(2)] by metis

section \<open>What the clock undoes\<close>

lemma create_under_slot_answered:
  assumes "wEnv w1 = []" and "sRun x = Ran" and "create_under_slot x i ev ss k code w1 = (w', Returned (Inr out))"
  obtains ls amt w2 res where "CreateOrder (ext.truncate x) (workflow_input i ev ss code ls amt) w1 = (w2, Inr res)"
    "w' = startCheckoutClock code w2" "outOrder out = wrOrder res"
  using assms
  by (auto simp: create_under_slot_def calm_svc_FindMany
      split: sum.splits option.splits prod.splits if_splits)

lemma act_CreateOrder_inv [simp]: "wInv (fst (act_CreateOrder x opt w)) = wInv w"
proof -
  have ef: "env_free wInv" by (simp add: env_free_def)
  have "wInv (fst (put_order x opt w)) = wInv w"
    unfolding put_order_def by (rule remote_frame [OF ef])
      (auto simp: on_table_def split: prod.splits sum.splits order_error.splits)
  moreover have "wInv (fst (read_back opt v)) = wInv v" for v
    unfolding read_back_def by (rule remote_frame [OF ef]) (auto split: sum.splits)
  ultimately show ?thesis
    by (auto simp: act_CreateOrder_def split: prod.splits sum.splits option.splits)
qed

lemma answered_under_slot:
  assumes "lookup_event x (ordEventID i) = Inr (ev, cfg)"
    and "code = GenerateOrderCodeWithEventPrefix (sDate x (wNow w)) (sRandom x) (evName ev)"
    and "k = PurchaseSlotKey (slot_session x i cfg) (ordUserID i) (ordEventID i)"
    and "map_of (wTable w) (slot_key k) = None" and "wEnv w = []"
    and "Create x i w = (w1, Returned (Inr out))"
  shows "create_under_slot x i ev (slot_session x i cfg) k code
    (w\<lparr>wTable := AList.update (slot_key k) (DClaim (claim_item (wNow w) code)) (wTable w)\<rparr>) = (w1, Returned (Inr out))"
  using calm_Create [OF assms(1,5) assms(4) [unfolded assms(3)]] assms(2,3,6) by (auto simp: Let_def)

lemma CreateOrder_taken:
  assumes "wf_db (wInv w)" and "orderRows (wInv w) (wfOrderCode i) = []" and "CreateOrder x i w = (w', Inr res)"
  shows "taken (eParse x) (reserve_request_of x i (wNow w)) (wInv w) (wInv w')"
  using assms(3)
proof (cases rule: CreateOrder_cases)
  case (success w1 w2 w3 url ord its)
  have "reserving x (reserve_request_of x i (wNow w)) (wTable w) (wInv w) w"
    using assms(1,2) by (simp add: reserving_def reserve_request_of_def)
  from reserve_retried [OF this [unfolded reserve_request_of_def] success(1)]
  have "taken (eParse x) (reserve_request_of x i (wNow w)) (wInv w) (wInv w1)"
    by (simp add: reserve_request_of_def)
  moreover have "wInv w' = wInv w1"
    using attempts_success_frame [OF success(4), of wInv] attempts_success_frame [OF success(3), of wInv]
      attempts_success_frame [OF success(2), of wInv] by simp
  ultimately show ?thesis by simp
qed simp_all

lemma taken_given_back:
  assumes "consistent db" and "orderRows db (rrOrderCode req) = []" and "taken parse req db db1"
  shows "rrOrderCode req \<noteq> []"
    and "cancelReservationTx (rrOrderCode req) db1 = Inr db2 \<Longrightarrow> look db2 = look db"
    and "\<not> has_confirmed db1 (rrOrderCode req)"
proof -
  obtain inp t where t: "validateReserveRequest req = None" "newReserveInput parse req = Inr inp"
    "reserveTx inp t db = Inr db1" using assms(3) by (auto simp: taken_def)
  have none: "orderRows db (inOrderCode inp) = []" using assms(2) newReserveInput_code [OF t(2)] by simp
  show "rrOrderCode req \<noteq> []" using t(1) by (auto simp: validateReserveRequest_def)
  show "look db2 = look db" if "cancelReservationTx (rrOrderCode req) db1 = Inr db2"
    using that release_after_reserve [OF assms(1) none newReserveInput_valid [OF t(2,1)] t(3)]
      newReserveInput_code [OF t(2)] by auto
  have "wf_db db" using assms(1) by (simp add: consistent_def)
  from taken_rows(3) [OF this assms(2) t(2,1,3)] show "\<not> has_confirmed db1 (rrOrderCode req)"
    by (auto simp: has_confirmed_def)
qed

text \<open>Release over the wire, on an order of which nothing is paid.\<close>

lemma rpc_Release_unpaid:
  assumes "consistent db" and "\<not> has_confirmed db code" and "code \<noteq> []"
  obtains db' where "rpc_Release code db = (db', Inr ())" and "consistent db'"
    and "cancelReservationTx code db = Inr db'" and "paid db' = paid db"
    and "\<And>c. look db' c = map_option (subReserved (order_qty db code c ReservationStatusActive)) (look db c)"
    and "\<And>c. order_qty db' code c ReservationStatusActive = 0"
proof -
  obtain db' where tx: "cancelReservationTx code db = Inr db'"
    using release_no_drift [OF assms(1,2)] by blast
  have rel: "Release code db = (db', Inr ())" using tx by (simp add: Release_def transaction_def)
  have "wf_db db" using assms(1) by (simp add: consistent_def)
  from consistentI_gap [OF assms(1) releaseTx_keeps [OF this tx]] have c: "consistent db'" .
  have ex: "look db' c = map_option (subReserved (order_qty db code c ReservationStatusActive)) (look db c) \<and>
      order_qty db' code c ReservationStatusActive = 0 \<and> paid db' c = paid db c" for c
    using release_effect [OF assms(1), of code c] assms(2) rel by simp
  have "rpc_Release code db = (db', Inr ())" using rel assms(3) by (simp add: rpc_Release_def validate_id_def)
  from that [OF this c tx] ex show thesis by auto
qed

text \<open>What an answered create leaves in a world without faults: the order, the slot, the hold, the clock.\<close>

lemma answered_create:
  fixes i k code w
  defines "wk \<equiv> w\<lparr>wTable := AList.update (slot_key k) (DClaim (claim_item (wNow w) code)) (wTable w)\<rparr>"
  assumes "consistent (wInv w)" and "orderRows (wInv w) code = []" and "fresh_items code (wTable w)"
    and "map_of (wTable w) (order_key code) = None" and "wEnv w = []"
    and "\<forall>t j. eBatch x t j = BatchWritten []" and "sRun x = Ran"
    and "create_under_slot x i ev ss k code wk = (w1, Returned (Inr out))"
  shows "code \<noteq> []" and "\<And>db. cancelReservationTx code (wInv w1) = Inr db \<Longrightarrow> look db = look (wInv w)"
    and "slot_of k (wTable w1) = Some (claim_item (wNow w) code)"
    and "order_at code (wTable w1) = Some (outOrder out)" and "oCode (outOrder out) = code"
    and "oStatus (outOrder out) = OrderStatusPending" and "oSessionID (outOrder out) = ss"
    and "oUserID (outOrder out) = ordUserID i" and "oEventID (outOrder out) = ordEventID i"
    and "wClocks w1 = start_delayed (GetExpireOrderWorkflowID code) code (wNow w + CheckoutLifetime) (wClocks w)"
    and "consistent (wInv w1)" and "\<not> has_confirmed (wInv w1) code" and "wEnv w1 = []"
proof -
  have wk: "wEnv wk = []" "wInv wk = wInv w" "wNow wk = wNow w" "wClocks wk = wClocks w"
    using assms(6) by (simp_all add: wk_def)
  obtain ls amt w2 res where run: "CreateOrder (ext.truncate x) (workflow_input i ev ss code ls amt) wk = (w2, Inr res)"
    "w1 = startCheckoutClock code w2" "outOrder out = wrOrder res"
    using create_under_slot_answered [OF wk(1) assms(8,9)] by blast
  let ?in = "workflow_input i ev ss code ls amt"
  have code: "wfOrderCode ?in = code" by (simp add: workflow_input_def)
  have pre: "consistent (wInv wk)" "orderRows (wInv wk) (wfOrderCode ?in) = []"
    "fresh_items (wfOrderCode ?in) (wTable wk)" "map_of (wTable wk) (order_key (wfOrderCode ?in)) = None"
    "\<forall>t j. eBatch (ext.truncate x) t j = BatchWritten []"
    using assms(2-5,7) wk(2) code by (simp_all add: wk_def update_conv ext.defs)
  note ok = CreateOrder_success [OF pre run(1)]
  have wf: "wf_db (wInv wk)" using pre(1) by (simp add: consistent_def)
  have rq: "rrOrderCode (reserve_request_of (ext.truncate x) ?in (wNow wk)) = code"
    by (simp add: reserve_request_of_def code)
  note undone = taken_given_back [OF pre(1) _ CreateOrder_taken [OF wf pre(2) run(1)], unfolded rq]
  show ne: "code \<noteq> []" using undone(1) pre(2) code by simp
  show "look db = look (wInv w)" if "cancelReservationTx code (wInv w1) = Inr db" for db
    using undone(2) pre(2) code that run(2) wk(2) by simp
  show "consistent (wInv w1)" using ok run(2) by simp
  show "\<not> has_confirmed (wInv w1) code" using undone(3) pre(2) code run(2) by simp
  show "slot_of k (wTable w1) = Some (claim_item (wNow w) code)"
    using slot_frame_CreateOrder [OF run(1), of k] run(2) by (simp add: wk_def)
  show "order_at code (wTable w1) = Some (outOrder out)" "oStatus (outOrder out) = OrderStatusPending"
    using ok code run(2,3) by simp_all
  show "oCode (outOrder out) = code" "oSessionID (outOrder out) = ss"
    "oUserID (outOrder out) = ordUserID i" "oEventID (outOrder out) = ordEventID i"
    using ok run(3) by (auto simp: buildOrderModel_def order_option_def workflow_input_def)
  have "wEnv w2 = []" "wNow w2 = wNow w" "wClocks w2 = wClocks w"
    using saga_still.saga [OF run(1)] wk by (auto simp: still_def)
  then show "wClocks w1 = start_delayed (GetExpireOrderWorkflowID code) code (wNow w + CheckoutLifetime) (wClocks w)"
    and "wEnv w1 = []"
    using run(2) by (simp_all add: calm_startCheckoutClock)
qed

text \<open>
  C5. A checkout that nobody pays leaves no trace. A create on a free slot that loses no call, whose
  items DynamoDB writes in full, and that answers with a new order also starts one delayed
  ExpireOrder, due when the hold of its tickets ends. Whatever world that run then finds, losing no
  call either, as long as the order and its claim are still as they were and nothing of it was paid:
  the run gives back exactly what the order still holds, leaves nothing held for it, frees
  the purchase slot, marks the order TIMEOUT, and tells the waiting room if the buyer came
  through it. If the stock was not touched since, every class's counters are again what they
  were before the create.
\<close>

theorem unpaid_checkout_undone:
  assumes "lookup_event x (ordEventID i) = Inr (ev, cfg)"
    and "code = GenerateOrderCodeWithEventPrefix (sDate x (wNow w)) (sRandom x) (evName ev)"
    and "k = PurchaseSlotKey (slot_session x i cfg) (ordUserID i) (ordEventID i)"
    and "map_of (wTable w) (slot_key k) = None" and "map_of (wTable w) (order_key code) = None"
    and "fresh_items code (wTable w)" and "consistent (wInv w)" and "orderRows (wInv w) code = []"
    and "wEnv w = []" and "\<forall>t j. eBatch x t j = BatchWritten []" and "sRun x = Ran"
    and "map_of (wClocks w) (GetExpireOrderWorkflowID code) = None"
    and "Create x i w = (w1, Returned (Inr out))"
    and "wEnv v = []" and "consistent (wInv v)" and "\<not> has_confirmed (wInv v) code"
    and "order_at code (wTable v) = Some (outOrder out)" and "slot_of k (wTable v) = slot_of k (wTable w1)"
    and "ExpireOrder code v = (v', r)"
  shows "map_of (wClocks w1) (GetExpireOrderWorkflowID code) = Some (code, wNow w + CheckoutLifetime) \<and>
    r = Inr () \<and> consistent (wInv v') \<and> paid (wInv v') = paid (wInv v) \<and>
    (\<forall>c. order_qty (wInv v') code c ReservationStatusActive = 0 \<and>
       look (wInv v') c = map_option (subReserved (order_qty (wInv v) code c ReservationStatusActive)) (look (wInv v) c)) \<and>
    slot_of k (wTable v') = None \<and>
    order_at code (wTable v') = Some ((outOrder out)\<lparr>oStatus := OrderStatusTimeout, oUpdatedAt := wNow v\<rparr>) \<and>
    wPub v' = announce_expired (outOrder out) (wPub v) \<and>
    (wInv v = wInv w1 \<longrightarrow> look (wInv v') = look (wInv w))"
proof -
  note run = answered_under_slot [OF assms(1-4,9,13)]
  note left = answered_create [OF assms(7,8,6,5,9,10,11) run]
  obtain db where db: "rpc_Release code (wInv v) = (db, Inr ())" "consistent db"
    "cancelReservationTx code (wInv v) = Inr db" "paid db = paid (wInv v)"
    "\<And>c. look db c = map_option (subReserved (order_qty (wInv v) code c ReservationStatusActive)) (look (wInv v) c)"
    "\<And>c. order_qty db code c ReservationStatusActive = 0"
    using rpc_Release_unpaid [OF assms(15,16) left(1)] by blast
  have k: "PurchaseSlotKey (oSessionID (outOrder out)) (oUserID (outOrder out)) (oEventID (outOrder out)) = k"
    by (simp add: left(7-9) assms(3))
  note ex = calm_expire_pending [OF assms(14,17) left(5,6) db(1), unfolded k assms(19)]
  have slot: "slot_of k (wTable v') = None"
    using ex assms(18) left(3) by (simp add: slot_of_release claim_item_def)
  have ord: "order_at code (wTable v') = Some ((outOrder out)\<lparr>oStatus := OrderStatusTimeout, oUpdatedAt := wNow v\<rparr>)"
    using ex by (simp add: expired_order_def)
  have "look (wInv v') = look (wInv w)" if "wInv v = wInv w1"
    using left(2) db(3) that ex by simp
  with ex db slot ord left(10) assms(12) show ?thesis by (simp add: start_delayed_def)
qed

lemma calm_CreateOrder_answers:
  assumes "wEnv w = []" and "map_of (wTable w) (order_key (wfOrderCode i)) = None"
    and "snd (rpc_Reserve (eParse x) (wNow w) (reserve_request_of x i (wNow w)) (wInv w)) = Inr ()"
    and "\<forall>t j. eBatch x t j = BatchWritten []" and "ePay x (payment_of i) = Inr url"
  shows "\<exists>w' res. CreateOrder x i w = (w', Inr res)"
proof -
  obtain db where db: "rpc_Reserve (eParse x) (wNow w) (reserve_request_of x i (wNow w)) (wInv w) = (db, Inr ())"
    using assms(3) by (metis prod.collapse)
  note a = calm_ReserveInventory [OF assms(1) db [unfolded reserve_request_of_def], of create_attempts]
  let ?w1 = "w\<lparr>wInv := db\<rparr>"
  have w1: "wEnv ?w1 = []" "map_of (wTable ?w1) (order_key (coCode (order_option i))) = None"
    using assms(1,2) by (simp_all add: order_option_def)
  note b = calm_CreateOrderRow [OF w1, of create_attempts x]
  let ?w2 = "?w1\<lparr>wTable := AList.update (order_key (coCode (order_option i)))
    (DOrder (buildOrderModel (eFmtNano x) (wNow ?w1) (order_option i))) (wTable ?w1)\<rparr>"
  have w2: "wEnv ?w2 = []" "\<forall>j. eBatch x (wNow ?w2) j = BatchWritten []" using assms(1,4) by simp_all
  obtain t its where c: "attempts create_attempts (act_CreateOrderItems x
      (oCode (buildOrderModel (eFmtNano x) (wNow ?w1) (order_option i))) (map item_option (wfItems i))) ?w2 =
      (?w2\<lparr>wTable := t\<rparr>, Inr its)"
    using calm_CreateOrderItems [OF w2] by blast
  have "attempts create_attempts (act_CreatePaymentIntent x (payment_of i)) (?w2\<lparr>wTable := t\<rparr>) =
      (?w2\<lparr>wTable := t\<rparr>, Inr url)"
    unfolding act_CreatePaymentIntent_def using assms(1,5) by (intro remote_settled) simp_all
  with a b c show ?thesis by (simp add: CreateOrder_def Let_def)
qed

text \<open>While a slot is owed to an order, no create of that buyer starts a clock.\<close>

lemma retry_starts_no_clock:
  assumes "lookup_event x (ordEventID i) = Inr (ev, cfg)"
    and "slot_owed x (PurchaseSlotKey (slot_session x i cfg) (ordUserID i) (ordEventID i)) c w"
    and "others_keep x (PurchaseSlotKey (slot_session x i cfg) (ordUserID i) (ordEventID i)) c"
    and "Create x i w = (w', oc)"
  shows "wClocks w' = wClocks w"
proof -
  let ?k = "PurchaseSlotKey (slot_session x i cfg) (ordUserID i) (ordEventID i)"
  have lost: "r \<noteq> Inr None \<and> wClocks w1 = wClocks w" if "claimPurchaseSlot x ?k code m w = (w1, r)" for code m w1 r
    using claim_loop_keeps_owed [OF assms(2,3) that [unfolded claimPurchaseSlot_def]]
      claimPurchaseSlot_clocks [OF that] by simp
  show ?thesis
    using assms(4) lost [unfolded slot_session_def]
    by (auto simp: Create_def assms(1) Let_def split: sum.splits prod.splits option.splits if_splits)
qed

text \<open>
  C22. An order whose create was abandoned has no clock. The caller's deadline passes, the
  cancel of the saga does not get through, and the saga ends well: the create answers with a
  timeout, the order is there, PENDING, with the buyer's slot owed to it and its tickets held, but no delayed
  run was started for it. So no ExpireOrder comes when the buyer does not pay, unlike for every
  order that a create answers with.
\<close>

theorem abandoned_order_unclocked:
  assumes "lookup_event x (ordEventID i) = Inr (ev, cfg)"
    and "code = GenerateOrderCodeWithEventPrefix (sDate x (wNow w)) (sRandom x) (evName ev)"
    and "k = PurchaseSlotKey (slot_session x i cfg) (ordUserID i) (ordEventID i)"
    and "map_of (wTable w) (slot_key k) = None" and "map_of (wTable w) (order_key code) = None"
    and "fresh_items code (wTable w)" and "consistent (wInv w)" and "orderRows (wInv w) code = []"
    and "wEnv w = []" and "\<forall>t j. eBatch x t j = BatchWritten []"
    and "evStatus ev = EVENT_STATUS_PUBLISHED"
    and "ecMaxTicketsPerOrder cfg \<le> 0 \<or> ticketsInOrder (ordItems i) \<le> ecMaxTicketsPerOrder cfg"
    and "ecAllowWaitRoom cfg \<longrightarrow> (\<exists>c. validateCheckoutToken x i = Inr c)"
    and "rpc_FindManyTicketClass (eFmt x) \<lparr>fmEventId = ordEventID i, fmIds = map oiTicketClassID (ordItems i)\<rparr>
           (wInv w) = Inr tcs"
    and "tcs \<noteq> []" and "order_lines (rev (map (\<lambda>tc. (pId tc, tc)) tcs)) (ordItems i) 0 = Some (ls, amt)"
    and "inp = workflow_input i ev (slot_session x i cfg) code ls amt"
    and "CreateOrder (ext.truncate x) inp
           (w\<lparr>wTable := AList.update (slot_key k) (DClaim (claim_item (wNow w) code)) (wTable w)\<rparr>) = (w2, Inr res)"
    and "sRun x = Abandoned False" and "sLate x = (\<lambda>v. fst (CreateOrder (ext.truncate x) inp v))"
    and "Create x i w = (w', oc)"
  shows "oc = Returned (Inl ErrRequestTimeout) \<and> order_at code (wTable w') = Some (wrOrder res) \<and>
    oStatus (wrOrder res) = OrderStatusPending \<and> slot_owed x k (claim_item (wNow w) code) w' \<and>
    (\<exists>ris. newItems (map reserve_item_of ls) = Inr ris \<and> (\<forall>c. held (wInv w') c = held (wInv w) c + demand ris c)) \<and>
    wClocks w' = wClocks w"
proof -
  let ?wk = "w\<lparr>wTable := AList.update (slot_key k) (DClaim (claim_item (wNow w) code)) (wTable w)\<rparr>"
  have "Create x i w = create_under_slot x i ev (slot_session x i cfg) k code ?wk"
    by (rule calm_Create_passed [OF assms(1-4,9,11-13)])
  also have "\<dots> = (w2, Returned (Inl ErrRequestTimeout))"
    using assms(9,14-16,18-20) by (simp add: create_under_slot_def calm_svc_FindMany status_error_def Let_def)
  finally have w': "w' = w2" "oc = Returned (Inl ErrRequestTimeout)" using assms(21) by simp_all
  have code: "wfOrderCode inp = code" "wfItems inp = ls" by (simp_all add: assms(17) workflow_input_def)
  have pre: "consistent (wInv ?wk)" "orderRows (wInv ?wk) (wfOrderCode inp) = []"
    "fresh_items (wfOrderCode inp) (wTable ?wk)" "map_of (wTable ?wk) (order_key (wfOrderCode inp)) = None"
    "\<forall>t j. eBatch (ext.truncate x) t j = BatchWritten []"
    using assms(5-8,10) code by (simp_all add: update_conv ext.defs)
  note ok = CreateOrder_success [OF pre assms(18), unfolded code]
  have "live_at code (wTable w2)"
    using ok by (auto simp: live_at_def buildOrderModel_def)
  moreover have "slot_of k (wTable w2) = Some (claim_item (wNow w) code)"
    using slot_frame_CreateOrder [OF assms(18), of k] by simp
  ultimately have "slot_owed x k (claim_item (wNow w) code) w2"
    by (simp add: slot_owed_def claim_item_def)
  moreover have "wClocks w2 = wClocks w" using saga_still.saga [OF assms(18)] by (simp add: still_def)
  ultimately show ?thesis using ok w' by auto
qed

section \<open>Witnesses\<close>

lemma demo_stock:
  "snd (rpc_Reserve demo_parse 7 \<lparr>rrOrderCode = demo_code,
     rrItems = [\<lparr>piTicketClassId = ''1'', piQuantity = 1\<rparr>], rrExpiresAt = ''t''\<rparr> demo_db) = Inr ()"
  by code_simp

lemma demo_lines:
  "(case rpc_FindManyTicketClass (\<lambda>t. ''t'') \<lparr>fmEventId = ''e'', fmIds = [''1'']\<rparr> demo_db of Inl e \<Rightarrow> None
    | Inr tcs \<Rightarrow> if tcs = [] then None else map_option (map reserve_item_of \<circ> fst) (order_lines (rev (map (\<lambda>tc. (pId tc, tc)) tcs)) (ordItems (demo_request [''1''])) 0)) =
   Some [\<lparr>piTicketClassId = ''1'', piQuantity = 1\<rparr>]"
  by code_simp

definition demo_claimed :: world where
  "demo_claimed = calm_world\<lparr>wTable := AList.update (slot_key demo_slot_key)
    (DClaim (claim_item (wNow calm_world) demo_code)) (wTable calm_world)\<rparr>"

lemma demo_saga:
  obtains tcs ls amt w2 res
  where "rpc_FindManyTicketClass (\<lambda>t. ''t'') \<lparr>fmEventId = ''e'', fmIds = [''1'']\<rparr> demo_db = Inr tcs"
    and "tcs \<noteq> []" and "order_lines (rev (map (\<lambda>tc. (pId tc, tc)) tcs)) (ordItems (demo_request [''1''])) 0 = Some (ls, amt)"
    and "CreateOrder (ext.truncate demo_svc) (workflow_input (demo_request [''1'']) demo_event [] demo_code ls amt)
      demo_claimed = (w2, Inr res)"
proof -
  let ?i = "demo_request [''1'']"
  obtain tcs ls amt where tcs: "rpc_FindManyTicketClass (\<lambda>t. ''t'') \<lparr>fmEventId = ''e'', fmIds = [''1'']\<rparr> demo_db = Inr tcs"
    "tcs \<noteq> []" "order_lines (rev (map (\<lambda>tc. (pId tc, tc)) tcs)) (ordItems ?i) 0 = Some (ls, amt)"
    "map reserve_item_of ls = [\<lparr>piTicketClassId = ''1'', piQuantity = 1\<rparr>]"
    using demo_lines by (auto split: sum.splits if_splits)
  let ?in = "workflow_input ?i demo_event [] demo_code ls amt"
  have code: "wfOrderCode ?in = demo_code" "wfItems ?in = ls" by (simp_all add: workflow_input_def)
  have req: "reserve_request_of (ext.truncate demo_svc) ?in 7 =
      \<lparr>rrOrderCode = demo_code, rrItems = [\<lparr>piTicketClassId = ''1'', piQuantity = 1\<rparr>], rrExpiresAt = ''t''\<rparr>"
    by (simp add: reserve_request_of_def code tcs(4) ext.defs demo_svc_def)
  have "\<exists>w' res. CreateOrder (ext.truncate demo_svc) ?in demo_claimed = (w', Inr res)"
  proof (rule calm_CreateOrder_answers)
    show "snd (rpc_Reserve (eParse (ext.truncate demo_svc)) (wNow demo_claimed)
        (reserve_request_of (ext.truncate demo_svc) ?in (wNow demo_claimed)) (wInv demo_claimed)) = Inr ()"
      using demo_stock req by (simp add: demo_claimed_def calm_world_def ext.defs demo_svc_def)
  qed (simp_all add: code demo_claimed_def calm_world_def update_conv ext.defs demo_svc_def)
  with that tcs(1-3) show thesis by blast
qed

lemma demo_passes:
  "evStatus demo_event = EVENT_STATUS_PUBLISHED"
  "ecMaxTicketsPerOrder demo_config \<le> 0 \<or>
     ticketsInOrder (ordItems (demo_request [''1''])) \<le> ecMaxTicketsPerOrder demo_config"
  "ecAllowWaitRoom demo_config \<longrightarrow> (\<exists>c. validateCheckoutToken x (demo_request [''1'']) = Inr c)"
  by (simp_all add: EVENT_STATUS_PUBLISHED_def demo_request_def ticketsInOrder_def int32_id in_i32_def)

lemma demo_create_answers: "\<exists>w1 out. Create demo_svc (demo_request [''1'']) calm_world = (w1, Returned (Inr out))"
proof -
  let ?i = "demo_request [''1'']"
  obtain tcs ls amt w2 res where d: "rpc_FindManyTicketClass (\<lambda>t. ''t'') \<lparr>fmEventId = ''e'', fmIds = [''1'']\<rparr> demo_db = Inr tcs"
    "tcs \<noteq> []" "order_lines (rev (map (\<lambda>tc. (pId tc, tc)) tcs)) (ordItems ?i) 0 = Some (ls, amt)"
    "CreateOrder (ext.truncate demo_svc) (workflow_input ?i demo_event [] demo_code ls amt) demo_claimed = (w2, Inr res)"
    by (rule demo_saga)
  have "Create demo_svc ?i calm_world =
      create_under_slot demo_svc ?i demo_event (slot_session demo_svc ?i demo_config) demo_slot_key demo_code demo_claimed"
    unfolding demo_claimed_def by (rule calm_Create_passed [OF demo_create_premises(1-4,8) demo_passes])
  moreover have "wEnv demo_claimed = []" "slot_session demo_svc ?i demo_config = []" "sRun demo_svc = Ran"
    "ordEventID ?i = ''e''" "map oiTicketClassID (ordItems ?i) = [''1'']" "wInv demo_claimed = demo_db"
    "eFmt demo_svc = (\<lambda>t. ''t'')"
    by (simp_all add: demo_claimed_def calm_world_def slot_session_def demo_svc_def demo_request_def)
  ultimately show ?thesis
    using d by (simp add: create_under_slot_def calm_svc_FindMany status_error_def)
qed

lemma unpaid_checkout_undone_witness:
  "\<exists>w1 out v'. Create demo_svc (demo_request [''1'']) calm_world = (w1, Returned (Inr out)) \<and>
     map_of (wClocks w1) (''ExpireOrder:'' @ demo_code) = Some (demo_code, 7 + 9 * minute) \<and>
     ExpireOrder demo_code (w1\<lparr>wNow := 7 + 9 * minute\<rparr>) = (v', Inr ()) \<and>
     look (wInv v') = look demo_db \<and> slot_of demo_slot_key (wTable v') = None"
proof -
  let ?i = "demo_request [''1'']"
  obtain w1 out where run: "Create demo_svc ?i calm_world = (w1, Returned (Inr out))"
    using demo_create_answers by blast
  let ?v = "w1\<lparr>wNow := 7 + 9 * minute\<rparr>"
  obtain v' r where ex: "ExpireOrder demo_code ?v = (v', r)" by (cases "ExpireOrder demo_code ?v")
  note this = answered_under_slot [OF demo_create_premises(1-4,8) run]
  note left = answered_create [OF demo_create_premises(7) demo_code_unused demo_create_premises(6,5,8,9,10) this]
  have v: "consistent (wInv ?v)" "\<not> has_confirmed (wInv ?v) demo_code"
    "order_at demo_code (wTable ?v) = Some (outOrder out)"
    "slot_of demo_slot_key (wTable ?v) = slot_of demo_slot_key (wTable w1)"
    using left by simp_all
  have c: "map_of (wClocks calm_world) (GetExpireOrderWorkflowID demo_code) = None" by (simp add: calm_world_def)
  have e: "wEnv ?v = []" using left by simp
  have t: "wNow calm_world + CheckoutLifetime = 7 + 9 * minute" "wInv calm_world = demo_db"
    by (simp_all add: calm_world_def CheckoutLifetime_def PaymentTimeout_def ReservationHoldGrace_def)
  from unpaid_checkout_undone [OF demo_create_premises(1-7) demo_code_unused demo_create_premises(8,9,10) c run e v ex]
  show ?thesis using run ex t by (auto simp: GetExpireOrderWorkflowID_def)
qed

lemma abandoned_order_unclocked_witness:
  "\<exists>x w' res. Create x (demo_request [''1'']) calm_world = (w', Returned (Inl ErrRequestTimeout)) \<and>
     order_at demo_code (wTable w') = Some res \<and> oStatus res = OrderStatusPending \<and> wClocks w' = []"
proof -
  let ?i = "demo_request [''1'']"
  obtain tcs ls amt w2 res where d: "rpc_FindManyTicketClass (\<lambda>t. ''t'') \<lparr>fmEventId = ''e'', fmIds = [''1'']\<rparr> demo_db = Inr tcs"
    "tcs \<noteq> []" "order_lines (rev (map (\<lambda>tc. (pId tc, tc)) tcs)) (ordItems ?i) 0 = Some (ls, amt)"
    "CreateOrder (ext.truncate demo_svc) (workflow_input ?i demo_event [] demo_code ls amt) demo_claimed = (w2, Inr res)"
    by (rule demo_saga)
  let ?in = "workflow_input ?i demo_event [] demo_code ls amt"
  let ?x = "demo_svc\<lparr>sRun := Abandoned False, sLate := (\<lambda>v. fst (CreateOrder (ext.truncate demo_svc) ?in v))\<rparr>"
  obtain w' oc where run: "Create ?x ?i calm_world = (w', oc)" by (cases "Create ?x ?i calm_world")
  have x: "ext.truncate ?x = ext.truncate demo_svc" "slot_session ?x ?i demo_config = []"
    by (simp_all add: ext.defs slot_session_def)
  note p = demo_create_premises
  have q: "lookup_event ?x (ordEventID ?i) = Inr (demo_event, demo_config)"
    "demo_code = GenerateOrderCodeWithEventPrefix (sDate ?x (wNow calm_world)) (sRandom ?x) (evName demo_event)"
    "demo_slot_key = PurchaseSlotKey (slot_session ?x ?i demo_config) (ordUserID ?i) (ordEventID ?i)"
    "\<forall>t j. eBatch ?x t j = BatchWritten []"
    by (simp_all add: lookup_event_def demo_svc_def demo_request_def status_error_def demo_code_def
        demo_slot_key_def slot_session_def calm_world_def)
  have r: "rpc_FindManyTicketClass (eFmt ?x) \<lparr>fmEventId = ordEventID ?i, fmIds = map oiTicketClassID (ordItems ?i)\<rparr>
      (wInv calm_world) = Inr tcs"
    using d(1) by (simp add: demo_svc_def demo_request_def calm_world_def)
  have i: "?in = workflow_input ?i demo_event (slot_session ?x ?i demo_config) demo_code ls amt"
    by (simp only: x(2))
  have c: "CreateOrder (ext.truncate ?x) ?in (calm_world\<lparr>wTable := AList.update (slot_key demo_slot_key)
      (DClaim (claim_item (wNow calm_world) demo_code)) (wTable calm_world)\<rparr>) = (w2, Inr res)"
    using d(4) by (simp only: x(1) demo_claimed_def)
  have l: "sRun ?x = Abandoned False" "sLate ?x = (\<lambda>v. fst (CreateOrder (ext.truncate ?x) ?in v))"
    by (simp_all add: x(1))
  from abandoned_order_unclocked [OF q(1-3) p(4-7) demo_code_unused p(8) q(4) demo_passes r d(2,3) i c l run] run
  show ?thesis by (auto simp: calm_world_def)
qed

end
