(* ===== verification/Order_Payment.thy ===== *)
theory Order_Payment
  imports Order_Service_Props
begin

text \<open>
  A payment that settles on an order whose tickets are held, or were and are not given away: when
  the sale goes through and what it leaves, and what happens when it cannot
  (\<open>HandlePaymentCompleted\<close> of \<open>order-svc/internal/order/service/consumer.go\<close> with the workflow
  it runs). Redelivery of the payment is part of it, since Kafka may deliver it again.
\<close>

text \<open>The tickets of the order whose hold was swept still fit into the free stock.\<close>

definition sale_fits :: "invdb \<Rightarrow> string \<Rightarrow> bool" where
  "sale_fits db code \<longleftrightarrow> (\<forall>k tc. look db k = Some tc \<longrightarrow> k \<in> rTicketClassID ` set (orderRows db code) \<longrightarrow>
     order_qty db code k ReservationStatusExpired \<le> tcTotal tc - tcReserved tc - tcSold tc)"

lemma unswept_fits:
  assumes "wf_db db" and "list_all (\<lambda>r. rStatus r = ReservationStatusActive) (orderRows db code)"
  shows "sale_fits db code"
proof -
  have "order_qty db code k ReservationStatusExpired = 0" for k
    unfolding order_qty_rows by (rule sum_where_none) (use assms(2) in \<open>auto simp: list_all_iff\<close>)
  moreover have "0 \<le> tcTotal tc - tcReserved tc - tcSold tc" if "look db k = Some tc" for k tc
    using wf_look_check [OF assms(1) that] by (simp add: tc_check_def chk_ticket_class_capacity_def)
  ultimately show ?thesis by (simp add: sale_fits_def)
qed

lemma rpc_Confirm_held:
  assumes "consistent db" and "orderRows db code \<noteq> []" and "list_all confirmable (orderRows db code)" and "code \<noteq> []"
  shows "sale_fits db code \<Longrightarrow> \<exists>db'. rpc_Confirm code db = (db', Inr ()) \<and> confirmed_order db' code \<and>
      (\<forall>k. look db' k = map_option (confirmed_class db code k) (look db k))"
    and "\<not> sale_fits db code \<Longrightarrow> rpc_Confirm code db = (db, Inl (FailedPrecondition, ''reservation state conflict''))"
proof -
  note eff = confirm_effect [OF assms(1-3), folded sale_fits_def]
  show "\<exists>db'. rpc_Confirm code db = (db', Inr ()) \<and> confirmed_order db' code \<and>
      (\<forall>k. look db' k = map_option (confirmed_class db code k) (look db k))" if "sale_fits db code"
  proof -
    have ok: "snd (Confirm code db) = Inr ()" using eff that by blast
    obtain db' where run: "Confirm code db = (db', Inr ())" using ok by (metis prod.collapse)
    have "Confirm code db' = (db', Inr ())" "list_all (\<lambda>r. rStatus r = ReservationStatusConfirmed) (orderRows db' code)"
      using eff ok run by simp_all
    moreover have "orderRows db' code \<noteq> []"
      using calculation(1) by (auto simp: Confirm_def transaction_def confirmReservationTx_def Let_def split: sum.splits)
    ultimately have "confirmed_order db' code" by (simp add: confirmed_order_def)
    moreover have "look db' k = map_option (confirmed_class db code k) (look db k)" for k
      using confirm_effect [OF assms(1-3), of k] ok run by simp
    ultimately show ?thesis using run assms(4) by (simp add: rpc_Confirm_def validate_id_def)
  qed
  show "rpc_Confirm code db = (db, Inl (FailedPrecondition, ''reservation state conflict''))" if "\<not> sale_fits db code"
  proof -
    have "snd (Confirm code db) \<noteq> Inr ()" using eff that by blast
    then have "Confirm code db = (db, Inl ErrStateConflict)" using eff by simp
    then show ?thesis using assms(4) by (simp add: rpc_Confirm_def validate_id_def mapError_def GrpcError_def)
  qed
qed

definition announce_sold :: "order \<Rightarrow> publication list \<Rightarrow> publication list" where
  "announce_sold ord pub =
     (if oSessionID ord = [] then pub
      else pub @ [CheckoutCompleted (oSessionID ord) (oUserID ord) (oEventID ord)])"

abbreviation "order_slot ord \<equiv> PurchaseSlotKey (oSessionID ord) (oUserID ord) (oEventID ord)"

text \<open>The order \<open>ord\<close> with a new status, its slot freed.\<close>

definition settled_table :: "order \<Rightarrow> order_status \<Rightarrow> time \<Rightarrow> otable \<Rightarrow> otable" where
  "settled_table ord st now t = ReleasePurchaseSlot (order_slot ord) (oCode ord)
     (AList.update (order_key (oCode ord)) (DOrder (ord\<lparr>oStatus := st, oUpdatedAt := now\<rparr>)) t)"

lemma settled_table_at [simp]:
  "order_at (oCode ord) (settled_table ord st now t) = Some (ord\<lparr>oStatus := st, oUpdatedAt := now\<rparr>)"
  by (simp add: settled_table_def)

lemma settled_table_slot:
  "slot_of (order_slot ord) (settled_table ord st now t) = Some c \<Longrightarrow> clOrderCode c \<noteq> oCode ord"
  by (auto simp: settled_table_def slot_of_release split: if_splits)

text \<open>The workflow without lost calls on an order pending or timed out, by inventory's answer.\<close>

lemma calm_ConfirmOrder:
  assumes "wEnv w = []" and "order_at code (wTable w) = Some ord" and "oDeletedAt ord = None"
    and "oCode ord = code" and "code \<noteq> []" and "oStatus ord \<in> {OrderStatusPending, OrderStatusTimeout}"
  shows "rpc_Confirm code (wInv w) = (db, Inr ()) \<Longrightarrow> ConfirmOrder code w =
      (w\<lparr>wInv := db, wTable := settled_table ord OrderStatusCompleted (wNow w) (wTable w),
         wPub := announce_sold ord (wPub w)\<rparr>, Inr ())"
    and "rpc_Confirm code (wInv w) = (db, Inl (FailedPrecondition, m)) \<Longrightarrow> ConfirmOrder code w =
      (w\<lparr>wInv := db, wTable := settled_table ord OrderStatusRefundRequired (wNow w) (wTable w),
         wPub := wPub w @ [RefundRequired code (oUserID ord) (oEventID ord) cannot_confirm_reason]\<rparr>,
       Inl (AppError ''InventoryCannotConfirm''))"
proof -
  note g = calm_GetOrder [OF assms(1-3,5), of confirm_attempts]
  show "ConfirmOrder code w =
      (w\<lparr>wInv := db, wTable := settled_table ord OrderStatusCompleted (wNow w) (wTable w),
         wPub := announce_sold ord (wPub w)\<rparr>, Inr ())" if ok: "rpc_Confirm code (wInv w) = (db, Inr ())"
  proof -
    let ?w2 = "w\<lparr>wInv := db\<rparr>"
    have u: "attempts confirm_attempts (act_UpdateOrderStatus (oCode ord) OrderStatusCompleted) ?w2 =
        (?w2\<lparr>wTable := AList.update (order_key code) (DOrder (ord\<lparr>oStatus := OrderStatusCompleted, oUpdatedAt := wNow w\<rparr>))
           (wTable w)\<rparr>, Inr ())"
      using calm_UpdateOrderStatus [of ?w2 code ord confirm_attempts OrderStatusCompleted] assms(1,2,4) by simp
    show ?thesis
      unfolding ConfirmOrder_def g using assms(1,4,6) u
      by (auto simp add: calm_ConfirmInventory [OF assms(1) ok] Let_def calm_ReleasePurchaseSlot calm_publish_checkout
          settled_table_def announce_sold_def)
  qed
  show "ConfirmOrder code w =
      (w\<lparr>wInv := db, wTable := settled_table ord OrderStatusRefundRequired (wNow w) (wTable w),
         wPub := wPub w @ [RefundRequired code (oUserID ord) (oEventID ord) cannot_confirm_reason]\<rparr>,
       Inl (AppError ''InventoryCannotConfirm''))" if no: "rpc_Confirm code (wInv w) = (db, Inl (FailedPrecondition, m))"
  proof -
    let ?w2 = "w\<lparr>wInv := db\<rparr>"
    have "wEnv ?w2 = []" "order_at (oCode ord) (wTable ?w2) = Some ord" using assms(1,2,4) by simp_all
    note m = calm_markForRefund [OF this, of cannot_confirm_reason]
    show ?thesis
      unfolding ConfirmOrder_def g using assms(4,6) m
      by (auto simp add: calm_ConfirmInventory_refused [OF assms(1) no] settled_table_def)
  qed
qed

text \<open>A payment that is delivered again finds the order settled and changes nothing.\<close>

lemma redelivered_payment:
  assumes "wEnv w = []" and "order_at code (wTable w) = Some ord" and "oDeletedAt ord = None" and "code \<noteq> []"
  shows "oStatus ord = OrderStatusCompleted \<Longrightarrow> HandlePaymentCompleted code w = (w, Inr ())"
    and "oStatus ord = OrderStatusRefundRequired \<Longrightarrow> HandlePaymentCompleted code w = (w, Inl ErrOrderAlreadyProcessed)"
  using calm_GetOrder [OF assms, of confirm_attempts]
  by (simp_all add: HandlePaymentCompleted_def ConfirmOrder_def mapWorkflowError_def)

text \<open>
  C14. What a settled payment does, exactly. On a PENDING order whose reservations are
  active or swept but not given away, with no call lost: if the swept tickets still fit into the free
  stock, which they do when none is swept, the order becomes COMPLETED, all its reservations
  are confirmed, each class's counters move by exactly the order's tickets, and the waiting room
  is told; otherwise nothing is sold and the buyer is due a refund. Either way the purchase slot
  no longer names the order, and the same payment delivered again changes nothing.
\<close>

theorem payment_settled_exact:
  assumes "consistent (wInv w)" and "wEnv w = []" and "order_at code (wTable w) = Some ord"
    and "oDeletedAt ord = None" and "oCode ord = code" and "code \<noteq> []" and "oStatus ord = OrderStatusPending"
    and "orderRows (wInv w) code \<noteq> []" and "list_all confirmable (orderRows (wInv w) code)"
    and "HandlePaymentCompleted code w = (w', r)"
  shows "(if sale_fits (wInv w) code
      then r = Inr () \<and> status_at code (wTable w') = Some OrderStatusCompleted \<and> confirmed_order (wInv w') code \<and>
        (\<forall>k. look (wInv w') k = map_option (confirmed_class (wInv w) code k) (look (wInv w) k)) \<and>
        wPub w' = announce_sold ord (wPub w)
      else r = Inl (ErrOther ''InventoryCannotConfirm'') \<and> wInv w' = wInv w \<and>
        status_at code (wTable w') = Some OrderStatusRefundRequired \<and>
        wPub w' = wPub w @ [RefundRequired code (oUserID ord) (oEventID ord) cannot_confirm_reason]) \<and>
    (\<forall>c. slot_of (order_slot ord) (wTable w') = Some c \<longrightarrow> clOrderCode c \<noteq> code) \<and>
    fst (HandlePaymentCompleted code w') = w' \<and>
    (list_all (\<lambda>r. rStatus r = ReservationStatusActive) (orderRows (wInv w) code) \<longrightarrow> sale_fits (wInv w) code)"
proof (cases "sale_fits (wInv w) code")
  case True
  obtain db where db: "rpc_Confirm code (wInv w) = (db, Inr ())" "confirmed_order db code"
    "\<forall>k. look db k = map_option (confirmed_class (wInv w) code k) (look (wInv w) k)"
    using rpc_Confirm_held(1) [OF assms(1,8,9,6) True] by blast
  have w': "w' = w\<lparr>wInv := db, wTable := settled_table ord OrderStatusCompleted (wNow w) (wTable w),
      wPub := announce_sold ord (wPub w)\<rparr>" "r = Inr ()"
    using assms(10) calm_ConfirmOrder(1) [OF assms(2-6) _ db(1)] assms(7) by (simp_all add: HandlePaymentCompleted_def)
  have at: "order_at code (wTable w') = Some (ord\<lparr>oStatus := OrderStatusCompleted, oUpdatedAt := wNow w\<rparr>)"
    using settled_table_at [of ord] assms(5) by (simp add: w')
  have "HandlePaymentCompleted code w' = (w', Inr ())"
    using redelivered_payment(1) [OF _ at] assms(2,4,6) by (simp add: w')
  then show ?thesis
    using True db at settled_table_slot [of ord] assms(5) by (auto simp: w' status_at_def)
next
  case False
  have w': "w' = w\<lparr>wTable := settled_table ord OrderStatusRefundRequired (wNow w) (wTable w),
      wPub := wPub w @ [RefundRequired code (oUserID ord) (oEventID ord) cannot_confirm_reason]\<rparr>"
    "r = Inl (ErrOther ''InventoryCannotConfirm'')"
    using assms(10) calm_ConfirmOrder(2) [OF assms(2-6) _ rpc_Confirm_held(2) [OF assms(1,8,9,6) False]] assms(7)
    by (simp_all add: HandlePaymentCompleted_def mapWorkflowError_def)
  have at: "order_at code (wTable w') = Some (ord\<lparr>oStatus := OrderStatusRefundRequired, oUpdatedAt := wNow w\<rparr>)"
    using settled_table_at [of ord] assms(5) by (simp add: w')
  have swept: "\<not> list_all (\<lambda>r. rStatus r = ReservationStatusActive) (orderRows (wInv w) code)"
    using False unswept_fits assms(1) by (auto simp: consistent_def)
  have "HandlePaymentCompleted code w' = (w', Inl ErrOrderAlreadyProcessed)"
    using redelivered_payment(2) [OF _ at] assms(2,4,6) by (simp add: w')
  then show ?thesis
    using False swept at settled_table_slot [of ord] assms(5) by (auto simp: w' status_at_def)
qed

lemma payment_settled_exact_witness:
  "status_at ''A'' (wTable (fst (HandlePaymentCompleted ''A'' (demo_world\<lparr>wEnv := []\<rparr>)))) = Some OrderStatusCompleted \<and>
   confirmed_order (wInv (fst (HandlePaymentCompleted ''A'' (demo_world\<lparr>wEnv := []\<rparr>)))) ''A''"
proof -
  let ?w = "demo_world\<lparr>wEnv := []\<rparr>"
  have rows: "orderRows demo_db ''A'' \<noteq> []" "list_all confirmable (orderRows demo_db ''A'')" by code_simp+
  then have w: "consistent (wInv ?w)" "wEnv ?w = []" "order_at ''A'' (wTable ?w) = Some demo_order"
    "orderRows (wInv ?w) ''A'' \<noteq> []" "list_all confirmable (orderRows (wInv ?w) ''A'')"
    using demo_consistent demo_order_at by (simp_all add: demo_world_def)
  obtain db where db: "rpc_Confirm ''A'' demo_db = (db, Inr ())" using demo_confirm by blast
  then have "sale_fits (wInv ?w) ''A''"
    using rpc_Confirm_held(2) [OF w(1,4,5)] by (auto simp: demo_world_def)
  then show ?thesis
    using payment_settled_exact [OF w(1-3) demo_order_fields(1,2) _ demo_order_fields(3) w(4,5) surjective_pairing]
    by simp
qed

section \<open>A payment after the expiry\<close>

lemma given_back_simps [simp]:
  "rOrderCode (given_back r) = rOrderCode r" "rTicketClassID (given_back r) = rTicketClassID r"
  "rStatus (given_back r) = (if rStatus r = ReservationStatusActive then ReservationStatusCancelled else rStatus r)"
  by (simp_all add: given_back_def)

lemma rpc_Confirm_given_back:
  assumes "orderRows db code = map given_back rs" and "list_all confirmable rs" and "code \<noteq> []"
    and "\<not> list_all (\<lambda>r. rStatus r = ReservationStatusExpired) rs"
  shows "rpc_Confirm code db = (db, Inl (FailedPrecondition, ''reservation state conflict''))"
proof -
  obtain r where "r \<in> set rs" "rStatus r = ReservationStatusActive"
    using assms(2,4) by (auto simp: list_all_iff confirmable_def)
  then show ?thesis
    using assms(1,3) by (intro rpc_Confirm_cancelled [of "given_back r"]) simp_all
qed

text \<open>
  C23. A payment that settles after the order expired, exactly. ExpireOrder, with no call lost, runs
  on a PENDING order whose reservations are active or swept; ConfirmOrder, with no call lost, runs
  at any later time, whatever has become of everything but the order's row and reservations. If
  every reservation had been swept before the order expired, and they fit in the stock that is
  free by then, the sale goes through: the TIMEOUT order becomes COMPLETED and its tickets are
  sold. In every other case, so always when a reservation was still active, nothing is sold, however
  much stock is free, and the order is left REFUND_REQUIRED.
\<close>

theorem late_payment_exact:
  assumes "consistent (wInv w)" and "wEnv w = []" and "order_at code (wTable w) = Some ord"
    and "oDeletedAt ord = None" and "oCode ord = code" and "code \<noteq> []" and "oStatus ord = OrderStatusPending"
    and "orderRows (wInv w) code \<noteq> []" and "list_all confirmable (orderRows (wInv w) code)"
    and "ExpireOrder code w = (w1, r1)"
    and "consistent (wInv v)" and "wEnv v = []" and "order_at code (wTable v) = order_at code (wTable w1)"
    and "orderRows (wInv v) code = orderRows (wInv w1) code" and "ConfirmOrder code v = (w2, r2)"
  shows "r1 = Inr () \<and> paid (wInv w1) = paid (wInv w) \<and>
    (if list_all (\<lambda>r. rStatus r = ReservationStatusExpired) (orderRows (wInv w) code) \<and> sale_fits (wInv v) code
     then r2 = Inr () \<and> status_at code (wTable w2) = Some OrderStatusCompleted \<and> confirmed_order (wInv w2) code \<and>
       (\<forall>k. look (wInv w2) k = map_option (confirmed_class (wInv v) code k) (look (wInv v) k))
     else r2 = Inl (AppError ''InventoryCannotConfirm'') \<and> wInv w2 = wInv v \<and>
       status_at code (wTable w2) = Some OrderStatusRefundRequired \<and>
       wPub w2 = wPub v @ [RefundRequired code (oUserID ord) (oEventID ord) cannot_confirm_reason])"
proof -
  let ?rows = "orderRows (wInv w) code" and ?o = "expired_order (wNow w) ord"
  have "\<not> has_confirmed (wInv w) code" using assms(9) by (auto simp: has_confirmed_def list_all_iff confirmable_def)
  then obtain db where rel: "rpc_Release code (wInv w) = (db, Inr ())" "paid db = paid (wInv w)"
    "orderRows db code = map given_back ?rows"
    using rpc_Release_rows [OF assms(1) _ assms(6)] by metis
  note ex = calm_expire_pending [OF assms(2,3,5,7) rel(1)]
  then have "order_at code (wTable w1) = Some ?o" using assms(10) by auto
  then have at: "order_at (oCode ?o) (wTable v) = Some ?o" using assms(5,13) by simp
  have rows: "orderRows (wInv v) code = map given_back ?rows" using ex assms(10,14) rel(3) by auto
  have first: "r1 = Inr () \<and> paid (wInv w1) = paid (wInv w)" using ex assms(10) rel(2) by auto
  have timeout: "oStatus ?o \<in> {OrderStatusPending, OrderStatusTimeout}" by simp
  have late: "order_at code (wTable v) = Some ?o" "oDeletedAt ?o = None" "oCode ?o = code"
    using at assms(4,5) by simp_all
  note calm = calm_ConfirmOrder [OF assms(12) late assms(6) timeout]
  show ?thesis
  proof (cases "list_all (\<lambda>r. rStatus r = ReservationStatusExpired) ?rows \<and> sale_fits (wInv v) code")
    case True
    then have "map given_back ?rows = ?rows" by (intro map_idI) (auto simp: list_all_iff given_back_def)
    then obtain db' where "rpc_Confirm code (wInv v) = (db', Inr ())" "confirmed_order db' code"
      "\<forall>k. look db' k = map_option (confirmed_class (wInv v) code k) (look (wInv v) k)"
      using rpc_Confirm_held(1) [OF assms(11) _ _ assms(6)] rows assms(8,9) True by metis
    then show ?thesis
      using first True calm(1) settled_table_at [of ?o] assms(5,15) by (auto simp: status_at_def)
  next
    case False
    have "rpc_Confirm code (wInv v) = (wInv v, Inl (FailedPrecondition, ''reservation state conflict''))"
    proof (cases "list_all (\<lambda>r. rStatus r = ReservationStatusExpired) ?rows")
      case True
      then have "map given_back ?rows = ?rows" by (intro map_idI) (auto simp: list_all_iff given_back_def)
      then show ?thesis
        using rpc_Confirm_held(2) [OF assms(11) _ _ assms(6)] rows assms(8,9) False True by metis
    qed (rule rpc_Confirm_given_back [OF rows assms(9,6)])
    from calm(2) [OF this] show ?thesis
      using first False settled_table_at [of ?o] assms(5,15) by (auto simp: status_at_def)
  qed
qed

lemma calm_expiry_leaves:
  assumes "consistent (wInv w)" and "wEnv w = []" and "order_at code (wTable w) = Some ord"
    and "oCode ord = code" and "code \<noteq> []" and "oStatus ord = OrderStatusPending"
    and "list_all confirmable (orderRows (wInv w) code)"
  shows "wEnv (fst (ExpireOrder code w)) = []" and "consistent (wInv (fst (ExpireOrder code w)))"
    and "wInv (fst (ExpireOrder code w)) = fst (rpc_Release code (wInv w))"
proof -
  have "\<not> has_confirmed (wInv w) code" using assms(7) by (auto simp: has_confirmed_def list_all_iff confirmable_def)
  then obtain db where rel: "rpc_Release code (wInv w) = (db, Inr ())" "consistent db"
    using rpc_Release_rows [OF assms(1) _ assms(5)] by metis
  from calm_expire_pending [OF assms(2-4,6) rel(1)] rel assms(2)
  show "wEnv (fst (ExpireOrder code w)) = []" "consistent (wInv (fst (ExpireOrder code w)))"
    "wInv (fst (ExpireOrder code w)) = fst (rpc_Release code (wInv w))" by simp_all
qed

text \<open>The same order with its reservations active, and swept by the expiry worker.\<close>

definition swept_db :: invdb where
  "swept_db = fst (BatchExpireReservations 1000 [] 10 demo_db)"

definition swept_world :: world where
  "swept_world = demo_world\<lparr>wEnv := [], wInv := swept_db\<rparr>"

lemma swept_consistent: "consistent swept_db"
  unfolding swept_db_def by (rule step_consistent [OF step_expire demo_consistent])

lemma late_payment_exact_witness:
  "status_at ''A'' (wTable (fst (ConfirmOrder ''A''
      ((fst (ExpireOrder ''A'' (demo_world\<lparr>wEnv := []\<rparr>)))\<lparr>wNow := 99\<rparr>)))) = Some OrderStatusRefundRequired \<and>
   status_at ''A'' (wTable (fst (ConfirmOrder ''A''
      ((fst (ExpireOrder ''A'' swept_world))\<lparr>wNow := 99\<rparr>)))) = Some OrderStatusCompleted"
proof -
  let ?w = "demo_world\<lparr>wEnv := []\<rparr>" and ?later = "\<lambda>v :: world. v\<lparr>wNow := 99\<rparr>"
  have rows: "orderRows demo_db ''A'' \<noteq> []" "list_all confirmable (orderRows demo_db ''A'')"
    "\<not> list_all (\<lambda>r. rStatus r = ReservationStatusExpired) (orderRows demo_db ''A'')"
    "orderRows swept_db ''A'' \<noteq> []" "list_all confirmable (orderRows swept_db ''A'')"
    "list_all (\<lambda>r. rStatus r = ReservationStatusExpired) (orderRows swept_db ''A'')"
    "orderRows (fst (rpc_Release ''A'' swept_db)) ''A'' = orderRows swept_db ''A''"
    "snd (rpc_Confirm ''A'' (fst (rpc_Release ''A'' swept_db))) = Inr ()"
    by code_simp+
  have w: "consistent (wInv ?w)" "wEnv ?w = []" "order_at ''A'' (wTable ?w) = Some demo_order"
    "orderRows (wInv ?w) ''A'' \<noteq> []" "list_all confirmable (orderRows (wInv ?w) ''A'')"
    and s: "consistent (wInv swept_world)" "wEnv swept_world = []"
    "order_at ''A'' (wTable swept_world) = Some demo_order"
    "orderRows (wInv swept_world) ''A'' \<noteq> []" "list_all confirmable (orderRows (wInv swept_world) ''A'')"
    using demo_consistent swept_consistent demo_order_at rows by (simp_all add: demo_world_def swept_world_def)
  have code: "''A'' \<noteq> ''''" by simp
  note lw = calm_expiry_leaves [OF w(1-3) demo_order_fields(2) code demo_order_fields(3) w(5)]
  note ls = calm_expiry_leaves [OF s(1-3) demo_order_fields(2) code demo_order_fields(3) s(5)]
  have db: "wInv (fst (ExpireOrder ''A'' swept_world)) = fst (rpc_Release ''A'' swept_db)"
    using ls(3) by (simp add: swept_world_def)
  have "sale_fits (wInv (fst (ExpireOrder ''A'' swept_world))) ''A''"
    using rpc_Confirm_held(2) [OF ls(2) _ _ code] rows by (metis db sum.distinct(1) snd_conv)
  moreover have "consistent (wInv (?later v)) = consistent (wInv v)" "wEnv (?later v) = wEnv v" for v :: world by simp_all
  ultimately show ?thesis
    using late_payment_exact [OF w(1-3) demo_order_fields(1,2) code demo_order_fields(3) w(4,5) surjective_pairing,
        of "?later (fst (ExpireOrder ''A'' ?w))", OF _ _ _ _ surjective_pairing] lw rows
      late_payment_exact [OF s(1-3) demo_order_fields(1,2) code demo_order_fields(3) s(4,5) surjective_pairing,
        of "?later (fst (ExpireOrder ''A'' swept_world))", OF _ _ _ _ surjective_pairing] ls
    by (simp add: demo_world_def swept_world_def)
qed

end
